(* ===== verification/Nanvix_Prelude.thy ===== *)
theory Nanvix_Prelude
  imports Main "HOL-Library.Word" "HOL-Library.Multiset" "HOL-Library.Code_Target_Numeral"
begin

text \<open>
  Shared vocabulary of the development: the machine integers of the 32-bit x86 target, the result
  of a Rust operation, the rule collections the component theories feed, and the generic lemmas on
  lists, bytes and results that several components use.

  A Rust function that returns \<open>Result<T, Error>\<close> and may panic becomes a function into
  \<open>res\<close>: \<open>Ok v\<close> and \<open>Err e\<close> are the two values of the Rust type, and \<open>Panic\<close> is every way the
  code can abort (an index out of range, \<open>expect\<close> on \<open>None\<close>, \<open>unreachable!\<close>, a failed \<open>assert!\<close>).
  A method taking \<open>&mut self\<close> returns the pair of its result and the new state.
\<close>

unbundle bit_operations_syntax

named_theorems invs \<open>facts that an operation keeps the invariant of its component\<close>
named_theorems refines \<open>facts that an operation acts on the abstract view as specified\<close>
named_theorems defs \<open>definitions of thin wrappers, unfolded in component proofs\<close>

type_synonym u8 = "8 word"
type_synonym usize = nat
type_synonym addr = nat

section \<open>Machine integers\<close>

text \<open>
  \<open>usize\<close> values are natural numbers; the bound of the 32-bit target is written out where the
  source checks it, and shown where it does not.
\<close>

abbreviation (input) USIZE_MAX :: nat where "USIZE_MAX \<equiv> 4294967295"
abbreviation (input) U32_MAX :: nat where "U32_MAX \<equiv> 4294967295"
abbreviation (input) I32_MAX :: nat where "I32_MAX \<equiv> 2147483647"
abbreviation (input) ISIZE_MAX :: nat where "ISIZE_MAX \<equiv> 2147483647"
abbreviation (input) U8_MAX :: nat where "U8_MAX \<equiv> 255"

definition checked_add :: "nat \<Rightarrow> nat \<Rightarrow> nat option" where
  "checked_add a b = (if a + b \<le> USIZE_MAX then Some (a + b) else None)"

definition checked_mul :: "nat \<Rightarrow> nat \<Rightarrow> nat option" where
  "checked_mul a b = (if a * b \<le> USIZE_MAX then Some (a * b) else None)"

definition wrapping_add :: "nat \<Rightarrow> nat \<Rightarrow> nat" where
  "wrapping_add a b = (a + b) mod (USIZE_MAX + 1)"

lemma wrapping_add_less_iff:
  assumes "a \<le> USIZE_MAX" "b \<le> USIZE_MAX"
  shows "wrapping_add a b < a \<longleftrightarrow> USIZE_MAX < a + b"
proof (cases "a + b \<le> USIZE_MAX")
  case True
  then show ?thesis by (simp add: wrapping_add_def)
next
  case False
  then have "wrapping_add a b = a + b - (USIZE_MAX + 1)"
    using assms by (simp add: wrapping_add_def mod_if)
  then show ?thesis using False assms by simp
qed

section \<open>Results\<close>

datatype ('e, 'a) res = Ok 'a | Err 'e | Panic

fun bind_res :: "('e, 'a) res \<Rightarrow> ('a \<Rightarrow> ('e, 'b) res) \<Rightarrow> ('e, 'b) res" where
  "bind_res (Ok a) f = f a"
| "bind_res (Err e) f = Err e"
| "bind_res Panic f = Panic"

fun is_ok :: "('e, 'a) res \<Rightarrow> bool" where
  "is_ok (Ok a) = True"
| "is_ok r = False"

fun is_panic :: "('e, 'a) res \<Rightarrow> bool" where
  "is_panic Panic = True"
| "is_panic r = False"

lemma bind_res_eq_Ok_iff [simp]:
  "bind_res r f = Ok b \<longleftrightarrow> (\<exists>a. r = Ok a \<and> f a = Ok b)"
  by (cases r) auto

lemma bind_res_eq_Panic_iff:
  "bind_res r f = Panic \<longleftrightarrow> r = Panic \<or> (\<exists>a. r = Ok a \<and> f a = Panic)"
  by (cases r) auto

section \<open>Indexing\<close>

text \<open>Indexing a slice panics out of range.\<close>

definition index_get :: "'a list \<Rightarrow> nat \<Rightarrow> ('e, 'a) res" where
  "index_get xs i = (if i < length xs then Ok (xs ! i) else Panic)"

definition index_set :: "'a list \<Rightarrow> nat \<Rightarrow> 'a \<Rightarrow> ('e, 'a list) res" where
  "index_set xs i v = (if i < length xs then Ok (xs[i := v]) else Panic)"

lemma index_get_in [simp]: "i < length xs \<Longrightarrow> index_get xs i = Ok (xs ! i)"
  by (simp add: index_get_def)

lemma index_set_in [simp]: "i < length xs \<Longrightarrow> index_set xs i v = Ok (xs[i := v])"
  by (simp add: index_set_def)

section \<open>Bits of a byte\<close>

text \<open>The byte \<open>1 << n\<close>.\<close>

definition one_shl :: "nat \<Rightarrow> u8" where
  "one_shl n = push_bit n 1"

lemma byte_mask_test: "(w AND one_shl n \<noteq> 0) = bit w n"
  unfolding one_shl_def by (simp only: bit_iff_and_push_bit_not_eq_0)

lemma bit_or_mask: "bit (w OR one_shl n) m \<longleftrightarrow> bit w m \<or> (m = n \<and> n < 8)"
  by (auto simp: bit_simps one_shl_def)

lemma bit_and_not_mask: "bit (w AND NOT (one_shl n)) m \<longleftrightarrow> bit w m \<and> m \<noteq> n"
  by (auto simp: bit_simps one_shl_def dest: bit_imp_le_length)

lemma byte_full: "n < 8 \<Longrightarrow> bit (255 :: u8) n"
  using bit_mask_iff [where 'a = u8, of 8 n] by (simp add: mask_eq_exp_minus_1)

end
