(* ===== verification/Errors.thy ===== *)
theory Errors
  imports Nanvix_Prelude
begin

text \<open>
  \<open>src/src/libs/error/src/lib.rs\<close>: the error codes of the system, their numeric values
  (\<open>src/src/libs/sysapi/src/errno.rs\<close>), and the conversions between the two. \<open>ErrorCode\<close> is a
  \<open>repr(i32)\<close> enumeration, so a code is its discriminant; the variants are named constants, and
  \<open>error_variants\<close> lists them in the order of the source.
\<close>

section \<open>Error codes\<close>

datatype error_code = ErrorCode (discriminant: int)

abbreviation (input) EPERM :: int where "EPERM \<equiv> 1"
abbreviation (input) ENOENT :: int where "ENOENT \<equiv> 2"
abbreviation (input) ESRCH :: int where "ESRCH \<equiv> 3"
abbreviation (input) EINTR :: int where "EINTR \<equiv> 4"
abbreviation (input) EIO :: int where "EIO \<equiv> 5"
abbreviation (input) ENXIO :: int where "ENXIO \<equiv> 6"
abbreviation (input) E2BIG :: int where "E2BIG \<equiv> 7"
abbreviation (input) ENOEXEC :: int where "ENOEXEC \<equiv> 8"
abbreviation (input) EBADF :: int where "EBADF \<equiv> 9"
abbreviation (input) ECHILD :: int where "ECHILD \<equiv> 10"
abbreviation (input) EAGAIN :: int where "EAGAIN \<equiv> 11"
abbreviation (input) ENOMEM :: int where "ENOMEM \<equiv> 12"
abbreviation (input) EACCES :: int where "EACCES \<equiv> 13"
abbreviation (input) EFAULT :: int where "EFAULT \<equiv> 14"
abbreviation (input) ENOTBLK :: int where "ENOTBLK \<equiv> 15"
abbreviation (input) EBUSY :: int where "EBUSY \<equiv> 16"
abbreviation (input) EEXIST :: int where "EEXIST \<equiv> 17"
abbreviation (input) EXDEV :: int where "EXDEV \<equiv> 18"
abbreviation (input) ENODEV :: int where "ENODEV \<equiv> 19"
abbreviation (input) ENOTDIR :: int where "ENOTDIR \<equiv> 20"
abbreviation (input) EISDIR :: int where "EISDIR \<equiv> 21"
abbreviation (input) EINVAL :: int where "EINVAL \<equiv> 22"
abbreviation (input) ENFILE :: int where "ENFILE \<equiv> 23"
abbreviation (input) EMFILE :: int where "EMFILE \<equiv> 24"
abbreviation (input) ENOTTY :: int where "ENOTTY \<equiv> 25"
abbreviation (input) ETXTBSY :: int where "ETXTBSY \<equiv> 26"
abbreviation (input) EFBIG :: int where "EFBIG \<equiv> 27"
abbreviation (input) ENOSPC :: int where "ENOSPC \<equiv> 28"
abbreviation (input) ESPIPE :: int where "ESPIPE \<equiv> 29"
abbreviation (input) EROFS :: int where "EROFS \<equiv> 30"
abbreviation (input) EMLINK :: int where "EMLINK \<equiv> 31"
abbreviation (input) EPIPE :: int where "EPIPE \<equiv> 32"
abbreviation (input) EDOM :: int where "EDOM \<equiv> 33"
abbreviation (input) ERANGE :: int where "ERANGE \<equiv> 34"
abbreviation (input) ENOMSG :: int where "ENOMSG \<equiv> 35"
abbreviation (input) EIDRM :: int where "EIDRM \<equiv> 36"
abbreviation (input) ECHRNG :: int where "ECHRNG \<equiv> 37"
abbreviation (input) EL2NSYNC :: int where "EL2NSYNC \<equiv> 38"
abbreviation (input) EL3HLT :: int where "EL3HLT \<equiv> 39"
abbreviation (input) EL3RST :: int where "EL3RST \<equiv> 40"
abbreviation (input) ELNRNG :: int where "ELNRNG \<equiv> 41"
abbreviation (input) EUNATCH :: int where "EUNATCH \<equiv> 42"
abbreviation (input) ENOCSI :: int where "ENOCSI \<equiv> 43"
abbreviation (input) EL2HLT :: int where "EL2HLT \<equiv> 44"
abbreviation (input) EDEADLK :: int where "EDEADLK \<equiv> 45"
abbreviation (input) ENOLCK :: int where "ENOLCK \<equiv> 46"
abbreviation (input) EBADE :: int where "EBADE \<equiv> 50"
abbreviation (input) EBADR :: int where "EBADR \<equiv> 51"
abbreviation (input) EXFULL :: int where "EXFULL \<equiv> 52"
abbreviation (input) ENOANO :: int where "ENOANO \<equiv> 53"
abbreviation (input) EBADRQC :: int where "EBADRQC \<equiv> 54"
abbreviation (input) EBADSLT :: int where "EBADSLT \<equiv> 55"
abbreviation (input) EDEADLOCK :: int where "EDEADLOCK \<equiv> 56"
abbreviation (input) EBFONT :: int where "EBFONT \<equiv> 57"
abbreviation (input) ENOSTR :: int where "ENOSTR \<equiv> 60"
abbreviation (input) ENODATA :: int where "ENODATA \<equiv> 61"
abbreviation (input) ETIME :: int where "ETIME \<equiv> 62"
abbreviation (input) ENOSR :: int where "ENOSR \<equiv> 63"
abbreviation (input) ENONET :: int where "ENONET \<equiv> 64"
abbreviation (input) ENOPKG :: int where "ENOPKG \<equiv> 65"
abbreviation (input) EREMOTE :: int where "EREMOTE \<equiv> 66"
abbreviation (input) ENOLINK :: int where "ENOLINK \<equiv> 67"
abbreviation (input) EADV :: int where "EADV \<equiv> 68"
abbreviation (input) ESRMNT :: int where "ESRMNT \<equiv> 69"
abbreviation (input) ECOMM :: int where "ECOMM \<equiv> 70"
abbreviation (input) EPROTO :: int where "EPROTO \<equiv> 71"
abbreviation (input) EMULTIHOP :: int where "EMULTIHOP \<equiv> 74"
abbreviation (input) ELBIN :: int where "ELBIN \<equiv> 75"
abbreviation (input) EDOTDOT :: int where "EDOTDOT \<equiv> 76"
abbreviation (input) EBADMSG :: int where "EBADMSG \<equiv> 77"
abbreviation (input) EFTYPE :: int where "EFTYPE \<equiv> 79"
abbreviation (input) ENOTUNIQ :: int where "ENOTUNIQ \<equiv> 80"
abbreviation (input) EBADFD :: int where "EBADFD \<equiv> 81"
abbreviation (input) EREMCHG :: int where "EREMCHG \<equiv> 82"
abbreviation (input) ELIBACC :: int where "ELIBACC \<equiv> 83"
abbreviation (input) ELIBBAD :: int where "ELIBBAD \<equiv> 84"
abbreviation (input) ELIBSCN :: int where "ELIBSCN \<equiv> 85"
abbreviation (input) ELIBMAX :: int where "ELIBMAX \<equiv> 86"
abbreviation (input) ELIBEXEC :: int where "ELIBEXEC \<equiv> 87"
abbreviation (input) ENOSYS :: int where "ENOSYS \<equiv> 88"
abbreviation (input) ENOTEMPTY :: int where "ENOTEMPTY \<equiv> 90"
abbreviation (input) ENAMETOOLONG :: int where "ENAMETOOLONG \<equiv> 91"
abbreviation (input) ELOOP :: int where "ELOOP \<equiv> 92"
abbreviation (input) EOPNOTSUPP :: int where "EOPNOTSUPP \<equiv> 95"
abbreviation (input) EPFNOSUPPORT :: int where "EPFNOSUPPORT \<equiv> 96"
abbreviation (input) ECONNRESET :: int where "ECONNRESET \<equiv> 104"
abbreviation (input) ENOBUFS :: int where "ENOBUFS \<equiv> 105"
abbreviation (input) EAFNOSUPPORT :: int where "EAFNOSUPPORT \<equiv> 106"
abbreviation (input) EPROTOTYPE :: int where "EPROTOTYPE \<equiv> 107"
abbreviation (input) ENOTSOCK :: int where "ENOTSOCK \<equiv> 108"
abbreviation (input) ENOPROTOOPT :: int where "ENOPROTOOPT \<equiv> 109"
abbreviation (input) ESHUTDOWN :: int where "ESHUTDOWN \<equiv> 110"
abbreviation (input) ECONNREFUSED :: int where "ECONNREFUSED \<equiv> 111"
abbreviation (input) EADDRINUSE :: int where "EADDRINUSE \<equiv> 112"
abbreviation (input) ECONNABORTED :: int where "ECONNABORTED \<equiv> 113"
abbreviation (input) ENETUNREACH :: int where "ENETUNREACH \<equiv> 114"
abbreviation (input) ENETDOWN :: int where "ENETDOWN \<equiv> 115"
abbreviation (input) ETIMEDOUT :: int where "ETIMEDOUT \<equiv> 116"
abbreviation (input) EHOSTDOWN :: int where "EHOSTDOWN \<equiv> 117"
abbreviation (input) EHOSTUNREACH :: int where "EHOSTUNREACH \<equiv> 118"
abbreviation (input) EINPROGRESS :: int where "EINPROGRESS \<equiv> 119"
abbreviation (input) EALREADY :: int where "EALREADY \<equiv> 120"
abbreviation (input) EDESTADDRREQ :: int where "EDESTADDRREQ \<equiv> 121"
abbreviation (input) EMSGSIZE :: int where "EMSGSIZE \<equiv> 122"
abbreviation (input) EPROTONOSUPPORT :: int where "EPROTONOSUPPORT \<equiv> 123"
abbreviation (input) ESOCKTNOSUPPORT :: int where "ESOCKTNOSUPPORT \<equiv> 124"
abbreviation (input) EADDRNOTAVAIL :: int where "EADDRNOTAVAIL \<equiv> 125"
abbreviation (input) ENETRESET :: int where "ENETRESET \<equiv> 126"
abbreviation (input) EISCONN :: int where "EISCONN \<equiv> 127"
abbreviation (input) ENOTCONN :: int where "ENOTCONN \<equiv> 128"
abbreviation (input) ETOOMANYREFS :: int where "ETOOMANYREFS \<equiv> 129"
abbreviation (input) EUSERS :: int where "EUSERS \<equiv> 131"
abbreviation (input) EDQUOT :: int where "EDQUOT \<equiv> 132"
abbreviation (input) ESTALE :: int where "ESTALE \<equiv> 133"
abbreviation (input) ENOTSUP :: int where "ENOTSUP \<equiv> 134"
abbreviation (input) ENOMEDIUM :: int where "ENOMEDIUM \<equiv> 135"
abbreviation (input) EILSEQ :: int where "EILSEQ \<equiv> 138"
abbreviation (input) EOVERFLOW :: int where "EOVERFLOW \<equiv> 139"
abbreviation (input) ECANCELED :: int where "ECANCELED \<equiv> 140"
abbreviation (input) ENOTRECOVERABLE :: int where "ENOTRECOVERABLE \<equiv> 141"
abbreviation (input) EOWNERDEAD :: int where "EOWNERDEAD \<equiv> 142"
abbreviation (input) ESTRPIPE :: int where "ESTRPIPE \<equiv> 143"

text \<open>The constants of \<open>errno.rs\<close>, in its order.\<close>

definition errno_constants :: "int list" where
  "errno_constants = [
    EPERM, ENOENT, ESRCH, EINTR, EIO, ENXIO, E2BIG, ENOEXEC, EBADF, ECHILD, EAGAIN, ENOMEM, EACCES,
    EFAULT, ENOTBLK, EBUSY, EEXIST, EXDEV, ENODEV, ENOTDIR, EISDIR, EINVAL, ENFILE, EMFILE, ENOTTY,
    ETXTBSY, EFBIG, ENOSPC, ESPIPE, EROFS, EMLINK, EPIPE, EDOM, ERANGE, ENOMSG, EIDRM, ECHRNG,
    EL2NSYNC, EL3HLT, EL3RST, ELNRNG, EUNATCH, ENOCSI, EL2HLT, EDEADLK, ENOLCK, EBADE, EBADR,
    EXFULL, ENOANO, EBADRQC, EBADSLT, EDEADLOCK, EBFONT, ENOSTR, ENODATA, ETIME, ENOSR, ENONET,
    ENOPKG, EREMOTE, ENOLINK, EADV, ESRMNT, ECOMM, EPROTO, EMULTIHOP, ELBIN, EDOTDOT, EBADMSG,
    EFTYPE, ENOTUNIQ, EBADFD, EREMCHG, ELIBACC, ELIBBAD, ELIBSCN, ELIBMAX, ELIBEXEC, ENOSYS,
    ENOTEMPTY, ENAMETOOLONG, ELOOP, EOPNOTSUPP, EPFNOSUPPORT, ECONNRESET, ENOBUFS, EAFNOSUPPORT,
    EPROTOTYPE, ENOTSOCK, ENOPROTOOPT, ESHUTDOWN, ECONNREFUSED, EADDRINUSE, ECONNABORTED,
    ENETUNREACH, ENETDOWN, ETIMEDOUT, EHOSTDOWN, EHOSTUNREACH, EINPROGRESS, EALREADY, EDESTADDRREQ,
    EMSGSIZE, EPROTONOSUPPORT, ESOCKTNOSUPPORT, EADDRNOTAVAIL, ENETRESET, EISCONN, ENOTCONN,
    ETOOMANYREFS, EUSERS, EDQUOT, ESTALE, ENOTSUP, ENOMEDIUM, EILSEQ, EOVERFLOW, ECANCELED,
    ENOTRECOVERABLE, EOWNERDEAD, ESTRPIPE]"

abbreviation OperationNotPermitted :: error_code where "OperationNotPermitted \<equiv> ErrorCode EPERM"
abbreviation NoSuchEntry :: error_code where "NoSuchEntry \<equiv> ErrorCode ENOENT"
abbreviation NoSuchProcess :: error_code where "NoSuchProcess \<equiv> ErrorCode ESRCH"
abbreviation Interrupted :: error_code where "Interrupted \<equiv> ErrorCode EINTR"
abbreviation IoErr :: error_code where "IoErr \<equiv> ErrorCode EIO"
abbreviation NoSuchDeviceOrAddress :: error_code where "NoSuchDeviceOrAddress \<equiv> ErrorCode ENXIO"
abbreviation TooBig :: error_code where "TooBig \<equiv> ErrorCode E2BIG"
abbreviation InvalidExecutableFormat :: error_code where "InvalidExecutableFormat \<equiv> ErrorCode ENOEXEC"
abbreviation BadFile :: error_code where "BadFile \<equiv> ErrorCode EBADF"
abbreviation NoChildProcess :: error_code where "NoChildProcess \<equiv> ErrorCode ECHILD"
abbreviation TryAgain :: error_code where "TryAgain \<equiv> ErrorCode EAGAIN"
abbreviation OutOfMemory :: error_code where "OutOfMemory \<equiv> ErrorCode ENOMEM"
abbreviation PermissionDenied :: error_code where "PermissionDenied \<equiv> ErrorCode EACCES"
abbreviation BadAddress :: error_code where "BadAddress \<equiv> ErrorCode EFAULT"
abbreviation NotBlockDevice :: error_code where "NotBlockDevice \<equiv> ErrorCode ENOTBLK"
abbreviation ResourceBusy :: error_code where "ResourceBusy \<equiv> ErrorCode EBUSY"
abbreviation EntryExists :: error_code where "EntryExists \<equiv> ErrorCode EEXIST"
abbreviation CrossDeviceLink :: error_code where "CrossDeviceLink \<equiv> ErrorCode EXDEV"
abbreviation NoSuchDevice :: error_code where "NoSuchDevice \<equiv> ErrorCode ENODEV"
abbreviation InvalidDirectory :: error_code where "InvalidDirectory \<equiv> ErrorCode ENOTDIR"
abbreviation IsDirectory :: error_code where "IsDirectory \<equiv> ErrorCode EISDIR"
abbreviation InvalidArgument :: error_code where "InvalidArgument \<equiv> ErrorCode EINVAL"
abbreviation FileTableOVerflow :: error_code where "FileTableOVerflow \<equiv> ErrorCode ENFILE"
abbreviation TooManyOpenFiles :: error_code where "TooManyOpenFiles \<equiv> ErrorCode EMFILE"
abbreviation NotTerminal :: error_code where "NotTerminal \<equiv> ErrorCode ENOTTY"
abbreviation TextFileBusy :: error_code where "TextFileBusy \<equiv> ErrorCode ETXTBSY"
abbreviation FileTooLarge :: error_code where "FileTooLarge \<equiv> ErrorCode EFBIG"
abbreviation NoSpaceOnDevice :: error_code where "NoSpaceOnDevice \<equiv> ErrorCode ENOSPC"
abbreviation IllegalSeek :: error_code where "IllegalSeek \<equiv> ErrorCode ESPIPE"
abbreviation ReadOnlyFileSystem :: error_code where "ReadOnlyFileSystem \<equiv> ErrorCode EROFS"
abbreviation TooManyLinks :: error_code where "TooManyLinks \<equiv> ErrorCode EMLINK"
abbreviation BrokenPipe :: error_code where "BrokenPipe \<equiv> ErrorCode EPIPE"
abbreviation MathArgDomainErr :: error_code where "MathArgDomainErr \<equiv> ErrorCode EDOM"
abbreviation ValueOutOfRange :: error_code where "ValueOutOfRange \<equiv> ErrorCode ERANGE"
abbreviation NoMessageAvailable :: error_code where "NoMessageAvailable \<equiv> ErrorCode ENOMSG"
abbreviation IdentifierRemoved :: error_code where "IdentifierRemoved \<equiv> ErrorCode EIDRM"
abbreviation OutOfRangeChannel :: error_code where "OutOfRangeChannel \<equiv> ErrorCode ECHRNG"
abbreviation Level2NotSynchronized :: error_code where "Level2NotSynchronized \<equiv> ErrorCode EL2NSYNC"
abbreviation Level3Halted :: error_code where "Level3Halted \<equiv> ErrorCode EL3HLT"
abbreviation Level3Reset :: error_code where "Level3Reset \<equiv> ErrorCode EL3RST"
abbreviation InvalidLinkNumber :: error_code where "InvalidLinkNumber \<equiv> ErrorCode ELNRNG"
abbreviation InvalidProtocolDriver :: error_code where "InvalidProtocolDriver \<equiv> ErrorCode EUNATCH"
abbreviation NoStructAvailable :: error_code where "NoStructAvailable \<equiv> ErrorCode ENOCSI"
abbreviation Level2Halted :: error_code where "Level2Halted \<equiv> ErrorCode EL2HLT"
abbreviation Deadlock :: error_code where "Deadlock \<equiv> ErrorCode EDEADLK"
abbreviation LockNotAvailable :: error_code where "LockNotAvailable \<equiv> ErrorCode ENOLCK"
abbreviation InvalidExchange :: error_code where "InvalidExchange \<equiv> ErrorCode EBADE"
abbreviation InvalidRequestDescriptor :: error_code where "InvalidRequestDescriptor \<equiv> ErrorCode EBADR"
abbreviation ExchangeFull :: error_code where "ExchangeFull \<equiv> ErrorCode EXFULL"
abbreviation InvalidAnode :: error_code where "InvalidAnode \<equiv> ErrorCode ENOANO"
abbreviation InvalidRequestCode :: error_code where "InvalidRequestCode \<equiv> ErrorCode EBADRQC"
abbreviation InvalidSlot :: error_code where "InvalidSlot \<equiv> ErrorCode EBADSLT"
abbreviation DeadlockWouldOccur :: error_code where "DeadlockWouldOccur \<equiv> ErrorCode EDEADLOCK"
abbreviation BadFontFormat :: error_code where "BadFontFormat \<equiv> ErrorCode EBFONT"
abbreviation NoStreamDeviceAvailable :: error_code where "NoStreamDeviceAvailable \<equiv> ErrorCode ENOSTR"
abbreviation NoDataAvailable :: error_code where "NoDataAvailable \<equiv> ErrorCode ENODATA"
abbreviation TimerExpired :: error_code where "TimerExpired \<equiv> ErrorCode ETIME"
abbreviation NoStreamResources :: error_code where "NoStreamResources \<equiv> ErrorCode ENOSR"
abbreviation NoNetwork :: error_code where "NoNetwork \<equiv> ErrorCode ENONET"
abbreviation MissingPackage :: error_code where "MissingPackage \<equiv> ErrorCode ENOPKG"
abbreviation RemoteObject :: error_code where "RemoteObject \<equiv> ErrorCode EREMOTE"
abbreviation NoLink :: error_code where "NoLink \<equiv> ErrorCode ENOLINK"
abbreviation AdvertiseErr :: error_code where "AdvertiseErr \<equiv> ErrorCode EADV"
abbreviation MountErr :: error_code where "MountErr \<equiv> ErrorCode ESRMNT"
abbreviation CommunicationErr :: error_code where "CommunicationErr \<equiv> ErrorCode ECOMM"
abbreviation ProtocolErr :: error_code where "ProtocolErr \<equiv> ErrorCode EPROTO"
abbreviation MultipleHopAttemped :: error_code where "MultipleHopAttemped \<equiv> ErrorCode EMULTIHOP"
abbreviation InodeRemote :: error_code where "InodeRemote \<equiv> ErrorCode ELBIN"
abbreviation RfsErr :: error_code where "RfsErr \<equiv> ErrorCode EDOTDOT"
abbreviation InvalidMessage :: error_code where "InvalidMessage \<equiv> ErrorCode EBADMSG"
abbreviation InvalidFileType :: error_code where "InvalidFileType \<equiv> ErrorCode EFTYPE"
abbreviation NonUniqueName :: error_code where "NonUniqueName \<equiv> ErrorCode ENOTUNIQ"
abbreviation InvalidFileDescriptor :: error_code where "InvalidFileDescriptor \<equiv> ErrorCode EBADFD"
abbreviation RemoteAddressChanged :: error_code where "RemoteAddressChanged \<equiv> ErrorCode EREMCHG"
abbreviation LibraryAccessErr :: error_code where "LibraryAccessErr \<equiv> ErrorCode ELIBACC"
abbreviation InvalidLibraryAccess :: error_code where "InvalidLibraryAccess \<equiv> ErrorCode ELIBBAD"
abbreviation CorruptedLibSection :: error_code where "CorruptedLibSection \<equiv> ErrorCode ELIBSCN"
abbreviation ExcessiveLibraryLinkCount :: error_code where "ExcessiveLibraryLinkCount \<equiv> ErrorCode ELIBMAX"
abbreviation InvalidExecSharedLibrary :: error_code where "InvalidExecSharedLibrary \<equiv> ErrorCode ELIBEXEC"
abbreviation InvalidSysCall :: error_code where "InvalidSysCall \<equiv> ErrorCode ENOSYS"
abbreviation DirectoryNotEmpty :: error_code where "DirectoryNotEmpty \<equiv> ErrorCode ENOTEMPTY"
abbreviation NameTooLong :: error_code where "NameTooLong \<equiv> ErrorCode ENAMETOOLONG"
abbreviation SymbolicLinkLoop :: error_code where "SymbolicLinkLoop \<equiv> ErrorCode ELOOP"
abbreviation OperationNotSupportedOnSocket :: error_code where "OperationNotSupportedOnSocket \<equiv> ErrorCode EOPNOTSUPP"
abbreviation ProtocolFamilyNotSupported :: error_code where "ProtocolFamilyNotSupported \<equiv> ErrorCode EPFNOSUPPORT"
abbreviation ConnectionReset :: error_code where "ConnectionReset \<equiv> ErrorCode ECONNRESET"
abbreviation NoBufferSpace :: error_code where "NoBufferSpace \<equiv> ErrorCode ENOBUFS"
abbreviation AddressFamilyNotSupported :: error_code where "AddressFamilyNotSupported \<equiv> ErrorCode EAFNOSUPPORT"
abbreviation BadProtocolType :: error_code where "BadProtocolType \<equiv> ErrorCode EPROTOTYPE"
abbreviation NotSocketFile :: error_code where "NotSocketFile \<equiv> ErrorCode ENOTSOCK"
abbreviation ProtocolOptionNotAvailable :: error_code where "ProtocolOptionNotAvailable \<equiv> ErrorCode ENOPROTOOPT"
abbreviation TransportEndpointShutdown :: error_code where "TransportEndpointShutdown \<equiv> ErrorCode ESHUTDOWN"
abbreviation ConnectionRefused :: error_code where "ConnectionRefused \<equiv> ErrorCode ECONNREFUSED"
abbreviation AddressInUse :: error_code where "AddressInUse \<equiv> ErrorCode EADDRINUSE"
abbreviation ConnectionAborted :: error_code where "ConnectionAborted \<equiv> ErrorCode ECONNABORTED"
abbreviation NetworkUnreachable :: error_code where "NetworkUnreachable \<equiv> ErrorCode ENETUNREACH"
abbreviation NetworkDown :: error_code where "NetworkDown \<equiv> ErrorCode ENETDOWN"
abbreviation OperationTimedOut :: error_code where "OperationTimedOut \<equiv> ErrorCode ETIMEDOUT"
abbreviation HostDown :: error_code where "HostDown \<equiv> ErrorCode EHOSTDOWN"
abbreviation HostUnreachable :: error_code where "HostUnreachable \<equiv> ErrorCode EHOSTUNREACH"
abbreviation OperationInProgress :: error_code where "OperationInProgress \<equiv> ErrorCode EINPROGRESS"
abbreviation OperationAlreadyInProgress :: error_code where "OperationAlreadyInProgress \<equiv> ErrorCode EALREADY"
abbreviation DestinationAddressRequired :: error_code where "DestinationAddressRequired \<equiv> ErrorCode EDESTADDRREQ"
abbreviation MessageTooLong :: error_code where "MessageTooLong \<equiv> ErrorCode EMSGSIZE"
abbreviation ProtocolNotSupported :: error_code where "ProtocolNotSupported \<equiv> ErrorCode EPROTONOSUPPORT"
abbreviation SocketTypeNotSupported :: error_code where "SocketTypeNotSupported \<equiv> ErrorCode ESOCKTNOSUPPORT"
abbreviation AddressNotAvailable :: error_code where "AddressNotAvailable \<equiv> ErrorCode EADDRNOTAVAIL"
abbreviation NetworkReset :: error_code where "NetworkReset \<equiv> ErrorCode ENETRESET"
abbreviation TransportEndpointConnected :: error_code where "TransportEndpointConnected \<equiv> ErrorCode EISCONN"
abbreviation TransportEndpointNotConnected :: error_code where "TransportEndpointNotConnected \<equiv> ErrorCode ENOTCONN"
abbreviation TooManyReferences :: error_code where "TooManyReferences \<equiv> ErrorCode ETOOMANYREFS"
abbreviation TooManyUsers :: error_code where "TooManyUsers \<equiv> ErrorCode EUSERS"
abbreviation QuotaExceeded :: error_code where "QuotaExceeded \<equiv> ErrorCode EDQUOT"
abbreviation StaleHandle :: error_code where "StaleHandle \<equiv> ErrorCode ESTALE"
abbreviation OperationNotSupported :: error_code where "OperationNotSupported \<equiv> ErrorCode ENOTSUP"
abbreviation MediumNotFound :: error_code where "MediumNotFound \<equiv> ErrorCode ENOMEDIUM"
abbreviation IllegalByteSequence :: error_code where "IllegalByteSequence \<equiv> ErrorCode EILSEQ"
abbreviation ValueOverflow :: error_code where "ValueOverflow \<equiv> ErrorCode EOVERFLOW"
abbreviation OperationCanceled :: error_code where "OperationCanceled \<equiv> ErrorCode ECANCELED"
abbreviation UnrecoverableState :: error_code where "UnrecoverableState \<equiv> ErrorCode ENOTRECOVERABLE"
abbreviation DeadOwner :: error_code where "DeadOwner \<equiv> ErrorCode EOWNERDEAD"
abbreviation StreamPipeErr :: error_code where "StreamPipeErr \<equiv> ErrorCode ESTRPIPE"

text \<open>The arms of \<open>TryFrom<i32>\<close>, in the order of the source.\<close>

definition error_arms :: "(int \<times> error_code) list" where
  "error_arms =
    [(EPERM, OperationNotPermitted),
     (ENOENT, NoSuchEntry),
     (ESRCH, NoSuchProcess),
     (EINTR, Interrupted),
     (EIO, IoErr),
     (ENXIO, NoSuchDeviceOrAddress),
     (E2BIG, TooBig),
     (ENOEXEC, InvalidExecutableFormat),
     (EBADF, BadFile),
     (ECHILD, NoChildProcess),
     (EAGAIN, TryAgain),
     (ENOMEM, OutOfMemory),
     (EACCES, PermissionDenied),
     (EFAULT, BadAddress),
     (ENOTBLK, NotBlockDevice),
     (EBUSY, ResourceBusy),
     (EEXIST, EntryExists),
     (EXDEV, CrossDeviceLink),
     (ENODEV, NoSuchDevice),
     (ENOTDIR, InvalidDirectory),
     (EISDIR, IsDirectory),
     (EINVAL, InvalidArgument),
     (ENFILE, FileTableOVerflow),
     (EMFILE, TooManyOpenFiles),
     (ENOTTY, NotTerminal),
     (ETXTBSY, TextFileBusy),
     (EFBIG, FileTooLarge),
     (ENOSPC, NoSpaceOnDevice),
     (ESPIPE, IllegalSeek),
     (EROFS, ReadOnlyFileSystem),
     (EMLINK, TooManyLinks),
     (EPIPE, BrokenPipe),
     (EDOM, MathArgDomainErr),
     (ERANGE, ValueOutOfRange),
     (ENOMSG, NoMessageAvailable),
     (EIDRM, IdentifierRemoved),
     (ECHRNG, OutOfRangeChannel),
     (EL2NSYNC, Level2NotSynchronized),
     (EL3HLT, Level3Halted),
     (EL3RST, Level3Reset),
     (ELNRNG, InvalidLinkNumber),
     (EUNATCH, InvalidProtocolDriver),
     (ENOCSI, NoStructAvailable),
     (EL2HLT, Level2Halted),
     (EDEADLK, Deadlock),
     (ENOLCK, LockNotAvailable),
     (EBADE, InvalidExchange),
     (EBADR, InvalidRequestDescriptor),
     (EXFULL, ExchangeFull),
     (ENOANO, InvalidAnode),
     (EBADRQC, InvalidRequestCode),
     (EBADSLT, InvalidSlot),
     (EDEADLOCK, DeadlockWouldOccur),
     (EBFONT, BadFontFormat),
     (ENOSTR, NoStreamDeviceAvailable),
     (ENODATA, NoDataAvailable),
     (ETIME, TimerExpired),
     (ENOSR, NoStreamResources),
     (ENONET, NoNetwork),
     (ENOPKG, MissingPackage),
     (EREMOTE, RemoteObject),
     (ENOLINK, NoLink),
     (EADV, AdvertiseErr),
     (ESRMNT, MountErr),
     (ECOMM, CommunicationErr),
     (EPROTO, ProtocolErr),
     (EMULTIHOP, MultipleHopAttemped),
     (ELBIN, InodeRemote),
     (EDOTDOT, RfsErr),
     (EBADMSG, InvalidMessage),
     (EFTYPE, InvalidFileType),
     (ENOTUNIQ, NonUniqueName),
     (EBADFD, InvalidFileDescriptor),
     (EREMCHG, RemoteAddressChanged),
     (ELIBACC, LibraryAccessErr),
     (ELIBBAD, InvalidLibraryAccess),
     (ELIBSCN, CorruptedLibSection),
     (ELIBMAX, ExcessiveLibraryLinkCount),
     (ELIBEXEC, InvalidExecSharedLibrary),
     (ENOSYS, InvalidSysCall),
     (ENOTEMPTY, DirectoryNotEmpty),
     (ENAMETOOLONG, NameTooLong),
     (ELOOP, SymbolicLinkLoop),
     (EOPNOTSUPP, OperationNotSupportedOnSocket),
     (EPFNOSUPPORT, ProtocolFamilyNotSupported),
     (ECONNRESET, ConnectionReset),
     (ENOBUFS, NoBufferSpace),
     (EAFNOSUPPORT, AddressFamilyNotSupported),
     (EPROTOTYPE, BadProtocolType),
     (ENOTSOCK, NotSocketFile),
     (ENOPROTOOPT, ProtocolOptionNotAvailable),
     (ESHUTDOWN, TransportEndpointShutdown),
     (ECONNREFUSED, ConnectionRefused),
     (EADDRINUSE, AddressInUse),
     (ECONNABORTED, ConnectionAborted),
     (ENETUNREACH, NetworkUnreachable),
     (ENETDOWN, NetworkDown),
     (ETIMEDOUT, OperationTimedOut),
     (EHOSTDOWN, HostDown),
     (EHOSTUNREACH, HostUnreachable),
     (EINPROGRESS, OperationInProgress),
     (EALREADY, OperationAlreadyInProgress),
     (EDESTADDRREQ, DestinationAddressRequired),
     (EMSGSIZE, MessageTooLong),
     (EPROTONOSUPPORT, ProtocolNotSupported),
     (ESOCKTNOSUPPORT, SocketTypeNotSupported),
     (EADDRNOTAVAIL, AddressNotAvailable),
     (ENETRESET, NetworkReset),
     (EISCONN, TransportEndpointConnected),
     (ENOTCONN, TransportEndpointNotConnected),
     (ETOOMANYREFS, TooManyReferences),
     (EUSERS, TooManyUsers),
     (EDQUOT, QuotaExceeded),
     (ESTALE, StaleHandle),
     (ENOTSUP, OperationNotSupported),
     (ENOMEDIUM, MediumNotFound),
     (EILSEQ, IllegalByteSequence),
     (EOVERFLOW, ValueOverflow),
     (ECANCELED, OperationCanceled),
     (ENOTRECOVERABLE, UnrecoverableState),
     (EOWNERDEAD, DeadOwner),
     (ESTRPIPE, StreamPipeErr)]"

text \<open>The variants of the enumeration, in declaration order.\<close>

definition error_variants :: "error_code list" where
  "error_variants =
    [OperationNotPermitted,
     NoSuchEntry,
     NoSuchProcess,
     Interrupted,
     IoErr,
     NoSuchDeviceOrAddress,
     TooBig,
     InvalidExecutableFormat,
     BadFile,
     NoChildProcess,
     TryAgain,
     OutOfMemory,
     PermissionDenied,
     BadAddress,
     NotBlockDevice,
     ResourceBusy,
     EntryExists,
     CrossDeviceLink,
     NoSuchDevice,
     InvalidDirectory,
     IsDirectory,
     InvalidArgument,
     FileTableOVerflow,
     TooManyOpenFiles,
     NotTerminal,
     TextFileBusy,
     FileTooLarge,
     NoSpaceOnDevice,
     IllegalSeek,
     ReadOnlyFileSystem,
     TooManyLinks,
     BrokenPipe,
     MathArgDomainErr,
     ValueOutOfRange,
     NoMessageAvailable,
     IdentifierRemoved,
     OutOfRangeChannel,
     Level2NotSynchronized,
     Level3Halted,
     Level3Reset,
     InvalidLinkNumber,
     InvalidProtocolDriver,
     NoStructAvailable,
     Level2Halted,
     Deadlock,
     LockNotAvailable,
     InvalidExchange,
     InvalidRequestDescriptor,
     ExchangeFull,
     InvalidAnode,
     InvalidRequestCode,
     InvalidSlot,
     DeadlockWouldOccur,
     BadFontFormat,
     NoStreamDeviceAvailable,
     NoDataAvailable,
     TimerExpired,
     NoStreamResources,
     NoNetwork,
     MissingPackage,
     RemoteObject,
     NoLink,
     AdvertiseErr,
     MountErr,
     CommunicationErr,
     ProtocolErr,
     MultipleHopAttemped,
     InodeRemote,
     RfsErr,
     InvalidMessage,
     InvalidFileType,
     NonUniqueName,
     InvalidFileDescriptor,
     RemoteAddressChanged,
     LibraryAccessErr,
     InvalidLibraryAccess,
     CorruptedLibSection,
     ExcessiveLibraryLinkCount,
     InvalidExecSharedLibrary,
     InvalidSysCall,
     DirectoryNotEmpty,
     NameTooLong,
     SymbolicLinkLoop,
     OperationNotSupportedOnSocket,
     ProtocolFamilyNotSupported,
     ConnectionReset,
     NoBufferSpace,
     AddressFamilyNotSupported,
     BadProtocolType,
     NotSocketFile,
     ProtocolOptionNotAvailable,
     TransportEndpointShutdown,
     ConnectionRefused,
     AddressInUse,
     ConnectionAborted,
     NetworkUnreachable,
     NetworkDown,
     OperationTimedOut,
     HostDown,
     HostUnreachable,
     OperationInProgress,
     OperationAlreadyInProgress,
     DestinationAddressRequired,
     MessageTooLong,
     ProtocolNotSupported,
     SocketTypeNotSupported,
     AddressNotAvailable,
     NetworkReset,
     TransportEndpointConnected,
     TransportEndpointNotConnected,
     TooManyReferences,
     TooManyUsers,
     QuotaExceeded,
     StaleHandle,
     OperationNotSupported,
     MediumNotFound,
     IllegalByteSequence,
     ValueOverflow,
     OperationCanceled,
     UnrecoverableState,
     DeadOwner,
     StreamPipeErr]"

record error =
  code :: error_code
  reason :: string

type_synonym 'a kres = "(error, 'a) res"

abbreviation Error :: "error_code \<Rightarrow> string \<Rightarrow> error" where
  "Error c r \<equiv> \<lparr>code = c, reason = r\<rparr>"

text \<open>\<open>Error::new\<close> wrapped in \<open>Err\<close>, the shape every early return has.\<close>

definition fail :: "error_code \<Rightarrow> string \<Rightarrow> 'a kres" where
  "fail c r = Err (Error c r)"

definition invalid_error_code :: "int \<Rightarrow> error" where
  "invalid_error_code value = Error InvalidArgument ''invalid error code''"

definition I32_MIN :: int where "I32_MIN = -2147483648"

text \<open>\<open>checked_abs\<close> has no value at \<open>i32::MIN\<close>, where the code keeps the argument.\<close>

definition error_code_get :: "error_code \<Rightarrow> int" where
  "error_code_get c = discriminant c"

definition error_code_try_from :: "int \<Rightarrow> error_code kres" where
  "error_code_try_from value =
    (let value = (if value < 0 then (if value = I32_MIN then value else \<bar>value\<bar>) else value)
     in case map_of error_arms value of
          Some c \<Rightarrow> Ok c
        | None \<Rightarrow> Err (invalid_error_code value))"

definition error_code_try_from_i64 :: "int \<Rightarrow> error_code kres" where
  "error_code_try_from_i64 value =
    (if value < I32_MIN \<or> int I32_MAX < value
     then fail InvalidArgument ''invalid error code''
     else (case error_code_try_from value of
             Ok c \<Rightarrow> Ok c
           | Err e \<Rightarrow> fail InvalidArgument ''invalid error code''
           | Panic \<Rightarrow> Panic))"

section \<open>Correctness\<close>

lemma fail_simps [simp]:
  "fail c r \<noteq> Ok a" "Ok a \<noteq> fail c r" "fail c r \<noteq> Panic" "Panic \<noteq> fail c r"
  "fail c r = Err e \<longleftrightarrow> e = Error c r"
  by (auto simp: fail_def)

text \<open>A chain of checks that fail alike fails unless every check passes.\<close>

lemma fail_chain:
  "(\<not> P \<Longrightarrow> \<exists>m. x = fail c m) \<Longrightarrow> \<exists>m. (if P then fail c a else x) = fail c m"
  by auto

text \<open>The arms send each listed variant's discriminant to the variant itself.\<close>

lemma arms_diagonal: "error_arms = map (\<lambda>c. (discriminant c, c)) error_variants"
  unfolding error_arms_def error_variants_def by simp

lemma map_of_diagonal: "map_of (map (\<lambda>c. (discriminant c, c)) cs) v = Some c \<longleftrightarrow> c \<in> set cs \<and> discriminant c = v"
  by (induction cs) (auto simp: error_code.expand)

lemma map_of_arms: "map_of error_arms v = Some c \<longleftrightarrow> c \<in> set error_variants \<and> discriminant c = v"
  by (simp only: arms_diagonal map_of_diagonal)

lemma variants_range: "c \<in> set error_variants \<Longrightarrow> 0 < discriminant c \<and> discriminant c \<le> 143"
proof -
  have "list_all (\<lambda>c. 0 < discriminant c \<and> discriminant c \<le> 143) error_variants"
    by (simp add: error_variants_def)
  then show "c \<in> set error_variants \<Longrightarrow> 0 < discriminant c \<and> discriminant c \<le> 143"
    by (simp add: list_all_iff)
qed

section \<open>Properties\<close>

text \<open>
  Error codes survive the trip through their numeric value in both forms a system call may
  return them, positive and negated, and through 64 bits as well. Conversely the conversion only
  accepts values whose magnitude is the value of some variant and returns that variant; every
  other value, \<open>i32::MIN\<close> included, gives \<open>InvalidArgument\<close>. The codes are, in order, all the
  constants of \<open>errno.rs\<close>.
\<close>

lemma error_code_round_trip:
  "(c \<in> set error_variants \<longrightarrow>
      error_code_try_from (error_code_get c) = Ok c \<and> error_code_try_from (- error_code_get c) = Ok c \<and>
      error_code_try_from_i64 (error_code_get c) = Ok c) \<and>
   (case error_code_try_from v of
      Ok d \<Rightarrow> d \<in> set error_variants \<and> \<bar>v\<bar> = error_code_get d
    | Err e \<Rightarrow> code e = InvalidArgument \<and> (\<forall>d \<in> set error_variants. \<bar>v\<bar> \<noteq> error_code_get d)
    | Panic \<Rightarrow> False) \<and>
   map error_code_get error_variants = errno_constants"
proof (rule conjI [OF impI conjI])
  assume c: "c \<in> set error_variants"
  have r: "0 < discriminant c" "discriminant c \<le> 143" using variants_range [OF c] by auto
  moreover have "map_of error_arms (discriminant c) = Some c" using c by (simp only: map_of_arms)
  ultimately show "error_code_try_from (error_code_get c) = Ok c \<and>
      error_code_try_from (- error_code_get c) = Ok c \<and> error_code_try_from_i64 (error_code_get c) = Ok c"
    by (simp add: error_code_try_from_def error_code_try_from_i64_def error_code_get_def I32_MIN_def)
next
  show "map error_code_get error_variants = errno_constants"
    by (simp add: error_variants_def errno_constants_def error_code_get_def)
next
  define w where "w = (if v < 0 then (if v = I32_MIN then v else \<bar>v\<bar>) else v)"
  have tf: "error_code_try_from v =
      (case map_of error_arms w of Some c \<Rightarrow> Ok c | None \<Rightarrow> Err (invalid_error_code w))"
    unfolding error_code_try_from_def w_def Let_def by (rule refl)
  have iff: "\<bar>v\<bar> = discriminant d \<longleftrightarrow> w = discriminant d" if "d \<in> set error_variants" for d
    using variants_range [OF that] by (auto simp: w_def I32_MIN_def)
  show "case error_code_try_from v of
      Ok d \<Rightarrow> d \<in> set error_variants \<and> \<bar>v\<bar> = error_code_get d
    | Err e \<Rightarrow> code e = InvalidArgument \<and> (\<forall>d \<in> set error_variants. \<bar>v\<bar> \<noteq> error_code_get d)
    | Panic \<Rightarrow> False"
  proof (cases "map_of error_arms w")
    case (Some d)
    then have "d \<in> set error_variants" "discriminant d = w" using map_of_arms by blast+
    then show ?thesis using iff [of d] Some by (simp add: tf error_code_get_def)
  next
    case None
    then have "discriminant d \<noteq> w" if "d \<in> set error_variants" for d
      using that map_of_arms [of w d] by auto
    then show ?thesis using None iff by (auto simp: tf error_code_get_def invalid_error_code_def)
  qed
qed

end
