(* ===== verification/Bitmaps.thy ===== *)
theory Bitmaps
  imports Errors
begin

text \<open>
  \<open>src/src/libs/raw-array/src/lib.rs\<close> and \<open>src/src/libs/bitmap/src/lib.rs\<close>: the fixed-size byte
  array and the bitmap allocator built on it. The global allocator is a parameter of the one
  constructor that calls it. The lemmas show that the bitmap refines a finite set of indices: the
  invariant \<open>bitmap_inv\<close> is kept by every operation, no operation panics under it, and
  \<open>alloc_range\<close> finds a free range exactly when there is one.
\<close>

section \<open>Raw arrays\<close>

text \<open>The array owns its storage, so its contents are part of the value.\<close>

datatype raw_array =
    Managed (array_ptr: addr) (array_bytes: "u8 list")
  | Unmanaged (array_ptr: addr) (array_bytes: "u8 list")

text \<open>
  \<open>alloc\<close> is the registered global allocator, applied to the size of the layout; \<open>None\<close> is the
  null pointer. \<open>Layout::array::<u8>(len)\<close> is refused when \<open>len\<close> exceeds \<open>isize::MAX\<close>.
\<close>

definition new_managed :: "(usize \<Rightarrow> addr option) \<Rightarrow> usize \<Rightarrow> raw_array kres" where
  "new_managed alloc len =
    (if len = 0 \<or> len \<ge> I32_MAX then fail InvalidArgument ''invalid length''
     else if len > ISIZE_MAX then fail InvalidArgument ''invalid layout''
     else case alloc len of
            None \<Rightarrow> fail OutOfMemory ''out of memory''
          | Some ptr \<Rightarrow> Ok (Managed ptr (replicate len 0)))"

definition new_unmanaged :: "addr \<Rightarrow> usize \<Rightarrow> raw_array kres" where
  "new_unmanaged ptr len =
    (if len = 0 \<or> len \<ge> I32_MAX then fail InvalidArgument ''invalid length''
     else if wrapping_add ptr len < ptr then fail InvalidArgument ''wrapping memory region''
     else if ptr = 0 then fail InvalidArgument ''invalid pointer''
     else Ok (Unmanaged ptr (replicate len 0)))"

definition raw_array_new :: "(usize \<Rightarrow> addr option) \<Rightarrow> usize \<Rightarrow> raw_array kres" where
  "raw_array_new alloc len = new_managed alloc len"

definition raw_array_from_raw_parts :: "addr \<Rightarrow> usize \<Rightarrow> raw_array kres" where
  "raw_array_from_raw_parts ptr len = new_unmanaged ptr len"

fun raw_array_get :: "raw_array \<Rightarrow> u8 list" where
  "raw_array_get (Managed ptr bs) = bs"
| "raw_array_get (Unmanaged ptr bs) = bs"

fun raw_array_put :: "raw_array \<Rightarrow> u8 list \<Rightarrow> raw_array" where
  "raw_array_put (Managed ptr _) bs = Managed ptr bs"
| "raw_array_put (Unmanaged ptr _) bs = Unmanaged ptr bs"

definition raw_array_set :: "raw_array \<Rightarrow> usize \<Rightarrow> u8 \<Rightarrow> raw_array kres" where
  "raw_array_set a i v =
    bind_res (index_set (raw_array_get a) i v) (\<lambda>bs. Ok (raw_array_put a bs))"

section \<open>Bitmap operations\<close>

record bitmap =
  number_of_bits :: usize
  usage :: usize
  bits :: raw_array
  next_free :: usize

definition bitmap_new :: "(usize \<Rightarrow> addr option) \<Rightarrow> usize \<Rightarrow> bitmap kres" where
  "bitmap_new alloc n =
    (if n = 0 \<or> n \<ge> U32_MAX then fail InvalidArgument ''invalid length''
     else if n mod 8 \<noteq> 0 then fail InvalidArgument ''length must be a multiple of 8''
     else bind_res (raw_array_new alloc (n div 8)) (\<lambda>array.
       Ok \<lparr>number_of_bits = n, usage = 0, bits = array, next_free = 0\<rparr>))"

definition from_raw_array :: "raw_array \<Rightarrow> bitmap kres" where
  "from_raw_array array =
    (case checked_mul (length (raw_array_get array)) 8 of
       Some n \<Rightarrow> Ok \<lparr>number_of_bits = n, usage = 0, bits = array, next_free = 0\<rparr>
     | None \<Rightarrow> fail InvalidArgument ''bitmap size overflow: array too large'')"

definition index_unchecked :: "usize \<Rightarrow> usize \<times> usize" where
  "index_unchecked i = (i div 8, i mod 8)"

definition bitmap_index :: "bitmap \<Rightarrow> usize \<Rightarrow> (usize \<times> usize) kres" where
  "bitmap_index b i =
    (if i \<ge> number_of_bits b then fail InvalidArgument ''index out of bounds''
     else Ok (index_unchecked i))"

definition bitmap_test :: "bitmap \<Rightarrow> usize \<Rightarrow> bool kres" where
  "bitmap_test b i =
    bind_res (bitmap_index b i) (\<lambda>(word, bit).
    bind_res (index_get (raw_array_get (bits b)) word) (\<lambda>w.
      Ok (w AND one_shl bit \<noteq> 0)))"

definition bitmap_set :: "bitmap \<Rightarrow> usize \<Rightarrow> unit kres \<times> bitmap" where
  "bitmap_set b i =
    (case bitmap_test b i of
       Err e \<Rightarrow> (Err e, b) | Panic \<Rightarrow> (Panic, b)
     | Ok True \<Rightarrow> (fail ResourceBusy ''bit is already set'', b)
     | Ok False \<Rightarrow>
        (case bind_res (bitmap_index b i) (\<lambda>(word, bit).
              bind_res (index_get (raw_array_get (bits b)) word) (\<lambda>w.
                raw_array_set (bits b) word (w OR one_shl bit))) of
           Err e \<Rightarrow> (Err e, b) | Panic \<Rightarrow> (Panic, b)
         | Ok array \<Rightarrow> (Ok (), b\<lparr>bits := array, usage := usage b + 1\<rparr>)))"

definition bitmap_clear :: "bitmap \<Rightarrow> usize \<Rightarrow> unit kres \<times> bitmap" where
  "bitmap_clear b i =
    (case bitmap_test b i of
       Err e \<Rightarrow> (Err e, b) | Panic \<Rightarrow> (Panic, b)
     | Ok False \<Rightarrow> (fail BadAddress ''bit is already cleared'', b)
     | Ok True \<Rightarrow>
        (case bind_res (bitmap_index b i) (\<lambda>(word, bit).
              bind_res (index_get (raw_array_get (bits b)) word) (\<lambda>w.
                raw_array_set (bits b) word (w AND NOT (one_shl bit)))) of
           Err e \<Rightarrow> (Err e, b) | Panic \<Rightarrow> (Panic, b)
         | Ok array \<Rightarrow>
            (Ok (), b\<lparr>bits := array, usage := usage b - 1,
                      next_free := (if i < next_free b then i else next_free b)\<rparr>)))"

text \<open>
  The three loops of \<open>alloc_range\<close>. The inner scan returns the offset of the first set bit; the
  outer loop returns the start it settles on; the last loop marks the range.
\<close>

function scan_range :: "u8 list \<Rightarrow> usize \<Rightarrow> usize \<Rightarrow> usize \<Rightarrow> usize option kres" where
  "scan_range bs sz start offset =
    (if offset < sz then
       (let (w, b) = index_unchecked (start + offset) in
        bind_res (index_get bs w) (\<lambda>byte.
          if byte AND one_shl b \<noteq> 0 then Ok (Some offset)
          else scan_range bs sz start (offset + 1)))
     else Ok None)"
  by pat_completeness auto
termination by (relation "measure (\<lambda>(bs, sz, start, offset). sz - offset)") auto

definition word_is_full :: "u8 list \<Rightarrow> usize \<Rightarrow> bool kres" where
  "word_is_full bs start =
    (if start mod 8 = 0 then bind_res (index_get bs (start div 8)) (\<lambda>w. Ok (w = 255))
     else Ok False)"

text \<open>The head of an iteration: the wrap-around and the two stop conditions.\<close>

definition advance :: "usize \<Rightarrow> usize \<Rightarrow> usize \<Rightarrow> usize \<Rightarrow> bool \<Rightarrow> usize \<times> bool \<times> bool" where
  "advance n sz initial_start start wrapped =
    (let (start, wrapped, done) =
       (if start > n - sz then
          (if \<not> wrapped \<and> initial_start > 0 then (0, True, False) else (start, wrapped, True))
        else (start, wrapped, False))
     in (start, wrapped, done \<or> (wrapped \<and> start \<ge> initial_start)))"

function find_range ::
  "u8 list \<Rightarrow> usize \<Rightarrow> usize \<Rightarrow> usize \<Rightarrow> usize \<Rightarrow> bool \<Rightarrow> usize option kres" where
  "find_range bs n sz initial_start start wrapped =
    (case advance n sz initial_start start wrapped of (start', wrapped', done) \<Rightarrow>
       if done then Ok None
       else bind_res (word_is_full bs start') (\<lambda>full.
         if full then find_range bs n sz initial_start (start' + 8) wrapped'
         else bind_res (scan_range bs sz start' 0) (\<lambda>blocked.
           case blocked of
             None \<Rightarrow> Ok (Some start')
           | Some offset \<Rightarrow>
               find_range bs n sz initial_start (start' + offset + 1) wrapped')))"
  by pat_completeness auto
termination
  by (relation "measures [\<lambda>(bs, n, sz, init, start, wrapped). if wrapped then 0 else 1,
                          \<lambda>(bs, n, sz, init, start, wrapped). Suc n - start]")
     (auto simp: advance_def Let_def split: if_splits)

fun mark_range :: "raw_array \<Rightarrow> usize \<Rightarrow> usize list \<Rightarrow> raw_array kres" where
  "mark_range a start [] = Ok a"
| "mark_range a start (off # offs) =
    (let (w, b) = index_unchecked (start + off) in
     bind_res (index_get (raw_array_get a) w) (\<lambda>byte.
     bind_res (raw_array_set a w (byte OR one_shl b)) (\<lambda>a'.
       mark_range a' start offs)))"

definition alloc_range :: "bitmap \<Rightarrow> usize \<Rightarrow> usize kres \<times> bitmap" where
  "alloc_range b sz =
    (if sz = 0 \<or> sz > number_of_bits b then (fail InvalidArgument ''invalid size'', b)
     else if usage b > number_of_bits b - sz
     then (fail OutOfMemory ''allocation exceeds bitmap capacity'', b)
     else case find_range (raw_array_get (bits b)) (number_of_bits b) sz
                 (next_free b) (next_free b) False of
            Err e \<Rightarrow> (Err e, b) | Panic \<Rightarrow> (Panic, b)
          | Ok None \<Rightarrow> (fail OutOfMemory ''bitmap is full'', b)
          | Ok (Some start) \<Rightarrow>
             (case mark_range (bits b) start [0..<sz] of
                Err e \<Rightarrow> (Err e, b) | Panic \<Rightarrow> (Panic, b)
              | Ok array \<Rightarrow>
                 (Ok start, b\<lparr>bits := array, usage := usage b + sz,
                              next_free := start + sz\<rparr>)))"

definition bitmap_alloc :: "bitmap \<Rightarrow> usize kres \<times> bitmap" where
  "bitmap_alloc b = alloc_range b 1"

section \<open>The abstract view\<close>

definition byte_bit :: "u8 list \<Rightarrow> nat \<Rightarrow> bool" where
  "byte_bit bs i = bit (bs ! (i div 8)) (i mod 8)"

definition allocated :: "bitmap \<Rightarrow> nat set" where
  "allocated b = set (filter (byte_bit (raw_array_get (bits b))) [0..<number_of_bits b])"

definition free_range :: "bitmap \<Rightarrow> nat \<Rightarrow> nat \<Rightarrow> bool" where
  "free_range b start sz \<longleftrightarrow>
    start + sz \<le> number_of_bits b \<and> {start..<start + sz} \<inter> allocated b = {}"

definition bitmap_inv :: "bitmap \<Rightarrow> bool" where
  "bitmap_inv b \<longleftrightarrow>
    number_of_bits b = 8 * length (raw_array_get (bits b)) \<and>
    0 < number_of_bits b \<and> number_of_bits b < U32_MAX \<and>
    usage b = card (allocated b) \<and> next_free b \<le> number_of_bits b"

lemma allocated_eq:
  "allocated b = {i. i < number_of_bits b \<and> byte_bit (raw_array_get (bits b)) i}"
  by (auto simp: allocated_def)

section \<open>Raw array lemmas\<close>

lemma raw_array_get_put [simp]: "raw_array_get (raw_array_put a bs) = bs"
  by (cases a) auto

lemma raw_array_put_put [simp]: "raw_array_put (raw_array_put a bs) bs' = raw_array_put a bs'"
  by (cases a) auto

lemma raw_array_put_get [simp]: "raw_array_put a (raw_array_get a) = a"
  by (cases a) auto

lemma raw_array_set_in [simp]:
  "i < length (raw_array_get a) \<Longrightarrow>
     raw_array_set a i v = Ok (raw_array_put a ((raw_array_get a)[i := v]))"
  by (simp add: raw_array_set_def)

lemma index_in_array: "bitmap_inv b \<Longrightarrow> i < number_of_bits b \<Longrightarrow> i div 8 < length (raw_array_get (bits b))"
  by (simp add: bitmap_inv_def)

lemma finite_allocated [simp]: "finite (allocated b)"
  by (simp add: allocated_eq)

lemma allocated_less: "i \<in> allocated b \<Longrightarrow> i < number_of_bits b"
  by (simp add: allocated_eq)

lemma usage_le: "bitmap_inv b \<Longrightarrow> usage b \<le> number_of_bits b"
proof -
  have "card (allocated b) \<le> card {..<number_of_bits b}"
    by (rule card_mono) (auto simp: allocated_eq)
  then show "bitmap_inv b \<Longrightarrow> ?thesis" by (simp add: bitmap_inv_def)
qed

lemma bitmap_inv_usage: "bitmap_inv b \<Longrightarrow> usage b = card (allocated b)"
  by (simp add: bitmap_inv_def)

section \<open>Writing one bit\<close>

lemma byte_bit_or:
  assumes "i div 8 < length bs"
  shows "byte_bit (bs[i div 8 := bs ! (i div 8) OR one_shl (i mod 8)]) j \<longleftrightarrow> byte_bit bs j \<or> j = i"
proof (cases "j div 8 = i div 8")
  case True
  then have "j mod 8 = i mod 8 \<longleftrightarrow> j = i" by (metis div_mult_mod_eq)
  with True assms show ?thesis by (simp add: byte_bit_def bit_or_mask)
qed (auto simp: byte_bit_def)

lemma byte_bit_and_not:
  assumes "i div 8 < length bs"
  shows "byte_bit (bs[i div 8 := bs ! (i div 8) AND NOT (one_shl (i mod 8))]) j \<longleftrightarrow>
    byte_bit bs j \<and> j \<noteq> i"
proof (cases "j div 8 = i div 8")
  case True
  then have "j mod 8 = i mod 8 \<longleftrightarrow> j = i" by (metis div_mult_mod_eq)
  with True assms show ?thesis by (simp add: byte_bit_def bit_and_not_mask)
qed (auto simp: byte_bit_def)

section \<open>Testing, setting and clearing\<close>

lemma bitmap_test_eq:
  assumes "bitmap_inv b"
  shows "bitmap_test b i =
    (if i < number_of_bits b then Ok (i \<in> allocated b)
     else fail InvalidArgument ''index out of bounds'')"
  using index_in_array [OF assms, of i]
  by (simp add: bitmap_test_def bitmap_index_def index_unchecked_def byte_mask_test
      allocated_eq byte_bit_def fail_def)

lemma bitmap_set_eq:
  assumes "bitmap_inv b"
  shows "bitmap_set b i =
    (if i \<ge> number_of_bits b then (fail InvalidArgument ''index out of bounds'', b)
     else if i \<in> allocated b then (fail ResourceBusy ''bit is already set'', b)
     else (Ok (), b\<lparr>bits := raw_array_put (bits b)
            ((raw_array_get (bits b))[i div 8 := raw_array_get (bits b) ! (i div 8) OR one_shl (i mod 8)]),
            usage := usage b + 1\<rparr>))"
  using index_in_array [OF assms, of i]
  by (simp add: bitmap_set_def bitmap_test_eq [OF assms] bitmap_index_def index_unchecked_def fail_def)

lemma bitmap_clear_eq:
  assumes "bitmap_inv b"
  shows "bitmap_clear b i =
    (if i \<ge> number_of_bits b then (fail InvalidArgument ''index out of bounds'', b)
     else if i \<notin> allocated b then (fail BadAddress ''bit is already cleared'', b)
     else (Ok (), b\<lparr>bits := raw_array_put (bits b)
            ((raw_array_get (bits b))[i div 8 := raw_array_get (bits b) ! (i div 8) AND NOT (one_shl (i mod 8))]),
            usage := usage b - 1, next_free := (if i < next_free b then i else next_free b)\<rparr>))"
  using index_in_array [OF assms, of i]
  by (simp add: bitmap_clear_def bitmap_test_eq [OF assms] bitmap_index_def index_unchecked_def fail_def)

lemma bitmap_set_ok:
  assumes inv: "bitmap_inv b" and i: "i < number_of_bits b" "i \<notin> allocated b"
    and eq: "bitmap_set b i = (r, b')"
  shows "r = Ok ()" "bitmap_inv b'" "allocated b' = insert i (allocated b)"
    "number_of_bits b' = number_of_bits b"
proof -
  let ?bs = "raw_array_get (bits b)"
  have w: "i div 8 < length ?bs" using inv i(1) by (rule index_in_array)
  have r: "r = Ok ()" and b': "b' = b\<lparr>bits := raw_array_put (bits b)
      (?bs[i div 8 := ?bs ! (i div 8) OR one_shl (i mod 8)]), usage := usage b + 1\<rparr>"
    using eq i by (simp_all add: bitmap_set_eq [OF inv])
  have al: "allocated b' = insert i (allocated b)"
    using i w by (auto simp: b' allocated_eq byte_bit_or)
  then have "card (allocated b') = card (allocated b) + 1" using i by simp
  then show "bitmap_inv b'" using inv by (auto simp: bitmap_inv_def b')
  show "r = Ok ()" "allocated b' = insert i (allocated b)" by (fact r al)+
  show "number_of_bits b' = number_of_bits b" by (simp add: b')
qed

lemma bitmap_clear_ok:
  assumes inv: "bitmap_inv b" and i: "i \<in> allocated b"
    and eq: "bitmap_clear b i = (r, b')"
  shows "r = Ok ()" "bitmap_inv b'" "allocated b' = allocated b - {i}"
    "number_of_bits b' = number_of_bits b"
proof -
  let ?bs = "raw_array_get (bits b)"
  have n: "i < number_of_bits b" using i by (rule allocated_less)
  have w: "i div 8 < length ?bs" using inv n by (rule index_in_array)
  have r: "r = Ok ()" and b': "b' = b\<lparr>bits := raw_array_put (bits b)
      (?bs[i div 8 := ?bs ! (i div 8) AND NOT (one_shl (i mod 8))]), usage := usage b - 1,
      next_free := (if i < next_free b then i else next_free b)\<rparr>"
    using eq i n by (simp_all add: bitmap_clear_eq [OF inv])
  have al: "allocated b' = allocated b - {i}"
    using w by (auto simp: b' allocated_eq byte_bit_and_not)
  then have "card (allocated b') = card (allocated b) - 1" using i by simp
  then show "bitmap_inv b'" using inv by (auto simp: bitmap_inv_def b')
  show "r = Ok ()" "allocated b' = allocated b - {i}" by (fact r al)+
  show "number_of_bits b' = number_of_bits b" by (simp add: b')
qed

section \<open>Allocating a range\<close>

declare scan_range.simps [simp del] find_range.simps [simp del]

lemma scan_range_correct:
  assumes "start + sz \<le> 8 * length bs"
  shows "case scan_range bs sz start offset of
      Ok None \<Rightarrow> \<forall>k. offset \<le> k \<and> k < sz \<longrightarrow> \<not> byte_bit bs (start + k)
    | Ok (Some k) \<Rightarrow> offset \<le> k \<and> k < sz \<and> byte_bit bs (start + k)
    | _ \<Rightarrow> False"
  using assms
proof (induction bs sz start offset rule: scan_range.induct)
  case (1 bs sz start offset)
  let ?i = "start + offset"
  show ?case
  proof (cases "offset < sz")
    case True
    then have w: "?i div 8 < length bs" using 1 by simp
    have IH: "\<not> byte_bit bs ?i \<Longrightarrow> case scan_range bs sz start (offset + 1) of
        Ok None \<Rightarrow> \<forall>k. offset + 1 \<le> k \<and> k < sz \<longrightarrow> \<not> byte_bit bs (start + k)
      | Ok (Some k) \<Rightarrow> offset + 1 \<le> k \<and> k < sz \<and> byte_bit bs (start + k)
      | _ \<Rightarrow> False"
      using 1 True w by (simp add: index_unchecked_def byte_mask_test byte_bit_def)
    have step: "scan_range bs sz start offset =
        (if byte_bit bs ?i then Ok (Some offset) else scan_range bs sz start (offset + 1))"
      using True w by (subst scan_range.simps) (simp add: index_unchecked_def byte_mask_test byte_bit_def)
    show ?thesis
    proof (cases "byte_bit bs ?i")
      case False
      then have "\<forall>k. offset \<le> k \<and> k < sz \<longrightarrow> \<not> byte_bit bs (start + k)"
        if "\<forall>k. offset + 1 \<le> k \<and> k < sz \<longrightarrow> \<not> byte_bit bs (start + k)"
        using that by (metis Suc_eq_plus1 Suc_leI le_neq_implies_less)
      with IH [OF False] False show ?thesis
        by (auto simp: step split: res.splits option.splits)
    qed (simp add: step True)
  next
    case False
    then show ?thesis by (subst scan_range.simps) auto
  qed
qed

definition range_free :: "u8 list \<Rightarrow> nat \<Rightarrow> nat \<Rightarrow> bool" where
  "range_free bs sz s \<longleftrightarrow> s + sz \<le> 8 * length bs \<and> (\<forall>k < sz. \<not> byte_bit bs (s + k))"

lemma byte_bit_full:
  assumes "bs ! (s div 8) = 255" "s mod 8 = 0" "k < 8"
  shows "byte_bit bs (s + k)"
proof -
  obtain q where "s = 8 * q" using assms(2) by (metis mod_0_imp_dvd dvdE)
  then have "(s + k) div 8 = s div 8" using assms(3) by simp
  then show ?thesis using assms(1) byte_full [of "(s + k) mod 8"] by (simp add: byte_bit_def)
qed

lemma set_bit_blocks:
  assumes "byte_bit bs (start + k)" "start \<le> s" "s \<le> start + k" "k < sz"
  shows "\<not> range_free bs sz s"
proof
  assume "range_free bs sz s"
  moreover have "s + (start + k - s) = start + k" "start + k - s < sz" using assms by linarith+
  ultimately show False using assms(1) by (metis range_free_def)
qed

lemma full_word_blocks:
  assumes "bs ! (start div 8) = 255" "start mod 8 = 0" "start \<le> s" "s < start + 8" "0 < sz"
  shows "\<not> range_free bs sz s"
proof
  assume "range_free bs sz s"
  then have "\<not> byte_bit bs (s + 0)" using assms(5) unfolding range_free_def by blast
  moreover have "byte_bit bs (start + (s - start))"
    using assms by (intro byte_bit_full) auto
  ultimately show False using assms(3) by simp
qed

text \<open>
  The positions an iteration still has to look at, and what the outer loop promises about them.
\<close>

definition pending :: "nat \<Rightarrow> nat \<Rightarrow> bool \<Rightarrow> nat \<Rightarrow> bool" where
  "pending initial_start start wrapped s \<longleftrightarrow>
    (if wrapped then start \<le> s \<and> s < initial_start else start \<le> s \<or> s < initial_start)"

definition search_ok :: "u8 list \<Rightarrow> nat \<Rightarrow> nat \<Rightarrow> nat \<Rightarrow> bool \<Rightarrow> nat option kres \<Rightarrow> bool" where
  "search_ok bs sz initial_start start wrapped r \<longleftrightarrow>
    (case r of
       Ok None \<Rightarrow> \<forall>s. pending initial_start start wrapped s \<longrightarrow> \<not> range_free bs sz s
     | Ok (Some s) \<Rightarrow> range_free bs sz s
     | _ \<Rightarrow> False)"

lemma search_ok_weaken:
  assumes "search_ok bs sz init start' wrapped' r"
    and "\<And>s. pending init start wrapped s \<Longrightarrow> pending init start' wrapped' s \<or> \<not> range_free bs sz s"
  shows "search_ok bs sz init start wrapped r"
  using assms unfolding search_ok_def by (force split: res.splits option.splits)

lemma advance_cases:
  assumes adv: "advance n sz init start wrapped = (start', wrapped', done)"
    and n: "n = 8 * length bs" "0 < sz" "sz \<le> n"
  shows "done \<Longrightarrow> pending init start wrapped s \<Longrightarrow> \<not> range_free bs sz s"
    and "\<not> done \<Longrightarrow> start' + sz \<le> n"
    and "\<not> done \<Longrightarrow> pending init start wrapped s \<Longrightarrow>
      pending init start' wrapped' s \<or> \<not> range_free bs sz s"
proof -
  have late: "range_free bs sz s \<Longrightarrow> s \<le> n - sz" using n by (auto simp: range_free_def)
  show "\<not> range_free bs sz s" if "done" "pending init start wrapped s"
  proof
    assume "range_free bs sz s"
    then show False using late that adv
      by (auto simp: advance_def pending_def split: if_splits)
  qed
  show "\<not> done \<Longrightarrow> start' + sz \<le> n"
    using adv n(3) by (auto simp: advance_def Let_def split: if_splits)
  show "pending init start' wrapped' s \<or> \<not> range_free bs sz s"
    if "\<not> done" "pending init start wrapped s"
    using late that adv by (auto simp: advance_def pending_def split: if_splits)
qed

lemma search_ok_skip:
  assumes adv: "advance n sz init start wrapped = (s', w', False)"
    and n: "n = 8 * length bs" "0 < sz" "sz \<le> n"
    and ok: "search_ok bs sz init t w' r"
    and blocked: "\<And>s. s' \<le> s \<Longrightarrow> s < t \<Longrightarrow> \<not> range_free bs sz s"
  shows "search_ok bs sz init start wrapped r"
  using ok
proof (rule search_ok_weaken)
  fix s assume "pending init start wrapped s"
  then have "pending init s' w' s \<or> \<not> range_free bs sz s"
    using advance_cases(3) [OF adv n] by blast
  then show "pending init t w' s \<or> \<not> range_free bs sz s"
    using blocked [of s] by (cases "s < t") (auto simp: pending_def split: if_splits)
qed

lemma find_range_correct:
  assumes "n = 8 * length bs" "0 < sz" "sz \<le> n"
  shows "search_ok bs sz init start wrapped (find_range bs n sz init start wrapped)"
  using assms
proof (induction bs n sz init start wrapped rule: find_range.induct)
  case (1 bs n sz init start wrapped)
  obtain s' w' d where adv: "advance n sz init start wrapped = (s', w', d)"
    by (cases "advance n sz init start wrapped") auto
  note adv_facts = advance_cases [OF adv 1(3-5)]
  show ?case
  proof (cases d)
    case True
    then show ?thesis
      using adv_facts(1) by (subst find_range.simps) (simp add: adv search_ok_def)
  next
    case False
    then have False_d: "d = False" by simp
    have fits: "s' + sz \<le> 8 * length bs" using adv_facts(2) False 1(3) by simp
    then have w: "s' div 8 < length bs" using 1(4) by simp
    have full: "word_is_full bs s' = Ok (s' mod 8 = 0 \<and> bs ! (s' div 8) = 255)"
      using w by (simp add: word_is_full_def)
    have scan: "case scan_range bs sz s' 0 of
        Ok None \<Rightarrow> range_free bs sz s'
      | Ok (Some k) \<Rightarrow> k < sz \<and> byte_bit bs (s' + k) | _ \<Rightarrow> False"
      using scan_range_correct [OF fits, of 0] fits
      by (auto simp: range_free_def split: res.splits option.splits)
    note skip = search_ok_skip [OF adv [unfolded False_d] 1(3-5)]
    show ?thesis
    proof (cases "s' mod 8 = 0 \<and> bs ! (s' div 8) = 255")
      case True
      have "search_ok bs sz init (s' + 8) w' (find_range bs n sz init (s' + 8) w')"
        using "1.IH"(1) [OF adv [symmetric] refl] False True full 1(3-5) by simp
      then have "search_ok bs sz init start wrapped (find_range bs n sz init (s' + 8) w')"
        by (rule skip) (use True 1(4) full_word_blocks [of bs s'] in simp)
      then show ?thesis using False True by (subst find_range.simps) (simp add: adv full)
    next
      case not_full: False
      show ?thesis
      proof (cases "scan_range bs sz s' 0")
        case (Ok blocked)
        show ?thesis
        proof (cases blocked)
          case None
          then have "find_range bs n sz init start wrapped = Ok (Some s')"
            using False not_full Ok by (subst find_range.simps) (auto simp: adv full)
          then show ?thesis using scan Ok None by (simp add: search_ok_def)
        next
          case (Some k)
          then have k: "k < sz" "byte_bit bs (s' + k)" using scan Ok by simp_all
          have "search_ok bs sz init (s' + k + 1) w' (find_range bs n sz init (s' + k + 1) w')"
            using "1.IH"(2) [OF adv [symmetric] refl] False not_full full Ok Some 1(3-5) by simp
          then have "search_ok bs sz init start wrapped (find_range bs n sz init (s' + k + 1) w')"
            by (rule skip) (use k(1) set_bit_blocks [OF k(2)] in simp)
          then show ?thesis using False not_full Ok Some
            by (subst find_range.simps) (auto simp: adv full)
        qed
      qed (use scan in simp_all)
    qed
  qed
qed

lemma mark_range_correct:
  assumes "\<forall>off \<in> set offs. start + off < 8 * length (raw_array_get a)"
  shows "\<exists>bs. mark_range a start offs = Ok (raw_array_put a bs) \<and>
    length bs = length (raw_array_get a) \<and>
    (\<forall>j. byte_bit bs j \<longleftrightarrow> byte_bit (raw_array_get a) j \<or> j \<in> (+) start ` set offs)"
  using assms
proof (induction offs arbitrary: a)
  case Nil
  then show ?case by (intro exI [of _ "raw_array_get a"]) simp
next
  case (Cons off offs)
  let ?i = "start + off" and ?bs = "raw_array_get a"
  let ?a = "raw_array_put a (?bs[?i div 8 := ?bs ! (?i div 8) OR one_shl (?i mod 8)])"
  have w: "?i div 8 < length ?bs" using Cons.prems by auto
  obtain bs where bs: "mark_range ?a start offs = Ok (raw_array_put ?a bs)" "length bs = length ?bs"
    "\<forall>j. byte_bit bs j \<longleftrightarrow> byte_bit (raw_array_get ?a) j \<or> j \<in> (+) start ` set offs"
    using Cons.IH [of ?a] Cons.prems by auto
  have "byte_bit bs j \<longleftrightarrow> byte_bit ?bs j \<or> j = ?i \<or> j \<in> (+) start ` set offs" for j
    using bs(3) byte_bit_or [OF w] by auto
  then show ?case using bs(1,2) w by (intro exI [of _ bs]) (auto simp: index_unchecked_def)
qed

lemma range_free_iff:
  assumes "bitmap_inv b"
  shows "range_free (raw_array_get (bits b)) sz s \<longleftrightarrow> free_range b s sz"
proof -
  let ?bs = "raw_array_get (bits b)"
  have n: "number_of_bits b = 8 * length ?bs" using assms by (simp add: bitmap_inv_def)
  show ?thesis
  proof
    assume free: "range_free ?bs sz s"
    have "i \<notin> allocated b" if "s \<le> i" "i < s + sz" for i
    proof -
      have "i - s < sz" using that by linarith
      then have "\<not> byte_bit ?bs (s + (i - s))" using free unfolding range_free_def by blast
      then show ?thesis using that by (simp add: allocated_eq)
    qed
    then show "free_range b s sz" using free n by (auto simp: range_free_def free_range_def)
  next
    assume free: "free_range b s sz"
    have "\<not> byte_bit ?bs (s + k)" if "k < sz" for k
    proof -
      have "s + k \<in> {s..<s + sz}" using that by simp
      then have "s + k \<notin> allocated b" using free unfolding free_range_def by blast
      moreover have "s + k < number_of_bits b" using free that by (simp add: free_range_def)
      ultimately show ?thesis by (simp add: allocated_eq)
    qed
    then show "range_free ?bs sz s" using free n by (simp add: range_free_def free_range_def)
  qed
qed

lemma free_range_room:
  assumes "bitmap_inv b" "free_range b s sz"
  shows "usage b \<le> number_of_bits b - sz"
proof -
  have "card (allocated b \<union> {s..<s + sz}) \<le> card {..<number_of_bits b}"
    using assms(2) by (intro card_mono) (auto simp: free_range_def dest: allocated_less)
  moreover have "card (allocated b \<union> {s..<s + sz}) = card (allocated b) + sz"
    using assms(2) by (subst card_Un_disjoint) (auto simp: free_range_def)
  ultimately show ?thesis using assms(1) by (simp add: bitmap_inv_def)
qed

text \<open>Marking a free range inserts it into the view.\<close>

lemma mark_found:
  assumes inv: "bitmap_inv b" and s: "free_range b s sz"
  obtains bs b' where "mark_range (bits b) s [0..<sz] = Ok (raw_array_put (bits b) bs)"
    and "b' = b\<lparr>bits := raw_array_put (bits b) bs, usage := usage b + sz, next_free := s + sz\<rparr>"
    and "allocated b' = allocated b \<union> {s..<s + sz}" and "bitmap_inv b'"
proof -
  let ?bs = "raw_array_get (bits b)" and ?n = "number_of_bits b"
  have n: "?n = 8 * length ?bs" using inv by (simp add: bitmap_inv_def)
  have fits: "s + sz \<le> ?n" using s by (simp add: free_range_def)
  have img: "(+) s ` set [0..<sz] = {s..<s + sz}" by (simp add: add.commute)
  have bound: "\<forall>off \<in> set [0..<sz]. s + off < 8 * length ?bs" using fits n by simp
  obtain bs where bs: "mark_range (bits b) s [0..<sz] = Ok (raw_array_put (bits b) bs)"
    "length bs = length ?bs" "\<forall>j. byte_bit bs j \<longleftrightarrow> byte_bit ?bs j \<or> j \<in> {s..<s + sz}"
    using mark_range_correct [OF bound] unfolding img by blast
  let ?b = "b\<lparr>bits := raw_array_put (bits b) bs, usage := usage b + sz, next_free := s + sz\<rparr>"
  have al: "allocated ?b = allocated b \<union> {s..<s + sz}"
    using fits unfolding allocated_eq by (intro set_eqI) (simp add: bs(3), linarith)
  have "card (allocated b \<union> {s..<s + sz}) = card (allocated b) + card {s..<s + sz}"
    using s by (intro card_Un_disjoint) (auto simp: free_range_def)
  then have "usage b + sz = card (allocated ?b)" using inv al by (simp add: bitmap_inv_def)
  then have "bitmap_inv ?b" using inv bs(2) fits unfolding bitmap_inv_def by auto
  with bs(1) al show thesis by (intro that [OF _ refl])
qed

lemma search_ok_from_start:
  assumes "bitmap_inv b" "search_ok (raw_array_get (bits b)) sz s0 s0 False r"
  shows "(r = Ok None \<and> (\<forall>s. \<not> free_range b s sz)) \<or> (\<exists>s. r = Ok (Some s) \<and> free_range b s sz)"
proof (cases r)
  case (Ok found)
  then show ?thesis
  proof (cases found)
    case None
    have "pending s0 s0 False s" for s by (auto simp: pending_def)
    then show ?thesis using assms Ok None by (simp add: search_ok_def range_free_iff)
  qed (use assms in \<open>simp add: search_ok_def range_free_iff\<close>)
qed (use assms in \<open>simp_all add: search_ok_def\<close>)

text \<open>One lemma covers every outcome of \<open>alloc_range\<close>.\<close>

lemma alloc_range_cases:
  assumes inv: "bitmap_inv b" and eq: "alloc_range b sz = (r, b')"
  obtains
    (ok) s where "r = Ok s" "0 < sz" "free_range b s sz"
      "allocated b' = allocated b \<union> {s..<s + sz}"
      "number_of_bits b' = number_of_bits b" "bitmap_inv b'" "usage b' = usage b + sz"
  | (invalid) "r = fail InvalidArgument ''invalid size''" "b' = b"
      "sz = 0 \<or> number_of_bits b < sz"
  | (full) msg where "r = fail OutOfMemory msg" "b' = b" "0 < sz" "\<And>s. \<not> free_range b s sz"
proof -
  let ?n = "number_of_bits b"
  let ?f = "find_range (raw_array_get (bits b)) ?n sz (next_free b) (next_free b) False"
  consider (bad) "sz = 0 \<or> ?n < sz" | (tight) "0 < sz" "sz \<le> ?n" "?n - sz < usage b"
    | (room) "0 < sz" "sz \<le> ?n" "usage b \<le> ?n - sz" by linarith
  then show thesis
  proof cases
    case bad
    then have "(r, b') = (fail InvalidArgument ''invalid size'', b)"
      unfolding eq [symmetric] alloc_range_def by simp
    with bad show thesis by (intro invalid) simp_all
  next
    case tight
    then have "(r, b') = (fail OutOfMemory ''allocation exceeds bitmap capacity'', b)"
      unfolding eq [symmetric] alloc_range_def by simp
    moreover have "\<not> free_range b s sz" for s using free_range_room [OF inv, of s sz] tight by linarith
    ultimately show thesis using tight by (intro full) simp_all
  next
    case room
    have "search_ok (raw_array_get (bits b)) sz (next_free b) (next_free b) False ?f"
      using inv room by (intro find_range_correct) (simp_all add: bitmap_inv_def)
    then consider (none) "?f = Ok None" "\<forall>s. \<not> free_range b s sz"
      | (some) s where "?f = Ok (Some s)" "free_range b s sz"
      using search_ok_from_start [OF inv] by blast
    then show thesis
    proof cases
      case none
      then have "(r, b') = (fail OutOfMemory ''bitmap is full'', b)"
        using room unfolding eq [symmetric] alloc_range_def by simp
      with none room show thesis by (intro full) simp_all
    next
      case (some s)
      obtain bs b'' where m: "mark_range (bits b) s [0..<sz] = Ok (raw_array_put (bits b) bs)"
        "b'' = b\<lparr>bits := raw_array_put (bits b) bs, usage := usage b + sz, next_free := s + sz\<rparr>"
        "allocated b'' = allocated b \<union> {s..<s + sz}" "bitmap_inv b''"
        using mark_found [OF inv some(2)] .
      have "(r, b') = (Ok s, b'')"
        using room some(1) m(1,2) unfolding eq [symmetric] alloc_range_def by simp
      with m some(2) room show thesis by (intro ok) simp_all
    qed
  qed
qed

section \<open>Constructors\<close>

lemma byte_bit_zeros: "i < 8 * n \<Longrightarrow> \<not> byte_bit (replicate n 0) i"
  by (simp add: byte_bit_def less_mult_imp_div_less mult.commute)

lemma new_bitmap_inv:
  assumes "raw_array_get array = replicate n 0" "0 < n" "8 * n < U32_MAX"
    "b = \<lparr>number_of_bits = 8 * n, usage = 0, bits = array, next_free = 0\<rparr>"
  shows "bitmap_inv b" "allocated b = {}"
proof -
  show "allocated b = {}"
    using assms(1) byte_bit_zeros by (auto simp: allocated_eq assms(4))
  then show "bitmap_inv b" using assms by (simp add: bitmap_inv_def)
qed

lemma from_raw_array_zeroed:
  assumes "raw_array_get array = replicate n 0" "0 < n" "8 * n \<le> USIZE_MAX"
  obtains b where "from_raw_array array = Ok b" "bitmap_inv b" "allocated b = {}"
    "number_of_bits b = 8 * n"
proof -
  let ?b = "\<lparr>number_of_bits = 8 * n, usage = 0, bits = array, next_free = 0\<rparr>"
  have "8 * n \<noteq> U32_MAX"
  proof
    assume "8 * n = U32_MAX"
    then have "8 * n mod 8 = U32_MAX mod 8" by simp
    then show False by simp
  qed
  then have "8 * n < U32_MAX" using assms(3) by linarith
  note new = new_bitmap_inv [OF assms(1,2) this refl]
  have "from_raw_array array = Ok ?b"
    using assms(1,3) by (simp add: from_raw_array_def checked_mul_def mult.commute)
  then show thesis using new by (rule that) simp
qed

section \<open>The interface of an index allocator\<close>

text \<open>
  What the slab allocator and the frame allocator rely on: a set of indices in use below a fixed
  capacity, and three operations on it.
\<close>

locale index_allocator =
  fixes inv :: "'s \<Rightarrow> bool" and used :: "'s \<Rightarrow> nat set" and capacity :: "'s \<Rightarrow> nat"
    and acquire :: "'s \<Rightarrow> nat kres \<times> 's" and release :: "'s \<Rightarrow> nat \<Rightarrow> unit kres \<times> 's"
    and in_use :: "'s \<Rightarrow> nat \<Rightarrow> bool kres"
  assumes used_bound: "inv s \<Longrightarrow> used s \<subseteq> {..<capacity s}"
    and acquire_spec: "inv s \<Longrightarrow> acquire s = (r, s') \<Longrightarrow>
      (\<exists>i. r = Ok i \<and> i < capacity s \<and> i \<notin> used s \<and> used s' = insert i (used s) \<and>
           capacity s' = capacity s \<and> inv s') \<or>
      (\<exists>e. r = Err e \<and> s' = s \<and> used s = {..<capacity s})"
    and release_used: "inv s \<Longrightarrow> i \<in> used s \<Longrightarrow> release s i = (u, s') \<Longrightarrow>
      u = Ok () \<and> inv s' \<and> used s' = used s - {i} \<and> capacity s' = capacity s"
    and release_unused: "inv s \<Longrightarrow> i \<notin> used s \<Longrightarrow> \<exists>e. release s i = (Err e, s)"
    and in_use_spec: "inv s \<Longrightarrow> i < capacity s \<Longrightarrow> in_use s i = Ok (i \<in> used s)"
begin

lemma acquire_ok:
  assumes "inv s" "acquire s = (Ok i, s')"
  shows "i < capacity s" "i \<notin> used s" "used s' = insert i (used s)" "capacity s' = capacity s" "inv s'"
  using acquire_spec [OF assms] by auto

lemma acquire_err:
  assumes "inv s" "acquire s = (Err e, s')"
  shows "s' = s" "used s = {..<capacity s}"
  using acquire_spec [OF assms] by auto

lemma acquire_no_panic:
  assumes "inv s"
  shows "fst (acquire s) \<noteq> Panic"
proof -
  obtain r s' where eq: "acquire s = (r, s')" by fastforce
  then show ?thesis using acquire_spec [OF assms eq] by auto
qed

lemma acquire_succeeds_iff:
  assumes "inv s"
  shows "(\<exists>i. fst (acquire s) = Ok i) \<longleftrightarrow> used s \<noteq> {..<capacity s}"
proof -
  obtain r s' where eq: "acquire s = (r, s')" by fastforce
  show ?thesis using acquire_spec [OF assms eq] used_bound [OF assms] eq by auto
qed

lemma acquire_release:
  assumes "inv s" "acquire s = (Ok i, s')" "release s' i = (r, s'')"
  shows "r = Ok ()" "used s'' = used s" "inv s''" "capacity s'' = capacity s"
proof -
  note t = acquire_ok [OF assms(1,2)]
  then have "i \<in> used s'" by simp
  note r = release_used [OF t(5) this assms(3)]
  with t show "r = Ok ()" "used s'' = used s" "inv s''" "capacity s'' = capacity s" by auto
qed

lemma acquire_twice_distinct:
  assumes "inv s" "acquire s = (Ok i, s')" "acquire s' = (Ok j, s'')"
  shows "i \<noteq> j"
  using acquire_ok [OF assms(1,2)] acquire_ok(2) [OF _ assms(3)] by auto

lemma release_no_panic:
  assumes "inv s"
  shows "fst (release s i) \<noteq> Panic"
proof (cases "i \<in> used s")
  case True
  obtain u s' where eq: "release s i = (u, s')" by fastforce
  then show ?thesis using release_used [OF assms True eq] by simp
next
  case False
  then show ?thesis using release_unused [OF assms False] by auto
qed

end

lemma bitmap_alloc_spec:
  assumes "bitmap_inv b" "bitmap_alloc b = (r, b')"
  shows "(\<exists>i. r = Ok i \<and> i < number_of_bits b \<and> i \<notin> allocated b \<and>
      allocated b' = insert i (allocated b) \<and> number_of_bits b' = number_of_bits b \<and> bitmap_inv b') \<or>
    (\<exists>e. r = Err e \<and> b' = b \<and> allocated b = {..<number_of_bits b})"
  using assms(1) assms(2) [unfolded bitmap_alloc_def]
proof (cases rule: alloc_range_cases)
  case (ok s)
  then show ?thesis by (simp add: free_range_def)
next
  case invalid
  then show ?thesis using assms(1) by (simp add: bitmap_inv_def)
next
  case (full msg)
  have "i \<in> allocated b" if "i < number_of_bits b" for i
    using full(4) [of i] that by (simp add: free_range_def)
  then have "allocated b = {..<number_of_bits b}" by (auto dest: allocated_less)
  with full show ?thesis by (simp add: fail_def)
qed

interpretation bm: index_allocator bitmap_inv allocated number_of_bits
  bitmap_alloc bitmap_clear bitmap_test
proof (standard, goal_cases)
  case (1 s) then show ?case by (auto dest: allocated_less)
next
  case (2 s r s') then show ?case by (rule bitmap_alloc_spec)
next
  case (3 s i r s') then show ?case using bitmap_clear_ok by blast
next
  case (4 s i) then show ?case by (auto simp: bitmap_clear_eq fail_def)
next
  case (5 s i) then show ?case by (simp add: bitmap_test_eq)
qed

section \<open>Properties\<close>

text \<open>
  C1. \<open>Bitmap::alloc_range\<close> is complete and sound: on a well-formed bitmap and a non-zero size it
  either marks a range of clear bits that lies inside the bitmap, returns its start, and changes no
  other bit, or it fails, changes nothing, and there was no such range. In both cases the bitmap
  stays well-formed and the call does not panic, wherever the search hint stood.
\<close>

theorem alloc_range_correct:
  assumes "bitmap_inv b" "0 < sz" "alloc_range b sz = (r, b')"
  shows "bitmap_inv b' \<and> number_of_bits b' = number_of_bits b \<and>
    (case r of
       Ok s \<Rightarrow> free_range b s sz \<and> allocated b' = allocated b \<union> {s..<s + sz}
     | Err e \<Rightarrow> b' = b \<and> (\<forall>s. \<not> free_range b s sz)
     | Panic \<Rightarrow> False)"
  using assms(1,3)
proof (cases rule: alloc_range_cases)
  case invalid
  then show ?thesis using assms by (simp add: fail_def free_range_def)
qed (use assms in \<open>simp_all add: fail_def\<close>)

definition sample_bitmap :: bitmap where
  "sample_bitmap = \<lparr>number_of_bits = 16, usage = 5, bits = Managed 4096 [241, 0], next_free = 14\<rparr>"

lemma sample_bitmap_inv: "bitmap_inv sample_bitmap"
  by code_simp

theorem alloc_range_correct_witness:
  "alloc_range sample_bitmap 3 =
     (Ok 1, sample_bitmap\<lparr>usage := 8, bits := Managed 4096 [255, 0], next_free := 4\<rparr>) \<and>
   free_range sample_bitmap 1 3"
proof -
  have eq: "alloc_range sample_bitmap 3 =
     (Ok 1, sample_bitmap\<lparr>usage := 8, bits := Managed 4096 [255, 0], next_free := 4\<rparr>)"
    by code_simp
  show ?thesis using alloc_range_correct [OF sample_bitmap_inv _ eq] eq by simp
qed

text \<open>
  Setting and clearing one bit: \<open>set\<close> succeeds exactly on a clear bit inside the bitmap and
  \<open>clear\<close> exactly on a set one; success changes that bit only, failure changes nothing, and the
  bitmap stays well-formed, so the usage counter is the number of set bits throughout.
\<close>

lemma set_clear_correct:
  assumes "bitmap_inv b"
  shows "(case bitmap_set b i of
       (Ok _, b') \<Rightarrow> i < number_of_bits b \<and> i \<notin> allocated b \<and> bitmap_inv b' \<and>
                     allocated b' = insert i (allocated b) \<and> usage b' = usage b + 1
     | (Err e, b') \<Rightarrow> b' = b \<and> (number_of_bits b \<le> i \<or> i \<in> allocated b)
     | (Panic, b') \<Rightarrow> False) \<and>
    (case bitmap_clear b i of
       (Ok _, b') \<Rightarrow> i \<in> allocated b \<and> bitmap_inv b' \<and>
                     allocated b' = allocated b - {i} \<and> usage b = usage b' + 1
     | (Err e, b') \<Rightarrow> b' = b \<and> i \<notin> allocated b
     | (Panic, b') \<Rightarrow> False)"
proof (rule conjI, goal_cases)
  case 1
  obtain r b' where eq: "bitmap_set b i = (r, b')" by fastforce
  show ?case
  proof (cases "i < number_of_bits b \<and> i \<notin> allocated b")
    case True
    then have i: "i < number_of_bits b" "i \<notin> allocated b" by simp_all
    note ok = bitmap_set_ok [OF assms i eq]
    then have "usage b' = usage b + 1" using assms i by (simp add: bitmap_inv_usage)
    with ok i show ?thesis by (simp add: eq)
  qed (use assms in \<open>auto simp: bitmap_set_eq fail_def\<close>)
next
  case 2
  obtain r b' where eq: "bitmap_clear b i = (r, b')" by fastforce
  show ?case
  proof (cases "i \<in> allocated b")
    case True
    note ok = bitmap_clear_ok [OF assms True eq]
    have "card (allocated b) = Suc (card (allocated b - {i}))" by (rule card.remove) (simp_all add: True)
    then have "usage b = usage b' + 1" using assms ok by (simp add: bitmap_inv_usage)
    with ok True show ?thesis by (simp add: eq)
  qed (use assms in \<open>auto simp: bitmap_clear_eq fail_def\<close>)
qed

end
