(* ===== verification/Slabs.thy ===== *)
theory Slabs
  imports Bitmaps
begin

text \<open>
  \<open>src/src/libs/slab/src/lib.rs\<close>: the slab allocator. A slab splits a memory region into index
  blocks, which hold a bitmap, and data blocks, which it hands out. The lemmas show that the index
  fits in its blocks, that the slab refines a set of live blocks out of a fixed set of disjoint
  ones, and that it meets the interface \<open>block_allocator\<close> the kernel heap relies on.
\<close>

section \<open>Operations\<close>

record slab =
  slab_index :: bitmap
  data_addr :: addr
  end_addr :: addr
  block_size :: usize

text \<open>The rounding-up division the constructor writes out twice.\<close>

definition div_round_up :: "nat \<Rightarrow> nat \<Rightarrow> nat" where
  "div_round_up n d = n div d + (if n mod d = 0 then 0 else 1)"

text \<open>The loop \<open>for i in num_data_blocks..index_len * 8 { index.set(i)? }\<close>.\<close>

fun set_each :: "bitmap \<Rightarrow> usize list \<Rightarrow> bitmap kres" where
  "set_each b [] = Ok b"
| "set_each b (i # is) =
    (case bitmap_set b i of
       (Ok _, b') \<Rightarrow> set_each b' is
     | (Err e, _) \<Rightarrow> Err e
     | (Panic, _) \<Rightarrow> Panic)"

definition slab_from_raw_parts :: "addr \<Rightarrow> usize \<Rightarrow> usize \<Rightarrow> slab kres" where
  "slab_from_raw_parts addr len bs =
    (if addr = 0 then fail InvalidArgument ''null pointer''
     else if len = 0 \<or> len \<ge> I32_MAX \<or> len > ISIZE_MAX
     then fail InvalidArgument ''invalid slab length''
     else if wrapping_add addr len < addr then fail InvalidArgument ''wrapping memory region''
     else if bs = 0 \<or> bs \<ge> I32_MAX \<or> bs > (USIZE_MAX - 1) div 8 \<or> bs > len
     then fail InvalidArgument ''invalid block size''
     else if addr mod bs \<noteq> 0 then fail InvalidArgument ''unaligned start address''
     else
       let total_num_blocks = len div bs;
           divisor = bs * 8 + 1;
           num_index_blocks = div_round_up total_num_blocks divisor
       in if num_index_blocks \<ge> total_num_blocks
          then fail InvalidArgument ''insufficient blocks for index''
          else
            let data = addr + num_index_blocks * bs;
                num_data_blocks = total_num_blocks - num_index_blocks;
                index_len = div_round_up num_data_blocks 8
            in bind_res (raw_array_from_raw_parts addr index_len) (\<lambda>storage.
               bind_res (from_raw_array storage) (\<lambda>index.
               bind_res (set_each index [num_data_blocks..<index_len * 8]) (\<lambda>index.
                 Ok \<lparr>slab_index = index, data_addr = data,
                     end_addr = addr + total_num_blocks * bs, block_size = bs\<rparr>))))"

definition slab_allocate :: "slab \<Rightarrow> addr kres \<times> slab" where
  "slab_allocate s =
    (case bitmap_alloc (slab_index s) of
       (Ok block, index) \<Rightarrow>
         (Ok (data_addr s + block * block_size s), s\<lparr>slab_index := index\<rparr>)
     | (Err e, index) \<Rightarrow> (Err e, s\<lparr>slab_index := index\<rparr>)
     | (Panic, index) \<Rightarrow> (Panic, s\<lparr>slab_index := index\<rparr>))"

definition slab_deallocate :: "slab \<Rightarrow> addr \<Rightarrow> unit kres \<times> slab" where
  "slab_deallocate s ptr =
    (if ptr < data_addr s \<or> ptr \<ge> end_addr s
     then (fail BadAddress ''pointer out of bounds'', s)
     else if ptr mod block_size s \<noteq> 0 then (fail BadAddress ''pointer unaligned'', s)
     else
       let index = (ptr - data_addr s) div block_size s
       in case bitmap_test (slab_index s) index of
            Err e \<Rightarrow> (Err e, s) | Panic \<Rightarrow> (Panic, s)
          | Ok False \<Rightarrow> (fail BadAddress ''block is already free'', s)
          | Ok True \<Rightarrow>
              (case bitmap_clear (slab_index s) index of
                 (r, index') \<Rightarrow> (r, s\<lparr>slab_index := index'\<rparr>)))"

section \<open>The abstract view\<close>

definition num_blocks :: "slab \<Rightarrow> nat" where
  "num_blocks s = (end_addr s - data_addr s) div block_size s"

definition block_at :: "slab \<Rightarrow> nat \<Rightarrow> addr" where
  "block_at s k = data_addr s + k * block_size s"

definition slab_blocks :: "slab \<Rightarrow> addr set" where
  "slab_blocks s = block_at s ` {..<num_blocks s}"

definition slab_live :: "slab \<Rightarrow> addr set" where
  "slab_live s = block_at s ` (allocated (slab_index s) \<inter> {..<num_blocks s})"

definition slab_inv :: "slab \<Rightarrow> bool" where
  "slab_inv s \<longleftrightarrow>
    bitmap_inv (slab_index s) \<and> 0 < block_size s \<and> data_addr s mod block_size s = 0 \<and>
    end_addr s = block_at s (num_blocks s) \<and> 0 < num_blocks s \<and>
    num_blocks s \<le> number_of_bits (slab_index s) \<and> end_addr s \<le> USIZE_MAX \<and>
    {num_blocks s..<number_of_bits (slab_index s)} \<subseteq> allocated (slab_index s)"

section \<open>The interface of a block allocator\<close>

text \<open>
  What the kernel heap relies on: a fixed set of blocks of one size, no two of which overlap, some
  of them live.
\<close>

locale block_allocator =
  fixes binv :: "'s \<Rightarrow> bool" and blocks :: "'s \<Rightarrow> addr set" and live :: "'s \<Rightarrow> addr set"
    and bsize :: "'s \<Rightarrow> nat" and get :: "'s \<Rightarrow> addr kres \<times> 's"
    and put :: "'s \<Rightarrow> addr \<Rightarrow> unit kres \<times> 's"
  assumes live_blocks: "binv s \<Longrightarrow> live s \<subseteq> blocks s"
    and blocks_disjoint: "binv s \<Longrightarrow> p \<in> blocks s \<Longrightarrow> q \<in> blocks s \<Longrightarrow> p < q \<Longrightarrow> p + bsize s \<le> q"
    and get_spec: "binv s \<Longrightarrow> get s = (r, s') \<Longrightarrow>
      binv s' \<and> blocks s' = blocks s \<and> bsize s' = bsize s \<and>
      ((\<exists>p. r = Ok p \<and> p \<in> blocks s \<and> p \<notin> live s \<and> live s' = insert p (live s)) \<or>
       (\<exists>e. r = Err e \<and> live s = blocks s \<and> live s' = live s))"
    and put_spec: "binv s \<Longrightarrow> put s p = (u, s') \<Longrightarrow>
      binv s' \<and> blocks s' = blocks s \<and> bsize s' = bsize s \<and>
      (if p \<in> live s then u = Ok () \<and> live s' = live s - {p}
       else (\<exists>e. u = Err e) \<and> live s' = live s)"
begin

lemma get_put:
  assumes "binv s" "get s = (Ok p, s')" "put s' p = (u, s'')"
  shows "u = Ok ()" "live s'' = live s" "binv s''"
  using get_spec [OF assms(1,2)] put_spec [OF _ assms(3)] by auto

lemma get_fresh_apart:
  assumes "binv s" "get s = (Ok p, s')" "q \<in> live s"
  shows "p + bsize s \<le> q \<or> q + bsize s \<le> p"
proof -
  have "p \<in> blocks s" "q \<in> blocks s" "p \<noteq> q"
    using get_spec [OF assms(1,2)] live_blocks [OF assms(1)] assms(3) by auto
  then show ?thesis using blocks_disjoint [OF assms(1)] by (meson nat_neq_iff)
qed

lemma double_put_fails:
  assumes "binv s" "put s p = (Ok (), s')"
  shows "\<exists>e. fst (put s' p) = Err e"
proof -
  have "binv s'" "p \<notin> live s'" using put_spec [OF assms] by (auto split: if_splits)
  moreover obtain u s'' where "put s' p = (u, s'')" by fastforce
  ultimately show ?thesis using put_spec [of s' p u s''] by auto
qed

end

section \<open>Layout arithmetic\<close>

lemma div_round_up_bounds:
  assumes "0 < d"
  shows "n \<le> div_round_up n d * d" "0 < n \<Longrightarrow> (div_round_up n d - 1) * d < n"
proof -
  let ?q = "n div d * d"
  have n: "n = ?q + n mod d" by simp
  have m: "n mod d < d" using assms by simp
  show "n \<le> div_round_up n d * d"
  proof (cases "n mod d = 0")
    case False
    have "div_round_up n d * d = ?q + d" using False by (simp add: div_round_up_def add_mult_distrib)
    then show ?thesis using n m by linarith
  next
    case True
    then show ?thesis using n by (simp add: div_round_up_def)
  qed
  show "(div_round_up n d - 1) * d < n" if "0 < n"
  proof (cases "n mod d = 0")
    case True
    then have "div_round_up n d * d = n" using n by (simp add: div_round_up_def)
    then have "(div_round_up n d - 1) * d = n - d" by (simp add: diff_mult_distrib)
    then show ?thesis using that assms by linarith
  next
    case False
    then have "(div_round_up n d - 1) * d = ?q" by (simp add: div_round_up_def)
    then show ?thesis using n False by linarith
  qed
qed

lemma div_round_up_pos: "0 < n \<Longrightarrow> 0 < d \<Longrightarrow> 0 < div_round_up n d"
  using div_round_up_bounds(1) [of d n] by (cases "div_round_up n d") auto

lemma div_round_up_least:
  assumes "0 < d" "n \<le> m * d"
  shows "div_round_up n d \<le> m"
proof (cases "n = 0")
  case False
  then have "(div_round_up n d - 1) * d < m * d"
    using div_round_up_bounds(2) [OF assms(1), of n] assms(2) by linarith
  then show ?thesis by (cases "div_round_up n d") auto
qed (simp add: div_round_up_def)

text \<open>The bitmap for the data blocks fits into the index blocks.\<close>

lemma index_fits:
  assumes "nidx = div_round_up tot (bs * 8 + 1)" "0 < bs"
  shows "div_round_up (tot - nidx) 8 \<le> nidx * bs"
proof (rule div_round_up_least)
  have "tot \<le> nidx * (bs * 8 + 1)" unfolding assms(1) by (rule div_round_up_bounds) simp
  then show "tot - nidx \<le> nidx * bs * 8" by (simp add: distrib_left mult.assoc)
qed simp

lemma num_blocks_eq:
  assumes "0 < block_size s" "end_addr s = data_addr s + n * block_size s"
  shows "num_blocks s = n"
  using assms by (simp add: num_blocks_def)

lemma block_at_inj: "0 < block_size s \<Longrightarrow> block_at s i = block_at s j \<longleftrightarrow> i = j"
  by (simp add: block_at_def)

lemma block_at_image_iff: "0 < block_size s \<Longrightarrow> block_at s i \<in> block_at s ` A \<longleftrightarrow> i \<in> A"
  by (auto simp: block_at_inj)

lemma block_at_less:
  assumes "0 < block_size s" "block_at s i < block_at s j"
  shows "block_at s i + block_size s \<le> block_at s j"
proof -
  have "i < j" using assms by (simp add: block_at_def)
  then have "(i + 1) * block_size s \<le> j * block_size s" by (intro mult_right_mono) auto
  then show ?thesis by (simp add: block_at_def)
qed

lemma block_at_index_update [simp]:
  "block_at (s\<lparr>slab_index := b\<rparr>) = block_at s" "num_blocks (s\<lparr>slab_index := b\<rparr>) = num_blocks s"
  by (simp_all add: block_at_def num_blocks_def fun_eq_iff)

section \<open>Allocation and deallocation\<close>

lemma slab_index_update:
  assumes "slab_inv s" "bitmap_inv b" "number_of_bits b = number_of_bits (slab_index s)"
    "allocated (slab_index s) \<inter> {num_blocks s..} \<subseteq> allocated b"
  shows "slab_inv (s\<lparr>slab_index := b\<rparr>)"
  using assms by (force simp: slab_inv_def block_at_def)

lemma slab_allocate_spec:
  assumes inv: "slab_inv s" and eq: "slab_allocate s = (r, s')"
  shows "slab_inv s' \<and> slab_blocks s' = slab_blocks s \<and> block_size s' = block_size s \<and>
    ((\<exists>p. r = Ok p \<and> p \<in> slab_blocks s \<and> p \<notin> slab_live s \<and> slab_live s' = insert p (slab_live s)) \<or>
     (\<exists>e. r = Err e \<and> slab_live s = slab_blocks s \<and> slab_live s' = slab_live s))"
proof -
  let ?b = "slab_index s"
  have b: "bitmap_inv ?b" and bs: "0 < block_size s"
    and upper: "{num_blocks s..<number_of_bits ?b} \<subseteq> allocated ?b"
    using inv by (auto simp: slab_inv_def)
  obtain t b' where alloc: "bitmap_alloc ?b = (t, b')" by fastforce
  show ?thesis using bm.acquire_spec [OF b alloc]
  proof (elim disjE exE conjE)
    fix i assume i: "t = Ok i" "i < number_of_bits ?b" "i \<notin> allocated ?b"
      "allocated b' = insert i (allocated ?b)" "number_of_bits b' = number_of_bits ?b" "bitmap_inv b'"
    have "i < num_blocks s" using i upper by (meson atLeastLessThan_iff not_less subsetD)
    moreover have "r = Ok (block_at s i)" "s' = s\<lparr>slab_index := b'\<rparr>"
      using eq alloc i(1) by (simp_all add: slab_allocate_def block_at_def)
    moreover have "slab_inv (s\<lparr>slab_index := b'\<rparr>)"
      using inv i by (intro slab_index_update) auto
    ultimately show ?thesis using i bs
      by (simp add: slab_blocks_def slab_live_def block_at_image_iff)
  next
    fix e assume e: "t = Err e" "b' = ?b" "allocated ?b = {..<number_of_bits ?b}"
    have "slab_live s = slab_blocks s"
      using inv e(3) by (simp add: slab_live_def slab_blocks_def slab_inv_def inf.absorb2)
    moreover have "r = Err e" "s' = s" using eq alloc e by (simp_all add: slab_allocate_def)
    ultimately show ?thesis using inv by simp
  qed
qed

lemma slab_deallocate_index:
  assumes inv: "slab_inv s" and p: "data_addr s \<le> p" "p < end_addr s" "p mod block_size s = 0"
  obtains k where "k < num_blocks s" "p = block_at s k" "(p - data_addr s) div block_size s = k"
proof -
  have bs: "0 < block_size s" and al: "block_size s dvd data_addr s"
    using inv by (auto simp: slab_inv_def)
  then have "block_size s dvd p - data_addr s" using p(3) by (simp add: dvd_diff_nat mod_0_imp_dvd)
  then obtain k where k: "p - data_addr s = k * block_size s" by (metis dvdE mult.commute)
  then have "p = block_at s k" using p(1) by (simp add: block_at_def)
  moreover have "k < num_blocks s"
    using p(2) inv calculation bs by (simp add: slab_inv_def block_at_def)
  ultimately show thesis using k bs that by simp
qed

lemma slab_deallocate_spec:
  assumes inv: "slab_inv s" and eq: "slab_deallocate s p = (u, s')"
  shows "slab_inv s' \<and> slab_blocks s' = slab_blocks s \<and> block_size s' = block_size s \<and>
    (if p \<in> slab_live s then u = Ok () \<and> slab_live s' = slab_live s - {p}
     else (\<exists>e. u = Err e) \<and> slab_live s' = slab_live s)"
proof -
  let ?b = "slab_index s"
  have b: "bitmap_inv ?b" and bs: "0 < block_size s" using inv by (auto simp: slab_inv_def)
  show ?thesis
  proof (cases "data_addr s \<le> p \<and> p < end_addr s \<and> p mod block_size s = 0")
    case True
    then have p: "data_addr s \<le> p" "p < end_addr s" "p mod block_size s = 0" by simp_all
    obtain k where k: "k < num_blocks s" "p = block_at s k" "(p - data_addr s) div block_size s = k"
      using slab_deallocate_index [OF inv p] .
    have kn: "k < number_of_bits ?b" using k inv by (simp add: slab_inv_def)
    have step: "slab_deallocate s p =
        (if k \<in> allocated ?b then (fst (bitmap_clear ?b k), s\<lparr>slab_index := snd (bitmap_clear ?b k)\<rparr>)
         else (fail BadAddress ''block is already free'', s))"
      using True kn bm.in_use_spec [OF b kn] unfolding slab_deallocate_def k(3)
      by (simp add: not_less not_le split: bool.split prod.splits)
    have live: "p \<in> slab_live s \<longleftrightarrow> k \<in> allocated ?b"
      using k bs by (simp add: slab_live_def block_at_image_iff)
    show ?thesis
    proof (cases "k \<in> allocated ?b")
      case used: True
      obtain r b' where c: "bitmap_clear ?b k = (r, b')" by fastforce
      note rel = bm.release_used [OF b used c]
      have "k \<notin> {num_blocks s..}" using k(1) by simp
      then have "allocated ?b \<inter> {num_blocks s..} \<subseteq> allocated b'" using rel by blast
      with rel have "slab_inv (s\<lparr>slab_index := b'\<rparr>)" by (intro slab_index_update [OF inv]) simp_all
      moreover have "block_at s ` ((allocated ?b - {k}) \<inter> {..<num_blocks s}) = slab_live s - {p}"
        using bs k(2) by (auto simp: slab_live_def block_at_inj)
      moreover have "u = Ok ()" "s' = s\<lparr>slab_index := b'\<rparr>"
        using eq step c rel used by simp_all
      ultimately show ?thesis using rel used live by (simp add: slab_blocks_def slab_live_def)
    next
      case unused: False
      then have "(u, s') = (fail BadAddress ''block is already free'', s)" using eq step by simp
      then show ?thesis using live unused inv by (simp add: fail_def)
    qed
  next
    case False
    then have "p \<notin> slab_live s"
      using inv bs by (auto simp: slab_live_def slab_inv_def block_at_def)
    moreover have "\<exists>msg. (u, s') = (fail BadAddress msg, s)"
      using False unfolding eq [symmetric] slab_deallocate_def by auto
    ultimately show ?thesis using inv by (auto simp: fail_def)
  qed
qed

interpretation sl: block_allocator slab_inv slab_blocks slab_live block_size
  slab_allocate slab_deallocate
proof (standard, goal_cases)
  case (1 s) then show ?case by (auto simp: slab_live_def slab_blocks_def)
next
  case (2 s p q) then show ?case using block_at_less by (auto simp: slab_blocks_def slab_inv_def)
next
  case (3 s r s') then show ?case by (rule slab_allocate_spec)
next
  case (4 s p u s') then show ?case by (rule slab_deallocate_spec)
qed

section \<open>Construction\<close>

lemma set_each_correct:
  assumes "bitmap_inv b" "distinct is" "set is \<inter> allocated b = {}" "\<forall>i \<in> set is. i < number_of_bits b"
  shows "\<exists>b'. set_each b is = Ok b' \<and> bitmap_inv b' \<and> allocated b' = allocated b \<union> set is \<and>
    number_of_bits b' = number_of_bits b"
  using assms
proof (induction "is" arbitrary: b)
  case (Cons i "is")
  obtain r b1 where eq: "bitmap_set b i = (r, b1)" by fastforce
  have "i < number_of_bits b" "i \<notin> allocated b" using Cons.prems by auto
  note ok = bitmap_set_ok [OF Cons.prems(1) this eq]
  have "\<exists>b'. set_each b1 is = Ok b' \<and> bitmap_inv b' \<and> allocated b' = allocated b1 \<union> set is \<and>
    number_of_bits b' = number_of_bits b1"
    using Cons.prems ok by (intro Cons.IH) auto
  then show ?case using ok eq by auto
qed simp

text \<open>The arguments the constructor accepts: the negation of its checks.\<close>

definition slab_args_ok :: "addr \<Rightarrow> usize \<Rightarrow> usize \<Rightarrow> bool" where
  "slab_args_ok addr len bs \<longleftrightarrow>
    0 < addr \<and> 0 < len \<and> len < I32_MAX \<and> addr + len \<le> USIZE_MAX \<and>
    0 < bs \<and> bs \<le> (USIZE_MAX - 1) div 8 \<and> 2 * bs \<le> len \<and> addr mod bs = 0"

lemma index_blocks_less_iff:
  assumes "0 < bs" "0 < tot"
  shows "div_round_up tot (bs * 8 + 1) < tot \<longleftrightarrow> 2 \<le> tot"
proof -
  have "div_round_up tot (bs * 8 + 1) \<le> tot - 1" if two: "2 \<le> tot"
  proof (rule div_round_up_least)
    obtain t where t: "tot = Suc t" "1 \<le> t" using two by (cases tot) auto
    have "Suc t \<le> t * 2" using t(2) by simp
    also have "\<dots> \<le> t * (bs * 8 + 1)" using assms(1) by (intro mult_left_mono) auto
    finally show "tot \<le> (tot - 1) * (bs * 8 + 1)" using t(1) by simp
  qed simp
  moreover have "0 < div_round_up tot (bs * 8 + 1)" using assms(2) by (rule div_round_up_pos) simp
  ultimately show ?thesis using assms(2) by linarith
qed

lemma slab_constructed:
  assumes ok: "slab_args_ok addr len bs" and fits: "addr \<le> USIZE_MAX"
  obtains s where "slab_from_raw_parts addr len bs = Ok s" "slab_inv s" "slab_live s = {}"
    "block_size s = bs" "addr + length (raw_array_get (bits (slab_index s))) \<le> data_addr s"
    "end_addr s \<le> addr + len" "0 < num_blocks s"
proof -
  define tot where "tot = len div bs"
  define nidx where "nidx = div_round_up tot (bs * 8 + 1)"
  define nd where "nd = tot - nidx"
  define il where "il = div_round_up nd 8"
  note args = ok [unfolded slab_args_ok_def]
  have tot: "2 \<le> tot" using args by (simp add: tot_def Suc_le_eq div_greater_zero_iff
      less_eq_div_iff_mult_less_eq)
  have nidx: "nidx < tot" "0 < nidx"
    using index_blocks_less_iff [of bs tot] div_round_up_pos [of tot "bs * 8 + 1"] tot args
    by (auto simp: nidx_def)
  then have nd: "0 < nd" by (simp add: nd_def)
  have tb: "tot * bs \<le> len" by (simp add: tot_def)
  have "nidx * bs < tot * bs" using nidx args by simp
  moreover have il: "il \<le> nidx * bs" "0 < il"
    using index_fits [OF nidx_def] nd args by (auto simp: il_def nd_def div_round_up_pos)
  ultimately have il_len: "il < len" using tb by linarith
  have raw: "raw_array_from_raw_parts addr il = Ok (Unmanaged addr (replicate il 0))"
    using args il il_len fits wrapping_add_less_iff [of addr il]
    by (simp add: raw_array_from_raw_parts_def new_unmanaged_def)
  have nd8: "nd \<le> il * 8" "il * 8 < nd + 8"
    using div_round_up_bounds [of 8 nd] nd il(2) by (auto simp: il_def algebra_simps)
  have "tot \<le> len" by (simp add: tot_def)
  moreover have "nd \<le> tot" by (simp add: nd_def)
  ultimately have "8 * il \<le> USIZE_MAX" using nd8(2) args by linarith
  then obtain b where b: "from_raw_array (Unmanaged addr (replicate il 0)) = Ok b" "bitmap_inv b"
    "allocated b = {}" "number_of_bits b = 8 * il"
    using from_raw_array_zeroed [of "Unmanaged addr (replicate il 0)" il] il(2) by auto
  have "\<exists>b'. set_each b [nd..<il * 8] = Ok b' \<and> bitmap_inv b' \<and>
      allocated b' = allocated b \<union> set [nd..<il * 8] \<and> number_of_bits b' = number_of_bits b"
    using b by (intro set_each_correct) auto
  then obtain b' where b': "set_each b [nd..<il * 8] = Ok b'" "bitmap_inv b'"
    "allocated b' = {nd..<il * 8}" "number_of_bits b' = 8 * il" using b by auto
  define s where "s = \<lparr>slab_index = b', data_addr = addr + nidx * bs,
    end_addr = addr + tot * bs, block_size = bs\<rparr>"
  have "wrapping_add addr len \<ge> addr"
    using wrapping_add_less_iff [of addr len] args fits by (simp add: not_less [symmetric])
  then have made: "slab_from_raw_parts addr len bs = Ok s"
    using args raw b(1) b'(1) nidx(1)
    unfolding slab_from_raw_parts_def s_def Let_def tot_def [symmetric] nidx_def [symmetric]
      nd_def [symmetric] il_def [symmetric]
    by (simp add: not_less not_le)
  have split: "tot * bs = nidx * bs + nd * bs"
    using nidx(1) by (simp add: nd_def add_mult_distrib [symmetric])
  then have nb: "num_blocks s = nd" using args by (intro num_blocks_eq) (simp_all add: s_def)
  have "bs dvd addr" using args by (simp add: mod_0_imp_dvd)
  then have "(addr + nidx * bs) mod bs = 0" by simp
  then have "slab_inv s"
    using b' nb nd nd8(1) args tb split unfolding slab_inv_def block_at_def
    by (simp add: s_def mult.commute)
  moreover have "slab_live s = {}" unfolding slab_live_def nb by (auto simp: s_def b'(3))
  moreover have "length (raw_array_get (bits b')) = il" using b'(2,4) by (simp add: bitmap_inv_def)
  ultimately show thesis using made nb nd il(1) tb by (intro that [of s]) (simp_all add: s_def)
qed

lemma slab_rejected:
  assumes "\<not> slab_args_ok addr len bs" "addr \<le> USIZE_MAX"
  shows "\<exists>msg. slab_from_raw_parts addr len bs = fail InvalidArgument msg"
proof (cases "0 < addr \<and> 0 < len \<and> len < I32_MAX \<and> addr + len \<le> USIZE_MAX \<and>
    0 < bs \<and> bs \<le> (USIZE_MAX - 1) div 8 \<and> bs \<le> len \<and> addr mod bs = 0")
  case True
  then have "len < 2 * bs" using assms(1) by (simp add: slab_args_ok_def)
  then have tot: "len div bs = 1"
    using True by (intro div_nat_eqI) simp_all
  have "\<not> div_round_up 1 (bs * 8 + 1) < 1" using index_blocks_less_iff [of bs 1] True by simp
  moreover have "addr \<le> wrapping_add addr len"
    using wrapping_add_less_iff [of addr len] True assms(2) by (simp add: not_less [symmetric])
  ultimately show ?thesis using True unfolding slab_from_raw_parts_def tot Let_def
    by (simp add: not_less not_le fail_def)
next
  case False
  have wrap: "len < I32_MAX \<Longrightarrow> wrapping_add addr len < addr \<longleftrightarrow> USIZE_MAX < addr + len"
    using assms(2) by (intro wrapping_add_less_iff) simp_all
  show ?thesis unfolding slab_from_raw_parts_def
  proof (rule fail_chain, rule fail_chain, rule fail_chain, rule fail_chain, rule fail_chain, rule FalseE)
    assume "addr \<noteq> 0" "\<not> (len = 0 \<or> I32_MAX \<le> len \<or> ISIZE_MAX < len)"
      "\<not> wrapping_add addr len < addr"
      "\<not> (bs = 0 \<or> I32_MAX \<le> bs \<or> (USIZE_MAX - 1) div 8 < bs \<or> len < bs)" "\<not> addr mod bs \<noteq> 0"
    then show False using False wrap by (simp add: not_less not_le)
  qed
qed

section \<open>Properties\<close>

text \<open>
  \<open>Slab::from_raw_parts\<close> succeeds exactly on the arguments its contract lists (non-null,
  bounded, non-wrapping, block-aligned, room for at least two blocks) and fails with
  \<open>InvalidArgument\<close> otherwise. A new slab is well-formed and has no live block; the bytes of its
  index lie before the first data block and its data blocks end inside the region it was given.
\<close>

lemma slab_from_raw_parts_correct:
  assumes "addr \<le> USIZE_MAX"
  shows "case slab_from_raw_parts addr len bs of
      Ok s \<Rightarrow> slab_args_ok addr len bs \<and> slab_inv s \<and> slab_live s = {} \<and> block_size s = bs \<and>
        0 < num_blocks s \<and>
        addr + length (raw_array_get (bits (slab_index s))) \<le> data_addr s \<and>
        end_addr s \<le> addr + len
    | Err e \<Rightarrow> \<not> slab_args_ok addr len bs \<and> code e = InvalidArgument
    | Panic \<Rightarrow> False"
proof (cases "slab_args_ok addr len bs")
  case True
  from slab_constructed [OF True assms] obtain s where
    "slab_from_raw_parts addr len bs = Ok s" "slab_inv s" "slab_live s = {}" "block_size s = bs"
    "addr + length (raw_array_get (bits (slab_index s))) \<le> data_addr s"
    "end_addr s \<le> addr + len" "0 < num_blocks s" .
  with True show ?thesis by simp
next
  case False
  from slab_rejected [OF False assms] show ?thesis using False by (auto simp: fail_def)
qed

text \<open>
  C3. \<open>Slab::allocate\<close> hands out a block inside the data area, aligned to the block size, that
  overlaps no live block, and marks exactly it as live; it fails only when every block is live.
  Freeing the block restores the set of live blocks, and freeing it a second time is refused.
\<close>

theorem slab_allocate_correct:
  assumes "slab_inv s" "slab_allocate s = (r, s')"
  shows "slab_inv s' \<and>
    (case r of
       Ok p \<Rightarrow> data_addr s \<le> p \<and> p + block_size s \<le> end_addr s \<and> p mod block_size s = 0 \<and>
         (\<forall>q \<in> slab_live s. p + block_size s \<le> q \<or> q + block_size s \<le> p) \<and>
         slab_live s' = insert p (slab_live s) \<and>
         (case slab_deallocate s' p of (u, s'') \<Rightarrow>
            u = Ok () \<and> slab_inv s'' \<and> slab_live s'' = slab_live s \<and>
            (\<exists>e. fst (slab_deallocate s'' p) = Err e))
     | Err e \<Rightarrow> s' = s \<and> slab_live s = slab_blocks s
     | Panic \<Rightarrow> False)"
proof -
  note spec = sl.get_spec [OF assms]
  show ?thesis
  proof (cases r)
    case (Ok p)
    then have p: "p \<in> slab_blocks s" and live: "slab_live s' = insert p (slab_live s)"
      and inv': "slab_inv s'" using spec by auto
    have get: "slab_allocate s = (Ok p, s')" using assms(2) Ok by simp
    obtain k where k: "k < num_blocks s" "p = block_at s k" using p by (auto simp: slab_blocks_def)
    have "block_at s k < block_at s (num_blocks s)" using k(1) assms(1) by (simp add: slab_inv_def block_at_def)
    then have "p + block_size s \<le> end_addr s" "data_addr s \<le> p" "p mod block_size s = 0"
      using block_at_less [of s k "num_blocks s"] k(2) assms(1)
      by (auto simp: slab_inv_def block_at_def)
    moreover obtain u s'' where put: "slab_deallocate s' p = (u, s'')" by fastforce
    moreover note sl.get_put [OF assms(1) get put]
    moreover have "\<exists>e. fst (slab_deallocate s'' p) = Err e"
      using sl.double_put_fails [OF inv', of p s''] put sl.get_put(1) [OF assms(1) get put] by simp
    ultimately show ?thesis using Ok inv' live sl.get_fresh_apart [OF assms(1) get] by simp
  next
    case (Err e)
    have "s' = s" using assms Err bm.acquire_err(1) [of "slab_index s" e]
      by (auto simp: slab_allocate_def slab_inv_def split: prod.splits res.splits)
    then show ?thesis using spec Err by auto
  qed (use spec in auto)
qed

definition sample_slab :: slab where
  "sample_slab = \<lparr>slab_index = sample_bitmap, data_addr = 4096, end_addr = 4352, block_size = 16\<rparr>"

lemma sample_slab_inv: "slab_inv sample_slab"
proof -
  have "num_blocks sample_slab = 16" by code_simp
  then show ?thesis using sample_bitmap_inv
    by (simp add: slab_inv_def sample_slab_def block_at_def sample_bitmap_def)
qed

theorem slab_allocate_correct_witness:
  "fst (slab_allocate sample_slab) = Ok 4320 \<and>
   slab_live (snd (slab_allocate sample_slab)) = insert 4320 (slab_live sample_slab)"
proof -
  have ok: "fst (slab_allocate sample_slab) = Ok 4320" by code_simp
  show ?thesis using slab_allocate_correct [OF sample_slab_inv surjective_pairing] ok by simp
qed

end
