(* ===== verification/Kernel_Heap.thy ===== *)
theory Kernel_Heap
  imports Slabs
begin

text \<open>
  \<open>src/src/kernel/src/mm/kheap.rs\<close>: the kernel heap, seven slabs over one backing buffer, and the
  global allocator on top of it. The statics \<open>HEAP\<close>, \<open>BACKING_PTR\<close> and \<open>BACKING_SIZE\<close> are the
  fields of \<open>heap_globals\<close>. The lemmas show that the tiers never overlap, so a block handed out by
  one tier overlaps no live block of any tier, and that the alignment a Rust type asks for is met.
\<close>

section \<open>Operations\<close>

abbreviation (input) PAGE_SIZE :: nat where "PAGE_SIZE \<equiv> 4096"
abbreviation (input) NUM_OF_SLABS :: nat where "NUM_OF_SLABS \<equiv> 7"
abbreviation (input) SLAB_COUNT :: nat where "SLAB_COUNT \<equiv> 32"

definition MIN_SLAB_SIZE :: nat where "MIN_SLAB_SIZE = SLAB_COUNT * PAGE_SIZE"
definition MIN_HEAP_SIZE :: nat where "MIN_HEAP_SIZE = NUM_OF_SLABS * MIN_SLAB_SIZE"

datatype slab_size = Slab8 | Slab16 | Slab32 | Slab64 | Slab128 | Slab256 | Slab512

fun slab_bytes :: "slab_size \<Rightarrow> usize" where
  "slab_bytes Slab8 = 8"
| "slab_bytes Slab16 = 16"
| "slab_bytes Slab32 = 32"
| "slab_bytes Slab64 = 64"
| "slab_bytes Slab128 = 128"
| "slab_bytes Slab256 = 256"
| "slab_bytes Slab512 = 512"

record kheap =
  slab_8_bytes :: slab
  slab_16_bytes :: slab
  slab_32_bytes :: slab
  slab_64_bytes :: slab
  slab_128_bytes :: slab
  slab_256_bytes :: slab
  slab_512_bytes :: slab

datatype alloc_error = AllocError

record layout =
  layout_size :: usize
  layout_align :: usize

definition kheap_from_raw_parts :: "addr \<Rightarrow> usize \<Rightarrow> kheap kres" where
  "kheap_from_raw_parts addr sz =
    (if addr mod PAGE_SIZE \<noteq> 0 then fail InvalidArgument ''unaligned start address''
     else if sz < MIN_HEAP_SIZE
     then fail InvalidArgument ''heap size is less than minimum heap size''
     else if sz mod MIN_HEAP_SIZE \<noteq> 0
     then fail InvalidArgument ''size is not a multiple of the minimum heap size''
     else
       let n = sz div NUM_OF_SLABS in
       bind_res (slab_from_raw_parts addr n (slab_bytes Slab8)) (\<lambda>s8.
       bind_res (slab_from_raw_parts (addr + n) n (slab_bytes Slab16)) (\<lambda>s16.
       bind_res (slab_from_raw_parts (addr + 2 * n) n (slab_bytes Slab32)) (\<lambda>s32.
       bind_res (slab_from_raw_parts (addr + 3 * n) n (slab_bytes Slab64)) (\<lambda>s64.
       bind_res (slab_from_raw_parts (addr + 4 * n) n (slab_bytes Slab128)) (\<lambda>s128.
       bind_res (slab_from_raw_parts (addr + 5 * n) n (slab_bytes Slab256)) (\<lambda>s256.
       bind_res (slab_from_raw_parts (addr + 6 * n) n (slab_bytes Slab512)) (\<lambda>s512.
         Ok \<lparr>slab_8_bytes = s8, slab_16_bytes = s16, slab_32_bytes = s32, slab_64_bytes = s64,
             slab_128_bytes = s128, slab_256_bytes = s256, slab_512_bytes = s512\<rparr>))))))))"

definition layout_to_allocator :: "layout \<Rightarrow> (alloc_error, slab_size) res" where
  "layout_to_allocator l =
    (let n = layout_size l in
     if 1 \<le> n \<and> n \<le> 8 then Ok Slab8
     else if 9 \<le> n \<and> n \<le> 16 then Ok Slab16
     else if 17 \<le> n \<and> n \<le> 32 then Ok Slab32
     else if 33 \<le> n \<and> n \<le> 64 then Ok Slab64
     else if 65 \<le> n \<and> n \<le> 128 then Ok Slab128
     else if 129 \<le> n \<and> n \<le> 256 then Ok Slab256
     else if 257 \<le> n \<and> n \<le> 512 then Ok Slab512
     else Err AllocError)"

text \<open>The slab a tier's arm of \<open>allocate\<close> and \<open>deallocate\<close> works on.\<close>

fun tier_slab :: "slab_size \<Rightarrow> kheap \<Rightarrow> slab" where
  "tier_slab Slab8 h = slab_8_bytes h"
| "tier_slab Slab16 h = slab_16_bytes h"
| "tier_slab Slab32 h = slab_32_bytes h"
| "tier_slab Slab64 h = slab_64_bytes h"
| "tier_slab Slab128 h = slab_128_bytes h"
| "tier_slab Slab256 h = slab_256_bytes h"
| "tier_slab Slab512 h = slab_512_bytes h"

fun tier_update :: "slab_size \<Rightarrow> slab \<Rightarrow> kheap \<Rightarrow> kheap" where
  "tier_update Slab8 s h = h\<lparr>slab_8_bytes := s\<rparr>"
| "tier_update Slab16 s h = h\<lparr>slab_16_bytes := s\<rparr>"
| "tier_update Slab32 s h = h\<lparr>slab_32_bytes := s\<rparr>"
| "tier_update Slab64 s h = h\<lparr>slab_64_bytes := s\<rparr>"
| "tier_update Slab128 s h = h\<lparr>slab_128_bytes := s\<rparr>"
| "tier_update Slab256 s h = h\<lparr>slab_256_bytes := s\<rparr>"
| "tier_update Slab512 s h = h\<lparr>slab_512_bytes := s\<rparr>"

fun map_err :: "('e \<Rightarrow> 'f) \<Rightarrow> ('e, 'a) res \<Rightarrow> ('f, 'a) res" where
  "map_err f (Ok a) = Ok a"
| "map_err f (Err e) = Err (f e)"
| "map_err f Panic = Panic"

definition kheap_allocate :: "kheap \<Rightarrow> layout \<Rightarrow> (alloc_error, addr) res \<times> kheap" where
  "kheap_allocate h l =
    (case layout_to_allocator l of
       Err e \<Rightarrow> (Err e, h) | Panic \<Rightarrow> (Panic, h)
     | Ok tier \<Rightarrow>
         (case slab_allocate (tier_slab tier h) of
            (r, s) \<Rightarrow> (map_err (\<lambda>_. AllocError) r, tier_update tier s h)))"

definition kheap_deallocate :: "kheap \<Rightarrow> addr \<Rightarrow> layout \<Rightarrow> (alloc_error, unit) res \<times> kheap" where
  "kheap_deallocate h ptr l =
    (case layout_to_allocator l of
       Err e \<Rightarrow> (Err e, h) | Panic \<Rightarrow> (Panic, h)
     | Ok tier \<Rightarrow>
         (case slab_deallocate (tier_slab tier h) ptr of
            (r, s) \<Rightarrow> (map_err (\<lambda>_. AllocError) r, tier_update tier s h)))"

record heap_globals =
  HEAP :: "kheap option"
  BACKING_PTR :: addr
  BACKING_SIZE :: usize

text \<open>\<open>GlobalAlloc::alloc\<close> returns the null pointer on failure; \<open>None\<close> is a panic.\<close>

definition global_alloc :: "heap_globals \<Rightarrow> layout \<Rightarrow> addr option \<times> heap_globals" where
  "global_alloc g l =
    (case HEAP g of
       Some heap \<Rightarrow>
         (case kheap_allocate heap l of
            (Ok p, heap') \<Rightarrow> (Some p, g\<lparr>HEAP := Some heap'\<rparr>)
          | (Err e, heap') \<Rightarrow> (Some 0, g\<lparr>HEAP := Some heap'\<rparr>)
          | (Panic, heap') \<Rightarrow> (None, g\<lparr>HEAP := Some heap'\<rparr>))
     | None \<Rightarrow> (Some 0, g))"

definition global_dealloc :: "heap_globals \<Rightarrow> addr \<Rightarrow> layout \<Rightarrow> unit option \<times> heap_globals" where
  "global_dealloc g ptr l =
    (case HEAP g of
       Some heap \<Rightarrow>
         (case kheap_deallocate heap ptr l of
            (Panic, heap') \<Rightarrow> (None, g\<lparr>HEAP := Some heap'\<rparr>)
          | (_, heap') \<Rightarrow> (Some (), g\<lparr>HEAP := Some heap'\<rparr>))
     | None \<Rightarrow> (Some (), g))"

definition set_backing_storage :: "heap_globals \<Rightarrow> addr \<Rightarrow> usize \<Rightarrow> unit kres \<times> heap_globals" where
  "set_backing_storage g ptr sz =
    (if ptr = 0 then (fail InvalidArgument ''null backing storage pointer'', g)
     else if ptr mod PAGE_SIZE \<noteq> 0
     then (fail InvalidArgument ''unaligned backing storage pointer'', g)
     else if sz < MIN_HEAP_SIZE then (fail InvalidArgument ''backing storage too small'', g)
     else if sz mod MIN_HEAP_SIZE \<noteq> 0
     then (fail InvalidArgument ''backing storage size is not a multiple of MIN_HEAP_SIZE'', g)
     else (Ok (), g\<lparr>BACKING_PTR := ptr, BACKING_SIZE := sz\<rparr>))"

definition kheap_init :: "heap_globals \<Rightarrow> unit kres \<times> heap_globals" where
  "kheap_init g =
    (if BACKING_PTR g = 0 then (fail InvalidArgument ''backing storage not set'', g)
     else case kheap_from_raw_parts (BACKING_PTR g) (BACKING_SIZE g) of
            Ok heap \<Rightarrow> (Ok (), g\<lparr>HEAP := Some heap\<rparr>)
          | Err e \<Rightarrow> (Err e, g)
          | Panic \<Rightarrow> (Panic, g))"

section \<open>Invariant\<close>

fun tier_number :: "slab_size \<Rightarrow> nat" where
  "tier_number Slab8 = 0"
| "tier_number Slab16 = 1"
| "tier_number Slab32 = 2"
| "tier_number Slab64 = 3"
| "tier_number Slab128 = 4"
| "tier_number Slab256 = 5"
| "tier_number Slab512 = 6"

definition kheap_inv :: "kheap \<Rightarrow> bool" where
  "kheap_inv h \<longleftrightarrow>
    (\<forall>t. slab_inv (tier_slab t h) \<and> block_size (tier_slab t h) = slab_bytes t \<and>
         0 < data_addr (tier_slab t h)) \<and>
    (\<forall>t u. tier_number t < tier_number u \<longrightarrow>
         end_addr (tier_slab t h) \<le> data_addr (tier_slab u h))"

text \<open>The bytes of the live blocks, of every tier.\<close>

definition live_bytes :: "kheap \<Rightarrow> addr set" where
  "live_bytes h = (\<Union>t. \<Union>p \<in> slab_live (tier_slab t h). {p..<p + slab_bytes t})"

section \<open>Tiers\<close>

lemma tier_slab_update [simp]:
  "tier_slab t (tier_update u s h) = (if t = u then s else tier_slab t h)"
  by (cases t; cases u) simp_all

lemma slab_bytes_pos [simp]: "0 < slab_bytes t"
  by (cases t) simp_all

lemma tier_number_inj: "tier_number t = tier_number u \<longleftrightarrow> t = u"
  by (cases t; cases u) simp_all

lemma tier_fits:
  assumes "layout_to_allocator l = Ok t"
  shows "0 < layout_size l" "layout_size l \<le> slab_bytes t"
  using assms by (auto simp: layout_to_allocator_def Let_def split: if_splits)

lemma tier_exists_iff: "(\<exists>t. layout_to_allocator l = Ok t) \<longleftrightarrow> 1 \<le> layout_size l \<and> layout_size l \<le> 512"
  by (simp add: layout_to_allocator_def Let_def) linarith

lemma tier_no_panic [simp]: "layout_to_allocator l \<noteq> Panic"
  by (simp add: layout_to_allocator_def Let_def)

lemma slab_bytes_power: "\<exists>k. slab_bytes t = 2 ^ k"
  by (cases t) (auto intro: exI [of _ 3] exI [of _ 4] exI [of _ 5] exI [of _ 6] exI [of _ 7]
      exI [of _ 8] exI [of _ 9])

text \<open>A power of two that is at most the tier's size divides it.\<close>

lemma align_divides_tier:
  assumes "layout_align l = 2 ^ a" "layout_align l \<le> layout_size l" "layout_to_allocator l = Ok t"
  shows "layout_align l dvd slab_bytes t"
proof -
  obtain k where k: "slab_bytes t = 2 ^ k" using slab_bytes_power by blast
  have "(2::nat) ^ a \<le> 2 ^ k" using tier_fits(2) [OF assms(3)] assms(1,2) k by linarith
  then have "a \<le> k" by simp
  then show ?thesis unfolding k assms(1) by (rule le_imp_power_dvd)
qed

lemma slab_allocate_addrs:
  "slab_allocate s = (r, s') \<Longrightarrow> data_addr s' = data_addr s \<and> end_addr s' = end_addr s"
  by (auto simp: slab_allocate_def split: prod.splits res.splits)

lemma slab_deallocate_addrs:
  "slab_deallocate s p = (r, s') \<Longrightarrow> data_addr s' = data_addr s \<and> end_addr s' = end_addr s"
  by (auto simp: slab_deallocate_def Let_def split: prod.splits res.splits if_splits bool.splits)

lemma tier_update_inv:
  assumes "kheap_inv h" "slab_inv s" "block_size s = block_size (tier_slab t h)"
    "data_addr s = data_addr (tier_slab t h) \<and> end_addr s = end_addr (tier_slab t h)"
  shows "kheap_inv (tier_update t s h)"
  using assms unfolding kheap_inv_def by simp

lemma live_block_bounds:
  assumes "kheap_inv h" "q \<in> slab_live (tier_slab t h)"
  shows "data_addr (tier_slab t h) \<le> q" "q + slab_bytes t \<le> end_addr (tier_slab t h)"
proof -
  let ?s = "tier_slab t h"
  have inv: "slab_inv ?s" "block_size ?s = slab_bytes t" using assms(1) by (simp_all add: kheap_inv_def)
  obtain k where k: "q = block_at ?s k" "k < num_blocks ?s" using assms(2) by (auto simp: slab_live_def)
  show "data_addr ?s \<le> q" by (simp add: k(1) block_at_def)
  have "block_at ?s k < block_at ?s (num_blocks ?s)" using k(2) inv by (simp add: block_at_def)
  then have "block_at ?s k + block_size ?s \<le> block_at ?s (num_blocks ?s)" using inv by (intro block_at_less) simp_all
  then show "q + slab_bytes t \<le> end_addr ?s" using inv k(1) by (simp add: slab_inv_def)
qed

text \<open>A block of one tier that overlaps no live block of its tier overlaps no live block at all.\<close>

lemma fresh_across_tiers:
  assumes inv: "kheap_inv h" and p: "data_addr (tier_slab t h) \<le> p" "p + slab_bytes t \<le> end_addr (tier_slab t h)"
    and apart: "\<forall>q \<in> slab_live (tier_slab t h). p + slab_bytes t \<le> q \<or> q + slab_bytes t \<le> p"
  shows "{p..<p + slab_bytes t} \<inter> live_bytes h = {}"
proof -
  have "p + slab_bytes t \<le> q \<or> q + slab_bytes u \<le> p" if q: "q \<in> slab_live (tier_slab u h)" for u q
  proof (cases "u = t")
    case False
    then have "tier_number t < tier_number u \<or> tier_number u < tier_number t"
      using tier_number_inj by (metis linorder_neqE_nat)
    then have "end_addr (tier_slab t h) \<le> data_addr (tier_slab u h) \<or>
        end_addr (tier_slab u h) \<le> data_addr (tier_slab t h)" using inv by (auto simp: kheap_inv_def)
    then show ?thesis using live_block_bounds [OF inv q] p by linarith
  qed (use apart q in blast)
  then show ?thesis unfolding live_bytes_def by fastforce
qed

lemma live_bytes_split:
  "live_bytes h =
    (\<Union>p \<in> slab_live (tier_slab t h). {p..<p + slab_bytes t}) \<union>
    (\<Union>u \<in> - {t}. \<Union>p \<in> slab_live (tier_slab u h). {p..<p + slab_bytes u})"
  unfolding live_bytes_def by blast

lemma live_bytes_update:
  "live_bytes (tier_update t s h) =
    (\<Union>p \<in> slab_live s. {p..<p + slab_bytes t}) \<union>
    (\<Union>u \<in> - {t}. \<Union>p \<in> slab_live (tier_slab u h). {p..<p + slab_bytes u})"
  by (subst live_bytes_split [of _ t]) auto

section \<open>Construction\<close>

lemma kheap_slab_ok:
  assumes "0 < addr" "addr mod PAGE_SIZE = 0" "n = MIN_SLAB_SIZE * k" "0 < k"
    "addr + 7 * n \<le> USIZE_MAX" "i < 7"
  shows "slab_args_ok (addr + i * n) n (slab_bytes t)"
proof -
  have dvd: "slab_bytes t dvd PAGE_SIZE" by (cases t) (auto simp: dvd_def)
  have "PAGE_SIZE dvd addr" using assms(2) by (simp add: mod_0_imp_dvd)
  moreover have "PAGE_SIZE dvd i * n" unfolding assms(3) MIN_SLAB_SIZE_def by (simp add: mult.assoc dvd_def)
  ultimately have "slab_bytes t dvd addr + i * n" using dvd by (meson dvd_add dvd_trans)
  moreover have "slab_bytes t \<le> 512" by (cases t) simp_all
  moreover have "131072 \<le> n" using assms(3,4) by (simp add: MIN_SLAB_SIZE_def)
  moreover have "(i + 1) * n \<le> 7 * n" using assms(6) by (intro mult_right_mono) auto
  then have "addr + i * n + n \<le> USIZE_MAX" using assms(5) by (simp only: add_mult_distrib)
  moreover have "n < I32_MAX" using assms(5) by linarith
  ultimately show ?thesis using assms(1) unfolding slab_args_ok_def by simp
qed

text \<open>The region of the \<open>i\<close>-th slab, and the slab the constructor builds there.\<close>

lemma kheap_slab_made:
  assumes "0 < addr" "addr mod PAGE_SIZE = 0" "n = MIN_SLAB_SIZE * k" "0 < k"
    "addr + 7 * n \<le> USIZE_MAX" "i < 7"
  obtains s where "slab_from_raw_parts (addr + i * n) n (slab_bytes t) = Ok s" "slab_inv s"
    "slab_live s = {}" "block_size s = slab_bytes t" "addr + i * n \<le> data_addr s"
    "end_addr s \<le> addr + i * n + n"
proof -
  note ok = kheap_slab_ok [OF assms, of t]
  then have "addr + i * n \<le> USIZE_MAX" by (simp add: slab_args_ok_def)
  from slab_constructed [OF ok this] show thesis using that by (metis add_leD1)
qed

lemma kheap_made:
  assumes "0 < addr" "addr mod PAGE_SIZE = 0" "sz = MIN_HEAP_SIZE * k" "0 < k" "addr + sz \<le> USIZE_MAX"
  obtains h where "kheap_from_raw_parts addr sz = Ok h" "kheap_inv h" "live_bytes h = {}"
proof -
  define n where "n = MIN_SLAB_SIZE * k"
  have n: "sz div NUM_OF_SLABS = n" "addr + 7 * n \<le> USIZE_MAX"
    using assms by (simp_all add: n_def MIN_HEAP_SIZE_def)
  have "\<exists>s. slab_from_raw_parts (addr + tier_number t * n) n (slab_bytes t) = Ok s \<and>
      slab_inv s \<and> slab_live s = {} \<and> block_size s = slab_bytes t \<and>
      addr + tier_number t * n \<le> data_addr s \<and> end_addr s \<le> addr + tier_number t * n + n" for t
  proof -
    have "tier_number t < 7" by (cases t) simp_all
    from kheap_slab_made [OF assms(1,2) n_def assms(4) n(2) this] show ?thesis by blast
  qed
  then obtain f where f: "slab_from_raw_parts (addr + tier_number t * n) n (slab_bytes t) = Ok (f t) \<and>
      slab_inv (f t) \<and> slab_live (f t) = {} \<and> block_size (f t) = slab_bytes t \<and>
      addr + tier_number t * n \<le> data_addr (f t) \<and> end_addr (f t) \<le> addr + tier_number t * n + n" for t
    by metis
  define h where "h = \<lparr>slab_8_bytes = f Slab8, slab_16_bytes = f Slab16, slab_32_bytes = f Slab32,
    slab_64_bytes = f Slab64, slab_128_bytes = f Slab128, slab_256_bytes = f Slab256,
    slab_512_bytes = f Slab512\<rparr>"
  have tier: "tier_slab t h = f t" for t by (cases t) (simp_all add: h_def)
  have "sz mod MIN_HEAP_SIZE = 0" "MIN_HEAP_SIZE \<le> sz" using assms(3,4) by simp_all
  moreover note f [of Slab8] f [of Slab16] f [of Slab32] f [of Slab64] f [of Slab128] f [of Slab256] f [of Slab512]
  ultimately have "kheap_from_raw_parts addr sz = Ok h"
    using assms(2) unfolding kheap_from_raw_parts_def n(1) Let_def by (simp add: h_def not_less [symmetric])
  moreover have "end_addr (f t) \<le> data_addr (f u)" if "tier_number t < tier_number u" for t u
  proof -
    have "(tier_number t + 1) * n \<le> tier_number u * n" using that by (intro mult_right_mono) auto
    then show ?thesis using f [of t] f [of u] by (simp only: add_mult_distrib) linarith
  qed
  then have "kheap_inv h" using f assms(1) unfolding kheap_inv_def tier
    by (metis add_gr_0 order_less_le_trans)
  moreover have "live_bytes h = {}" using f by (simp add: live_bytes_def tier)
  ultimately show thesis by (rule that)
qed

section \<open>Allocation and deallocation\<close>

lemma kheap_allocate_tier:
  assumes "layout_to_allocator l = Ok t" "slab_allocate (tier_slab t h) = (r, s)"
  shows "kheap_allocate h l = (map_err (\<lambda>_. AllocError) r, tier_update t s h)"
  using assms by (simp add: kheap_allocate_def)

lemma kheap_deallocate_tier:
  assumes "layout_to_allocator l = Ok t" "slab_deallocate (tier_slab t h) p = (r, s)"
  shows "kheap_deallocate h p l = (map_err (\<lambda>_. AllocError) r, tier_update t s h)"
  using assms by (simp add: kheap_deallocate_def)

lemma kheap_inv_tier:
  "kheap_inv h \<Longrightarrow> slab_inv (tier_slab t h)" "kheap_inv h \<Longrightarrow> block_size (tier_slab t h) = slab_bytes t"
  "kheap_inv h \<Longrightarrow> 0 < data_addr (tier_slab t h)"
  by (simp_all add: kheap_inv_def)

lemma slab_block_aligned:
  assumes "slab_inv s" "p \<in> slab_blocks s"
  shows "p mod block_size s = 0" "data_addr s \<le> p" "p + block_size s \<le> end_addr s"
proof -
  obtain k where k: "k < num_blocks s" "p = block_at s k" using assms(2) by (auto simp: slab_blocks_def)
  have "block_at s k < block_at s (num_blocks s)" using k assms(1) by (simp add: slab_inv_def block_at_def)
  then show "p mod block_size s = 0" "data_addr s \<le> p" "p + block_size s \<le> end_addr s"
    using block_at_less [of s k "num_blocks s"] k assms(1) by (auto simp: slab_inv_def block_at_def)
qed

text \<open>Freeing a block just allocated restores the live bytes.\<close>

lemma kheap_get_put:
  assumes inv: "kheap_inv h" and tier: "layout_to_allocator l = Ok t"
    and get: "slab_allocate (tier_slab t h) = (Ok p, s)" and inv': "kheap_inv (tier_update t s h)"
  shows "case kheap_deallocate (tier_update t s h) p l of (u, h'') \<Rightarrow>
    u = Ok () \<and> kheap_inv h'' \<and> live_bytes h'' = live_bytes h"
proof -
  let ?h = "tier_update t s h"
  obtain u s'' where put: "slab_deallocate (tier_slab t ?h) p = (u, s'')" by fastforce
  then have put': "slab_deallocate s p = (u, s'')" by simp
  note rt = sl.get_put [OF kheap_inv_tier(1) [OF inv] get put']
  have "block_size s'' = block_size (tier_slab t ?h)"
    using sl.put_spec [OF kheap_inv_tier(1) [OF inv'] put] by simp
  then have "kheap_inv (tier_update t s'' ?h)"
    using rt(3) slab_deallocate_addrs [OF put] by (intro tier_update_inv [OF inv'])
  moreover have "live_bytes (tier_update t s'' ?h) = live_bytes h"
    unfolding live_bytes_update live_bytes_split [of h t] using rt(2) by auto
  ultimately show ?thesis using kheap_deallocate_tier [OF tier put] rt(1) by simp
qed

section \<open>Properties\<close>

text \<open>
  \<open>Kheap::from_raw_parts\<close> on a backing buffer that lies in the address space: a page-aligned
  buffer whose size is a non-zero multiple of the minimum heap size gives a well-formed heap (seven
  slabs in disjoint parts of the buffer, each with its own block size) with nothing allocated; any
  other buffer is refused with \<open>InvalidArgument\<close>.
\<close>

lemma kheap_from_raw_parts_correct:
  assumes "0 < addr" "addr + sz \<le> USIZE_MAX"
  shows "case kheap_from_raw_parts addr sz of
      Ok h \<Rightarrow> addr mod PAGE_SIZE = 0 \<and> 0 < sz \<and> sz mod MIN_HEAP_SIZE = 0 \<and> kheap_inv h \<and> live_bytes h = {}
    | Err e \<Rightarrow> \<not> (addr mod PAGE_SIZE = 0 \<and> 0 < sz \<and> sz mod MIN_HEAP_SIZE = 0) \<and> code e = InvalidArgument
    | Panic \<Rightarrow> False"
proof (cases "addr mod PAGE_SIZE = 0 \<and> 0 < sz \<and> sz mod MIN_HEAP_SIZE = 0")
  case True
  then obtain k where k: "sz = MIN_HEAP_SIZE * k" by (metis mod_0_imp_dvd dvdE)
  then have "0 < k" using True by (cases k) auto
  obtain h where "kheap_from_raw_parts addr sz = Ok h" "kheap_inv h" "live_bytes h = {}"
    using kheap_made [OF assms(1) conjunct1 [OF True] k \<open>0 < k\<close> assms(2)] .
  with True show ?thesis by simp
next
  case False
  have "\<exists>msg. kheap_from_raw_parts addr sz = fail InvalidArgument msg"
    unfolding kheap_from_raw_parts_def
  proof (rule fail_chain, rule fail_chain, rule fail_chain, rule FalseE)
    assume "\<not> addr mod PAGE_SIZE \<noteq> 0" "\<not> sz < MIN_HEAP_SIZE" "\<not> sz mod MIN_HEAP_SIZE \<noteq> 0"
    then show False using False by (simp add: MIN_HEAP_SIZE_def MIN_SLAB_SIZE_def)
  qed
  then show ?thesis using False by (auto simp: fail_def)
qed

text \<open>
  C4. An allocation from a well-formed heap keeps it well-formed. On success the block is not null,
  holds the requested number of bytes, overlaps no live block of any tier, and is aligned as asked
  whenever the alignment is a power of two no larger than the size (every Rust type's layout is);
  its bytes become live. Freeing it with the same layout makes exactly those bytes free again. On
  failure the live bytes are unchanged, and a size from 1 to 512 fails only when its tier is full.
\<close>

theorem kheap_allocate_correct:
  assumes inv: "kheap_inv h" and eq: "kheap_allocate h l = (r, h')"
  shows "kheap_inv h' \<and>
    (case r of
       Ok p \<Rightarrow> 0 < p \<and> {p..<p + layout_size l} \<inter> live_bytes h = {} \<and>
         (\<forall>a. layout_align l = 2 ^ a \<and> layout_align l \<le> layout_size l \<longrightarrow> p mod layout_align l = 0) \<and>
         {p..<p + layout_size l} \<subseteq> live_bytes h' \<and>
         (case kheap_deallocate h' p l of (u, h'') \<Rightarrow>
            u = Ok () \<and> kheap_inv h'' \<and> live_bytes h'' = live_bytes h)
     | Err e \<Rightarrow> live_bytes h' = live_bytes h \<and>
         (\<forall>t. layout_to_allocator l = Ok t \<longrightarrow> slab_live (tier_slab t h) = slab_blocks (tier_slab t h))
     | Panic \<Rightarrow> False)"
proof (cases "layout_to_allocator l")
  case (Err e)
  then show ?thesis using inv eq by (auto simp: kheap_allocate_def)
next
  case (Ok t)
  let ?s = "tier_slab t h"
  note tier = kheap_inv_tier [OF inv, of t]
  obtain q s where get: "slab_allocate ?s = (q, s)" by fastforce
  note spec = sl.get_spec [OF tier(1) get]
  have h': "h' = tier_update t s h" and r: "r = map_err (\<lambda>_. AllocError) q"
    using eq kheap_allocate_tier [OF Ok get] by simp_all
  have inv': "kheap_inv h'" unfolding h'
    using spec slab_allocate_addrs [OF get] by (intro tier_update_inv [OF inv]) auto
  show ?thesis
  proof (cases q)
    case q: (Ok p)
    have get': "slab_allocate ?s = (Ok p, s)" using get q by simp
    have p: "p \<in> slab_blocks ?s" "slab_live s = insert p (slab_live ?s)" using spec q by auto
    note al = slab_block_aligned [OF tier(1) p(1), unfolded tier(2)]
    note sz = tier_fits [OF Ok]
    have fresh: "{p..<p + slab_bytes t} \<inter> live_bytes h = {}"
      using fresh_across_tiers [OF inv al(2,3)] sl.get_fresh_apart [OF tier(1) get'] tier(2) by simp
    have sub: "{p..<p + layout_size l} \<subseteq> {p..<p + slab_bytes t}" using sz(2) by auto
    have "{p..<p + slab_bytes t} \<subseteq> live_bytes h'" unfolding h' live_bytes_update p(2) by blast
    moreover have "p mod layout_align l = 0" if "layout_align l = 2 ^ a" "layout_align l \<le> layout_size l" for a
      using align_divides_tier [OF that Ok] al(1) by (metis dvd_trans mod_0_imp_dvd dvd_imp_mod_0)
    moreover note kheap_get_put [OF inv Ok get' inv' [unfolded h'], folded h']
    moreover have "{p..<p + layout_size l} \<inter> live_bytes h = {}" using fresh sub by blast
    moreover have "0 < p" using al(2) tier(3) by linarith
    ultimately show ?thesis using inv' r q sub by auto
  next
    case (Err e)
    have "slab_live s = slab_live ?s" using spec Err by auto
    then have "live_bytes h' = live_bytes h"
      unfolding h' live_bytes_update live_bytes_split [of h t] by simp
    then show ?thesis using inv' r Err spec Ok by auto
  qed (use spec in auto)
qed simp

definition sample_heap :: kheap where
  "sample_heap =
    \<lparr>slab_8_bytes = sample_slab\<lparr>data_addr := 1024, end_addr := 1152, block_size := 8\<rparr>,
     slab_16_bytes = sample_slab\<lparr>data_addr := 4096, end_addr := 4352, block_size := 16\<rparr>,
     slab_32_bytes = sample_slab\<lparr>data_addr := 8192, end_addr := 8704, block_size := 32\<rparr>,
     slab_64_bytes = sample_slab\<lparr>data_addr := 12288, end_addr := 13312, block_size := 64\<rparr>,
     slab_128_bytes = sample_slab\<lparr>data_addr := 16384, end_addr := 18432, block_size := 128\<rparr>,
     slab_256_bytes = sample_slab\<lparr>data_addr := 32768, end_addr := 36864, block_size := 256\<rparr>,
     slab_512_bytes = sample_slab\<lparr>data_addr := 65536, end_addr := 73728, block_size := 512\<rparr>\<rparr>"

lemma sample_heap_inv: "kheap_inv sample_heap"
proof -
  have "slab_inv (tier_slab t sample_heap) \<and> block_size (tier_slab t sample_heap) = slab_bytes t \<and>
      0 < data_addr (tier_slab t sample_heap)" for t
    using sample_bitmap_inv
    by (cases t) (simp_all add: sample_heap_def sample_slab_def slab_inv_def num_blocks_def
        block_at_def sample_bitmap_def)
  moreover have "end_addr (tier_slab t sample_heap) \<le> data_addr (tier_slab u sample_heap)"
    if "tier_number t < tier_number u" for t u
    using that by (cases t; cases u) (simp_all add: sample_heap_def)
  ultimately show ?thesis by (simp add: kheap_inv_def)
qed

theorem kheap_allocate_correct_witness:
  "fst (kheap_allocate sample_heap \<lparr>layout_size = 24, layout_align = 8\<rparr>) = Ok 8640 \<and>
   {8640..<8664} \<inter> live_bytes sample_heap = {}"
proof -
  let ?l = "\<lparr>layout_size = 24, layout_align = 8\<rparr>"
  have ok: "fst (kheap_allocate sample_heap ?l) = Ok 8640" by code_simp
  show ?thesis using kheap_allocate_correct [OF sample_heap_inv surjective_pairing, of ?l] ok by simp
qed

end
