(* ===== verification/System_Times.thy ===== *)
theory System_Times
  imports Nanvix_Prelude
begin

text \<open>
  Time stamps (\<open>src/src/libs/sys/src/sys/time/mod.rs\<close>) and the kernel clock they come from
  (\<open>src/src/kernel/src/pm/clock.rs\<close>). A time stamp is a number of seconds and of nanoseconds; its
  abstract value is \<open>nanos\<close>, the nanoseconds since the epoch. \<open>Duration\<close> of the standard library
  is such a pair too. \<open>u64\<close> subtraction panics or wraps around according to the build profile, which
  is the parameter \<open>overflow_checks\<close>. The paravirtual clock is hardware and so is the frequency of
  the timer: both are parameters of \<open>clock_now\<close>.
\<close>

section \<open>Definitions\<close>

abbreviation (input) NANOSECONDS_PER_SECOND :: nat where "NANOSECONDS_PER_SECOND \<equiv> 1000000000"
abbreviation (input) U64_MAX :: nat where "U64_MAX \<equiv> 18446744073709551615"

datatype system_time = SystemTime (seconds: nat) (nanoseconds: nat)

text \<open>\<open>core::time::Duration\<close>, whose sub-second part stays below a second.\<close>

datatype duration = Duration (as_secs: nat) (subsec_nanos: nat)

definition EPOCH :: system_time where
  "EPOCH = SystemTime 0 0"

definition time_new :: "nat \<Rightarrow> nat \<Rightarrow> system_time option" where
  "time_new s n = (if NANOSECONDS_PER_SECOND \<le> n then None else Some (SystemTime s n))"

definition checked_add_u64 :: "nat \<Rightarrow> nat \<Rightarrow> nat option" where
  "checked_add_u64 a b = (if a + b \<le> U64_MAX then Some (a + b) else None)"

definition checked_sub_uint :: "nat \<Rightarrow> nat \<Rightarrow> nat option" where
  "checked_sub_uint a b = (if b \<le> a then Some (a - b) else None)"

definition u64_sub :: "bool \<Rightarrow> nat \<Rightarrow> nat \<Rightarrow> ('e, nat) res" where
  "u64_sub overflow_checks a b =
    (if b \<le> a then Ok (a - b)
     else if overflow_checks then Panic
     else Ok (U64_MAX + 1 + a - b))"

function checked_sub :: "bool \<Rightarrow> system_time \<Rightarrow> system_time \<Rightarrow> (duration, duration) res" where
  "checked_sub overflow_checks self earlier =
    (if seconds earlier \<le> seconds self
     then (let s = seconds self - seconds earlier
           in if nanoseconds earlier \<le> nanoseconds self
              then Ok (Duration s (nanoseconds self - nanoseconds earlier))
              else bind_res (u64_sub overflow_checks s 1) (\<lambda>adjusted_seconds.
                Ok (Duration adjusted_seconds
                     (NANOSECONDS_PER_SECOND - (nanoseconds earlier - nanoseconds self)))))
     else (case checked_sub overflow_checks earlier self of
             Ok d \<Rightarrow> Err d
           | Err d \<Rightarrow> Ok d
           | Panic \<Rightarrow> Panic))"
  by pat_completeness auto
termination
  by (relation "measure (\<lambda>(_, self, earlier). if seconds earlier \<le> seconds self then 0 else 1)") auto

definition checked_add_duration :: "system_time \<Rightarrow> duration \<Rightarrow> system_time option" where
  "checked_add_duration self d =
    Option.bind (checked_add_u64 (seconds self) (as_secs d)) (\<lambda>new_seconds.
    Option.bind (checked_add (nanoseconds self) (subsec_nanos d)) (\<lambda>new_nanoseconds.
      if NANOSECONDS_PER_SECOND \<le> new_nanoseconds
      then Option.bind (checked_add_u64 new_seconds 1)
             (\<lambda>s. time_new s (new_nanoseconds - NANOSECONDS_PER_SECOND))
      else time_new new_seconds new_nanoseconds))"

definition checked_sub_duration :: "system_time \<Rightarrow> duration \<Rightarrow> system_time option" where
  "checked_sub_duration self d =
    Option.bind (checked_sub_uint (seconds self) (as_secs d)) (\<lambda>new_seconds.
    Option.bind (checked_sub_uint (nanoseconds self) (subsec_nanos d)) (\<lambda>new_nanoseconds.
      if NANOSECONDS_PER_SECOND \<le> new_nanoseconds
      then Option.bind (checked_sub_uint new_seconds 1)
             (\<lambda>s. time_new s (NANOSECONDS_PER_SECOND - new_nanoseconds))
      else time_new new_seconds new_nanoseconds))"

datatype ordering = Less | Equal | Greater

definition u64_cmp :: "nat \<Rightarrow> nat \<Rightarrow> ordering" where
  "u64_cmp a b = (if a < b then Less else if a = b then Equal else Greater)"

definition time_cmp :: "system_time \<Rightarrow> system_time \<Rightarrow> ordering" where
  "time_cmp self other =
    (case u64_cmp (seconds self) (seconds other) of
       Equal \<Rightarrow> u64_cmp (nanoseconds self) (nanoseconds other)
     | ord \<Rightarrow> ord)"

text \<open>The comparison operators of Rust are those of \<open>Ord::cmp\<close>.\<close>

instantiation system_time :: linorder
begin

definition less_eq_system_time :: "system_time \<Rightarrow> system_time \<Rightarrow> bool" where
  "a \<le> b \<longleftrightarrow> time_cmp a b \<noteq> Greater"

definition less_system_time :: "system_time \<Rightarrow> system_time \<Rightarrow> bool" where
  "a < b \<longleftrightarrow> time_cmp a b = Less"

instance
  by standard
     (auto simp: less_eq_system_time_def less_system_time_def time_cmp_def u64_cmp_def
        intro: system_time.expand split: ordering.splits if_splits)

end

subsection \<open>The kernel clock\<close>

record timer_ticks =
  minor :: "32 word"
  major :: "32 word"

definition timer_ticks_new :: timer_ticks where
  "timer_ticks_new = \<lparr>minor = 0, major = 0\<rparr>"

definition increment :: "timer_ticks \<Rightarrow> 32 word \<times> timer_ticks" where
  "increment t =
    (let new_minor = minor t + 1;
         t = t\<lparr>minor := new_minor\<rparr>
     in (new_minor, if new_minor = 0 then t\<lparr>major := major t + 1\<rparr> else t))"

definition ticks :: "timer_ticks \<Rightarrow> nat" where
  "ticks t = unat (major t) * 2 ^ 32 + unat (minor t)"

definition clock_now :: "system_time option \<Rightarrow> nat \<Rightarrow> timer_ticks \<Rightarrow> ('e, system_time) res" where
  "clock_now pvclock timer_freq t =
    (case pvclock of
       Some time \<Rightarrow> Ok time
     | None \<Rightarrow>
         if timer_freq = 0 then Panic
         else let secs = (unat (major t) * 2 ^ 32 + unat (minor t)) div timer_freq;
                  nanosecs = (unat (minor t) mod timer_freq) * (NANOSECONDS_PER_SECOND div timer_freq)
              in (case time_new secs nanosecs of Some time \<Rightarrow> Ok time | None \<Rightarrow> Panic))"

subsection \<open>Specification\<close>

definition nanos :: "system_time \<Rightarrow> nat" where
  "nanos t = seconds t * NANOSECONDS_PER_SECOND + nanoseconds t"

definition duration_nanos :: "duration \<Rightarrow> nat" where
  "duration_nanos d = as_secs d * NANOSECONDS_PER_SECOND + subsec_nanos d"

definition time_ok :: "system_time \<Rightarrow> bool" where
  "time_ok t \<longleftrightarrow> seconds t \<le> U64_MAX \<and> nanoseconds t < NANOSECONDS_PER_SECOND"

definition duration_ok :: "duration \<Rightarrow> bool" where
  "duration_ok d \<longleftrightarrow> as_secs d \<le> U64_MAX \<and> subsec_nanos d < NANOSECONDS_PER_SECOND"

section \<open>Lemmas\<close>

lemma time_new_ok [simp]: "n < NANOSECONDS_PER_SECOND \<Longrightarrow> time_new s n = Some (SystemTime s n)"
  by (simp add: time_new_def)

lemma nanos_le_iff: "time_ok a \<Longrightarrow> time_ok b \<Longrightarrow> a \<le> b \<longleftrightarrow> nanos a \<le> nanos b"
  by (auto simp: less_eq_system_time_def time_cmp_def u64_cmp_def nanos_def time_ok_def
      split: ordering.splits if_splits)

lemma nanos_less_iff: "time_ok a \<Longrightarrow> time_ok b \<Longrightarrow> a < b \<longleftrightarrow> nanos a < nanos b"
  using nanos_le_iff [of b a] by (simp add: linorder_not_le [symmetric])

lemma add_no_carry:
  assumes "time_ok t" "duration_ok d" "nanoseconds t + subsec_nanos d < NANOSECONDS_PER_SECOND"
  shows "checked_add_duration t d =
    (if seconds t + as_secs d \<le> U64_MAX
     then Some (SystemTime (seconds t + as_secs d) (nanoseconds t + subsec_nanos d)) else None)"
  using assms by (simp add: checked_add_duration_def checked_add_u64_def checked_add_def)

lemma add_carry:
  assumes "time_ok t" "duration_ok d" "NANOSECONDS_PER_SECOND \<le> nanoseconds t + subsec_nanos d"
  shows "checked_add_duration t d =
    (if seconds t + as_secs d + 1 \<le> U64_MAX
     then Some (SystemTime (seconds t + as_secs d + 1)
            (nanoseconds t + subsec_nanos d - NANOSECONDS_PER_SECOND)) else None)"
  using assms
  by (auto simp: checked_add_duration_def checked_add_u64_def checked_add_def time_ok_def
      duration_ok_def time_new_def)

lemma sub_forward:
  assumes "time_ok a" "time_ok b" "seconds b \<le> seconds a"
    "\<not> (seconds a = seconds b \<and> nanoseconds a < nanoseconds b)"
  shows "\<exists>d. checked_sub oc a b = Ok d \<and> duration_ok d \<and> duration_nanos d = nanos a - nanos b"
proof (cases "nanoseconds b \<le> nanoseconds a")
  case True
  then show ?thesis using assms
    by (auto simp: duration_ok_def duration_nanos_def nanos_def time_ok_def diff_mult_distrib)
next
  case False
  then have "1 \<le> seconds a - seconds b" using assms by simp
  then show ?thesis using assms False
    by (auto simp: u64_sub_def duration_ok_def duration_nanos_def nanos_def time_ok_def
        diff_mult_distrib)
qed

lemma sub_same_second:
  assumes "seconds a = seconds b" "nanoseconds a < nanoseconds b"
  shows "checked_sub oc a b =
    (if oc then Panic
     else Ok (Duration U64_MAX (NANOSECONDS_PER_SECOND - (nanoseconds b - nanoseconds a))))"
  using assms by (simp add: u64_sub_def)

lemma sub_backward:
  assumes "time_ok a" "time_ok b" "seconds a < seconds b"
  shows "\<exists>d. checked_sub oc a b = Err d \<and> duration_ok d \<and> duration_nanos d = nanos b - nanos a"
proof -
  obtain d where "checked_sub oc b a = Ok d" "duration_ok d" "duration_nanos d = nanos b - nanos a"
    using sub_forward [of b a oc] assms by auto
  then show ?thesis using assms by (subst checked_sub.simps) simp
qed

declare checked_sub.simps [simp del]

lemma unat_bound: "unat m < 4294967296" for m :: "32 word"
  using unsigned_less [of m, where 'a = nat] by simp

lemma unat_next: "unat (m + 1) = (unat m + 1) mod 4294967296" for m :: "32 word"
  by (simp add: unat_word_ariths)

lemma minor_next: "unat m \<noteq> 4294967295 \<Longrightarrow> unat (m + 1) = unat m + 1" for m :: "32 word"
  using unat_bound [of m] by (simp add: unat_next)

lemma minor_wraps: "m + 1 = 0 \<longleftrightarrow> unat m = 4294967295" for m :: "32 word"
proof -
  have "m + 1 = 0 \<longleftrightarrow> unat (m + 1) = 0" by (simp add: unsigned_eq_0_iff)
  then show ?thesis using minor_next [of m]
    by (cases "unat m = 4294967295") (simp_all add: unat_next)
qed

lemma ticks_increment: "ticks (snd (increment t)) = (ticks t + 1) mod 2 ^ 64"
proof (cases "unat (minor t) = 4294967295")
  case True
  have "unat (major t + 1) * 4294967296 = (unat (major t) + 1) * 4294967296 mod 2 ^ 64"
    by (simp add: unat_word_ariths mod_mult_mult2 [of "Suc (unat (major t))" 4294967296, symmetric])
  then show ?thesis using True minor_wraps [of "minor t"] by (simp add: increment_def ticks_def)
next
  case False
  then show ?thesis
    using unat_bound [of "minor t"] unat_bound [of "major t"] minor_next [OF False] minor_wraps [of "minor t"]
    by (simp add: increment_def ticks_def Let_def)
qed

lemma tick_nanoseconds_bound:
  assumes "0 < f"
  shows "m mod f * (NANOSECONDS_PER_SECOND div f) < NANOSECONDS_PER_SECOND"
proof -
  have "m mod f * (NANOSECONDS_PER_SECOND div f) \<le> (f - 1) * (NANOSECONDS_PER_SECOND div f)"
    using mod_less_divisor [OF assms, of m] by (intro mult_right_mono) linarith+
  also have "\<dots> < NANOSECONDS_PER_SECOND"
  proof (cases "NANOSECONDS_PER_SECOND div f = 0")
    case False
    then have "(f - 1) * (NANOSECONDS_PER_SECOND div f) < f * (NANOSECONDS_PER_SECOND div f)"
      using assms by simp
    also have "\<dots> \<le> NANOSECONDS_PER_SECOND" by (rule times_div_less_eq_dividend)
    finally show ?thesis .
  qed simp
  finally show ?thesis .
qed

lemma clock_now_ticks:
  assumes "0 < f"
  shows "clock_now None f t =
    Ok (SystemTime (ticks t div f) (unat (minor t) mod f * (NANOSECONDS_PER_SECOND div f)))"
  using assms tick_nanoseconds_bound [OF assms, of "unat (minor t)"]
  by (simp add: clock_now_def ticks_def Let_def)

lemma div_mod_step:
  fixes m f c :: nat
  assumes "0 < f"
  shows "m div f < (m + 1) div f \<or> m div f = (m + 1) div f \<and> m mod f * c \<le> (m + 1) mod f * c"
proof (cases "(m + 1) mod f = 0")
  case True
  then show ?thesis using assms by (simp add: div_Suc)
next
  case False
  then show ?thesis using assms by (auto simp: div_Suc mod_Suc split: if_splits)
qed

section \<open>Claims\<close>

text \<open>
  C16. Adding a duration to a time stamp: \<open>checked_add_duration\<close> yields the time stamp whose value in
  nanoseconds is the sum, carry included, and \<open>None\<close> exactly when the sum exceeds the range of a
  \<open>u64\<close> number of seconds.
\<close>

theorem checked_add_duration_correct:
  assumes "time_ok t" "duration_ok d"
  shows "case checked_add_duration t d of
           Some r \<Rightarrow> time_ok r \<and> nanos r = nanos t + duration_nanos d
         | None \<Rightarrow> (U64_MAX + 1) * NANOSECONDS_PER_SECOND \<le> nanos t + duration_nanos d"
proof (cases "nanoseconds t + subsec_nanos d < NANOSECONDS_PER_SECOND")
  case True
  then show ?thesis
    by (auto simp: add_no_carry [OF assms True] time_ok_def nanos_def duration_nanos_def)
next
  case False
  then show ?thesis using assms add_carry [OF assms]
    by (auto simp: time_ok_def duration_ok_def nanos_def duration_nanos_def)
qed

theorem checked_add_duration_correct_witness:
  "case checked_add_duration (SystemTime 10 700000000) (Duration 5 400000000) of
     Some r \<Rightarrow> time_ok r \<and> nanos r = 16100000000
   | None \<Rightarrow> False"
  using checked_add_duration_correct [of "SystemTime 10 700000000" "Duration 5 400000000"]
  by (simp add: time_ok_def duration_ok_def nanos_def duration_nanos_def checked_add_duration_def
      checked_add_u64_def checked_add_def)

text \<open>
  C17. The difference of two time stamps: \<open>checked_sub\<close> returns their distance in nanoseconds, as
  \<open>Ok\<close> when the first is the later one and as \<open>Err\<close> otherwise, except when the first is earlier
  within the same second. There the borrow of a second underflows: the function panics with overflow
  checks, and without them reports a distance of more than \<open>u64::MAX\<close> seconds as \<open>Ok\<close>.
\<close>

theorem checked_sub_correct:
  assumes "time_ok a" "time_ok b"
  shows "if seconds a = seconds b \<and> a < b
         then checked_sub oc a b =
           (if oc then Panic
            else Ok (Duration U64_MAX (NANOSECONDS_PER_SECOND - (nanos b - nanos a))))
         else if b \<le> a
         then \<exists>d. checked_sub oc a b = Ok d \<and> duration_ok d \<and> duration_nanos d = nanos a - nanos b
         else \<exists>d. checked_sub oc a b = Err d \<and> duration_ok d \<and> duration_nanos d = nanos b - nanos a"
proof -
  consider "seconds a = seconds b" "nanoseconds a < nanoseconds b" | "seconds a < seconds b"
    | "seconds b \<le> seconds a" "\<not> (seconds a = seconds b \<and> nanoseconds a < nanoseconds b)"
    by linarith
  then show ?thesis
  proof cases
    case 1
    then have "a < b" "nanos b - nanos a = nanoseconds b - nanoseconds a"
      using assms by (auto simp: nanos_less_iff nanos_def)
    then show ?thesis using 1 by (simp add: sub_same_second)
  next
    case 2
    then have "a < b" using assms by (auto simp: nanos_less_iff nanos_def time_ok_def)
    then show ?thesis using 2 sub_backward [OF assms 2, of oc] by auto
  next
    case 3
    then have "b \<le> a" using assms by (auto simp: nanos_le_iff nanos_def time_ok_def)
    then show ?thesis using sub_forward [OF assms 3, of oc] by auto
  qed
qed

theorem checked_sub_correct_witness:
  "checked_sub False (SystemTime 5 0) (SystemTime 5 1) = Ok (Duration U64_MAX 999999999)"
proof -
  have "SystemTime 5 0 < SystemTime 5 1" by (simp add: less_system_time_def time_cmp_def u64_cmp_def)
  then show ?thesis
    using checked_sub_correct [of "SystemTime 5 0" "SystemTime 5 1" False]
    by (simp add: time_ok_def nanos_def)
qed

text \<open>
  Subtracting a duration from a time stamp: \<open>checked_sub_duration\<close> is exact when it succeeds, but
  it never borrows, so it fails whenever the nanoseconds of the duration exceed those of the time
  stamp, even where the difference does not underflow.
\<close>

lemma checked_sub_duration_no_borrow:
  assumes "time_ok t" "duration_ok d"
  shows "case checked_sub_duration t d of
           Some r \<Rightarrow> time_ok r \<and> duration_nanos d \<le> nanos t \<and> nanos r = nanos t - duration_nanos d
         | None \<Rightarrow> nanos t < duration_nanos d \<or> nanoseconds t < subsec_nanos d"
  using assms
  by (auto simp: checked_sub_duration_def checked_sub_uint_def time_ok_def duration_ok_def nanos_def
      duration_nanos_def time_new_def diff_mult_distrib split: option.splits)

text \<open>
  The tick-based clock: a tick increments the 64-bit counter kept in two words, and as long as
  the timer frequency divides the ticks counted by the high word (in particular while that word is
  zero) a tick without a carry never makes the clock go backwards; the clock does not panic for a
  positive frequency.
\<close>

lemma clock_now_monotone:
  assumes "0 < f" "f dvd unat (major t) * 2 ^ 32" "unat (minor t) < 2 ^ 32 - 1"
  shows "ticks (snd (increment t)) = ticks t + 1 \<and>
    (\<exists>a b. clock_now None f t = Ok a \<and> clock_now None f (snd (increment t)) = Ok b \<and> a \<le> b)"
proof -
  have m: "unat (minor t) \<noteq> 4294967295" using assms(3) by simp
  then have n: "minor t + 1 \<noteq> 0" by (simp add: minor_wraps)
  have inc: "snd (increment t) = t\<lparr>minor := minor t + 1\<rparr>" using n by (simp add: increment_def Let_def)
  have t: "ticks (snd (increment t)) = ticks t + 1" by (simp add: inc ticks_def minor_next [OF m])
  obtain k where k: "unat (major t) * 2 ^ 32 = f * k" using assms(2) by auto
  have "ticks t div f = k + unat (minor t) div f"
    "(ticks t + 1) div f = k + (unat (minor t) + 1) div f"
    using assms(1) div_mult_self4 [of f k "unat (minor t) + 1"]
    unfolding ticks_def k by (simp_all add: add.assoc)
  then have "SystemTime (ticks t div f) (unat (minor t) mod f * c)
      \<le> SystemTime ((ticks t + 1) div f) ((unat (minor t) + 1) mod f * c)" for c
    using div_mod_step [OF assms(1), of "unat (minor t)" c]
    by (auto simp: less_eq_system_time_def time_cmp_def u64_cmp_def)
  then show ?thesis unfolding clock_now_ticks [OF assms(1)] t
    by (auto simp: inc minor_next [OF m])
qed

text \<open>
  C18. When the tick-based clock goes backwards. The seconds come from both words of the tick counter and
  the nanoseconds from the low word alone, so a tick makes the clock show an earlier time exactly when
  the low word reaches a multiple of the timer frequency, by a wrap-around or otherwise, while the whole
  counter does not. With a frequency that divides \<open>2 ^ 32\<close> it never does; at 100 Hz it does at the first
  wrap of the low word.
\<close>

theorem clock_now_runs_backwards:
  assumes "0 < f" "ticks t + 1 < 2 ^ 64"
  shows "\<exists>a b. clock_now None f t = Ok a \<and> clock_now None f (snd (increment t)) = Ok b \<and>
    (b < a \<longleftrightarrow> f \<le> NANOSECONDS_PER_SECOND \<and> \<not> f dvd ticks t + 1 \<and>
      f dvd unat (minor (snd (increment t))) \<and> \<not> f dvd unat (minor t)) \<and>
    (if f dvd 2 ^ 32 then a \<le> b else True)"
proof -
  let ?m = "unat (minor t)" and ?n = "unat (minor (snd (increment t)))" and ?c = "NANOSECONDS_PER_SECOND div f"
  have t: "ticks (snd (increment t)) = ticks t + 1" using assms(2) by (simp add: ticks_increment)
  have n: "?n = (if ?m = 4294967295 then 0 else ?m + 1)"
    using minor_wraps [of "minor t"] minor_next [of "minor t"] by (auto simp: increment_def Let_def unat_next)
  have secs: "(ticks t + 1) div f = ticks t div f + (if f dvd ticks t + 1 then 1 else 0)"
    by (simp add: div_Suc dvd_eq_mod_eq_0)
  have less: "?n mod f < ?m mod f \<longleftrightarrow> f dvd ?n \<and> \<not> f dvd ?m"
    using mod_Suc [of ?m f] unfolding n dvd_eq_mod_eq_0 Suc_eq_plus1 [symmetric] by (simp split: if_split)
  have c: "0 < ?c \<longleftrightarrow> f \<le> NANOSECONDS_PER_SECOND" using assms(1) by (simp add: div_greater_zero_iff)
  have pair: "SystemTime s' x' < SystemTime s x \<longleftrightarrow> s' < s \<or> s' = s \<and> x' < x" for s' x' s x
    by (simp add: less_system_time_def time_cmp_def u64_cmp_def)
  have earlier: "SystemTime ((ticks t + 1) div f) (?n mod f * ?c) < SystemTime (ticks t div f) (?m mod f * ?c) \<longleftrightarrow>
      f \<le> NANOSECONDS_PER_SECOND \<and> \<not> f dvd ticks t + 1 \<and> f dvd ?n \<and> \<not> f dvd ?m"
    unfolding pair secs c [symmetric] mult_less_cancel2 less by simp
  have "f dvd ticks t + 1 \<longleftrightarrow> f dvd ?n" if "f dvd 2 ^ 32"
  proof -
    have "f dvd unat (major (snd (increment t))) * 2 ^ 32" using that by simp
    then show ?thesis unfolding t [symmetric] unfolding ticks_def by (rule dvd_add_right_iff)
  qed
  then show ?thesis unfolding clock_now_ticks [OF assms(1)] t using earlier by (auto simp: not_less)
qed

theorem clock_now_runs_backwards_witness:
  "\<exists>a b. clock_now None 100 \<lparr>minor = - 1, major = 0\<rparr> = Ok a \<and>
    clock_now None 100 (snd (increment \<lparr>minor = - 1, major = 0\<rparr>)) = Ok b \<and> b < a"
proof -
  let ?t = "\<lparr>minor = - 1, major = 0\<rparr>"
  have t: "ticks ?t + 1 = 4294967296" "minor (snd (increment ?t)) = 0" "unat (minor ?t) = 4294967295"
    by (simp_all add: ticks_def increment_def unsigned_minus_1_eq_mask mask_eq_exp_minus_1)
  have "\<not> (100 :: nat) dvd 4294967296" "\<not> (100 :: nat) dvd 4294967295" by simp_all
  then show ?thesis using clock_now_runs_backwards [of 100 ?t] unfolding t by auto
qed

end
