(* ===== verification/Threads.thy ===== *)
theory Threads
  imports Errors System_Times
begin

text \<open>
  Threads, their states and the thread manager (\<open>src/src/kernel/src/pm/thread/\<close>). Each state of the
  source (\<open>ReadyThread\<close>, \<open>RunningThread\<close>, \<open>SleepingThread\<close>, \<open>InterruptedThread\<close>, \<open>ZombieThread\<close>) is a
  record around a \<open>thread_state\<close>, and each transition a function. The current time
  (\<open>clock::now()\<close>) is a parameter \<open>now\<close>. The machine context, the FPU state and the join condition
  variable of a thread exist once per thread and never move to another one, so a pointer to the
  context and a handle of the condition variable are the identifier of the thread that owns them; a
  kernel stack is the address of its top and a mutex guard the handle of its mutex.
\<close>

section \<open>Definitions\<close>

type_synonym tid = int
type_synonym pid = int
type_synonym mutex_handle = nat

text \<open>An exit status is a 32-bit number; an error code converts to one through its value.\<close>

definition exit_status_from_error :: "error_code \<Rightarrow> nat" where
  "exit_status_from_error e = nat (discriminant e)"

datatype interrupt_reason = Killed | TimedOut

record user_stack =
  us_base :: addr
  us_top :: addr

record thread_state =
  ts_id :: tid
  ts_kernel_stack :: "addr option"
  ts_user_stack :: "user_stack option"
  ts_user_tda :: "addr option"
  ts_locked_mutexes :: "(addr \<times> mutex_handle) list"
  ts_interrupt_reason :: "interrupt_reason option"
  ts_detached :: bool

definition thread_state_new ::
  "tid \<Rightarrow> addr option \<Rightarrow> user_stack option \<Rightarrow> addr option \<Rightarrow> thread_state" where
  "thread_state_new tid kernel_stack user_stack user_tda =
    \<lparr>ts_id = tid, ts_kernel_stack = kernel_stack, ts_user_stack = user_stack, ts_user_tda = user_tda,
     ts_locked_mutexes = [], ts_interrupt_reason = None, ts_detached = False\<rparr>"

definition context_mut :: "thread_state \<Rightarrow> tid" where
  "context_mut s = ts_id s"

definition join_cond :: "thread_state \<Rightarrow> tid" where
  "join_cond s = ts_id s"

text \<open>\<open>BTreeMap::insert\<close> and \<open>BTreeMap::remove\<close> on an association list with one entry per key.\<close>

definition map_insert :: "'k \<Rightarrow> 'v \<Rightarrow> ('k \<times> 'v) list \<Rightarrow> ('k \<times> 'v) list" where
  "map_insert k v m = (k, v) # filter (\<lambda>(k', _). k' \<noteq> k) m"

definition map_remove :: "'k \<Rightarrow> ('k \<times> 'v) list \<Rightarrow> 'v option \<times> ('k \<times> 'v) list" where
  "map_remove k m = (map_of m k, filter (\<lambda>(k', _). k' \<noteq> k) m)"

definition store_mutex_guard :: "thread_state \<Rightarrow> addr \<Rightarrow> mutex_handle \<Rightarrow> thread_state" where
  "store_mutex_guard s address guard =
    s\<lparr>ts_locked_mutexes := map_insert address guard (ts_locked_mutexes s)\<rparr>"

definition take_mutex_guard :: "thread_state \<Rightarrow> addr \<Rightarrow> mutex_handle option \<times> thread_state" where
  "take_mutex_guard s address =
    (let (guard, rest) = map_remove address (ts_locked_mutexes s)
     in (guard, s\<lparr>ts_locked_mutexes := rest\<rparr>))"

definition set_interrupt_reason :: "thread_state \<Rightarrow> interrupt_reason \<Rightarrow> thread_state" where
  "set_interrupt_reason s cause = s\<lparr>ts_interrupt_reason := Some cause\<rparr>"

definition take_interrupt_reason :: "thread_state \<Rightarrow> interrupt_reason option \<times> thread_state" where
  "take_interrupt_reason s = (ts_interrupt_reason s, s\<lparr>ts_interrupt_reason := None\<rparr>)"

definition set_detached :: "thread_state \<Rightarrow> thread_state" where
  "set_detached s = s\<lparr>ts_detached := True\<rparr>"

definition take_kernel_stack :: "thread_state \<Rightarrow> addr option \<times> thread_state" where
  "take_kernel_stack s = (ts_kernel_stack s, s\<lparr>ts_kernel_stack := None\<rparr>)"

definition take_user_stack :: "thread_state \<Rightarrow> user_stack option \<times> thread_state" where
  "take_user_stack s = (ts_user_stack s, s\<lparr>ts_user_stack := None\<rparr>)"

definition store_thread_data_area :: "thread_state \<Rightarrow> addr option \<Rightarrow> thread_state" where
  "store_thread_data_area s tda = s\<lparr>ts_user_tda := tda\<rparr>"

subsection \<open>The states of a thread\<close>

record ready_thread =
  rd_state :: thread_state
  rd_admission_time :: system_time

record running_thread =
  rn_state :: thread_state

record sleeping_thread =
  sl_state :: thread_state
  sl_alarm :: "system_time option"

record interrupted_thread =
  in_state :: thread_state
  in_reason :: interrupt_reason

record zombie_thread =
  zb_status :: nat
  zb_state :: thread_state

definition ready_new ::
  "system_time \<Rightarrow> tid \<Rightarrow> addr option \<Rightarrow> user_stack option \<Rightarrow> addr option \<Rightarrow> ready_thread" where
  "ready_new now tid kernel_stack user_stack user_tda =
    \<lparr>rd_state = thread_state_new tid kernel_stack user_stack user_tda, rd_admission_time = now\<rparr>"

definition ready_from_state :: "system_time \<Rightarrow> thread_state \<Rightarrow> ready_thread" where
  "ready_from_state now s = \<lparr>rd_state = s, rd_admission_time = now\<rparr>"

definition ready_run ::
  "ready_thread \<Rightarrow> running_thread \<times> interrupt_reason option \<times> tid \<times> addr option" where
  "ready_run t =
    (let ctx = context_mut (rd_state t);
         (cause, s) = take_interrupt_reason (rd_state t)
     in (\<lparr>rn_state = s\<rparr>, cause, ctx, ts_user_tda s))"

definition ready_terminate :: "ready_thread \<Rightarrow> zombie_thread" where
  "ready_terminate t = \<lparr>zb_status = exit_status_from_error Interrupted, zb_state = rd_state t\<rparr>"

definition running_sleep :: "running_thread \<Rightarrow> system_time option \<Rightarrow> sleeping_thread \<times> tid" where
  "running_sleep t alarm = (\<lparr>sl_state = rn_state t, sl_alarm = alarm\<rparr>, context_mut (rn_state t))"

definition running_schedule :: "system_time \<Rightarrow> running_thread \<Rightarrow> ready_thread \<times> tid" where
  "running_schedule now t = (ready_from_state now (rn_state t), context_mut (rn_state t))"

definition running_exit :: "running_thread \<Rightarrow> nat \<Rightarrow> zombie_thread \<times> tid" where
  "running_exit t status = (\<lparr>zb_status = status, zb_state = rn_state t\<rparr>, context_mut (rn_state t))"

definition sleeping_wakeup :: "system_time \<Rightarrow> sleeping_thread \<Rightarrow> ready_thread" where
  "sleeping_wakeup now t = ready_from_state now (sl_state t)"

definition sleeping_interrupt :: "sleeping_thread \<Rightarrow> interrupt_reason \<Rightarrow> interrupted_thread" where
  "sleeping_interrupt t cause = \<lparr>in_state = sl_state t, in_reason = cause\<rparr>"

definition interrupted_resume :: "system_time \<Rightarrow> interrupted_thread \<Rightarrow> ready_thread" where
  "interrupted_resume now t = ready_from_state now (set_interrupt_reason (in_state t) (in_reason t))"

definition zombie_harvest :: "zombie_thread \<Rightarrow> addr option \<times> user_stack option" where
  "zombie_harvest t =
    (let (kernel_stack, s) = take_kernel_stack (zb_state t); (user_stack, s) = take_user_stack s
     in (kernel_stack, user_stack))"

text \<open>What a thread keeps while its state stays: mutex guards, the thread data area and the detached mark.\<close>

definition running_put_mutex_guard :: "running_thread \<Rightarrow> addr \<Rightarrow> mutex_handle \<Rightarrow> running_thread" where
  "running_put_mutex_guard t mutex_addr guard = t\<lparr>rn_state := store_mutex_guard (rn_state t) mutex_addr guard\<rparr>"

definition running_take_mutex_guard :: "running_thread \<Rightarrow> addr \<Rightarrow> mutex_handle option \<times> running_thread" where
  "running_take_mutex_guard t mutex_addr =
    (let (guard, s) = take_mutex_guard (rn_state t) mutex_addr in (guard, t\<lparr>rn_state := s\<rparr>))"

definition running_set_thread_data_area :: "running_thread \<Rightarrow> addr option \<Rightarrow> running_thread" where
  "running_set_thread_data_area t user_tda = t\<lparr>rn_state := store_thread_data_area (rn_state t) user_tda\<rparr>"

definition sleeping_set_thread_data_area :: "sleeping_thread \<Rightarrow> addr option \<Rightarrow> sleeping_thread" where
  "sleeping_set_thread_data_area t user_tda = t\<lparr>sl_state := store_thread_data_area (sl_state t) user_tda\<rparr>"

definition running_set_detached :: "running_thread \<Rightarrow> running_thread" where
  "running_set_detached t = t\<lparr>rn_state := set_detached (rn_state t)\<rparr>"

definition ready_set_detached :: "ready_thread \<Rightarrow> ready_thread" where
  "ready_set_detached t = t\<lparr>rd_state := set_detached (rd_state t)\<rparr>"

definition sleeping_set_detached :: "sleeping_thread \<Rightarrow> sleeping_thread" where
  "sleeping_set_detached t = t\<lparr>sl_state := set_detached (sl_state t)\<rparr>"

definition interrupted_set_detached :: "interrupted_thread \<Rightarrow> interrupted_thread" where
  "interrupted_set_detached t = t\<lparr>in_state := set_detached (in_state t)\<rparr>"

datatype thread_ref =
    ReadyThread ready_thread
  | RunningThread running_thread
  | SleepingThread sleeping_thread
  | InterruptedThread interrupted_thread
  | ZombieThread zombie_thread

fun thread_ref_state :: "thread_ref \<Rightarrow> thread_state" where
  "thread_ref_state (ReadyThread t) = rd_state t"
| "thread_ref_state (RunningThread t) = rn_state t"
| "thread_ref_state (SleepingThread t) = sl_state t"
| "thread_ref_state (InterruptedThread t) = in_state t"
| "thread_ref_state (ZombieThread t) = zb_state t"

subsection \<open>The thread manager\<close>

record thread_manager =
  tm_next_id :: tid
  tm_live_count :: nat

definition thread_manager_new :: "system_time \<Rightarrow> ready_thread \<times> thread_manager" where
  "thread_manager_new now =
    (ready_new now 0 None None None, \<lparr>tm_next_id = 1, tm_live_count = 1\<rparr>)"

definition try_next_tid :: "nat \<Rightarrow> thread_manager \<Rightarrow> (tid \<times> tid) kres" where
  "try_next_tid max_threads tm =
    (if max_threads \<le> tm_live_count tm
     then fail OutOfMemory ''system-wide thread limit reached''
     else if tm_next_id tm + 1 \<le> int I32_MAX
     then Ok (tm_next_id tm, tm_next_id tm + 1)
     else fail ValueOverflow ''thread identifier overflow'')"

definition commit_next_tid :: "thread_manager \<Rightarrow> tid \<Rightarrow> thread_manager" where
  "commit_next_tid tm next_tid = tm\<lparr>tm_next_id := next_tid, tm_live_count := tm_live_count tm + 1\<rparr>"

definition on_thread_reaped :: "thread_manager \<Rightarrow> unit kres \<times> thread_manager" where
  "on_thread_reaped tm =
    (if tm_live_count tm > 1 then (Ok (), tm\<lparr>tm_live_count := tm_live_count tm - 1\<rparr>)
     else (Panic, tm))"

definition tm_create_thread ::
  "system_time \<Rightarrow> tid \<Rightarrow> addr option \<Rightarrow> user_stack option \<Rightarrow> addr option \<Rightarrow> ready_thread" where
  "tm_create_thread now tid kernel_stack user_stack user_tda =
    ready_new now tid kernel_stack user_stack user_tda"

subsection \<open>Life of a thread\<close>

text \<open>
  One step of a thread, whichever method of its state causes it, and what the step asks the thread to
  keep. Most steps only change the state the thread is in.
\<close>

datatype thread_event = Move | PutGuard addr mutex_handle | TakeGuard addr | SetDataArea "addr option" | Detach

inductive thread_step :: "thread_ref \<Rightarrow> thread_event \<Rightarrow> thread_ref \<Rightarrow> bool" where
  step_run: "thread_step (ReadyThread t) Move (RunningThread (fst (ready_run t)))"
| step_terminate: "thread_step (ReadyThread t) Move (ZombieThread (ready_terminate t))"
| step_sleep: "thread_step (RunningThread t) Move (SleepingThread (fst (running_sleep t alarm)))"
| step_schedule: "thread_step (RunningThread t) Move (ReadyThread (fst (running_schedule now t)))"
| step_exit: "thread_step (RunningThread t) Move (ZombieThread (fst (running_exit t status)))"
| step_wakeup: "thread_step (SleepingThread t) Move (ReadyThread (sleeping_wakeup now t))"
| step_interrupt: "thread_step (SleepingThread t) Move (InterruptedThread (sleeping_interrupt t cause))"
| step_resume: "thread_step (InterruptedThread t) Move (ReadyThread (interrupted_resume now t))"
| step_put_guard: "thread_step (RunningThread t) (PutGuard a g) (RunningThread (running_put_mutex_guard t a g))"
| step_take_guard: "thread_step (RunningThread t) (TakeGuard a) (RunningThread (snd (running_take_mutex_guard t a)))"
| step_running_tda: "thread_step (RunningThread t) (SetDataArea d) (RunningThread (running_set_thread_data_area t d))"
| step_sleeping_tda: "thread_step (SleepingThread s) (SetDataArea d) (SleepingThread (sleeping_set_thread_data_area s d))"
| step_ready_detach: "thread_step (ReadyThread r) Detach (ReadyThread (ready_set_detached r))"
| step_running_detach: "thread_step (RunningThread t) Detach (RunningThread (running_set_detached t))"
| step_sleeping_detach: "thread_step (SleepingThread s) Detach (SleepingThread (sleeping_set_detached s))"
| step_interrupted_detach: "thread_step (InterruptedThread i) Detach (InterruptedThread (interrupted_set_detached i))"

inductive_simps step_zombie_simps [simp]: "thread_step (ZombieThread t) e r"

inductive thread_run :: "thread_ref \<Rightarrow> thread_event list \<Rightarrow> thread_ref \<Rightarrow> bool" where
  run_none: "thread_run r [] r"
| run_more: "thread_run r es r' \<Longrightarrow> thread_step r' e r'' \<Longrightarrow> thread_run r (es @ [e]) r''"

text \<open>The mutexes a thread holds and its data area after a sequence of steps, from the steps alone.\<close>

fun note_guard :: "thread_event \<Rightarrow> (addr \<rightharpoonup> mutex_handle) \<Rightarrow> (addr \<rightharpoonup> mutex_handle)" where
  "note_guard (PutGuard a g) held = held(a \<mapsto> g)"
| "note_guard (TakeGuard a) held = held(a := None)"
| "note_guard _ held = held"

fun note_data_area :: "thread_event \<Rightarrow> addr option \<Rightarrow> addr option" where
  "note_data_area (SetDataArea d) tda = d"
| "note_data_area _ tda = tda"

definition keeps :: "thread_state \<Rightarrow> thread_event list \<Rightarrow> thread_state \<Rightarrow> bool" where
  "keeps new es s \<longleftrightarrow>
    ts_id s = ts_id new \<and> ts_kernel_stack s = ts_kernel_stack new \<and> ts_user_stack s = ts_user_stack new \<and>
    map_of (ts_locked_mutexes s) = fold note_guard es (map_of (ts_locked_mutexes new)) \<and>
    ts_user_tda s = fold note_data_area es (ts_user_tda new) \<and>
    (ts_detached s \<longleftrightarrow> ts_detached new \<or> Detach \<in> set es)"

text \<open>A thread may carry an interrupt reason only after it was resumed from an interruption and before it runs.\<close>

fun reason_consumed :: "thread_ref \<Rightarrow> bool" where
  "reason_consumed (ReadyThread t) = True"
| "reason_consumed (ZombieThread t) = True"
| "reason_consumed r = (ts_interrupt_reason (thread_ref_state r) = None)"

section \<open>Lemmas\<close>

lemmas thread_ops [defs] = ready_run_def ready_terminate_def running_sleep_def running_schedule_def
  running_exit_def sleeping_wakeup_def sleeping_interrupt_def interrupted_resume_def
  ready_from_state_def context_mut_def take_interrupt_reason_def set_interrupt_reason_def

lemmas thread_keeping [defs] = running_put_mutex_guard_def running_take_mutex_guard_def running_set_thread_data_area_def
  sleeping_set_thread_data_area_def running_set_detached_def ready_set_detached_def sleeping_set_detached_def
  interrupted_set_detached_def store_mutex_guard_def take_mutex_guard_def store_thread_data_area_def set_detached_def

lemma map_of_without: "map_of (filter (\<lambda>(k', _). k' \<noteq> k) m) = (map_of m)(k := None)"
  by (induction m) auto

lemma map_of_insert: "map_of (map_insert k v m) = (map_of m)(k \<mapsto> v)"
  by (simp add: map_insert_def map_of_without)

lemma keeps_step:
  assumes "thread_step a e b" "keeps new es (thread_ref_state a)"
  shows "keeps new (es @ [e]) (thread_ref_state b)"
  using assms by (induction rule: thread_step.induct)
    (simp_all add: keeps_def thread_ops thread_keeping map_of_insert map_of_without map_remove_def)

lemma keeps_run: "thread_run a es b \<Longrightarrow> thread_ref_state a = new \<Longrightarrow> keeps new es (thread_ref_state b)"
proof (induction rule: thread_run.induct)
  case (run_none r)
  then show ?case by (simp add: keeps_def)
qed (blast intro: keeps_step)

lemma reason_consumed_step: "thread_step a e b \<Longrightarrow> reason_consumed a \<Longrightarrow> reason_consumed b"
  by (induction rule: thread_step.induct) (simp_all add: thread_ops thread_keeping split: prod.splits)

lemma reason_consumed_run: "thread_run a es b \<Longrightarrow> reason_consumed a \<Longrightarrow> reason_consumed b"
  by (induction rule: thread_run.induct) (auto intro: reason_consumed_step)

section \<open>Claims\<close>



end
