(* ===== verification/Nonempty_Deques.thy ===== *)
theory Nonempty_Deques
  imports Nanvix_Prelude
begin

text \<open>
  The non-empty double-ended queue of \<open>src/src/libs/type-safe/src/vec_deque.rs\<close>, in which a process
  keeps its ready, sleeping, interrupted and zombie threads. A queue is a head and an optional tail;
  the conversion into a plain \<open>VecDeque\<close> is at the same time the abstract view, a list. The loops
  of the source are recursive functions, and a \<open>VecDeque\<close> is a list.
\<close>

section \<open>Vectors\<close>

text \<open>\<open>Iterator::position\<close> and \<open>VecDeque::remove\<close> of the standard library.\<close>

fun position :: "('a \<Rightarrow> bool) \<Rightarrow> 'a list \<Rightarrow> nat option" where
  "position p [] = None"
| "position p (x # xs) = (if p x then Some 0 else map_option Suc (position p xs))"

definition vec_remove :: "'a list \<Rightarrow> nat \<Rightarrow> ('a list \<times> 'a) option" where
  "vec_remove xs i = (if i < length xs then Some (take i xs @ drop (Suc i) xs, xs ! i) else None)"

section \<open>Operations\<close>

datatype 'a ne_deque = NonEmptyVecDeque (ne_head: 'a) (ne_tail: "'a list option")

definition ne_new :: "'a \<Rightarrow> 'a ne_deque" where
  "ne_new first = NonEmptyVecDeque first None"

fun ne_from :: "'a list \<Rightarrow> 'a ne_deque option" where
  "ne_from [] = None"
| "ne_from (x # xs) = Some (NonEmptyVecDeque x (Some xs))"

fun ne_push_back :: "'a ne_deque \<Rightarrow> 'a \<Rightarrow> 'a ne_deque" where
  "ne_push_back (NonEmptyVecDeque h (Some t)) v = NonEmptyVecDeque h (Some (t @ [v]))"
| "ne_push_back (NonEmptyVecDeque h None) v = NonEmptyVecDeque h (Some [v])"

definition ne_append :: "'a ne_deque \<Rightarrow> 'a ne_deque \<Rightarrow> 'a ne_deque" where
  "ne_append q other =
    (let q = ne_push_back q (ne_head other)
     in case ne_tail other of
          Some tail \<Rightarrow>
            (case ne_tail q of
               Some self_tail \<Rightarrow> NonEmptyVecDeque (ne_head q) (Some (self_tail @ tail))
             | None \<Rightarrow> NonEmptyVecDeque (ne_head q) (Some tail))
        | None \<Rightarrow> q)"

fun ne_pop_front :: "'a ne_deque \<Rightarrow> 'a list \<times> 'a" where
  "ne_pop_front (NonEmptyVecDeque h (Some t)) = (t, h)"
| "ne_pop_front (NonEmptyVecDeque h None) = ([], h)"

definition ne_remove_if :: "'a ne_deque \<Rightarrow> ('a \<Rightarrow> bool) \<Rightarrow> 'a ne_deque + ('a list \<times> 'a)" where
  "ne_remove_if q condition =
    (if condition (ne_head q)
     then (case ne_tail q of
             Some tail \<Rightarrow> Inr (tail, ne_head q)
           | None \<Rightarrow> Inr ([], ne_head q))
     else (case ne_tail q of
             Some tail \<Rightarrow>
               (case position condition tail of
                  Some pos \<Rightarrow>
                    (case vec_remove tail pos of
                       Some (tail, extracted) \<Rightarrow> Inr (ne_head q # tail, extracted)
                     | None \<Rightarrow> Inl (NonEmptyVecDeque (ne_head q) (Some tail)))
                | None \<Rightarrow> Inl (NonEmptyVecDeque (ne_head q) (Some tail)))
           | None \<Rightarrow> Inl (NonEmptyVecDeque (ne_head q) None)))"

definition ne_map :: "('b \<Rightarrow> 'a) \<Rightarrow> 'b ne_deque \<Rightarrow> 'a ne_deque" where
  "ne_map f q = NonEmptyVecDeque (f (ne_head q)) (map_option (map f) (ne_tail q))"

text \<open>
  The loop of \<open>remove_min_by_key\<close> over the tail: the smallest key so far and where it was found.
\<close>

fun min_scan :: "('a \<Rightarrow> 'k::linorder) \<Rightarrow> nat \<Rightarrow> 'a list \<Rightarrow> 'k \<Rightarrow> nat option \<Rightarrow> nat option" where
  "min_scan key_fn i [] min_key min_pos = min_pos"
| "min_scan key_fn i (elem # xs) min_key min_pos =
    (let k = key_fn elem
     in if k < min_key then min_scan key_fn (Suc i) xs k (Some i)
        else min_scan key_fn (Suc i) xs min_key min_pos)"

definition ne_remove_min_by_key :: "'a ne_deque \<Rightarrow> ('a \<Rightarrow> 'k::linorder) \<Rightarrow> 'a list \<times> 'a" where
  "ne_remove_min_by_key q key_fn =
    (case ne_tail q of
       None \<Rightarrow> ([], ne_head q)
     | Some tail \<Rightarrow>
         (case min_scan key_fn 0 tail (key_fn (ne_head q)) None of
            None \<Rightarrow> (tail, ne_head q)
          | Some pos \<Rightarrow>
              (case vec_remove tail pos of
                 Some (tail, extracted) \<Rightarrow> (ne_head q # tail, extracted)
               | None \<Rightarrow> (tail, ne_head q))))"

fun ne_to_vec :: "'a ne_deque \<Rightarrow> 'a list" where
  "ne_to_vec (NonEmptyVecDeque h (Some t)) = h # t"
| "ne_to_vec (NonEmptyVecDeque h None) = [h]"

record 'a ne_iter =
  passed_head :: bool
  iter_head :: "'a option"
  iter_tail :: "'a list option"

definition ne_iter :: "'a ne_deque \<Rightarrow> 'a ne_iter" where
  "ne_iter q = \<lparr>passed_head = False, iter_head = Some (ne_head q), iter_tail = ne_tail q\<rparr>"

text \<open>An iterator over a \<open>VecDeque\<close> is the list of the elements it has not yielded.\<close>

definition iter_next :: "'a ne_iter \<Rightarrow> 'a option \<times> 'a ne_iter" where
  "iter_next it =
    (if \<not> passed_head it
     then (iter_head it, it\<lparr>passed_head := True, iter_head := None\<rparr>)
     else (case iter_tail it of
             Some (x # xs) \<Rightarrow> (Some x, it\<lparr>iter_tail := Some xs\<rparr>)
           | Some [] \<Rightarrow> (None, it)
           | None \<Rightarrow> (None, it)))"

definition iter_left :: "'a ne_iter \<Rightarrow> nat" where
  "iter_left it = (if passed_head it then 0 else 1) + length (case iter_tail it of Some t \<Rightarrow> t | None \<Rightarrow> [])"

text \<open>What a \<open>for\<close> loop over the iterator sees.\<close>

function iter_collect :: "'a ne_iter \<Rightarrow> 'a list" where
  "iter_collect it =
    (case iter_next it of
       (None, it') \<Rightarrow> []
     | (Some x, it') \<Rightarrow> x # iter_collect it')"
  by pat_completeness auto
termination
  by (relation "measure iter_left")
     (auto simp: iter_next_def iter_left_def split: if_splits option.splits list.splits)

text \<open>
  Optional queues, as the process states keep them: pushing onto one creates it when it is absent,
  and appending two of them keeps whichever is present.
\<close>

definition opt_push :: "'a ne_deque option \<Rightarrow> 'a \<Rightarrow> 'a ne_deque" where
  "opt_push q x = (case q of Some q \<Rightarrow> ne_push_back q x | None \<Rightarrow> ne_new x)"

definition opt_list :: "'a ne_deque option \<Rightarrow> 'a list" where
  "opt_list q = (case q of Some q \<Rightarrow> ne_to_vec q | None \<Rightarrow> [])"

text \<open>Taking the elements out one by one, always the one with the smallest key.\<close>

fun drain_min :: "nat \<Rightarrow> ('a \<Rightarrow> 'k::linorder) \<Rightarrow> 'a ne_deque \<Rightarrow> 'a list" where
  "drain_min 0 key_fn q = []"
| "drain_min (Suc n) key_fn q =
    (case ne_remove_min_by_key q key_fn of
       (rest, x) \<Rightarrow> x # (case ne_from rest of None \<Rightarrow> [] | Some q' \<Rightarrow> drain_min n key_fn q'))"

section \<open>The list view\<close>

lemma position_Some:
  "position p xs = Some i \<longleftrightarrow> i < length xs \<and> p (xs ! i) \<and> (\<forall>j<i. \<not> p (xs ! j))"
proof (induction xs arbitrary: i)
  case (Cons x xs)
  show ?case by (cases i) (auto simp: Cons.IH less_Suc_eq_0_disj)
qed simp

lemma position_None: "position p xs = None \<longleftrightarrow> (\<forall>x\<in>set xs. \<not> p x)"
  by (induction xs) auto

lemma position_split:
  assumes "position p xs = Some i"
  obtains pre x post where "xs = pre @ x # post" "length pre = i" "p x" "\<forall>y\<in>set pre. \<not> p y"
proof
  show "xs = take i xs @ xs ! i # drop (Suc i) xs"
    using assms by (simp add: position_Some id_take_nth_drop)
  show "length (take i xs) = i" "p (xs ! i)" using assms by (auto simp: position_Some)
  show "\<forall>y\<in>set (take i xs). \<not> p y" using assms by (auto simp: position_Some in_set_conv_nth)
qed

lemma vec_remove_split: "vec_remove (pre @ x # post) (length pre) = Some (pre @ post, x)"
  by (simp add: vec_remove_def)

lemma ne_to_vec_Cons:
  "ne_to_vec q = ne_head q # (case ne_tail q of Some t \<Rightarrow> t | None \<Rightarrow> [])"
  by (cases q rule: ne_to_vec.cases) auto

lemma ne_to_vec_new [simp, refines]: "ne_to_vec (ne_new x) = [x]"
  by (simp add: ne_new_def)

lemma ne_to_vec_push [simp, refines]: "ne_to_vec (ne_push_back q x) = ne_to_vec q @ [x]"
  by (cases "(q, x)" rule: ne_push_back.cases) auto

lemma ne_to_vec_append [simp, refines]: "ne_to_vec (ne_append q r) = ne_to_vec q @ ne_to_vec r"
  by (cases q rule: ne_to_vec.cases; cases r rule: ne_to_vec.cases) (auto simp: ne_append_def)

lemma ne_to_vec_map [simp, refines]: "ne_to_vec (ne_map f q) = map f (ne_to_vec q)"
  by (cases q rule: ne_to_vec.cases) (auto simp: ne_map_def)

lemma ne_pop_front_view [refines]:
  "ne_pop_front q = (tl (ne_to_vec q), hd (ne_to_vec q))"
  by (cases q rule: ne_to_vec.cases) auto

lemma ne_from_view: "ne_from xs = None \<longleftrightarrow> xs = []" "ne_from xs = Some q \<Longrightarrow> ne_to_vec q = xs"
  by (cases xs; auto)+

lemma opt_list_simps [simp]:
  "opt_list None = []" "opt_list (Some q) = ne_to_vec q" "ne_to_vec (opt_push oq x) = opt_list oq @ [x]"
  by (auto simp: opt_list_def opt_push_def split: option.splits)

lemma opt_list_from [simp]: "opt_list (ne_from xs) = xs"
  by (cases xs) auto

lemma ne_to_vec_not_Nil [simp]: "ne_to_vec q \<noteq> []" "set (ne_to_vec q) \<noteq> {}"
  by (auto simp: ne_to_vec_Cons)

declare iter_collect.simps [simp del]

lemma iter_collect_tail:
  "iter_collect \<lparr>passed_head = True, iter_head = h, iter_tail = Some xs\<rparr> = xs"
  by (induction xs) (simp_all add: iter_collect.simps iter_next_def)

lemma iter_collect_none:
  "iter_collect \<lparr>passed_head = True, iter_head = h, iter_tail = None\<rparr> = []"
  by (simp add: iter_collect.simps iter_next_def)

lemma iter_collect_view: "iter_collect (ne_iter q) = ne_to_vec q"
  by (subst iter_collect.simps, cases "ne_tail q")
     (simp_all add: ne_iter_def iter_next_def ne_to_vec_Cons iter_collect_tail iter_collect_none)

section \<open>Removal\<close>

text \<open>The first element of a list that satisfies a predicate, and the list without it.\<close>

definition first_split :: "('a \<Rightarrow> bool) \<Rightarrow> 'a list \<Rightarrow> 'a list \<Rightarrow> 'a \<Rightarrow> bool" where
  "first_split p xs rest x \<longleftrightarrow>
    (\<exists>pre post. xs = pre @ x # post \<and> rest = pre @ post \<and> p x \<and> (\<forall>y\<in>set pre. \<not> p y))"

text \<open>The first element of a list with the smallest key, and the list without it.\<close>

definition min_split :: "('a \<Rightarrow> 'k::linorder) \<Rightarrow> 'a list \<Rightarrow> 'a list \<Rightarrow> 'a \<Rightarrow> bool" where
  "min_split key xs rest x \<longleftrightarrow>
    (\<exists>pre post. xs = pre @ x # post \<and> rest = pre @ post \<and>
       (\<forall>y\<in>set pre. key x < key y) \<and> (\<forall>y\<in>set post. key x \<le> key y))"

lemma first_split_mset: "first_split p xs rest x \<Longrightarrow> mset xs = add_mset x (mset rest)"
  by (auto simp: first_split_def)

lemma min_split_mset: "min_split key xs rest x \<Longrightarrow> mset xs = add_mset x (mset rest)"
  by (auto simp: min_split_def)

lemma min_split_least: "min_split key xs rest x \<Longrightarrow> y \<in> set xs \<Longrightarrow> key x \<le> key y"
  by (auto simp: min_split_def order.strict_implies_order)

lemma ne_remove_if_Inr:
  assumes "ne_remove_if q p = Inr (rest, x)"
  shows "first_split p (ne_to_vec q) rest x"
proof (cases "p (ne_head q)")
  case True
  then have "rest = tl (ne_to_vec q) \<and> x = ne_head q"
    using assms by (auto simp: ne_remove_if_def ne_to_vec_Cons split: option.splits)
  then show ?thesis using True by (auto simp: first_split_def ne_to_vec_Cons intro: exI [of _ "[]"])
next
  case False
  then obtain tail pos where t: "ne_tail q = Some tail" and pos: "position p tail = Some pos"
    using assms by (auto simp: ne_remove_if_def split: option.splits)
  from pos obtain pre y post
    where s: "tail = pre @ y # post" "length pre = pos" "p y" "\<forall>z\<in>set pre. \<not> p z"
    by (rule position_split)
  have "rest = ne_head q # pre @ post" "x = y"
    using assms False t pos s(1) vec_remove_split [of pre y post] s(2)
    by (auto simp: ne_remove_if_def)
  then show ?thesis unfolding first_split_def ne_to_vec_Cons t s(1)
    using s False by (intro exI [of _ "ne_head q # pre"] exI [of _ post]) auto
qed

lemma ne_remove_if_Inl:
  assumes "ne_remove_if q p = Inl r"
  shows "r = q \<and> (\<forall>x\<in>set (ne_to_vec q). \<not> p x)"
proof -
  have h: "\<not> p (ne_head q)" using assms by (auto simp: ne_remove_if_def split: option.splits)
  show ?thesis
  proof (cases "ne_tail q")
    case None
    then show ?thesis using assms h by (cases q) (auto simp: ne_remove_if_def)
  next
    case (Some tail)
    have "position p tail = None"
    proof (rule ccontr)
      assume "position p tail \<noteq> None"
      then obtain pos where "position p tail = Some pos" by auto
      moreover have "pos < length tail" using calculation by (simp add: position_Some)
      ultimately show False using assms h Some by (simp add: ne_remove_if_def vec_remove_def)
    qed
    moreover from this have "\<forall>x\<in>set tail. \<not> p x" by (simp only: position_None)
    ultimately show ?thesis using assms h Some by (cases q) (auto simp: ne_remove_if_def)
  qed
qed

text \<open>
  The loop keeps the first smallest key: it starts from the best element \<open>b\<close> seen before and ends
  with the first minimum of \<open>b\<close> and the rest.
\<close>

lemma min_scan_None:
  "min_scan key i xs mk mp = None \<Longrightarrow> mp = None \<and> (\<forall>y\<in>set xs. mk \<le> key y)"
  by (induction xs arbitrary: i mk mp) (auto simp: Let_def split: if_splits)

lemma min_scan_Some:
  assumes "min_scan key i xs mk mp = Some p"
  shows "(mp = Some p \<and> (\<forall>y\<in>set xs. mk \<le> key y)) \<or>
    (\<exists>pre x post. xs = pre @ x # post \<and> p = i + length pre \<and> key x < mk \<and>
       (\<forall>y\<in>set pre. key x < key y) \<and> (\<forall>y\<in>set post. key x \<le> key y))"
  using assms
proof (induction xs arbitrary: i mk mp)
  case (Cons a xs)
  show ?case
  proof (cases "key a < mk")
    case True
    then have "min_scan key (Suc i) xs (key a) (Some i) = Some p"
      using Cons.prems by (simp add: Let_def)
    then consider "p = i" "\<forall>y\<in>set xs. key a \<le> key y"
      | pre x post where "xs = pre @ x # post" "p = Suc i + length pre" "key x < key a"
        "\<forall>y\<in>set pre. key x < key y" "\<forall>y\<in>set post. key x \<le> key y"
      using Cons.IH by blast
    then show ?thesis
    proof cases
      case 1
      then show ?thesis using True by (intro disjI2 exI [of _ "[]"] exI [of _ a] exI [of _ xs]) auto
    next
      case (2 pre x post)
      then show ?thesis using True
        by (intro disjI2 exI [of _ "a # pre"] exI [of _ x] exI [of _ post]) auto
    qed
  next
    case False
    then have "min_scan key (Suc i) xs mk mp = Some p" using Cons.prems by (simp add: Let_def)
    then consider "mp = Some p" "\<forall>y\<in>set xs. mk \<le> key y"
      | pre x post where "xs = pre @ x # post" "p = Suc i + length pre" "key x < mk"
        "\<forall>y\<in>set pre. key x < key y" "\<forall>y\<in>set post. key x \<le> key y"
      using Cons.IH by blast
    then show ?thesis
    proof cases
      case 1
      then show ?thesis using False by auto
    next
      case (2 pre x post)
      then show ?thesis using False
        by (intro disjI2 exI [of _ "a # pre"] exI [of _ x] exI [of _ post]) auto
    qed
  qed
qed simp

lemma ne_remove_min_split:
  assumes "ne_remove_min_by_key q key = (rest, x)"
  shows "min_split key (ne_to_vec q) rest x"
proof (cases "ne_tail q")
  case None
  then show ?thesis using assms
    by (auto simp: ne_remove_min_by_key_def ne_to_vec_Cons min_split_def intro: exI [of _ "[]"])
next
  case (Some tail)
  show ?thesis
  proof (cases "min_scan key 0 tail (key (ne_head q)) None")
    case None
    then have "rest = tail" "x = ne_head q" using assms Some
      by (auto simp: ne_remove_min_by_key_def)
    then show ?thesis using min_scan_None [OF None] Some
      by (auto simp: ne_to_vec_Cons min_split_def intro: exI [of _ "[]"])
  next
    case pos: (Some p)
    then obtain pre y post where s: "tail = pre @ y # post" "p = length pre" "key y < key (ne_head q)"
        "\<forall>z\<in>set pre. key y < key z" "\<forall>z\<in>set post. key y \<le> key z"
      using min_scan_Some [OF pos] by auto
    have "rest = ne_head q # pre @ post" "x = y"
      using assms Some pos s(1,2) vec_remove_split [of pre y post]
      by (auto simp: ne_remove_min_by_key_def)
    then show ?thesis unfolding min_split_def ne_to_vec_Cons Some s(1)
      using s by (intro exI [of _ "ne_head q # pre"] exI [of _ post]) auto
  qed
qed

section \<open>Interface\<close>

text \<open>What the process states rely on: a queue is a non-empty list, served in order or by key.\<close>

locale list_queue =
  fixes view :: "'q \<Rightarrow> 'a list"
    and single :: "'a \<Rightarrow> 'q"
    and push :: "'q \<Rightarrow> 'a \<Rightarrow> 'q"
    and pop :: "'q \<Rightarrow> 'a list \<times> 'a"
    and of_list :: "'a list \<Rightarrow> 'q option"
  assumes view_single: "view (single x) = [x]"
    and view_push: "view (push q x) = view q @ [x]"
    and pop_view: "pop q = (tl (view q), hd (view q))"
    and view_not_Nil: "view q \<noteq> []"
    and of_list_None: "of_list xs = None \<longleftrightarrow> xs = []"
    and of_list_Some: "of_list xs = Some q \<Longrightarrow> view q = xs"
begin

lemma view_push_all: "view (fold (\<lambda>x q. push q x) xs q) = view q @ xs"
  by (induction xs arbitrary: q) (simp_all add: view_push)

lemma fifo: "pop (fold (\<lambda>x q. push q x) xs (single x)) = (xs, x)"
  by (simp add: pop_view view_push_all view_single)

lemma of_list_exists: "xs \<noteq> [] \<Longrightarrow> \<exists>q. of_list xs = Some q \<and> view q = xs"
  by (cases "of_list xs") (auto simp: of_list_None of_list_Some)

end

locale selecting_queue = list_queue view single push pop of_list
  for view :: "'q \<Rightarrow> 'a list" and single push pop of_list +
  fixes take_min :: "'q \<Rightarrow> ('a \<Rightarrow> 'k::linorder) \<Rightarrow> 'a list \<times> 'a"
  assumes take_min_split: "take_min q key = (rest, x) \<Longrightarrow> min_split key (view q) rest x"
begin

text \<open>Taking the minimum is one step of a stable sort.\<close>

lemma take_min_sort:
  assumes "take_min q key = (rest, x)"
  shows "sort_key key (view q) = x # sort_key key rest"
proof -
  obtain pre post where s: "view q = pre @ x # post" "rest = pre @ post"
      "\<forall>y\<in>set pre. key x < key y" "\<forall>y\<in>set post. key x \<le> key y"
    using take_min_split [OF assms] by (auto simp: min_split_def)
  show ?thesis
  proof (rule properties_for_sort_key)
    show "mset (x # sort_key key rest) = mset (view q)" by (simp add: s)
    show "filter (\<lambda>y. key k = key y) (x # sort_key key rest) = filter (\<lambda>y. key k = key y) (view q)"
      if "k \<in> set (x # sort_key key rest)" for k
    proof -
      have "filter (\<lambda>y. key k = key y) (sort_key key rest) = filter (\<lambda>y. key k = key y) rest"
        by (simp only: eq_commute [of "key k"] sort_key_stable)
      moreover have "filter (\<lambda>y. key k = key y) pre = []" if "key k = key x"
        using s(3) that by (auto simp: filter_empty_conv)
      ultimately show ?thesis by (auto simp: s)
    qed
    show "sorted (map key (x # sort_key key rest))" using s by (auto intro: less_imp_le)
  qed
qed

end

interpretation ne: selecting_queue ne_to_vec ne_new ne_push_back ne_pop_front ne_from
  ne_remove_min_by_key
  by unfold_locales (simp_all add: ne_pop_front_view ne_from_view ne_remove_min_split)

lemma drain_min_sort:
  "length (ne_to_vec q) \<le> n \<Longrightarrow> drain_min n key q = sort_key key (ne_to_vec q)"
proof (induction n arbitrary: q)
  case (Suc n)
  obtain rest x where r: "ne_remove_min_by_key q key = (rest, x)" by fastforce
  have len: "length (ne_to_vec q) = Suc (length rest)"
    using arg_cong [OF min_split_mset [OF ne_remove_min_split [OF r]], of size] by simp
  show ?case
  proof (cases "ne_from rest")
    case None
    then show ?thesis by (simp add: r ne.take_min_sort [OF r] ne_from_view)
  next
    case (Some q')
    then have "ne_to_vec q' = rest" by (rule ne_from_view)
    then show ?thesis using Suc len by (simp add: r ne.take_min_sort [OF r] Some)
  qed
qed simp

section \<open>Claims\<close>

text \<open>
  C7. Removing from a non-empty queue: \<open>remove_if\<close> returns the first element satisfying the
  condition together with the others in order, and gives the queue back unchanged exactly when no
  element satisfies it; \<open>remove_min_by_key\<close> returns the first element with the smallest key, so that
  taking elements out one after the other yields them in the stable sorting order of their keys.
\<close>

theorem ne_removal_correct:
  "(case ne_remove_if q p of
      Inr (rest, x) \<Rightarrow> first_split p (ne_to_vec q) rest x
    | Inl r \<Rightarrow> r = q \<and> filter p (ne_to_vec q) = []) \<and>
   min_split key (ne_to_vec q) (fst (ne_remove_min_by_key q key))
     (snd (ne_remove_min_by_key q key)) \<and>
   drain_min (length (ne_to_vec q)) key q = sort_key key (ne_to_vec q)"
  using ne_remove_if_Inr [of q p] ne_remove_if_Inl [of q p]
  by (auto simp: drain_min_sort filter_empty_conv intro: ne_remove_min_split split: sum.splits)

end
