(* ===== verification/Messages.thy ===== *)
theory Messages
  imports Nonempty_Deques Errors
begin

text \<open>
  Messages between processes and their byte layouts (\<open>src/src/libs/sys/src/sys/ipc/\<close>) and the
  mailbox in which a process buffers them (\<open>src/src/kernel/src/ipc/mbx/mailbox.rs\<close>). The
  structures are \<open>repr(C)\<close> and converted with \<open>transmute\<close> on a little-endian target, so \<open>to_bytes\<close>
  is the concatenation of the fields in declaration order, without padding. A \<open>transmute\<close> from bytes
  checks nothing, so the type of a message is kept as the byte that represents it, which may be no
  message type at all.
  The size of a message is a constant of the build configuration and a parameter here. Negation of
  an \<open>i32\<close> wraps around, as in the release profile.
\<close>

section \<open>Definitions\<close>

subsection \<open>Little-endian integers\<close>

definition le_bytes :: "nat \<Rightarrow> nat \<Rightarrow> u8 list" where
  "le_bytes n x = map (\<lambda>i. word_of_nat (x div 256 ^ i)) [0..<n]"

fun le_value :: "u8 list \<Rightarrow> nat" where
  "le_value [] = 0"
| "le_value (b # bs) = unat b + 256 * le_value bs"

definition i32_bytes :: "int \<Rightarrow> u8 list" where
  "i32_bytes x = le_bytes 4 (nat (x mod 2 ^ 32))"

definition i32_value :: "u8 list \<Rightarrow> int" where
  "i32_value bs = (let v = int (le_value bs) in if v < 2 ^ 31 then v else v - 2 ^ 32)"

definition i32_ok :: "int \<Rightarrow> bool" where
  "i32_ok x \<longleftrightarrow> - (2 ^ 31) \<le> x \<and> x < 2 ^ 31"

definition i32_neg :: "int \<Rightarrow> int" where
  "i32_neg x = (if x = - (2 ^ 31) then x else - x)"

subsection \<open>Message types and addresses\<close>

datatype message_type = MInterrupt | MException | MIpc | MProcessTerminationEvent | MIkc
  | MPullResponse | MProcessCreationEvent

fun message_type_to_bytes :: "message_type \<Rightarrow> u8 list" where
  "message_type_to_bytes MInterrupt = [1]"
| "message_type_to_bytes MException = [2]"
| "message_type_to_bytes MIpc = [3]"
| "message_type_to_bytes MProcessTerminationEvent = [4]"
| "message_type_to_bytes MIkc = [5]"
| "message_type_to_bytes MPullResponse = [6]"
| "message_type_to_bytes MProcessCreationEvent = [7]"

definition message_type_try_from_bytes :: "u8 list \<Rightarrow> message_type kres" where
  "message_type_try_from_bytes bytes =
    (if bytes = [1] then Ok MInterrupt
     else if bytes = [2] then Ok MException
     else if bytes = [3] then Ok MIpc
     else if bytes = [4] then Ok MProcessTerminationEvent
     else if bytes = [5] then Ok MIkc
     else if bytes = [6] then Ok MPullResponse
     else if bytes = [7] then Ok MProcessCreationEvent
     else fail InvalidMessage ''invalid message type'')"

text \<open>The byte that represents a message type in memory.\<close>

abbreviation (input) message_type_byte :: "message_type \<Rightarrow> u8" where
  "message_type_byte \<equiv> \<lambda>t. hd (message_type_to_bytes t)"

text \<open>
  A sender or receiver is an \<open>i32\<close>: a process identifier, or the negated identifier of a thread.
  \<open>as_id\<close> returns the process on the right and the thread on the left.
\<close>

definition as_id :: "int \<Rightarrow> int + int" where
  "as_id r = (if 0 \<le> r then Inr r else Inl (i32_neg r))"

definition receiver_from_pid :: "int \<Rightarrow> int" where
  "receiver_from_pid pid = pid"

definition receiver_from_tid :: "int \<Rightarrow> int" where
  "receiver_from_tid tid = i32_neg tid"

subsection \<open>Messages\<close>

record message =
  message_type :: u8
  source :: int
  destination :: int
  status :: int
  payload :: "u8 list"

definition HEADER_SIZE :: nat where
  "HEADER_SIZE = 2 * 4 + 1 + 4"

definition message_new ::
  "int \<Rightarrow> int \<Rightarrow> message_type \<Rightarrow> error_code option \<Rightarrow> u8 list \<Rightarrow> message" where
  "message_new src dst typ st pl =
    \<lparr>message_type = message_type_byte typ, source = src, destination = dst,
     status = (case st of Some e \<Rightarrow> discriminant e | None \<Rightarrow> 0), payload = pl\<rparr>"

definition message_default :: "nat \<Rightarrow> message" where
  "message_default ipc_message_size =
    \<lparr>message_type = message_type_byte MIkc, source = 0, destination = 0, status = 0,
     payload = replicate (ipc_message_size - HEADER_SIZE) 0\<rparr>"

definition message_to_bytes :: "message \<Rightarrow> u8 list" where
  "message_to_bytes msg =
    [message_type msg] @ i32_bytes (source msg) @ i32_bytes (destination msg) @
    i32_bytes (status msg) @ payload msg"

definition message_try_from_bytes :: "u8 list \<Rightarrow> message kres" where
  "message_try_from_bytes bytes =
    Ok \<lparr>message_type = hd bytes,
        source = i32_value (take 4 (drop 1 bytes)),
        destination = i32_value (take 4 (drop 5 bytes)),
        status = i32_value (take 4 (drop 9 bytes)),
        payload = drop 13 bytes\<rparr>"

subsection \<open>Envelopes and bulk data\<close>

record vmbus_message =
  vb_size :: nat
  vb_is_ikc :: nat
  vb_message_addr :: nat

definition vmbus_new :: "nat \<Rightarrow> bool \<Rightarrow> nat \<Rightarrow> vmbus_message" where
  "vmbus_new nbytes is_ikc addr =
    \<lparr>vb_size = nbytes, vb_is_ikc = (if is_ikc then 1 else 0), vb_message_addr = addr\<rparr>"

definition vmbus_size :: "vmbus_message \<Rightarrow> nat" where
  "vmbus_size v = vb_size v mod 2 ^ 32"

definition vmbus_is_ikc :: "vmbus_message \<Rightarrow> bool" where
  "vmbus_is_ikc v \<longleftrightarrow> vb_is_ikc v \<noteq> 0"

definition vmbus_message_addr :: "vmbus_message \<Rightarrow> nat" where
  "vmbus_message_addr v = vb_message_addr v mod 2 ^ 32"

definition vmbus_to_bytes :: "vmbus_message \<Rightarrow> u8 list" where
  "vmbus_to_bytes v = le_bytes 8 (vb_size v) @ le_bytes 8 (vb_is_ikc v) @ le_bytes 8 (vb_message_addr v)"

definition vmbus_try_from_bytes :: "u8 list \<Rightarrow> vmbus_message kres" where
  "vmbus_try_from_bytes bytes =
    Ok \<lparr>vb_size = le_value (take 8 bytes), vb_is_ikc = le_value (take 8 (drop 8 bytes)),
        vb_message_addr = le_value (take 8 (drop 16 bytes))\<rparr>"

record data_chunk_header =
  dc_source_pid :: int
  dc_source_tid :: int
  dc_destination_pid :: int
  dc_destination_tid :: int
  dc_data_addr :: nat
  dc_data_len :: nat

definition DATA_CHUNK_HEADER_SIZE :: nat where
  "DATA_CHUNK_HEADER_SIZE = 6 * 4"

definition data_chunk_header_to_bytes :: "data_chunk_header \<Rightarrow> u8 list" where
  "data_chunk_header_to_bytes h =
    i32_bytes (dc_source_pid h) @ i32_bytes (dc_source_tid h) @ i32_bytes (dc_destination_pid h) @
    i32_bytes (dc_destination_tid h) @ le_bytes 4 (dc_data_addr h) @ le_bytes 4 (dc_data_len h)"

definition data_chunk_header_try_from_bytes :: "u8 list \<Rightarrow> data_chunk_header kres" where
  "data_chunk_header_try_from_bytes bytes =
    Ok \<lparr>dc_source_pid = i32_value (take 4 bytes), dc_source_tid = i32_value (take 4 (drop 4 bytes)),
        dc_destination_pid = i32_value (take 4 (drop 8 bytes)),
        dc_destination_tid = i32_value (take 4 (drop 12 bytes)),
        dc_data_addr = le_value (take 4 (drop 16 bytes)),
        dc_data_len = le_value (take 4 (drop 20 bytes))\<rparr>"

record data_chunk =
  dc_header :: data_chunk_header
  dc_data :: "u8 list"

definition data_chunk_to_bytes :: "data_chunk \<Rightarrow> u8 list" where
  "data_chunk_to_bytes c = data_chunk_header_to_bytes (dc_header c) @ dc_data c"

definition data_chunk_try_from_bytes :: "u8 list \<Rightarrow> data_chunk kres" where
  "data_chunk_try_from_bytes bytes =
    (if length bytes < DATA_CHUNK_HEADER_SIZE
     then fail InvalidArgument ''byte slice too short for data chunk transfer header''
     else bind_res (data_chunk_header_try_from_bytes (take DATA_CHUNK_HEADER_SIZE bytes)) (\<lambda>header.
       Ok \<lparr>dc_header = header, dc_data = drop DATA_CHUNK_HEADER_SIZE bytes\<rparr>))"

datatype system_message_header = SProcessManagement | SMemoryManagement | SFilesystemManagement

definition system_message_header_try_from :: "u8 \<Rightarrow> system_message_header kres" where
  "system_message_header_try_from b =
    (if b = 1 then Ok SProcessManagement
     else if b = 2 then Ok SMemoryManagement
     else if b = 3 then Ok SFilesystemManagement
     else fail InvalidArgument ''invalid system message'')"

fun system_message_header_byte :: "system_message_header \<Rightarrow> u8" where
  "system_message_header_byte SProcessManagement = 1"
| "system_message_header_byte SMemoryManagement = 2"
| "system_message_header_byte SFilesystemManagement = 3"

record system_message =
  sm_header :: system_message_header
  sm_payload :: "u8 list"

definition system_message_from_bytes :: "u8 list \<Rightarrow> system_message kres" where
  "system_message_from_bytes bytes =
    bind_res (index_get bytes 0) (\<lambda>b.
    bind_res (system_message_header_try_from b) (\<lambda>header.
      Ok \<lparr>sm_header = header, sm_payload = drop 1 bytes\<rparr>))"

definition system_message_into_bytes :: "system_message \<Rightarrow> u8 list" where
  "system_message_into_bytes msg = system_message_header_byte (sm_header msg) # sm_payload msg"

subsection \<open>Mailbox\<close>

record mailbox =
  buffer :: "message list"

definition mailbox_default :: mailbox where
  "mailbox_default = \<lparr>buffer = []\<rparr>"

definition mailbox_send :: "mailbox \<Rightarrow> message \<Rightarrow> mailbox" where
  "mailbox_send mb msg = mb\<lparr>buffer := buffer mb @ [msg]\<rparr>"

definition mailbox_is_empty :: "mailbox \<Rightarrow> bool" where
  "mailbox_is_empty mb \<longleftrightarrow> buffer mb = []"

definition to_thread :: "int \<Rightarrow> message \<Rightarrow> bool" where
  "to_thread tid msg \<longleftrightarrow> as_id (destination msg) = Inl tid"

definition to_process :: "message \<Rightarrow> bool" where
  "to_process msg \<longleftrightarrow> \<not> isl (as_id (destination msg))"

text \<open>\<open>LinkedList::remove\<close> panics out of range; the index comes from \<open>position\<close>.\<close>

definition mailbox_take :: "mailbox \<Rightarrow> nat \<Rightarrow> message option kres \<times> mailbox" where
  "mailbox_take mb i =
    (case vec_remove (buffer mb) i of
       Some (rest, msg) \<Rightarrow> (Ok (Some msg), mb\<lparr>buffer := rest\<rparr>)
     | None \<Rightarrow> (Panic, mb))"

definition mailbox_receive :: "mailbox \<Rightarrow> int \<Rightarrow> message option kres \<times> mailbox" where
  "mailbox_receive mb tid =
    (case position (to_thread tid) (buffer mb) of
       Some i \<Rightarrow> mailbox_take mb i
     | None \<Rightarrow>
         (case position to_process (buffer mb) of
            Some i \<Rightarrow> mailbox_take mb i
          | None \<Rightarrow> (Ok None, mb)))"

subsection \<open>Specification\<close>

text \<open>A message of the configured size whose type byte represents a message type.\<close>

definition message_ok :: "nat \<Rightarrow> message \<Rightarrow> bool" where
  "message_ok ipc_message_size msg \<longleftrightarrow>
    message_type msg \<in> range message_type_byte \<and> i32_ok (source msg) \<and> i32_ok (destination msg) \<and> i32_ok (status msg) \<and>
    HEADER_SIZE + length (payload msg) = ipc_message_size"

definition data_chunk_ok :: "data_chunk \<Rightarrow> bool" where
  "data_chunk_ok c \<longleftrightarrow>
    i32_ok (dc_source_pid (dc_header c)) \<and> i32_ok (dc_source_tid (dc_header c)) \<and>
    i32_ok (dc_destination_pid (dc_header c)) \<and> i32_ok (dc_destination_tid (dc_header c)) \<and>
    dc_data_addr (dc_header c) \<le> U32_MAX \<and> dc_data_len (dc_header c) \<le> U32_MAX"

section \<open>Lemmas\<close>

lemma length_le_bytes [simp]: "length (le_bytes n x) = n"
  by (simp add: le_bytes_def)

lemma le_bytes_Suc: "le_bytes (Suc n) x = word_of_nat x # le_bytes n (x div 256)"
  unfolding le_bytes_def
  by (simp add: upt_conv_Cons map_Suc_upt [symmetric] div_mult2_eq [symmetric] del: upt_Suc)

lemma le_value_le_bytes: "le_value (le_bytes n x) = x mod 256 ^ n"
proof (induction n arbitrary: x)
  case 0
  show ?case by (simp add: le_bytes_def)
next
  case (Suc n)
  have "x mod (256 * 256 ^ n) = 256 * (x div 256 mod 256 ^ n) + x mod 256"
    by (simp add: mod_mult2_eq)
  then show ?case by (simp add: le_bytes_Suc Suc.IH unsigned_of_nat take_bit_eq_mod)
qed

lemma le_value_bound: "le_value bs < 256 ^ length bs"
proof (induction bs)
  case (Cons b bs)
  have "unat b < 256" using unsigned_less [of b, where 'a = nat] by simp
  then show ?case using Cons.IH by simp
qed simp

lemma le_bytes_le_value: "le_bytes (length bs) (le_value bs) = bs"
proof (induction bs)
  case (Cons b bs)
  have "unat b < 256" using unsigned_less [of b, where 'a = nat] by simp
  have z: "(256 :: u8) = 0" by simp
  show ?case using Cons.IH \<open>unat b < 256\<close> by (simp add: le_bytes_Suc z)
qed (simp add: le_bytes_def)

lemma length_i32_bytes [simp]: "length (i32_bytes x) = 4"
  by (simp add: i32_bytes_def)

lemma i32_value_i32_bytes [simp]: "i32_ok x \<Longrightarrow> i32_value (i32_bytes x) = x"
proof -
  assume ok: "i32_ok x"
  have v: "int (le_value (i32_bytes x)) = x mod 2 ^ 32"
    by (simp add: i32_bytes_def le_value_le_bytes zmod_int)
  show ?thesis
  proof (cases "0 \<le> x")
    case True
    then have "x mod 2 ^ 32 = x" using ok by (simp add: i32_ok_def)
    then show ?thesis using ok by (simp add: i32_value_def v i32_ok_def)
  next
    case False
    then have "x mod 2 ^ 32 = x + 2 ^ 32" using ok
      by (subst mod_add_self2 [symmetric], subst mod_pos_pos_trivial) (simp_all add: i32_ok_def)
    then show ?thesis using False ok by (simp add: i32_value_def v i32_ok_def)
  qed
qed

lemma i32_bytes_i32_value: "length bs = 4 \<Longrightarrow> i32_bytes (i32_value bs) = bs"
  using le_bytes_le_value [of bs] le_value_bound [of bs]
  by (simp add: i32_bytes_def i32_value_def Let_def)

lemma i32_ok_i32_value: "length bs = 4 \<Longrightarrow> i32_ok (i32_value bs)"
  using le_value_bound [of bs] by (simp add: i32_ok_def i32_value_def Let_def)

lemma message_type_round_trip:
  "message_type_try_from_bytes (message_type_to_bytes t) = Ok t" "length (message_type_to_bytes t) = 1"
  by (cases t; simp add: message_type_try_from_bytes_def)+

lemma message_type_from_bytes:
  "message_type_try_from_bytes bs = Ok t \<Longrightarrow> message_type_to_bytes t = bs"
  by (simp add: message_type_try_from_bytes_def split: if_splits)

lemma take_drop_fields:
  "length a = n \<Longrightarrow> take n (a @ b) = a" "length a = n \<Longrightarrow> drop n (a @ b) = b"
  by auto

lemma message_type_byte_range: "b \<in> range message_type_byte \<longleftrightarrow> is_ok (message_type_try_from_bytes [b])"
proof
  assume "b \<in> range message_type_byte"
  then obtain t where "b = message_type_byte t" by blast
  then show "is_ok (message_type_try_from_bytes [b])"
    by (cases t) (simp_all add: message_type_try_from_bytes_def)
next
  assume "is_ok (message_type_try_from_bytes [b])"
  then obtain t where "message_type_try_from_bytes [b] = Ok t" by (cases "message_type_try_from_bytes [b]") auto
  from message_type_from_bytes [OF this] have "b = message_type_byte t" by simp
  then show "b \<in> range message_type_byte" by blast
qed

lemma message_from_to:
  assumes "message_ok n msg"
  shows "message_try_from_bytes (message_to_bytes msg) = Ok msg" "length (message_to_bytes msg) = n"
  using assms by (simp_all add: message_try_from_bytes_def message_to_bytes_def message_ok_def HEADER_SIZE_def)

lemma message_to_from:
  assumes "message_try_from_bytes bs = Ok msg" "HEADER_SIZE \<le> length bs"
  shows "message_to_bytes msg = bs"
    "message_ok (length bs) msg \<longleftrightarrow> is_ok (message_type_try_from_bytes (take 1 bs))"
proof -
  have msg: "msg = \<lparr>message_type = hd bs, source = i32_value (take 4 (drop 1 bs)),
      destination = i32_value (take 4 (drop 5 bs)), status = i32_value (take 4 (drop 9 bs)),
      payload = drop 13 bs\<rparr>"
    using assms(1) by (simp add: message_try_from_bytes_def)
  have len: "13 \<le> length bs" using assms(2) by (simp add: HEADER_SIZE_def)
  then have hd: "take (Suc 0) bs = [hd bs]" by (cases bs) simp_all
  have "message_to_bytes msg =
      take 1 bs @ take 4 (drop 1 bs) @ take 4 (drop 5 bs) @ take 4 (drop 9 bs) @ drop 13 bs"
    using len by (simp add: message_to_bytes_def msg hd i32_bytes_i32_value)
  also have "\<dots> = bs"
    using append_take_drop_id [of 1 bs] append_take_drop_id [of 4 "drop 1 bs"]
      append_take_drop_id [of 4 "drop 5 bs"] append_take_drop_id [of 4 "drop 9 bs"]
    by (simp del: append_take_drop_id)
  finally show "message_to_bytes msg = bs" .
  show "message_ok (length bs) msg \<longleftrightarrow> is_ok (message_type_try_from_bytes (take 1 bs))"
    using len by (simp add: message_ok_def msg hd i32_ok_i32_value HEADER_SIZE_def message_type_byte_range)
qed

text \<open>What \<open>receive\<close> takes out of the buffer.\<close>

lemma mailbox_take_position:
  assumes "position p (buffer mb) = Some i"
  obtains rest msg where "mailbox_take mb i = (Ok (Some msg), mb\<lparr>buffer := rest\<rparr>)"
    "first_split p (buffer mb) rest msg"
proof -
  from assms obtain pre x post where s: "buffer mb = pre @ x # post" "length pre = i" "p x"
      "\<forall>y\<in>set pre. \<not> p y"
    by (rule position_split)
  have "mailbox_take mb i = (Ok (Some x), mb\<lparr>buffer := pre @ post\<rparr>)"
    using vec_remove_split [of pre x post] by (simp add: mailbox_take_def s)
  moreover have "first_split p (buffer mb) (pre @ post) x"
    unfolding first_split_def using s by auto
  ultimately show thesis by (rule that)
qed

section \<open>Claims\<close>

text \<open>
  C14. Messages survive their byte representation: serialising a message of the configured size and
  reading it back returns it, and every byte sequence of that size is what the message read from it
  serialises to. Reading refuses nothing: a first byte that is no message type comes back, as success, in
  a message that is not well-formed, and exactly then.
\<close>

theorem message_round_trip:
  assumes "message_ok n msg" "length bs = n"
  shows "message_try_from_bytes (message_to_bytes msg) = Ok msg \<and> length (message_to_bytes msg) = n \<and>
    (\<exists>msg'. message_try_from_bytes bs = Ok msg' \<and> message_to_bytes msg' = bs \<and>
      (message_ok n msg' \<longleftrightarrow> is_ok (message_type_try_from_bytes (take 1 bs))))"
proof -
  have n: "HEADER_SIZE \<le> length bs" using assms by (auto simp: message_ok_def)
  obtain msg' where m: "message_try_from_bytes bs = Ok msg'" by (simp add: message_try_from_bytes_def)
  show ?thesis using message_from_to [OF assms(1)] m message_to_from [OF m n] assms(2) by simp
qed

theorem message_round_trip_witness:
  "message_try_from_bytes (message_to_bytes (message_default 64)) = Ok (message_default 64) \<and>
   (\<exists>msg. message_try_from_bytes (replicate 64 0) = Ok msg \<and> \<not> message_ok 64 msg)"
proof -
  have ok: "message_ok 64 (message_default 64)"
    by (auto simp: message_ok_def message_default_def i32_ok_def HEADER_SIZE_def message_type_byte_range
        message_type_try_from_bytes_def simp del: image_iff)
  have "\<not> is_ok (message_type_try_from_bytes (take 1 (replicate 64 0)))"
    by (simp add: message_type_try_from_bytes_def fail_def)
  then show ?thesis using message_round_trip [OF ok, of "replicate 64 0"] by auto
qed

text \<open>
  Bulk data survives its byte representation: a chunk reads back as itself, and exactly the
  byte sequences shorter than a header are refused, with \<open>InvalidArgument\<close>.
\<close>

lemma data_chunk_round_trip:
  assumes "data_chunk_ok c"
  shows "data_chunk_try_from_bytes (data_chunk_to_bytes c) = Ok c \<and>
    (case data_chunk_try_from_bytes bs of
       Ok c' \<Rightarrow> 24 \<le> length bs \<and> data_chunk_to_bytes c' = bs
     | Err e \<Rightarrow> length bs < 24 \<and> code e = InvalidArgument
     | Panic \<Rightarrow> False)"
proof (rule conjI)
  show "data_chunk_try_from_bytes (data_chunk_to_bytes c) = Ok c"
    using assms
    by (simp add: data_chunk_try_from_bytes_def data_chunk_to_bytes_def DATA_CHUNK_HEADER_SIZE_def
        data_chunk_header_to_bytes_def data_chunk_header_try_from_bytes_def data_chunk_ok_def
        le_value_le_bytes)
  have fields: "24 \<le> length bs \<Longrightarrow> take 4 bs @ take 4 (drop 4 bs) @ take 4 (drop 8 bs) @
      take 4 (drop 12 bs) @ take 4 (drop 16 bs) @ take 4 (drop 20 bs) @ drop 24 bs = bs"
    using append_take_drop_id [of 4 bs] append_take_drop_id [of 4 "drop 4 bs"]
      append_take_drop_id [of 4 "drop 8 bs"] append_take_drop_id [of 4 "drop 12 bs"]
      append_take_drop_id [of 4 "drop 16 bs"] append_take_drop_id [of 4 "drop 20 bs"]
    by (simp del: append_take_drop_id)
  have u32: "le_bytes 4 (le_value xs) = xs" if "length xs = 4" for xs
    using le_bytes_le_value [of xs] that by simp
  show "case data_chunk_try_from_bytes bs of
       Ok c' \<Rightarrow> 24 \<le> length bs \<and> data_chunk_to_bytes c' = bs
     | Err e \<Rightarrow> length bs < 24 \<and> code e = InvalidArgument
     | Panic \<Rightarrow> False"
    using fields
    by (auto simp: data_chunk_try_from_bytes_def data_chunk_to_bytes_def DATA_CHUNK_HEADER_SIZE_def
        data_chunk_header_to_bytes_def data_chunk_header_try_from_bytes_def i32_bytes_i32_value u32
        fail_def take_drop min_def)
qed

text \<open>
  C11. Receiving from a mailbox takes the oldest message addressed to the thread, or, when there is
  none, the oldest one addressed to its process; every other message stays, in order, and nothing is
  taken exactly when the mailbox holds no such message. It never panics.
\<close>

theorem mailbox_receive_correct:
  "case mailbox_receive mb tid of
     (Ok (Some msg), mb') \<Rightarrow>
       if filter (to_thread tid) (buffer mb) \<noteq> []
       then first_split (to_thread tid) (buffer mb) (buffer mb') msg
       else first_split to_process (buffer mb) (buffer mb') msg
   | (Ok None, mb') \<Rightarrow>
       mb' = mb \<and> filter (\<lambda>msg. to_thread tid msg \<or> to_process msg) (buffer mb) = []
   | _ \<Rightarrow> False"
proof (cases "position (to_thread tid) (buffer mb)")
  case None
  then have n: "filter (to_thread tid) (buffer mb) = []" by (simp add: position_None filter_empty_conv)
  show ?thesis
  proof (cases "position to_process (buffer mb)")
    case None': None
    then have "\<forall>x\<in>set (buffer mb). \<not> to_process x" by (simp only: position_None)
    then show ?thesis using n None None' by (simp add: mailbox_receive_def filter_empty_conv)
  next
    case (Some i)
    then obtain rest msg where "mailbox_take mb i = (Ok (Some msg), mb\<lparr>buffer := rest\<rparr>)"
        "first_split to_process (buffer mb) rest msg"
      by (rule mailbox_take_position)
    then show ?thesis using n None Some by (simp add: mailbox_receive_def)
  qed
next
  case (Some i)
  then have n: "filter (to_thread tid) (buffer mb) \<noteq> []"
    by (auto simp: position_Some filter_empty_conv intro!: bexI [of _ "buffer mb ! i"])
  from Some obtain rest msg where "mailbox_take mb i = (Ok (Some msg), mb\<lparr>buffer := rest\<rparr>)"
      "first_split (to_thread tid) (buffer mb) rest msg"
    by (rule mailbox_take_position)
  then show ?thesis using n Some by (simp add: mailbox_receive_def)
qed

end
