(* ===== verification/Event_Codes.thy ===== *)
theory Event_Codes
  imports Messages
begin

text \<open>
  Events and their encodings (\<open>src/src/libs/sys/src/sys/event/\<close>): the numbering of events, the
  descriptors that pair an event with a sequence number in one machine word, and the messages that
  carry event information. The interrupt and exception events are numbered enumerations of 32
  variants each, so an event is its number. A machine word is a \<open>32 word\<close>.
\<close>

section \<open>Definitions\<close>

abbreviation (input) INTERRUPT_EVENTS :: nat where "INTERRUPT_EVENTS \<equiv> 32"
abbreviation (input) EXCEPTION_EVENTS :: nat where "EXCEPTION_EVENTS \<equiv> 32"
abbreviation (input) SCHEDULING_EVENTS :: nat where "SCHEDULING_EVENTS \<equiv> 2"

datatype interrupt_event = InterruptEvent nat
datatype exception_event = ExceptionEvent nat
datatype scheduling_event = ProcessTermination | ProcessCreation

datatype event = EInterrupt interrupt_event | EException exception_event | EScheduling scheduling_event

fun interrupt_event_to_u32 :: "interrupt_event \<Rightarrow> nat" where
  "interrupt_event_to_u32 (InterruptEvent n) = n"

definition interrupt_event_try_from :: "nat \<Rightarrow> interrupt_event kres" where
  "interrupt_event_try_from raw =
    (if raw < INTERRUPT_EVENTS then Ok (InterruptEvent raw)
     else fail InvalidArgument ''invalid interrupt event identifier'')"

fun exception_event_to_u32 :: "exception_event \<Rightarrow> nat" where
  "exception_event_to_u32 (ExceptionEvent n) = n"

definition exception_event_try_from :: "nat \<Rightarrow> exception_event kres" where
  "exception_event_try_from raw =
    (if raw < EXCEPTION_EVENTS then Ok (ExceptionEvent raw)
     else fail InvalidArgument ''invalid exception event identifier'')"

fun scheduling_event_to_u32 :: "scheduling_event \<Rightarrow> nat" where
  "scheduling_event_to_u32 ProcessTermination = 0"
| "scheduling_event_to_u32 ProcessCreation = 1"

definition scheduling_event_try_from :: "nat \<Rightarrow> scheduling_event kres" where
  "scheduling_event_try_from raw =
    (if raw = 0 then Ok ProcessTermination
     else if raw = 1 then Ok ProcessCreation
     else fail InvalidArgument ''invalid scheduling event identifier'')"

fun event_to_u32 :: "event \<Rightarrow> nat" where
  "event_to_u32 (EInterrupt ev) = interrupt_event_to_u32 ev"
| "event_to_u32 (EException ev) = INTERRUPT_EVENTS + exception_event_to_u32 ev"
| "event_to_u32 (EScheduling ev) = INTERRUPT_EVENTS + EXCEPTION_EVENTS + scheduling_event_to_u32 ev"

definition event_try_from :: "nat \<Rightarrow> event kres" where
  "event_try_from raw =
    (if raw > INTERRUPT_EVENTS + EXCEPTION_EVENTS + SCHEDULING_EVENTS
     then fail InvalidArgument ''invalid event''
     else if INTERRUPT_EVENTS + EXCEPTION_EVENTS \<le> raw
     then bind_res (scheduling_event_try_from (raw - INTERRUPT_EVENTS - EXCEPTION_EVENTS))
            (\<lambda>ev. Ok (EScheduling ev))
     else if INTERRUPT_EVENTS \<le> raw
     then bind_res (exception_event_try_from (raw - INTERRUPT_EVENTS)) (\<lambda>ev. Ok (EException ev))
     else bind_res (interrupt_event_try_from raw) (\<lambda>ev. Ok (EInterrupt ev)))"

datatype event_ctrl_request = EvRegister | EvUnregister

fun event_ctrl_request_to_u32 :: "event_ctrl_request \<Rightarrow> nat" where
  "event_ctrl_request_to_u32 EvRegister = 0"
| "event_ctrl_request_to_u32 EvUnregister = 1"

definition event_ctrl_request_try_from :: "nat \<Rightarrow> event_ctrl_request kres" where
  "event_ctrl_request_try_from raw =
    (if raw = 0 then Ok EvRegister else if raw = 1 then Ok EvUnregister
     else fail InvalidArgument ''invalid event control request'')"

subsection \<open>Descriptors\<close>

type_synonym event_descriptor = "32 word"

definition EVENT_MASKLEN :: nat where "EVENT_MASKLEN = 7"
definition EVENT_MASK :: "32 word" where "EVENT_MASK = push_bit EVENT_MASKLEN 1 - 1"
definition ID_SHIFT :: nat where "ID_SHIFT = 0 + EVENT_MASKLEN"
definition ID_MASK :: "32 word" where "ID_MASK = NOT (push_bit (32 - 1) 1 OR EVENT_MASK)"

definition descriptor_new :: "32 word \<Rightarrow> event \<Rightarrow> event_descriptor" where
  "descriptor_new ident ev =
    ((push_bit ID_SHIFT ident AND ID_MASK) OR (word_of_nat (event_to_u32 ev) AND EVENT_MASK))"

definition descriptor_id :: "event_descriptor \<Rightarrow> 32 word" where
  "descriptor_id d = drop_bit ID_SHIFT (d AND ID_MASK)"

definition unwrap :: "'a kres \<Rightarrow> 'a kres" where
  "unwrap r = (case r of Ok a \<Rightarrow> Ok a | _ \<Rightarrow> Panic)"

definition descriptor_event :: "event_descriptor \<Rightarrow> event kres" where
  "descriptor_event d = unwrap (event_try_from (unat (d AND EVENT_MASK)))"

definition descriptor_try_from :: "32 word \<Rightarrow> event_descriptor kres" where
  "descriptor_try_from raw =
    (let ident = drop_bit ID_SHIFT (raw AND ID_MASK)
     in bind_res (event_try_from (unat (raw AND EVENT_MASK))) (\<lambda>ev. Ok (descriptor_new ident ev)))"

definition descriptor_to_bytes :: "event_descriptor \<Rightarrow> u8 list" where
  "descriptor_to_bytes d = le_bytes 4 (unat d)"

definition descriptor_from_bytes :: "u8 list \<Rightarrow> event_descriptor kres" where
  "descriptor_from_bytes bytes =
    (let raw = word_of_nat (le_value bytes)
     in bind_res (event_try_from (unat (raw AND EVENT_MASK))) (\<lambda>ev.
          Ok (descriptor_new (drop_bit ID_SHIFT (raw AND ID_MASK)) ev)))"

subsection \<open>Event information\<close>

record event_information =
  ei_id :: event_descriptor
  ei_pid :: int
  ei_number :: "nat option"
  ei_code :: "nat option"
  ei_address :: "nat option"
  ei_instruction :: "nat option"

text \<open>
  \<open>payload[offset..offset + n].copy_from_slice(bytes)\<close>, which panics out of range, and the
  increment of the offset; absent fields take no room.
\<close>

definition put_bytes :: "u8 list \<Rightarrow> u8 list \<times> nat \<Rightarrow> (u8 list \<times> nat) kres" where
  "put_bytes bytes s =
    (case s of (pl, offset) \<Rightarrow>
       if offset + length bytes \<le> length pl
       then Ok (take offset pl @ bytes @ drop (offset + length bytes) pl, offset + length bytes)
       else Panic)"

definition put_optional :: "nat option \<Rightarrow> u8 list \<times> nat \<Rightarrow> (u8 list \<times> nat) kres" where
  "put_optional v s = (case v of Some x \<Rightarrow> put_bytes (le_bytes 4 x) s | None \<Rightarrow> Ok s)"

definition event_information_to_message :: "nat \<Rightarrow> event_information \<Rightarrow> message kres" where
  "event_information_to_message payload_size info =
    bind_res (put_bytes (descriptor_to_bytes (ei_id info)) (replicate payload_size 0, 0)) (\<lambda>s.
    bind_res (put_bytes (i32_bytes (ei_pid info)) s) (\<lambda>s.
    bind_res (put_optional (ei_number info) s) (\<lambda>s.
    bind_res (put_optional (ei_code info) s) (\<lambda>s.
    bind_res (put_optional (ei_address info) s) (\<lambda>s.
    bind_res (put_optional (ei_instruction info) s) (\<lambda>(pl, offset).
      Ok (message_new (ei_pid info) (receiver_from_pid (ei_pid info)) MException None pl)))))))"

definition read_required_bytes :: "nat \<Rightarrow> u8 list \<Rightarrow> nat \<Rightarrow> string \<Rightarrow> (u8 list \<times> nat) kres" where
  "read_required_bytes n pl offset field =
    (case checked_add offset n of
       None \<Rightarrow> fail InvalidMessage field
     | Some stop \<Rightarrow>
         if stop \<le> length pl then Ok (take n (drop offset pl), stop) else fail InvalidMessage field)"

definition read_optional_usize :: "u8 list \<Rightarrow> nat \<Rightarrow> nat option \<times> nat" where
  "read_optional_usize pl offset =
    (case checked_add offset 4 of
       None \<Rightarrow> (None, offset)
     | Some stop \<Rightarrow>
         if stop > length pl then (None, offset)
         else (Some (le_value (take 4 (drop offset pl))), stop))"

definition event_information_try_from :: "message \<Rightarrow> event_information kres" where
  "event_information_try_from msg =
    (let pl = payload msg in
     bind_res (read_required_bytes 4 pl 0 ''invalid event descriptor'') (\<lambda>(bytes, offset).
     bind_res (descriptor_from_bytes bytes) (\<lambda>ident.
     bind_res (read_required_bytes 4 pl offset ''invalid process identifier'') (\<lambda>(bytes, offset).
       let pid = i32_value bytes;
           (number, offset) = read_optional_usize pl offset;
           (ecode, offset) = read_optional_usize pl offset;
           (address, offset) = read_optional_usize pl offset;
           (instruction, offset) = read_optional_usize pl offset
       in Ok \<lparr>ei_id = ident, ei_pid = pid, ei_number = number, ei_code = ecode,
              ei_address = address, ei_instruction = instruction\<rparr>))))"

subsection \<open>Scheduling events\<close>

record process_termination_info =
  pt_pid :: int
  pt_status :: nat

definition termination_to_bytes :: "process_termination_info \<Rightarrow> u8 list" where
  "termination_to_bytes i = i32_bytes (pt_pid i) @ le_bytes 4 (pt_status i)"

definition termination_from_bytes :: "u8 list \<Rightarrow> process_termination_info" where
  "termination_from_bytes bytes =
    \<lparr>pt_pid = i32_value (take 4 bytes), pt_status = le_value (take 4 (drop 4 bytes))\<rparr>"

record process_creation_info =
  pc_pid :: int
  pc_parent :: int

definition creation_to_bytes :: "process_creation_info \<Rightarrow> u8 list" where
  "creation_to_bytes i = i32_bytes (pc_pid i) @ i32_bytes (pc_parent i)"

definition creation_from_bytes :: "u8 list \<Rightarrow> process_creation_info" where
  "creation_from_bytes bytes =
    \<lparr>pc_pid = i32_value (take 4 bytes), pc_parent = i32_value (take 4 (drop 4 bytes))\<rparr>"

subsection \<open>Specification\<close>

text \<open>The values of the enumerations.\<close>

fun event_ok :: "event \<Rightarrow> bool" where
  "event_ok (EInterrupt (InterruptEvent n)) \<longleftrightarrow> n < INTERRUPT_EVENTS"
| "event_ok (EException (ExceptionEvent n)) \<longleftrightarrow> n < EXCEPTION_EVENTS"
| "event_ok (EScheduling ev) \<longleftrightarrow> True"

text \<open>The optional fields an event information has, in order.\<close>

definition present_fields :: "event_information \<Rightarrow> nat list" where
  "present_fields info =
    List.map_filter id [ei_number info, ei_code info, ei_address info, ei_instruction info]"

definition decoded_fields :: "event_information \<Rightarrow> nat option list" where
  "decoded_fields info = [ei_number info, ei_code info, ei_address info, ei_instruction info]"

section \<open>Lemmas\<close>

lemma scheduling_event_bound: "scheduling_event_to_u32 ev < 2"
  by (cases ev) simp_all

lemma event_code_bound: "event_ok ev \<Longrightarrow> event_to_u32 ev < 66"
  by (cases ev rule: event_ok.cases) (auto simp: scheduling_event_bound)

lemma event_from_to: "event_ok ev \<Longrightarrow> event_try_from (event_to_u32 ev) = Ok ev"
proof (cases ev rule: event_ok.cases)
  case (3 s)
  then show ?thesis by (cases s) (simp_all add: event_try_from_def scheduling_event_try_from_def)
qed (simp_all add: event_try_from_def interrupt_event_try_from_def exception_event_try_from_def)

lemma event_to_from:
  "event_try_from raw = Ok ev \<Longrightarrow> event_ok ev \<and> event_to_u32 ev = raw"
  by (auto simp: event_try_from_def interrupt_event_try_from_def exception_event_try_from_def
      scheduling_event_try_from_def split: if_splits)

lemma event_try_from_iff: "is_ok (event_try_from raw) \<longleftrightarrow> raw < 66"
  by (auto simp: event_try_from_def interrupt_event_try_from_def exception_event_try_from_def
      scheduling_event_try_from_def fail_def)

lemma event_try_from_cases:
  "(\<exists>ev. event_try_from raw = Ok ev) \<or> (\<exists>e. event_try_from raw = Err e \<and> code e = InvalidArgument)"
  by (auto simp: event_try_from_def interrupt_event_try_from_def exception_event_try_from_def
      scheduling_event_try_from_def fail_def)

text \<open>The two fields of a descriptor do not overlap.\<close>

lemma masks [simp]: "EVENT_MASK = 0x7F" "ID_MASK = 0x7FFFFF80" "ID_SHIFT = 7"
  by (simp_all add: EVENT_MASK_def ID_MASK_def EVENT_MASKLEN_def ID_SHIFT_def)

lemma descriptor_event_bits:
  "event_ok ev \<Longrightarrow> descriptor_new ident ev AND 0x7F = word_of_nat (event_to_u32 ev)"
proof -
  assume "event_ok ev"
  then have b: "event_to_u32 ev < 2 ^ 7" using event_code_bound [of ev] by simp
  have "descriptor_new ident ev AND 0x7F = word_of_nat (event_to_u32 ev) AND 0x7F"
    by (simp add: descriptor_new_def bit.conj_disj_distrib2 and.assoc)
  also have "\<dots> = word_of_nat (event_to_u32 ev AND 0x7F)" by (simp add: of_nat_and_eq)
  also have "event_to_u32 ev AND 0x7F = take_bit 7 (event_to_u32 ev)"
    by (simp add: take_bit_eq_mask mask_eq_exp_minus_1)
  also have "\<dots> = event_to_u32 ev" using b by (simp add: take_bit_nat_eq_self)
  finally show ?thesis .
qed

lemma id_mask_bits: "bit (0x7FFFFF80 :: 32 word) n \<longleftrightarrow> 7 \<le> n \<and> n < 31"
proof -
  have "(0x7FFFFF80 :: 32 word) = push_bit 7 (mask 24)" by (simp add: mask_eq_exp_minus_1)
  then show ?thesis by (simp only: bit_push_bit_iff bit_mask_iff) auto
qed

lemma id_field_read: "drop_bit 7 (push_bit 7 x AND (0x7FFFFF80 :: 32 word)) = take_bit 24 x"
  by (rule bit_word_eqI)
     (simp only: bit_drop_bit_eq bit_push_bit_iff bit_and_iff bit_take_bit_iff id_mask_bits o_def,
      auto)

lemma id_field_write: "push_bit 7 (drop_bit 7 (x AND (0x7FFFFF80 :: 32 word))) = x AND 0x7FFFFF80"
  by (rule bit_word_eqI)
     (simp only: bit_drop_bit_eq bit_push_bit_iff bit_and_iff bit_take_bit_iff id_mask_bits o_def,
      auto)

lemma descriptor_id_bits: "descriptor_id (descriptor_new ident ev) = take_bit 24 ident"
proof -
  have "descriptor_new ident ev AND 0x7FFFFF80 = push_bit 7 ident AND 0x7FFFFF80"
    by (simp add: descriptor_new_def bit.conj_disj_distrib2 and.assoc)
  then show ?thesis by (simp only: descriptor_id_def masks id_field_read)
qed

lemma descriptor_rebuild:
  assumes "event_try_from (unat (raw AND 0x7F)) = Ok ev"
  shows "descriptor_new (drop_bit 7 (raw AND 0x7FFFFF80)) ev = take_bit 31 raw"
proof -
  have w: "word_of_nat (event_to_u32 ev) = raw AND 0x7F"
    using event_to_from [OF assms] by simp
  have "push_bit 7 (drop_bit 7 (raw AND 0x7FFFFF80)) = raw AND 0x7FFFFF80"
    by (rule id_field_write)
  then have "descriptor_new (drop_bit 7 (raw AND 0x7FFFFF80)) ev
      = raw AND (0x7FFFFF80 OR 0x7F)"
    by (simp only: descriptor_new_def masks w and.assoc and.idem bit.conj_disj_distrib)
  also have "\<dots> = take_bit 31 raw" by (simp add: take_bit_eq_mask mask_eq_exp_minus_1)
  finally show ?thesis .
qed

lemma descriptor_try_from_iff:
  "descriptor_try_from raw =
    (case event_try_from (unat (raw AND 0x7F)) of
       Ok ev \<Rightarrow> Ok (take_bit 31 raw) | Err e \<Rightarrow> Err e | Panic \<Rightarrow> Panic)"
  using descriptor_rebuild [of raw]
  by (auto simp: descriptor_try_from_def Let_def split: res.splits)

lemma descriptor_try_from_new:
  assumes "event_ok ev"
  shows "descriptor_try_from (descriptor_new ident ev) = Ok (descriptor_new ident ev)"
proof -
  have "unat (word_of_nat (event_to_u32 ev) :: 32 word) = event_to_u32 ev"
    using event_code_bound [OF assms] by (simp add: unsigned_of_nat take_bit_nat_eq_self)
  moreover have "take_bit 31 (descriptor_new ident ev) = descriptor_new ident ev"
    by (simp add: descriptor_new_def take_bit_eq_mask mask_eq_exp_minus_1 bit.conj_disj_distrib2
        and.assoc)
  ultimately show ?thesis
    by (simp add: descriptor_try_from_iff descriptor_event_bits [OF assms] event_from_to [OF assms])
qed

lemma descriptor_bytes_round_trip:
  "descriptor_from_bytes (descriptor_to_bytes d) = descriptor_try_from d"
proof -
  have "unat d < 2 ^ 32" using unsigned_less [of d, where 'a = nat] by simp
  then have "word_of_nat (le_value (le_bytes 4 (unat d))) = d"
    by (simp add: le_value_le_bytes)
  then show ?thesis
    by (simp add: descriptor_from_bytes_def descriptor_to_bytes_def descriptor_try_from_def Let_def)
qed

text \<open>Writing fields one after the other into a zeroed payload, and reading them back.\<close>

lemma put_bytes_fill:
  "length bytes \<le> k \<Longrightarrow>
   put_bytes bytes (pre @ replicate k 0, length pre) =
     Ok ((pre @ bytes) @ replicate (k - length bytes) 0, length (pre @ bytes))"
  by (simp add: put_bytes_def)

lemma put_optional_fill:
  "4 \<le> k \<Longrightarrow>
   put_optional v (pre @ replicate k 0, length pre) =
     (case v of None \<Rightarrow> Ok (pre @ replicate k 0, length pre)
      | Some x \<Rightarrow> Ok ((pre @ le_bytes 4 x) @ replicate (k - 4) 0, length (pre @ le_bytes 4 x)))"
  using put_bytes_fill [of "le_bytes 4 x" k pre for x]
  by (auto simp: put_optional_def split: option.splits)

lemma read_optional_at:
  "length x = 4 \<Longrightarrow> length pre + 4 \<le> USIZE_MAX \<Longrightarrow>
   read_optional_usize (pre @ x @ post) (length pre) = (Some (le_value x), length (pre @ x))"
  by (simp add: read_optional_usize_def checked_add_def)

lemma descriptor_bytes_length [simp]: "length (descriptor_to_bytes d) = 4"
  by (simp add: descriptor_to_bytes_def)

lemma le_value_zeros [simp]: "le_value (replicate n 0) = 0"
  by (induction n) simp_all

lemma encode_fields:
  assumes "24 \<le> n"
  shows "\<exists>msg. event_information_to_message n info = Ok msg \<and>
    payload msg = descriptor_to_bytes (ei_id info) @ i32_bytes (ei_pid info) @
      concat (map (le_bytes 4) (present_fields info)) @
      replicate (n - 8 - 4 * length (present_fields info)) 0"
proof -
  note fill = put_bytes_fill [of _ _ "[]", simplified] put_bytes_fill put_optional_fill
  show ?thesis
    using assms
    by (cases "ei_number info"; cases "ei_code info"; cases "ei_address info";
        cases "ei_instruction info")
       (simp_all add: event_information_to_message_def fill present_fields_def message_new_def
          List.map_filter_def put_bytes_def put_optional_def del: append_assoc)
qed

lemma decode_four:
  assumes "payload msg = descriptor_to_bytes d @ i32_bytes pid @
      le_bytes 4 a @ le_bytes 4 b @ le_bytes 4 c @ le_bytes 4 e @ post"
    and "descriptor_try_from d = Ok d'" "i32_ok pid"
  shows "event_information_try_from msg =
    Ok \<lparr>ei_id = d', ei_pid = pid, ei_number = Some (a mod 2 ^ 32), ei_code = Some (b mod 2 ^ 32),
        ei_address = Some (c mod 2 ^ 32), ei_instruction = Some (e mod 2 ^ 32)\<rparr>"
  using assms
  by (simp add: event_information_try_from_def read_required_bytes_def checked_add_def
      descriptor_bytes_round_trip read_optional_usize_def le_value_le_bytes)

lemma pad_fields:
  assumes "length vs \<le> 4" "24 \<le> n"
  obtains a b c e where "take 4 (vs @ [0, 0, 0, 0]) = [a, b, c, e]"
    "concat (map (le_bytes 4) vs) @ replicate (n - 8 - 4 * length vs) 0 =
      le_bytes 4 a @ le_bytes 4 b @ le_bytes 4 c @ le_bytes 4 e @ replicate (n - 24) (0 :: u8)"
proof -
  have four: "\<exists>a b c e. xs = [a, b, c, e]" if "length xs = 4" for xs :: "nat list"
    using that by (auto simp: numeral_eq_Suc length_Suc_conv)
  define ws where "ws = take 4 (vs @ [0, 0, 0, 0])"
  have ws: "ws = vs @ replicate (4 - length vs) 0"
    using assms(1) by (simp add: ws_def numeral_eq_Suc le_Suc_eq) (auto simp: numeral_eq_Suc)
  have "length ws = 4" using assms(1) by (simp add: ws)
  with four obtain a b c e where w: "ws = [a, b, c, e]" by blast
  have zeros: "concat (replicate k (le_bytes 4 0)) = replicate (4 * k) (0 :: u8)" for k
    by (induction k) (simp_all add: numeral_eq_Suc le_bytes_def)
  have "4 * (4 - length vs) + (n - 24) = n - 8 - 4 * length vs" using assms by simp
  then have "concat (map (le_bytes 4) vs) @ replicate (n - 8 - 4 * length vs) 0 =
      concat (map (le_bytes 4) ws) @ replicate (n - 24) (0 :: u8)"
    by (simp add: ws zeros replicate_add [symmetric])
  also have "\<dots> = le_bytes 4 a @ le_bytes 4 b @ le_bytes 4 c @ le_bytes 4 e @ replicate (n - 24) 0"
    by (simp add: w)
  finally show thesis by (rule that [OF w [unfolded ws_def]])
qed

lemma present_fields_bound:
  "length (present_fields info) \<le> 4"
  by (simp add: present_fields_def List.map_filter_def
      order_trans [OF length_filter_le] split: option.splits)

section \<open>Claims\<close>

text \<open>
  Event numbers and descriptors: an event is recovered from its number and from any descriptor
  made for it, which never panics; the descriptor keeps the low 24 bits of its sequence number; and a
  raw word is accepted exactly when its low seven bits number an event, up to its unused top bit.
\<close>

lemma event_descriptor_round_trip:
  assumes "event_ok ev"
  shows "event_try_from (event_to_u32 ev) = Ok ev \<and>
    descriptor_event (descriptor_new ident ev) = Ok ev \<and>
    descriptor_id (descriptor_new ident ev) = take_bit 24 ident \<and>
    (case descriptor_try_from raw of
       Ok d \<Rightarrow> unat (raw AND 0x7F) < 66 \<and> d = take_bit 31 raw
     | Err e \<Rightarrow> 66 \<le> unat (raw AND 0x7F) \<and> code e = InvalidArgument
     | Panic \<Rightarrow> False)"
proof -
  have "unat (word_of_nat (event_to_u32 ev) :: 32 word) = event_to_u32 ev"
    using event_code_bound [OF assms] by (simp add: unsigned_of_nat take_bit_nat_eq_self)
  then have "descriptor_event (descriptor_new ident ev) = Ok ev"
    by (simp add: descriptor_event_def descriptor_event_bits [OF assms] event_from_to [OF assms]
        unwrap_def)
  moreover have "case descriptor_try_from raw of
       Ok d \<Rightarrow> unat (raw AND 0x7F) < 66 \<and> d = take_bit 31 raw
     | Err e \<Rightarrow> 66 \<le> unat (raw AND 0x7F) \<and> code e = InvalidArgument
     | Panic \<Rightarrow> False"
    using event_try_from_iff [of "unat (raw AND 0x7F)"] event_try_from_cases [of "unat (raw AND 0x7F)"]
    by (auto simp: descriptor_try_from_iff)
  ultimately show ?thesis using assms by (simp add: event_from_to descriptor_id_bits)
qed

text \<open>
  C15. The message made for an event information decodes to the same descriptor and process; its
  optional fields are packed without gaps and decoded by position, so the receiver sees the fields
  that are present, in order, followed by zeros. All four fields are recovered when all are present;
  an absent field makes the following ones move up.
\<close>

theorem event_information_fields:
  assumes "24 \<le> n" "i32_ok (ei_pid info)" "event_ok ev" "ei_id info = descriptor_new ident ev"
    "list_all (\<lambda>x. x \<le> U32_MAX) (present_fields info)"
  shows "\<exists>msg info'. event_information_to_message n info = Ok msg \<and>
    event_information_try_from msg = Ok info' \<and>
    ei_id info' = ei_id info \<and> ei_pid info' = ei_pid info \<and>
    decoded_fields info' = map Some (take 4 (present_fields info @ [0, 0, 0, 0]))"
proof -
  let ?vs = "present_fields info"
  obtain msg where msg: "event_information_to_message n info = Ok msg"
    and pl: "payload msg = descriptor_to_bytes (ei_id info) @ i32_bytes (ei_pid info) @
      concat (map (le_bytes 4) ?vs) @ replicate (n - 8 - 4 * length ?vs) 0"
    using encode_fields [OF assms(1), of info] by auto
  from present_fields_bound assms(1) obtain a b c e
    where f: "take 4 (?vs @ [0, 0, 0, 0]) = [a, b, c, e]"
      "concat (map (le_bytes 4) ?vs) @ replicate (n - 8 - 4 * length ?vs) 0 =
        le_bytes 4 a @ le_bytes 4 b @ le_bytes 4 c @ le_bytes 4 e @ replicate (n - 24) (0 :: u8)"
    by (rule pad_fields)
  have "set (take 4 (?vs @ [0, 0, 0, 0])) \<subseteq> set ?vs \<union> {0}" using set_take_subset by fastforce
  then have "set [a, b, c, e] \<subseteq> set ?vs \<union> {0}" by (simp only: f)
  then have small: "a \<le> U32_MAX" "b \<le> U32_MAX" "c \<le> U32_MAX" "e \<le> U32_MAX"
    using assms(5) by (auto simp: list_all_iff)
  have "descriptor_try_from (ei_id info) = Ok (ei_id info)"
    unfolding assms(4) by (rule descriptor_try_from_new [OF assms(3)])
  from decode_four [OF _ this assms(2)] pl f(2) show ?thesis
    using msg small f(1) by (auto simp: decoded_fields_def)
qed

theorem event_information_fields_witness:
  "\<exists>msg info'. event_information_to_message 51
      \<lparr>ei_id = descriptor_new 1 (EException (ExceptionEvent 14)), ei_pid = 7, ei_number = None,
       ei_code = Some 4, ei_address = Some 4096, ei_instruction = None\<rparr> = Ok msg \<and>
    event_information_try_from msg = Ok info' \<and>
    decoded_fields info' = [Some 4, Some 4096, Some 0, Some 0]"
  using event_information_fields [of 51 "\<lparr>ei_id = descriptor_new 1 (EException (ExceptionEvent 14)),
      ei_pid = 7, ei_number = None, ei_code = Some 4, ei_address = Some 4096,
      ei_instruction = None\<rparr>" "EException (ExceptionEvent 14)" 1]
  by (auto simp: i32_ok_def present_fields_def List.map_filter_def)

end
