(* ===== verification/Frames.thy ===== *)
theory Frames
  imports Bitmaps
begin

text \<open>
  \<open>src/src/kernel/src/mm/phys\<close>: the physical frame allocator (\<open>frame.rs\<close>), owned user and kernel
  frames (\<open>upool.rs\<close>, \<open>kframe.rs\<close>) and the physical memory manager (\<open>manager.rs\<close>), with the frame
  numbers and page-aligned addresses they use. A frame address is the number of its first byte.
  The size of the reference count table and the kernel watermark are build-time constants, so they
  are parameters. Installing the identity mapping of a kernel frame is a parameter too: the result
  of \<open>identity_map_page\<close> for each address. Assertions of the debug profile are modelled as panics.

  The lemmas show that a frame is marked in the bitmap exactly while it has owners, that sharing
  and freeing count owners, that the bulk operations are all-or-nothing, and that user allocations
  leave the kernel watermark untouched.
\<close>

section \<open>Frame numbers and addresses\<close>

abbreviation (input) FRAME_SIZE :: nat where "FRAME_SIZE \<equiv> 4096"
abbreviation (input) MAX_ADDRESS :: nat where "MAX_ADDRESS \<equiv> USIZE_MAX"

definition FRAME_NUMBER_MAX :: nat where
  "FRAME_NUMBER_MAX = MAX_ADDRESS div FRAME_SIZE - 1"

definition frame_number_from_raw_value :: "usize \<Rightarrow> usize option" where
  "frame_number_from_raw_value v = (if v > FRAME_NUMBER_MAX then None else Some v)"

definition page_aligned_from_address :: "addr \<Rightarrow> addr kres" where
  "page_aligned_from_address a =
    (if a mod FRAME_SIZE \<noteq> 0 then fail BadAddress ''unaligned virtual address'' else Ok a)"

definition physical_from_number :: "usize \<Rightarrow> addr" where
  "physical_from_number n = n * FRAME_SIZE"

definition into_frame_number :: "addr \<Rightarrow> usize kres" where
  "into_frame_number a =
    (case frame_number_from_raw_value (a div FRAME_SIZE) of Some n \<Rightarrow> Ok n | None \<Rightarrow> Panic)"

text \<open>
  \<open>PhysicalAddress::from_raw_value\<close> accepts the addresses below the configured memory size.
\<close>

definition frame_address_from_raw_value :: "usize \<Rightarrow> addr \<Rightarrow> addr kres" where
  "frame_address_from_raw_value memory_size a =
    (if a < memory_size then page_aligned_from_address a
     else fail BadAddress ''address out of bounds of physical memory'')"

definition from_frame_number :: "usize \<Rightarrow> addr kres" where
  "from_frame_number n = page_aligned_from_address (physical_from_number n)"

section \<open>Frame allocator\<close>

record frame_inner =
  frame_bitmap :: bitmap
  refcount :: "nat list"

definition debug_assert :: "bool \<Rightarrow> unit kres" where
  "debug_assert c = (if c then Ok () else Panic)"

text \<open>\<open>debug_assert_eq!(refcount[i], 0); refcount[i] = 1\<close>, and the loop that does it for a range.\<close>

definition own_one :: "nat list \<Rightarrow> usize \<Rightarrow> nat list kres" where
  "own_one rc i =
    bind_res (index_get rc i) (\<lambda>n. bind_res (debug_assert (n = 0)) (\<lambda>_. index_set rc i 1))"

fun own_each :: "nat list \<Rightarrow> usize list \<Rightarrow> nat list kres" where
  "own_each rc [] = Ok rc"
| "own_each rc (i # is) = bind_res (own_one rc i) (\<lambda>rc'. own_each rc' is)"

text \<open>The conversion of a raw frame number that ends both allocation functions.\<close>

definition number_to_address :: "usize \<Rightarrow> addr kres" where
  "number_to_address n =
    (case frame_number_from_raw_value n of
       Some n \<Rightarrow> from_frame_number n
     | None \<Rightarrow> fail OutOfMemory ''frame number is out of bounds'')"

definition frame_alloc :: "frame_inner \<Rightarrow> addr kres \<times> frame_inner" where
  "frame_alloc f =
    (case bitmap_alloc (frame_bitmap f) of
       (Err e, b) \<Rightarrow> (Err e, f\<lparr>frame_bitmap := b\<rparr>)
     | (Panic, b) \<Rightarrow> (Panic, f\<lparr>frame_bitmap := b\<rparr>)
     | (Ok n, b) \<Rightarrow>
         (case own_one (refcount f) n of
            Ok rc \<Rightarrow> (number_to_address n, f\<lparr>frame_bitmap := b, refcount := rc\<rparr>)
          | Err e \<Rightarrow> (Err e, f\<lparr>frame_bitmap := b\<rparr>)
          | Panic \<Rightarrow> (Panic, f\<lparr>frame_bitmap := b\<rparr>)))"

definition alloc_contiguous :: "frame_inner \<Rightarrow> usize \<Rightarrow> addr kres \<times> frame_inner" where
  "alloc_contiguous f cnt =
    (case alloc_range (frame_bitmap f) cnt of
       (Err e, b) \<Rightarrow> (Err e, f\<lparr>frame_bitmap := b\<rparr>)
     | (Panic, b) \<Rightarrow> (Panic, f\<lparr>frame_bitmap := b\<rparr>)
     | (Ok n, b) \<Rightarrow>
         (case own_each (refcount f) [n..<n + cnt] of
            Ok rc \<Rightarrow> (number_to_address n, f\<lparr>frame_bitmap := b, refcount := rc\<rparr>)
          | Err e \<Rightarrow> (Err e, f\<lparr>frame_bitmap := b\<rparr>)
          | Panic \<Rightarrow> (Panic, f\<lparr>frame_bitmap := b\<rparr>)))"

definition frame_free :: "frame_inner \<Rightarrow> addr \<Rightarrow> unit kres \<times> frame_inner" where
  "frame_free f frame =
    (case into_frame_number frame of
       Err e \<Rightarrow> (Err e, f) | Panic \<Rightarrow> (Panic, f)
     | Ok n \<Rightarrow>
         if n \<ge> length (refcount f) then (fail BadAddress ''frame number out of bounds'', f)
         else if refcount f ! n = 0 then (fail BadAddress ''frame is already free'', f)
         else
           let f' = f\<lparr>refcount := (refcount f)[n := refcount f ! n - 1]\<rparr>
           in if refcount f' ! n = 0
              then (case bitmap_clear (frame_bitmap f) n of (r, b) \<Rightarrow> (r, f'\<lparr>frame_bitmap := b\<rparr>))
              else (Ok (), f'))"

definition frame_share :: "frame_inner \<Rightarrow> addr \<Rightarrow> unit kres \<times> frame_inner" where
  "frame_share f frame =
    (case into_frame_number frame of
       Err e \<Rightarrow> (Err e, f) | Panic \<Rightarrow> (Panic, f)
     | Ok n \<Rightarrow>
         if n \<ge> length (refcount f) then (fail BadAddress ''frame number out of bounds'', f)
         else if refcount f ! n = 0 then (fail BadAddress ''cannot share an unallocated frame'', f)
         else if refcount f ! n + 1 > U8_MAX
         then (fail OutOfMemory ''frame reference count overflow'', f)
         else (Ok (), f\<lparr>refcount := (refcount f)[n := refcount f ! n + 1]\<rparr>))"

definition frame_refcount :: "frame_inner \<Rightarrow> addr \<Rightarrow> nat kres" where
  "frame_refcount f frame =
    bind_res (into_frame_number frame) (\<lambda>n.
      if n \<ge> length (refcount f) then fail BadAddress ''frame number out of bounds''
      else if refcount f ! n = 0 then fail BadAddress ''frame is not allocated''
      else Ok (refcount f ! n))"

definition frame_book :: "frame_inner \<Rightarrow> addr \<Rightarrow> unit kres \<times> frame_inner" where
  "frame_book f phys_addr =
    (case into_frame_number phys_addr of
       Err e \<Rightarrow> (Err e, f) | Panic \<Rightarrow> (Panic, f)
     | Ok n \<Rightarrow>
         (case bitmap_set (frame_bitmap f) n of
            (Err e, b) \<Rightarrow> (Err e, f\<lparr>frame_bitmap := b\<rparr>)
          | (Panic, b) \<Rightarrow> (Panic, f\<lparr>frame_bitmap := b\<rparr>)
          | (Ok _, b) \<Rightarrow>
              (case own_one (refcount f) n of
                 Ok rc \<Rightarrow> (Ok (), f\<lparr>frame_bitmap := b, refcount := rc\<rparr>)
               | Err e \<Rightarrow> (Err e, f\<lparr>frame_bitmap := b\<rparr>)
               | Panic \<Rightarrow> (Panic, f\<lparr>frame_bitmap := b\<rparr>))))"

definition is_covered :: "frame_inner \<Rightarrow> addr \<Rightarrow> bool kres" where
  "is_covered f phys_addr =
    bind_res (into_frame_number phys_addr) (\<lambda>n. Ok (n < number_of_bits (frame_bitmap f)))"

text \<open>The two loops of \<open>alloc_range\<close>: the check of every frame, and the booking.\<close>

fun check_free :: "bitmap \<Rightarrow> usize list \<Rightarrow> unit kres" where
  "check_free b [] = Ok ()"
| "check_free b (i # is) =
    (if i \<ge> number_of_bits b then fail InvalidArgument ''frame index not covered by the bitmap''
     else bind_res (bitmap_test b i) (\<lambda>used.
       if used then fail OutOfMemory ''frame is already allocated'' else check_free b is))"

fun book_each :: "frame_inner \<Rightarrow> usize list \<Rightarrow> unit kres \<times> frame_inner" where
  "book_each f [] = (Ok (), f)"
| "book_each f (i # is) =
    (case bitmap_set (frame_bitmap f) i of
       (Err e, b) \<Rightarrow> (Err e, f\<lparr>frame_bitmap := b\<rparr>)
     | (Panic, b) \<Rightarrow> (Panic, f\<lparr>frame_bitmap := b\<rparr>)
     | (Ok _, b) \<Rightarrow>
         (case own_one (refcount f) i of
            Ok rc \<Rightarrow> book_each (f\<lparr>frame_bitmap := b, refcount := rc\<rparr>) is
          | Err e \<Rightarrow> (Err e, f\<lparr>frame_bitmap := b\<rparr>)
          | Panic \<Rightarrow> (Panic, f\<lparr>frame_bitmap := b\<rparr>)))"

text \<open>The region is given by its page-aligned start and its size; \<open>- 1\<close> underflows only at zero.\<close>

definition frame_alloc_range :: "frame_inner \<Rightarrow> addr \<Rightarrow> usize \<Rightarrow> unit kres \<times> frame_inner" where
  "frame_alloc_range f region_start region_size =
    (case into_frame_number region_start of
       Err e \<Rightarrow> (Err e, f) | Panic \<Rightarrow> (Panic, f)
     | Ok start \<Rightarrow>
         if start + region_size div FRAME_SIZE = 0 then (Panic, f)
         else
           let last = start + region_size div FRAME_SIZE - 1
           in case check_free (frame_bitmap f) [start..<last + 1] of
                Err e \<Rightarrow> (Err e, f) | Panic \<Rightarrow> (Panic, f)
              | Ok _ \<Rightarrow> book_each f [start..<last + 1])"

section \<open>The singleton\<close>

record frame_globals =
  REFCOUNT_STORAGE :: "nat list"
  INSTANCE :: "frame_inner option"

text \<open>The loop that gives every frame already marked in the bitmap one owner.\<close>

fun sync_refcounts :: "bitmap \<Rightarrow> usize \<Rightarrow> nat list \<Rightarrow> nat list" where
  "sync_refcounts b i [] = []"
| "sync_refcounts b i (n # ns) =
    (if i < number_of_bits b \<and> bitmap_test b i = Ok True then 1 else n) # sync_refcounts b (i + 1) ns"

definition frame_init :: "frame_globals \<Rightarrow> bitmap \<Rightarrow> unit kres \<times> frame_globals" where
  "frame_init g b =
    (if INSTANCE g \<noteq> None then (fail InvalidArgument ''frame allocator already initialized'', g)
     else if number_of_bits b > length (REFCOUNT_STORAGE g)
     then (fail InvalidArgument ''frame bitmap is larger than the configured refcount storage'', g)
     else
       let rc = sync_refcounts b 0 (REFCOUNT_STORAGE g)
       in (Ok (), g\<lparr>REFCOUNT_STORAGE := rc, INSTANCE := Some \<lparr>frame_bitmap = b, refcount = rc\<rparr>\<rparr>))"

text \<open>\<open>instance()\<close> panics before \<open>init()\<close>; every public function goes through it.\<close>

definition with_instance ::
  "(frame_inner \<Rightarrow> 'a kres \<times> frame_inner) \<Rightarrow> frame_globals \<Rightarrow> 'a kres \<times> frame_globals" where
  "with_instance op g =
    (case INSTANCE g of
       None \<Rightarrow> (Panic, g)
     | Some f \<Rightarrow> (case op f of (r, f') \<Rightarrow> (r, g\<lparr>INSTANCE := Some f'\<rparr>)))"

definition free_count :: "frame_inner \<Rightarrow> usize" where
  "free_count f = number_of_bits (frame_bitmap f) - usage (frame_bitmap f)"

section \<open>Owned frames and the physical memory manager\<close>

text \<open>
  A \<open>UserFrame\<close> or \<open>KernelFrame\<close> is its address; dropping it frees the frame and ignores the
  result, and clearing a vector drops its elements in order.
\<close>

definition drop_frame :: "frame_inner \<Rightarrow> addr \<Rightarrow> frame_inner" where
  "drop_frame f a = snd (frame_free f a)"

fun drop_frames :: "frame_inner \<Rightarrow> addr list \<Rightarrow> frame_inner" where
  "drop_frames f [] = f"
| "drop_frames f (a # as) = drop_frames (drop_frame f a) as"

definition user_frame_share :: "frame_inner \<Rightarrow> addr \<Rightarrow> addr kres \<times> frame_inner" where
  "user_frame_share f a =
    (case frame_share f a of
       (Ok _, f') \<Rightarrow> (Ok a, f') | (Err e, f') \<Rightarrow> (Err e, f') | (Panic, f') \<Rightarrow> (Panic, f'))"

definition upool_alloc :: "frame_inner \<Rightarrow> addr kres \<times> frame_inner" where
  "upool_alloc f = frame_alloc f"

definition check_user_watermark :: "usize \<Rightarrow> frame_inner \<Rightarrow> usize \<Rightarrow> unit kres" where
  "check_user_watermark watermark f cnt =
    (case checked_add watermark cnt of
       None \<Rightarrow> fail InvalidArgument ''watermark + count overflow''
     | Some threshold \<Rightarrow>
         if free_count f < threshold then fail OutOfMemory ''would breach kernel watermark''
         else Ok ())"

definition alloc_user_frame :: "usize \<Rightarrow> frame_inner \<Rightarrow> addr kres \<times> frame_inner" where
  "alloc_user_frame watermark f =
    (case check_user_watermark watermark f 1 of
       Ok _ \<Rightarrow> upool_alloc f
     | Err e \<Rightarrow> (Err e, f)
     | Panic \<Rightarrow> (Panic, f))"

text \<open>The loop of \<open>alloc_many_user_frames\<close>; on an error the frames collected so far are dropped.\<close>

fun alloc_user_loop :: "nat \<Rightarrow> frame_inner \<Rightarrow> addr list \<Rightarrow> addr list kres \<times> frame_inner" where
  "alloc_user_loop 0 f frames = (Ok frames, f)"
| "alloc_user_loop (Suc k) f frames =
    (case upool_alloc f of
       (Ok a, f') \<Rightarrow> alloc_user_loop k f' (frames @ [a])
     | (Err e, f') \<Rightarrow> (Err e, drop_frames f' frames)
     | (Panic, f') \<Rightarrow> (Panic, f'))"

text \<open>The caller's vector is given by its contents and its capacity.\<close>

definition alloc_many_user_frames ::
  "usize \<Rightarrow> frame_inner \<Rightarrow> usize \<Rightarrow> addr list \<Rightarrow> usize \<Rightarrow> addr list kres \<times> frame_inner" where
  "alloc_many_user_frames watermark f cnt frames cap =
    (if frames \<noteq> [] then (fail InvalidArgument ''frames vector is not empty'', f)
     else if cap < cnt then (fail InvalidArgument ''frames vector has insufficient capacity'', f)
     else if cnt = 0 then (Ok frames, f)
     else case check_user_watermark watermark f cnt of
            Ok _ \<Rightarrow> alloc_user_loop cnt f frames
          | Err e \<Rightarrow> (Err e, f)
          | Panic \<Rightarrow> (Panic, f))"

definition kernel_frame_new :: "usize \<Rightarrow> (addr \<Rightarrow> unit kres) \<Rightarrow> addr \<Rightarrow> addr kres" where
  "kernel_frame_new memory_size identity_map_page base =
    bind_res (frame_address_from_raw_value memory_size base) (\<lambda>phys_addr.
    bind_res (identity_map_page phys_addr) (\<lambda>_. Ok base))"

definition alloc_kernel_frame ::
  "usize \<Rightarrow> (addr \<Rightarrow> unit kres) \<Rightarrow> frame_inner \<Rightarrow> addr kres \<times> frame_inner" where
  "alloc_kernel_frame memory_size identity_map_page f =
    (case frame_alloc f of
       (Ok a, f') \<Rightarrow>
         (case kernel_frame_new memory_size identity_map_page a of
            Ok k \<Rightarrow> (Ok k, f')
          | Err e \<Rightarrow> (Err e, snd (frame_free f' a))
          | Panic \<Rightarrow> (Panic, f'))
     | (Err e, f') \<Rightarrow> (Err e, f')
     | (Panic, f') \<Rightarrow> (Panic, f'))"

text \<open>
  The wrapping loop of \<open>alloc_many_kernel_frames\<close> over the frames of the range still to be
  wrapped; on an error the wrapped ones are dropped and the rest are freed.
\<close>

fun free_unwrapped :: "usize \<Rightarrow> frame_inner \<Rightarrow> addr list \<Rightarrow> frame_inner" where
  "free_unwrapped memory_size f [] = f"
| "free_unwrapped memory_size f (raw # raws) =
    free_unwrapped memory_size
      (case frame_address_from_raw_value memory_size raw of
         Ok fa \<Rightarrow> snd (frame_free f fa) | _ \<Rightarrow> f) raws"

fun wrap_kernel_frames ::
  "usize \<Rightarrow> (addr \<Rightarrow> unit kres) \<Rightarrow> frame_inner \<Rightarrow> addr list \<Rightarrow> addr list \<Rightarrow> addr list kres \<times> frame_inner" where
  "wrap_kernel_frames memory_size identity_map_page f [] frames = (Ok frames, f)"
| "wrap_kernel_frames memory_size identity_map_page f (raw # raws) frames =
    (case bind_res (frame_address_from_raw_value memory_size raw)
            (kernel_frame_new memory_size identity_map_page) of
       Ok k \<Rightarrow> wrap_kernel_frames memory_size identity_map_page f raws (frames @ [k])
     | Err e \<Rightarrow> (Err e, free_unwrapped memory_size (drop_frames f frames) (raw # raws))
     | Panic \<Rightarrow> (Panic, f))"

definition alloc_many_kernel_frames ::
  "usize \<Rightarrow> (addr \<Rightarrow> unit kres) \<Rightarrow> frame_inner \<Rightarrow> usize \<Rightarrow> addr list \<Rightarrow> usize \<Rightarrow>
    addr list kres \<times> frame_inner" where
  "alloc_many_kernel_frames memory_size identity_map_page f cnt frames cap =
    (if frames \<noteq> [] then (fail InvalidArgument ''frames vector is not empty'', f)
     else if cap < cnt then (fail InvalidArgument ''frames vector has insufficient capacity'', f)
     else case alloc_contiguous f cnt of
            (Ok base, f') \<Rightarrow>
              wrap_kernel_frames memory_size identity_map_page f'
                (map (\<lambda>i. base + i * FRAME_SIZE) [0..<cnt]) frames
          | (Err e, f') \<Rightarrow> (Err e, f')
          | (Panic, f') \<Rightarrow> (Panic, f'))"

section \<open>Invariant\<close>

text \<open>
  The invariants \<open>Inner\<close> documents, with the bound the frame table has by construction: there are
  no more counters than frame numbers.
\<close>

definition frames_inv :: "frame_inner \<Rightarrow> bool" where
  "frames_inv f \<longleftrightarrow>
    bitmap_inv (frame_bitmap f) \<and>
    number_of_bits (frame_bitmap f) \<le> length (refcount f) \<and>
    length (refcount f) \<le> FRAME_NUMBER_MAX + 1 \<and>
    (\<forall>i < length (refcount f). 0 < refcount f ! i \<longleftrightarrow> i \<in> allocated (frame_bitmap f)) \<and>
    (\<forall>i < length (refcount f). refcount f ! i \<le> U8_MAX)"

definition owners :: "frame_inner \<Rightarrow> nat \<Rightarrow> nat" where
  "owners f n = (if n < length (refcount f) then refcount f ! n else 0)"

text \<open>Two states with the same tables.\<close>

definition same_shape :: "frame_inner \<Rightarrow> frame_inner \<Rightarrow> bool" where
  "same_shape f f' \<longleftrightarrow>
    number_of_bits (frame_bitmap f') = number_of_bits (frame_bitmap f) \<and>
    length (refcount f') = length (refcount f)"

section \<open>Addresses\<close>

lemma into_frame_number_eq:
  "into_frame_number a = (if a div FRAME_SIZE \<le> FRAME_NUMBER_MAX then Ok (a div FRAME_SIZE) else Panic)"
  by (simp add: into_frame_number_def frame_number_from_raw_value_def)

lemma into_frame_number_multiple [simp]:
  "n \<le> FRAME_NUMBER_MAX \<Longrightarrow> into_frame_number (n * FRAME_SIZE) = Ok n"
  by (simp add: into_frame_number_eq)

lemma number_to_address_ok [simp]:
  "n \<le> FRAME_NUMBER_MAX \<Longrightarrow> number_to_address n = Ok (n * FRAME_SIZE)"
  by (simp add: number_to_address_def frame_number_from_raw_value_def from_frame_number_def
      physical_from_number_def page_aligned_from_address_def)

section \<open>Owners\<close>

lemma same_shape_refl [simp]: "same_shape f f"
  by (simp add: same_shape_def)

lemma same_shape_trans: "same_shape f g \<Longrightarrow> same_shape g h \<Longrightarrow> same_shape f h"
  by (simp add: same_shape_def)

lemma allocated_owners:
  assumes "frames_inv f"
  shows "n \<in> allocated (frame_bitmap f) \<longleftrightarrow> 0 < owners f n"
  using assms allocated_less [of n "frame_bitmap f"] by (auto simp: frames_inv_def owners_def)

lemma owned_less:
  assumes "frames_inv f" "0 < owners f n"
  shows "n < number_of_bits (frame_bitmap f)" "n < length (refcount f)" "n \<le> FRAME_NUMBER_MAX"
proof -
  show "n < number_of_bits (frame_bitmap f)"
    using assms allocated_owners allocated_less by blast
  then show "n < length (refcount f)" "n \<le> FRAME_NUMBER_MAX" using assms(1) by (auto simp: frames_inv_def)
qed

text \<open>Writing one counter and the bit that goes with it.\<close>

lemma frames_write:
  assumes inv: "frames_inv f" and b: "bitmap_inv b" "number_of_bits b = number_of_bits (frame_bitmap f)"
    and n: "n < length (refcount f)" and v: "v \<le> U8_MAX"
    and al: "allocated b = (if v = 0 then allocated (frame_bitmap f) - {n} else insert n (allocated (frame_bitmap f)))"
    and f': "f' = f\<lparr>frame_bitmap := b, refcount := (refcount f)[n := v]\<rparr>"
  shows "frames_inv f'" "same_shape f f'" "owners f' = (owners f)(n := v)"
proof -
  have "0 < (refcount f)[n := v] ! i \<longleftrightarrow> i \<in> allocated b" "(refcount f)[n := v] ! i \<le> U8_MAX"
    if "i < length (refcount f)" for i
    using inv that n v al by (cases "i = n"; simp add: frames_inv_def)+
  then show "frames_inv f'" using inv b by (simp add: f' frames_inv_def)
  show "same_shape f f'" using b by (simp add: f' same_shape_def)
  show "owners f' = (owners f)(n := v)" using n by (auto simp: f' owners_def fun_eq_iff)
qed

lemma owners_le: "frames_inv f \<Longrightarrow> owners f n \<le> U8_MAX"
  by (simp add: frames_inv_def owners_def)

lemma own_one_ok:
  "i < length rc \<Longrightarrow> rc ! i = 0 \<Longrightarrow> own_one rc i = Ok (rc[i := 1])"
  by (simp add: own_one_def debug_assert_def)

lemma own_each_ok:
  assumes "distinct is" "\<forall>i \<in> set is. i < length rc \<and> rc ! i = 0"
  shows "\<exists>rc'. own_each rc is = Ok rc' \<and> length rc' = length rc \<and>
    (\<forall>j < length rc. rc' ! j = (if j \<in> set is then 1 else rc ! j))"
  using assms
proof (induction "is" arbitrary: rc)
  case (Cons i "is")
  have "\<exists>rc'. own_each (rc[i := 1]) is = Ok rc' \<and> length rc' = length (rc[i := 1]) \<and>
    (\<forall>j < length (rc[i := 1]). rc' ! j = (if j \<in> set is then 1 else rc[i := 1] ! j))"
    using Cons.prems by (intro Cons.IH) (auto simp: nth_list_update)
  then show ?case using Cons.prems by (auto simp: own_one_ok nth_list_update)
qed simp

section \<open>One frame\<close>

lemma frame_alloc_spec:
  assumes inv: "frames_inv f" and eq: "frame_alloc f = (r, f')"
  shows "(\<exists>n. r = Ok (n * FRAME_SIZE) \<and> n < number_of_bits (frame_bitmap f) \<and> owners f n = 0 \<and>
      owners f' = (owners f)(n := 1) \<and> frames_inv f' \<and> same_shape f f') \<or>
    (\<exists>e. r = Err e \<and> f' = f \<and> allocated (frame_bitmap f) = {..<number_of_bits (frame_bitmap f)})"
proof -
  let ?b = "frame_bitmap f"
  have b: "bitmap_inv ?b" using inv by (simp add: frames_inv_def)
  obtain t b' where alloc: "bitmap_alloc ?b = (t, b')" by fastforce
  show ?thesis using bm.acquire_spec [OF b alloc]
  proof (elim disjE exE conjE)
    fix n assume n: "t = Ok n" "n < number_of_bits ?b" "n \<notin> allocated ?b"
      "allocated b' = insert n (allocated ?b)" "number_of_bits b' = number_of_bits ?b" "bitmap_inv b'"
    have len: "n < length (refcount f)" "n \<le> FRAME_NUMBER_MAX" using inv n(2) by (auto simp: frames_inv_def)
    have free: "owners f n = 0" using n(3) allocated_owners [OF inv] by simp
    then have "refcount f ! n = 0" using len by (simp add: owners_def)
    then have res: "r = Ok (n * FRAME_SIZE)"
      "f' = f\<lparr>frame_bitmap := b', refcount := (refcount f)[n := 1]\<rparr>"
      using eq alloc n(1) len by (simp_all add: frame_alloc_def own_one_ok)
    note frames_write [OF inv n(6,5) len(1) _ _ res(2)]
    then have "frames_inv f'" "same_shape f f'" "owners f' = (owners f)(n := 1)" using n(4) by simp_all
    then show ?thesis using res(1) n(2) free by blast
  next
    fix e assume "t = Err e" "b' = ?b" "allocated ?b = {..<number_of_bits ?b}"
    then have "r = Err e" "f' = f" using eq alloc by (simp_all add: frame_alloc_def)
    then show ?thesis using \<open>allocated ?b = _\<close> by simp
  qed
qed

lemma frame_free_spec:
  assumes inv: "frames_inv f" and n: "into_frame_number a = Ok n" and eq: "frame_free f a = (r, f')"
  shows "frames_inv f'" "same_shape f f'"
    "if owners f n = 0 then (\<exists>msg. r = fail BadAddress msg) \<and> f' = f
     else r = Ok () \<and> owners f' = (owners f)(n := owners f n - 1)"
proof -
  let ?b = "frame_bitmap f" and ?rc = "(refcount f)[n := refcount f ! n - 1]"
  have b: "bitmap_inv ?b" using inv by (simp add: frames_inv_def)
  have "frames_inv f' \<and> same_shape f f' \<and>
    (if owners f n = 0 then (\<exists>msg. r = fail BadAddress msg) \<and> f' = f
     else r = Ok () \<and> owners f' = (owners f)(n := owners f n - 1))"
  proof (cases "owners f n = 0")
    case True
    then have "\<exists>msg. (r, f') = (fail BadAddress msg, f)"
      unfolding eq [symmetric] by (auto simp: frame_free_def n owners_def split: if_splits)
    then show ?thesis using inv True by auto
  next
    case False
    then have len: "n < length (refcount f)" and own: "owners f n = refcount f ! n"
      by (auto simp: owners_def split: if_splits)
    have used: "n \<in> allocated ?b" using False allocated_owners [OF inv] by simp
    obtain t b' where c: "bitmap_clear ?b n = (t, b')" by fastforce
    note rel = bm.release_used [OF b used c]
    define b'' where "b'' = (if owners f n = 1 then b' else ?b)"
    have nz: "refcount f ! n \<noteq> 0" "refcount f ! n - 1 = 0 \<longleftrightarrow> owners f n = 1" using False own by auto
    have "(r, f') = (Ok (), f\<lparr>frame_bitmap := b'', refcount := ?rc\<rparr>)"
      unfolding eq [symmetric] frame_free_def n Let_def b''_def using nz len c rel by simp
    then have res: "r = Ok ()" "f' = f\<lparr>frame_bitmap := b'', refcount := ?rc\<rparr>" by simp_all
    have b'': "bitmap_inv b''" "number_of_bits b'' = number_of_bits ?b"
      "allocated b'' = (if refcount f ! n - 1 = 0 then allocated ?b - {n} else insert n (allocated ?b))"
      using rel b used nz(2) by (auto simp: b''_def)
    have "refcount f ! n - 1 \<le> U8_MAX" using owners_le [OF inv, of n] own by linarith
    note frames_write [OF inv b''(1,2) len this b''(3) res(2)]
    then show ?thesis using res(1) False own by simp
  qed
  then show "frames_inv f'" "same_shape f f'"
    "if owners f n = 0 then (\<exists>msg. r = fail BadAddress msg) \<and> f' = f
     else r = Ok () \<and> owners f' = (owners f)(n := owners f n - 1)" by auto
qed

lemma frame_share_spec:
  assumes inv: "frames_inv f" and n: "into_frame_number a = Ok n" and eq: "frame_share f a = (r, f')"
  shows "frames_inv f'" "same_shape f f'"
    "if owners f n = 0 then (\<exists>msg. r = fail BadAddress msg) \<and> f' = f
     else if owners f n = U8_MAX then (\<exists>msg. r = fail OutOfMemory msg) \<and> f' = f
     else r = Ok () \<and> owners f' = (owners f)(n := owners f n + 1)"
proof -
  have "frames_inv f' \<and> same_shape f f' \<and>
    (if owners f n = 0 then (\<exists>msg. r = fail BadAddress msg) \<and> f' = f
     else if owners f n = U8_MAX then (\<exists>msg. r = fail OutOfMemory msg) \<and> f' = f
     else r = Ok () \<and> owners f' = (owners f)(n := owners f n + 1))"
  proof (cases "owners f n = 0 \<or> owners f n = U8_MAX")
    case True
    then show ?thesis using inv eq by (auto simp: frame_share_def n owners_def split: if_splits)
  next
    case False
    then have len: "n < length (refcount f)" and own: "owners f n = refcount f ! n"
      by (auto simp: owners_def split: if_splits)
    have small: "refcount f ! n < U8_MAX" using False own owners_le [OF inv, of n] by simp
    have res: "r = Ok ()" "f' = f\<lparr>frame_bitmap := frame_bitmap f,
        refcount := (refcount f)[n := refcount f ! n + 1]\<rparr>"
      using eq False len own small by (auto simp: frame_share_def n split: if_splits)
    have "allocated (frame_bitmap f) = insert n (allocated (frame_bitmap f))"
      using False allocated_owners [OF inv, of n] by auto
    moreover have "bitmap_inv (frame_bitmap f)" using inv by (simp add: frames_inv_def)
    ultimately have "frames_inv f'" "same_shape f f'" "owners f' = (owners f)(n := refcount f ! n + 1)"
      using frames_write [OF inv _ _ len _ _ res(2)] small by simp_all
    then show ?thesis using res(1) False own by simp
  qed
  then show "frames_inv f'" "same_shape f f'"
    "if owners f n = 0 then (\<exists>msg. r = fail BadAddress msg) \<and> f' = f
     else if owners f n = U8_MAX then (\<exists>msg. r = fail OutOfMemory msg) \<and> f' = f
     else r = Ok () \<and> owners f' = (owners f)(n := owners f n + 1)" by auto
qed

section \<open>Booking\<close>

lemma book_step:
  assumes inv: "frames_inv f" and i: "i < number_of_bits (frame_bitmap f)" "owners f i = 0"
  obtains b f' where "bitmap_set (frame_bitmap f) i = (Ok (), b)"
    "own_one (refcount f) i = Ok ((refcount f)[i := 1])"
    "f' = f\<lparr>frame_bitmap := b, refcount := (refcount f)[i := 1]\<rparr>"
    "frames_inv f'" "same_shape f f'" "owners f' = (owners f)(i := 1)"
proof -
  let ?b = "frame_bitmap f"
  have b: "bitmap_inv ?b" and len: "i < length (refcount f)" using inv i(1) by (auto simp: frames_inv_def)
  have free: "i \<notin> allocated ?b" using i(2) allocated_owners [OF inv] by simp
  obtain r b' where s: "bitmap_set ?b i = (r, b')" by fastforce
  note set = bitmap_set_ok [OF b i(1) free s]
  have "refcount f ! i = 0" using i(2) len by (simp add: owners_def)
  then have own: "own_one (refcount f) i = Ok ((refcount f)[i := 1])" using len by (rule own_one_ok [rotated])
  note frames_write [OF inv set(2,4) len _ _ refl, of 1]
  then show thesis using that [OF _ own refl] s set by simp
qed

lemma check_free_spec:
  assumes "bitmap_inv b"
  shows "if \<forall>i \<in> set is. i < number_of_bits b \<and> i \<notin> allocated b then check_free b is = Ok ()
    else \<exists>e. check_free b is = Err e"
proof (induction "is")
  case (Cons i "is")
  then show ?case by (auto simp: bitmap_test_eq [OF assms] fail_def split: if_splits)
qed simp

lemma book_each_spec:
  assumes "frames_inv f" "distinct is" "\<forall>i \<in> set is. i < number_of_bits (frame_bitmap f) \<and> owners f i = 0"
  shows "\<exists>f'. book_each f is = (Ok (), f') \<and> frames_inv f' \<and> same_shape f f' \<and>
    owners f' = (\<lambda>n. if n \<in> set is then 1 else owners f n)"
  using assms
proof (induction "is" arbitrary: f)
  case (Cons i "is")
  have "i < number_of_bits (frame_bitmap f)" "owners f i = 0" using Cons.prems(3) by auto
  then obtain b f1 where st: "bitmap_set (frame_bitmap f) i = (Ok (), b)"
    "own_one (refcount f) i = Ok ((refcount f)[i := 1])"
    "f1 = f\<lparr>frame_bitmap := b, refcount := (refcount f)[i := 1]\<rparr>"
    "frames_inv f1" "same_shape f f1" "owners f1 = (owners f)(i := 1)"
    using book_step [OF Cons.prems(1)] by metis
  have "\<exists>f'. book_each f1 is = (Ok (), f') \<and> frames_inv f' \<and> same_shape f1 f' \<and>
      owners f' = (\<lambda>n. if n \<in> set is then 1 else owners f1 n)"
    using Cons.prems st by (intro Cons.IH) (auto simp: same_shape_def)
  moreover have "(\<lambda>n. if n \<in> set is then 1 else owners f1 n) =
      (\<lambda>n. if n \<in> set (i # is) then 1 else owners f n)" by (auto simp: st(6))
  ultimately show ?case using st same_shape_trans [OF st(5)] by auto
qed simp

lemma alloc_contiguous_spec:
  assumes inv: "frames_inv f" and eq: "alloc_contiguous f cnt = (r, f')"
  shows "frames_inv f' \<and> same_shape f f' \<and>
    ((\<exists>n. r = Ok (n * FRAME_SIZE) \<and> 0 < cnt \<and> n + cnt \<le> number_of_bits (frame_bitmap f) \<and>
        (\<forall>k \<in> {n..<n + cnt}. owners f k = 0) \<and>
        owners f' = (\<lambda>k. if k \<in> {n..<n + cnt} then 1 else owners f k)) \<or>
     (\<exists>e. r = Err e \<and> f' = f \<and> (0 < cnt \<longrightarrow> (\<forall>s. \<not> free_range (frame_bitmap f) s cnt))))"
proof -
  let ?b = "frame_bitmap f"
  have b: "bitmap_inv ?b" using inv by (simp add: frames_inv_def)
  obtain t b' where al: "alloc_range ?b cnt = (t, b')" by fastforce
  show ?thesis using b al
  proof (cases rule: alloc_range_cases)
    case (ok n)
    have fits: "n + cnt \<le> number_of_bits ?b" using ok(3) by (simp add: free_range_def)
    have free: "owners f k = 0" if "k \<in> {n..<n + cnt}" for k
      using ok(3) that allocated_owners [OF inv, of k] unfolding free_range_def by auto
    have len: "k < length (refcount f)" if "k \<in> {n..<n + cnt}" for k
      using fits that inv by (auto simp: frames_inv_def)
    have "\<exists>rc. own_each (refcount f) [n..<n + cnt] = Ok rc \<and> length rc = length (refcount f) \<and>
        (\<forall>j < length (refcount f). rc ! j = (if j \<in> set [n..<n + cnt] then 1 else refcount f ! j))"
      using free len by (intro own_each_ok) (auto simp: owners_def split: if_splits)
    then obtain rc where rc: "own_each (refcount f) [n..<n + cnt] = Ok rc" "length rc = length (refcount f)"
      "\<And>j. j < length (refcount f) \<Longrightarrow> rc ! j = (if j \<in> {n..<n + cnt} then 1 else refcount f ! j)"
      by auto
    have "n \<le> FRAME_NUMBER_MAX" using fits ok(2) inv by (auto simp: frames_inv_def)
    then have res: "r = Ok (n * FRAME_SIZE)" "f' = f\<lparr>frame_bitmap := b', refcount := rc\<rparr>"
      using eq al ok(1) rc(1) by (simp_all add: alloc_contiguous_def)
    have "owners f' = (\<lambda>k. if k \<in> {n..<n + cnt} then 1 else owners f k)"
      using rc(2,3) len by (auto simp: res(2) owners_def fun_eq_iff)
    moreover have "0 < rc ! i \<longleftrightarrow> i \<in> allocated b'" "rc ! i \<le> U8_MAX" if "i < length (refcount f)" for i
      using rc(3) [OF that] inv that by (auto simp: ok(4) frames_inv_def)
    then have "frames_inv f'" using inv ok(5,6) rc(2) by (simp add: res(2) frames_inv_def)
    moreover have "same_shape f f'" using ok(5) rc(2) by (simp add: res(2) same_shape_def)
    ultimately show ?thesis using res(1) ok(2) fits free by blast
  next
    case invalid
    then have "(r, f') = (fail InvalidArgument ''invalid size'', f)"
      unfolding eq [symmetric] alloc_contiguous_def using al by (simp add: fail_def)
    then show ?thesis using inv invalid(3) by (auto simp: fail_def free_range_def)
  next
    case (full msg)
    then have "(r, f') = (fail OutOfMemory msg, f)"
      unfolding eq [symmetric] alloc_contiguous_def using al by (simp add: fail_def)
    then show ?thesis using inv full(4) by (auto simp: fail_def)
  qed
qed

section \<open>The interface of a counted resource\<close>

text \<open>
  What the owners of frames rely on: a resource is taken with one owner, gains an owner when it is
  duplicated, and loses one when it is closed. The limit is the largest count.
\<close>

locale counted_resource =
  fixes rinv :: "'s \<Rightarrow> bool" and cnt :: "'s \<Rightarrow> nat \<Rightarrow> nat" and limit :: nat and id_of :: "nat \<Rightarrow> nat"
    and ropen :: "'s \<Rightarrow> nat kres \<times> 's" and dup :: "'s \<Rightarrow> nat \<Rightarrow> unit kres \<times> 's"
    and close :: "'s \<Rightarrow> nat \<Rightarrow> unit kres \<times> 's"
  assumes ropen_spec: "rinv s \<Longrightarrow> ropen s = (r, s') \<Longrightarrow>
      (\<exists>n. r = Ok (id_of n) \<and> cnt s n = 0 \<and> cnt s' = (cnt s)(n := 1) \<and> rinv s') \<or> (\<exists>e. r = Err e \<and> s' = s)"
    and dup_spec: "rinv s \<Longrightarrow> 0 < cnt s n \<Longrightarrow> cnt s n < limit \<Longrightarrow> dup s (id_of n) = (u, s') \<Longrightarrow>
      u = Ok () \<and> cnt s' = (cnt s)(n := cnt s n + 1) \<and> rinv s'"
    and close_spec: "rinv s \<Longrightarrow> 0 < cnt s n \<Longrightarrow> close s (id_of n) = (u, s') \<Longrightarrow>
      u = Ok () \<and> cnt s' = (cnt s)(n := cnt s n - 1) \<and> rinv s'"
begin

lemma dup_close:
  assumes "rinv s" "0 < cnt s n" "cnt s n < limit" "dup s (id_of n) = (u, s')" "close s' (id_of n) = (v, s'')"
  shows "v = Ok ()" "cnt s'' = cnt s" "rinv s''"
proof -
  note d = dup_spec [OF assms(1-4)]
  then have "0 < cnt s' n" by simp
  note c = close_spec [OF _ this assms(5)]
  show "v = Ok ()" "rinv s''" using c d by auto
  show "cnt s'' = cnt s" using c d by (auto simp: fun_eq_iff)
qed

lemma open_close:
  assumes "rinv s" "ropen s = (Ok a, s')" "close s' a = (v, s'')"
  shows "v = Ok ()" "cnt s'' = cnt s" "rinv s''"
proof -
  obtain n where n: "a = id_of n" "cnt s n = 0" "cnt s' = (cnt s)(n := 1)" "rinv s'"
    using ropen_spec [OF assms(1,2)] by auto
  then have "0 < cnt s' n" by simp
  note c = close_spec [OF n(4) this assms(3) [unfolded n(1)]]
  then show "v = Ok ()" "rinv s''" by auto
  show "cnt s'' = cnt s" using c n by (auto simp: fun_eq_iff)
qed

end

interpretation fr: counted_resource frames_inv owners U8_MAX "\<lambda>n. n * FRAME_SIZE"
  frame_alloc frame_share frame_free
proof (standard, goal_cases)
  case (1 s r s') then show ?case using frame_alloc_spec [OF 1] by blast
next
  case (2 s n u s')
  then have "into_frame_number (n * FRAME_SIZE) = Ok n" using owned_less by simp
  from frame_share_spec [OF 2(1) this 2(4)] 2 show ?case by simp
next
  case (3 s n u s')
  then have "into_frame_number (n * FRAME_SIZE) = Ok n" using owned_less by simp
  from frame_free_spec [OF 3(1) this 3(3)] 3 show ?case by simp
qed

section \<open>Bulk operations\<close>

lemma drop_frame_spec:
  assumes "frames_inv f" "0 < owners f n"
  shows "frames_inv (drop_frame f (n * FRAME_SIZE))" "same_shape f (drop_frame f (n * FRAME_SIZE))"
    "owners (drop_frame f (n * FRAME_SIZE)) = (owners f)(n := owners f n - 1)"
proof -
  obtain r f' where eq: "frame_free f (n * FRAME_SIZE) = (r, f')" by fastforce
  have "into_frame_number (n * FRAME_SIZE) = Ok n" using owned_less [OF assms] by simp
  from frame_free_spec [OF assms(1) this eq] assms(2) eq
  show "frames_inv (drop_frame f (n * FRAME_SIZE))" "same_shape f (drop_frame f (n * FRAME_SIZE))"
    "owners (drop_frame f (n * FRAME_SIZE)) = (owners f)(n := owners f n - 1)"
    by (simp_all add: drop_frame_def)
qed

lemma drop_frames_spec:
  assumes "frames_inv f" "distinct ns" "\<forall>n \<in> set ns. 0 < owners f n"
  shows "frames_inv (drop_frames f (map (\<lambda>n. n * FRAME_SIZE) ns)) \<and>
    same_shape f (drop_frames f (map (\<lambda>n. n * FRAME_SIZE) ns)) \<and>
    owners (drop_frames f (map (\<lambda>n. n * FRAME_SIZE) ns)) =
      (\<lambda>n. if n \<in> set ns then owners f n - 1 else owners f n)"
  using assms
proof (induction ns arbitrary: f)
  case (Cons n ns)
  let ?f = "drop_frame f (n * FRAME_SIZE)"
  note d = drop_frame_spec [OF Cons.prems(1), of n]
  have "0 < owners f n" using Cons.prems by simp
  then have "frames_inv ?f" "same_shape f ?f" "owners ?f = (owners f)(n := owners f n - 1)" using d by auto
  moreover have "\<forall>k \<in> set ns. 0 < owners ?f k" using Cons.prems calculation(3) by auto
  ultimately show ?case using Cons.IH [of ?f] Cons.prems(2) same_shape_trans [of f ?f]
    by (auto simp: fun_eq_iff)
qed simp

lemma free_unwrapped_drop:
  assumes "\<forall>a \<in> set as. a < memory_size \<and> a mod FRAME_SIZE = 0"
  shows "free_unwrapped memory_size f as = drop_frames f as"
  using assms
  by (induction as arbitrary: f)
    (auto simp: frame_address_from_raw_value_def page_aligned_from_address_def drop_frame_def)

lemma drop_frames_append: "drop_frames f (as @ bs) = drop_frames (drop_frames f as) bs"
  by (induction as arbitrary: f) auto

lemma wrap_kernel_frames_spec:
  assumes "\<forall>a \<in> set (frames @ raws). a < memory_size \<and> a mod FRAME_SIZE = 0"
  shows "wrap_kernel_frames memory_size mapping f raws frames = (Ok (frames @ raws), f) \<or>
    (\<exists>e. wrap_kernel_frames memory_size mapping f raws frames = (Err e, drop_frames f (frames @ raws))) \<or>
    (\<exists>a \<in> set raws. mapping a = Panic) \<and> wrap_kernel_frames memory_size mapping f raws frames = (Panic, f)"
  using assms
proof (induction raws arbitrary: frames)
  case (Cons raw raws)
  have raw: "frame_address_from_raw_value memory_size raw = Ok raw"
    using Cons.prems by (simp add: frame_address_from_raw_value_def page_aligned_from_address_def)
  show ?case
  proof (cases "mapping raw")
    case (Ok u)
    then show ?thesis using Cons.IH [of "frames @ [raw]"] Cons.prems raw
      by (auto simp: kernel_frame_new_def)
  next
    case (Err e)
    have "free_unwrapped memory_size (drop_frames f frames) (raw # raws) = drop_frames f (frames @ raw # raws)"
      using Cons.prems free_unwrapped_drop [of "raw # raws"] by (simp add: drop_frames_append)
    then show ?thesis using Err raw by (simp add: kernel_frame_new_def)
  next
    case Panic
    then show ?thesis using raw by (simp add: kernel_frame_new_def)
  qed
qed simp

lemma usage_owners:
  assumes "frames_inv f"
  shows "usage (frame_bitmap f) = card {n. 0 < owners f n}"
proof -
  have "allocated (frame_bitmap f) = {n. 0 < owners f n}" using allocated_owners [OF assms] by blast
  then show ?thesis using assms bitmap_inv_usage by (simp add: frames_inv_def)
qed

lemma finite_owned: "finite {n. 0 < owners f n}"
  by (rule finite_subset [of _ "{..<length (refcount f)}"]) (auto simp: owners_def split: if_splits)

lemma usage_give:
  assumes "frames_inv f" "frames_inv f'" "finite S" "\<forall>n \<in> S. owners f n = 0"
    "owners f' = (\<lambda>n. if n \<in> S then 1 else owners f n)"
  shows "usage (frame_bitmap f') = usage (frame_bitmap f) + card S"
proof -
  have "{n. 0 < owners f' n} = {n. 0 < owners f n} \<union> S" using assms(5) by auto
  moreover have "card ({n. 0 < owners f n} \<union> S) = card {n. 0 < owners f n} + card S"
    using assms(3,4) finite_owned by (intro card_Un_disjoint) auto
  ultimately show ?thesis using usage_owners assms(1,2) by simp
qed

lemma alloc_user_loop_spec:
  assumes "frames_inv f" "usage (frame_bitmap f) + k \<le> number_of_bits (frame_bitmap f)"
  shows "\<exists>ns f'. alloc_user_loop k f frames = (Ok (frames @ map (\<lambda>n. n * FRAME_SIZE) ns), f') \<and>
    length ns = k \<and> distinct ns \<and> (\<forall>n \<in> set ns. owners f n = 0) \<and>
    owners f' = (\<lambda>n. if n \<in> set ns then 1 else owners f n) \<and> frames_inv f' \<and> same_shape f f'"
  using assms
proof (induction k arbitrary: f frames)
  case (Suc k)
  obtain r f1 where al: "frame_alloc f = (r, f1)" by fastforce
  have "allocated (frame_bitmap f) \<noteq> {..<number_of_bits (frame_bitmap f)}"
    using Suc.prems by (auto simp: frames_inv_def bitmap_inv_usage)
  then obtain n where n: "r = Ok (n * FRAME_SIZE)" "owners f n = 0" "owners f1 = (owners f)(n := 1)"
    "frames_inv f1" "same_shape f f1" using frame_alloc_spec [OF Suc.prems(1) al] by auto
  have "usage (frame_bitmap f1) = usage (frame_bitmap f) + card {n}"
    using n by (intro usage_give [OF Suc.prems(1)]) (auto simp: fun_eq_iff)
  then have "usage (frame_bitmap f1) + k \<le> number_of_bits (frame_bitmap f1)"
    using Suc.prems(2) n(5) by (simp add: same_shape_def)
  from Suc.IH [OF n(4) this, of "frames @ [n * FRAME_SIZE]"] obtain ns f' where ih:
    "alloc_user_loop k f1 (frames @ [n * FRAME_SIZE]) =
       (Ok ((frames @ [n * FRAME_SIZE]) @ map (\<lambda>n. n * FRAME_SIZE) ns), f')"
    "length ns = k" "distinct ns" "\<forall>m \<in> set ns. owners f1 m = 0"
    "owners f' = (\<lambda>m. if m \<in> set ns then 1 else owners f1 m)" "frames_inv f'" "same_shape f1 f'" by auto
  then show ?case using al n same_shape_trans [OF n(5) ih(7)]
    by (intro exI [of _ "n # ns"] exI [of _ f']) (auto simp: upool_alloc_def split: if_splits)
qed simp

section \<open>Initialisation\<close>

lemma sync_refcounts_nth:
  assumes "bitmap_inv b" "\<forall>n \<in> set rc. n = 0" "j < length rc"
  shows "sync_refcounts b i rc ! j = (if i + j \<in> allocated b then 1 else 0)"
  using assms(2,3)
proof (induction rc arbitrary: i j)
  case (Cons n rc)
  then show ?case
    using bitmap_test_eq [OF assms(1), of i] allocated_less [of i b] by (cases j) auto
qed simp

lemma sync_refcounts_length [simp]: "length (sync_refcounts b i rc) = length rc"
  by (induction rc arbitrary: i) auto

section \<open>Properties\<close>

text \<open>
  Initialising the frame allocator with a well-formed bitmap no larger than the (zeroed)
  counter table establishes the invariant \<open>Inner\<close> documents: a frame is marked in the bitmap
  exactly when its counter is at least one, for frames marked beforehand as well. A second
  initialisation and a bitmap that is too large are refused without any change.
\<close>

lemma frame_init_correct:
  assumes "bitmap_inv b" "\<forall>n \<in> set (REFCOUNT_STORAGE g). n = 0"
    "length (REFCOUNT_STORAGE g) \<le> FRAME_NUMBER_MAX + 1"
  shows "case frame_init g b of
      (Ok _, g') \<Rightarrow> INSTANCE g = None \<and>
        (\<exists>f. INSTANCE g' = Some f \<and> frames_inv f \<and> frame_bitmap f = b \<and>
             (\<forall>n. owners f n = (if n \<in> allocated b then 1 else 0)))
    | (Err e, g') \<Rightarrow> g' = g \<and> code e = InvalidArgument \<and>
        (INSTANCE g \<noteq> None \<or> length (REFCOUNT_STORAGE g) < number_of_bits b)
    | (Panic, g') \<Rightarrow> False"
proof (cases "INSTANCE g = None \<and> number_of_bits b \<le> length (REFCOUNT_STORAGE g)")
  case True
  define rc where "rc = sync_refcounts b 0 (REFCOUNT_STORAGE g)"
  have nth: "rc ! j = (if j \<in> allocated b then 1 else 0)" if "j < length rc" for j
    using sync_refcounts_nth [OF assms(1,2), of j 0] that by (simp add: rc_def)
  have "frames_inv \<lparr>frame_bitmap = b, refcount = rc\<rparr>"
    using nth assms(1,3) True by (simp add: frames_inv_def rc_def)
  moreover have "owners \<lparr>frame_bitmap = b, refcount = rc\<rparr> n = (if n \<in> allocated b then 1 else 0)" for n
    using nth True allocated_less [of n b] by (auto simp: owners_def rc_def)
  ultimately show ?thesis using True by (simp add: frame_init_def rc_def Let_def)
qed (auto simp: frame_init_def fail_def)

text \<open>
  C2. Ownership of a single frame. \<open>alloc\<close> returns a page-aligned covered frame that had no owner
  and gives it one, and fails only when every frame is owned. \<open>share\<close> adds an owner, unless the
  frame has none (\<open>BadAddress\<close>) or already 255 (\<open>OutOfMemory\<close>). \<open>free\<close> removes one, unless there is
  none. No other frame's owners change, failures change nothing, the invariant is kept, so a frame
  becomes free exactly when its last owner releases it, and nothing panics.
\<close>

theorem frame_ownership:
  assumes "frames_inv f"
  shows "(case frame_alloc f of
       (Ok a, f') \<Rightarrow> frames_inv f' \<and> (\<exists>n < number_of_bits (frame_bitmap f). a = n * FRAME_SIZE \<and>
         owners f n = 0 \<and> owners f' = (owners f)(n := 1))
     | (Err e, f') \<Rightarrow> f' = f \<and> (\<forall>n < number_of_bits (frame_bitmap f). 0 < owners f n)
     | (Panic, f') \<Rightarrow> False) \<and>
    (\<forall>a n. into_frame_number a = Ok n \<longrightarrow>
      (case frame_share f a of
         (Ok _, f') \<Rightarrow> frames_inv f' \<and> 0 < owners f n \<and> owners f n < U8_MAX \<and>
           owners f' = (owners f)(n := owners f n + 1)
       | (Err e, f') \<Rightarrow> f' = f \<and> code e = (if owners f n = 0 then BadAddress else OutOfMemory) \<and>
           (owners f n = 0 \<or> owners f n = U8_MAX)
       | (Panic, f') \<Rightarrow> False) \<and>
      (case frame_free f a of
         (Ok _, f') \<Rightarrow> frames_inv f' \<and> 0 < owners f n \<and> owners f' = (owners f)(n := owners f n - 1)
       | (Err e, f') \<Rightarrow> f' = f \<and> owners f n = 0 \<and> code e = BadAddress
       | (Panic, f') \<Rightarrow> False))"
proof (intro conjI allI impI, goal_cases)
  case 1
  obtain r f' where eq: "frame_alloc f = (r, f')" by fastforce
  show ?case using frame_alloc_spec [OF assms eq]
  proof (elim disjE exE conjE)
    fix e assume "r = Err e" "f' = f" "allocated (frame_bitmap f) = {..<number_of_bits (frame_bitmap f)}"
    then show ?case using eq allocated_owners [OF assms] by (simp add: set_eq_iff)
  qed (use eq in auto)
next
  case (2 a n)
  obtain r f' where eq: "frame_share f a = (r, f')" by fastforce
  show ?case using frame_share_spec [OF assms 2 eq] owners_le [OF assms, of n] unfolding eq
    by (simp add: fail_def split: if_splits) auto
next
  case (3 a n)
  obtain r f' where eq: "frame_free f a = (r, f')" by fastforce
  show ?case using frame_free_spec [OF assms 3 eq] unfolding eq
    by (simp add: fail_def split: if_splits) auto
qed

definition sample_frames :: frame_inner where
  "sample_frames = \<lparr>frame_bitmap = sample_bitmap, refcount = [1, 0, 0, 0, 255, 1, 2, 1] @ replicate 12 0\<rparr>"

lemma sample_frames_inv: "frames_inv sample_frames"
  by code_simp

theorem frame_ownership_witness:
  "fst (frame_alloc sample_frames) = Ok (14 * FRAME_SIZE) \<and>
   owners (snd (frame_alloc sample_frames)) 14 = 1 \<and>
   fst (frame_share sample_frames (4 * FRAME_SIZE)) = fail OutOfMemory ''frame reference count overflow'' \<and>
   owners (snd (frame_free sample_frames (6 * FRAME_SIZE))) = (owners sample_frames)(6 := 1)"
proof -
  have n: "into_frame_number (6 * FRAME_SIZE) = Ok 6" "owners sample_frames 6 = 2" by code_simp+
  have ev: "fst (frame_alloc sample_frames) = Ok (14 * FRAME_SIZE)"
    "owners (snd (frame_alloc sample_frames)) 14 = 1"
    "fst (frame_share sample_frames (4 * FRAME_SIZE)) = fail OutOfMemory ''frame reference count overflow''"
    by code_simp+
  obtain r f' where eq: "frame_free sample_frames (6 * FRAME_SIZE) = (r, f')" by fastforce
  note fo = conjunct2 [OF frame_ownership [OF sample_frames_inv], rule_format, OF n(1)]
  have "owners f' = (owners sample_frames)(6 := 1)"
    using conjunct2 [OF fo] n(2) unfolding eq by (cases r) simp_all
  with ev show ?thesis unfolding eq by simp
qed

text \<open>
  Booking a memory region is all-or-nothing: \<open>alloc_range\<close> gives every frame of the region one
  owner if all of them are covered by the bitmap and free, and otherwise fails without changing
  anything.
\<close>

lemma frame_alloc_range_atomic:
  assumes inv: "frames_inv f" and n: "into_frame_number start = Ok n" and sz: "FRAME_SIZE \<le> sz"
    and eq: "frame_alloc_range f start sz = (r, f')"
  shows "if \<forall>k \<in> {n..<n + sz div FRAME_SIZE}. k < number_of_bits (frame_bitmap f) \<and> owners f k = 0
    then r = Ok () \<and> frames_inv f' \<and>
      owners f' = (\<lambda>k. if k \<in> {n..<n + sz div FRAME_SIZE} then 1 else owners f k)
    else (\<exists>e. r = Err e) \<and> f' = f"
proof -
  let ?c = "sz div FRAME_SIZE" and ?b = "frame_bitmap f"
  have b: "bitmap_inv ?b" using inv by (simp add: frames_inv_def)
  have "1 \<le> ?c" using sz by (simp add: Suc_le_eq div_greater_zero_iff)
  then have range: "[n..<n + ?c - 1 + 1] = [n..<n + ?c]" and nz: "n + ?c \<noteq> 0" by auto
  have fold: "(r, f') = (case check_free ?b [n..<n + ?c] of
      Err e \<Rightarrow> (Err e, f) | Panic \<Rightarrow> (Panic, f) | Ok _ \<Rightarrow> book_each f [n..<n + ?c])"
    unfolding eq [symmetric] frame_alloc_range_def n Let_def
    using nz by (simp only: res.case if_False range)
  have free: "(\<forall>k \<in> set [n..<n + ?c]. k < number_of_bits ?b \<and> k \<notin> allocated ?b) \<longleftrightarrow>
      (\<forall>k \<in> {n..<n + ?c}. k < number_of_bits ?b \<and> owners f k = 0)"
    using allocated_owners [OF inv] by simp
  note check = check_free_spec [OF b, of "[n..<n + ?c]", unfolded free]
  show ?thesis
  proof (cases "\<forall>k \<in> {n..<n + ?c}. k < number_of_bits ?b \<and> owners f k = 0")
    case True
    then have "(r, f') = book_each f [n..<n + ?c]" using fold check by simp
    moreover from True have "\<forall>k \<in> set [n..<n + ?c]. k < number_of_bits ?b \<and> owners f k = 0" by simp
    from book_each_spec [OF inv distinct_upt this] obtain f'' where
      "book_each f [n..<n + ?c] = (Ok (), f'')" "frames_inv f''"
      "owners f'' = (\<lambda>k. if k \<in> set [n..<n + ?c] then 1 else owners f k)" by blast
    ultimately show ?thesis using True by simp
  next
    case False
    with check have "\<exists>e. check_free ?b [n..<n + ?c] = Err e" by (simp only: if_False)
    then obtain e where "check_free ?b [n..<n + ?c] = Err e" ..
    then have "r = Err e" "f' = f" using fold by simp_all
    then show ?thesis by (simp only: False if_False) simp
  qed
qed

text \<open>
  C5. A bulk allocation of user frames on a well-formed allocator returns exactly \<open>count\<close> distinct
  frames that had no owner and leaves at least the kernel watermark free, or fails and changes
  nothing; when the caller's vector is empty and large enough it fails only if the allocation
  would breach the watermark.
\<close>

theorem alloc_many_user_frames_correct:
  assumes inv: "frames_inv f" and cnt: "0 < cnt"
    and eq: "alloc_many_user_frames watermark f cnt frames cap = (r, f')"
  shows "case r of
      Ok as \<Rightarrow> frames_inv f' \<and> watermark \<le> free_count f' \<and>
        (\<exists>ns. as = map (\<lambda>n. n * FRAME_SIZE) ns \<and> length ns = cnt \<and> distinct ns \<and>
          (\<forall>n \<in> set ns. owners f n = 0) \<and> owners f' = (\<lambda>n. if n \<in> set ns then 1 else owners f n))
    | Err e \<Rightarrow> f' = f \<and> (frames = [] \<and> cnt \<le> cap \<and> watermark + cnt \<le> USIZE_MAX \<longrightarrow>
        free_count f < watermark + cnt)
    | Panic \<Rightarrow> False"
proof (cases "frames = [] \<and> cnt \<le> cap \<and> watermark + cnt \<le> USIZE_MAX \<and> watermark + cnt \<le> free_count f")
  case True
  then have fold: "alloc_user_loop cnt f [] = (r, f')"
    using eq cnt by (simp add: alloc_many_user_frames_def check_user_watermark_def checked_add_def)
  have room: "usage (frame_bitmap f) + cnt \<le> number_of_bits (frame_bitmap f)"
    using True cnt unfolding free_count_def by linarith
  from alloc_user_loop_spec [OF inv room, of "[]"] fold obtain ns where ns:
    "r = Ok (map (\<lambda>n. n * FRAME_SIZE) ns)" "length ns = cnt" "distinct ns" "\<forall>n \<in> set ns. owners f n = 0"
    "owners f' = (\<lambda>n. if n \<in> set ns then 1 else owners f n)" "frames_inv f'" "same_shape f f'" by auto
  have "usage (frame_bitmap f') = usage (frame_bitmap f) + card (set ns)"
    using ns by (intro usage_give [OF inv]) auto
  moreover have "card (set ns) = cnt" "number_of_bits (frame_bitmap f') = number_of_bits (frame_bitmap f)"
    using ns(2,3,7) by (simp_all add: same_shape_def distinct_card)
  ultimately have "watermark \<le> free_count f'" using True unfolding free_count_def by linarith
  then show ?thesis using ns by auto
next
  case False
  then have "(\<exists>e. (r, f') = (Err e, f)) \<and>
      (frames = [] \<and> cnt \<le> cap \<and> watermark + cnt \<le> USIZE_MAX \<longrightarrow> free_count f < watermark + cnt)"
    unfolding eq [symmetric] using cnt
    by (auto simp: alloc_many_user_frames_def check_user_watermark_def checked_add_def fail_def)
  then show ?thesis by auto
qed

theorem alloc_many_user_frames_correct_witness:
  "fst (alloc_many_user_frames 4 sample_frames 3 [] 8) = Ok (map (\<lambda>n. n * FRAME_SIZE) [14, 15, 1]) \<and>
   4 \<le> free_count (snd (alloc_many_user_frames 4 sample_frames 3 [] 8))"
proof -
  have ok: "fst (alloc_many_user_frames 4 sample_frames 3 [] 8) = Ok (map (\<lambda>n. n * FRAME_SIZE) [14, 15, 1])"
    by code_simp
  show ?thesis
    using alloc_many_user_frames_correct [OF sample_frames_inv _ surjective_pairing, of 3 4 "[]" 8] ok by simp
qed

text \<open>
  C6. A bulk allocation of kernel frames never leaks: whatever frame the identity mapping fails
  on, every frame of the contiguous range is released again, so a failed call leaves the owners of
  all frames as they were, and a successful one returns consecutive frames that had no owner.
\<close>

theorem alloc_many_kernel_frames_no_leak:
  assumes inv: "frames_inv f" and mem: "length (refcount f) * FRAME_SIZE \<le> memory_size"
    and eq: "alloc_many_kernel_frames memory_size mapping f cnt frames cap = (r, f')"
  shows "case r of
      Ok as \<Rightarrow> frames_inv f' \<and> (\<exists>n. as = map (\<lambda>k. k * FRAME_SIZE) [n..<n + cnt] \<and>
        (\<forall>k \<in> {n..<n + cnt}. owners f k = 0) \<and>
        owners f' = (\<lambda>k. if k \<in> {n..<n + cnt} then 1 else owners f k))
    | Err e \<Rightarrow> frames_inv f' \<and> owners f' = owners f
    | Panic \<Rightarrow> \<exists>a. mapping a = Panic"
proof (cases "frames = [] \<and> cnt \<le> cap")
  case False
  then show ?thesis using eq inv by (auto simp: alloc_many_kernel_frames_def fail_def split: if_splits)
next
  case True
  obtain t f1 where al: "alloc_contiguous f cnt = (t, f1)" by fastforce
  from alloc_contiguous_spec [OF inv al] consider
      (ok) n where "t = Ok (n * FRAME_SIZE)" "n + cnt \<le> number_of_bits (frame_bitmap f)"
        "\<forall>k \<in> {n..<n + cnt}. owners f k = 0"
        "owners f1 = (\<lambda>k. if k \<in> {n..<n + cnt} then 1 else owners f k)" "frames_inv f1"
    | (bad) e where "t = Err e" "f1 = f" by blast
  then show ?thesis
  proof cases
    case bad
    then have "r = Err e" "f' = f" using eq True al by (simp_all add: alloc_many_kernel_frames_def)
    then show ?thesis using inv by simp
  next
    case ok
    let ?as = "map (\<lambda>k. k * FRAME_SIZE) [n..<n + cnt]"
    have as: "map (\<lambda>i. n * FRAME_SIZE + i * FRAME_SIZE) [0..<cnt] = ?as"
      by (intro nth_equalityI) (simp_all add: add_mult_distrib)
    have fold: "wrap_kernel_frames memory_size mapping f1 ?as [] = (r, f')"
      using eq True al ok(1) as by (simp add: alloc_many_kernel_frames_def)
    have "k * FRAME_SIZE < memory_size" if "k < n + cnt" for k
      using that ok(2) inv mem by (simp add: frames_inv_def)
    then have "\<forall>a \<in> set ([] @ ?as). a < memory_size \<and> a mod FRAME_SIZE = 0" by auto
    from wrap_kernel_frames_spec [OF this, of mapping f1] fold consider
        "r = Ok ?as" "f' = f1" | e where "r = Err e" "f' = drop_frames f1 ?as"
      | "r = Panic" "\<exists>a. mapping a = Panic" by auto
    then show ?thesis
    proof cases
      case 1
      then show ?thesis using ok by auto
    next
      case 2
      have "\<forall>k \<in> set [n..<n + cnt]. 0 < owners f1 k" by (simp add: ok(4))
      from drop_frames_spec [OF ok(5) distinct_upt this] 2 show ?thesis
        using ok(3,4) by (auto simp: fun_eq_iff)
    qed simp
  qed
qed

theorem alloc_many_kernel_frames_no_leak_witness:
  "let mapping = (\<lambda>a. if a = 3 * FRAME_SIZE then fail OutOfMemory ''no table'' else Ok ());
       g = snd (alloc_many_kernel_frames (64 * FRAME_SIZE) mapping sample_frames 3 [] 8)
   in fst (alloc_many_kernel_frames (64 * FRAME_SIZE) mapping sample_frames 3 [] 8) =
        fail OutOfMemory ''no table'' \<and> owners g = owners sample_frames"
proof -
  let ?m = "\<lambda>a. if a = 3 * FRAME_SIZE then fail OutOfMemory ''no table'' else Ok ()"
  have r: "fst (alloc_many_kernel_frames (64 * FRAME_SIZE) ?m sample_frames 3 [] 8) =
      fail OutOfMemory ''no table''" by code_simp
  have mem: "length (refcount sample_frames) * FRAME_SIZE \<le> 64 * FRAME_SIZE" by (simp add: sample_frames_def)
  show ?thesis
    using alloc_many_kernel_frames_no_leak [OF sample_frames_inv mem surjective_pairing, of ?m 3 "[]" 8] r
    by (simp add: Let_def fail_def)
qed

end
