(* ===== verification/Memory_Regions.thy ===== *)
theory Memory_Regions
  imports Frames
begin

text \<open>
  Alignment of addresses (\<open>src/src/libs/sys/src/sys/mm/alignment.rs\<close>), access permissions
  (\<open>src/src/libs/sys/src/sys/mm/access.rs\<close>) and memory regions
  (\<open>src/src/kernel/src/hal/mem/types/region.rs\<close>). An alignment is a numbered enumeration of powers
  of two and therefore its value. The bitwise arithmetic is done on 32-bit words. A region is
  modelled over raw addresses; the largest address of the address space is a parameter.
\<close>

section \<open>Definitions\<close>

subsection \<open>Alignment\<close>

datatype alignment = Align (align_val: nat)

definition alignment_values :: "nat list" where
  "alignment_values =
    [4, 8, 16, 32, 64, 128, 256, 512, 1024, 2048, 4096, 8192, 16384, 32768, 65536, 131072, 262144,
     524288, 1048576, 2097152, 4194304]"

definition alignment_try_from :: "nat \<Rightarrow> alignment kres" where
  "alignment_try_from v =
    (if v \<in> set alignment_values then Ok (Align v) else fail InvalidArgument ''invalid alignment'')"

definition PAGE_ALIGNMENT :: alignment where
  "PAGE_ALIGNMENT = Align 4096"

definition mask_low :: "nat \<Rightarrow> alignment \<Rightarrow> nat" where
  "mask_low v a = unat ((word_of_nat v :: 32 word) AND NOT (word_of_nat (align_val a) - 1))"

definition align_up :: "nat \<Rightarrow> alignment \<Rightarrow> nat option" where
  "align_up v a =
    (case checked_add v (align_val a - 1) of Some s \<Rightarrow> Some (mask_low s a) | None \<Rightarrow> None)"

definition align_down :: "nat \<Rightarrow> alignment \<Rightarrow> nat" where
  "align_down v a = mask_low v a"

definition is_aligned :: "nat \<Rightarrow> alignment \<Rightarrow> bool" where
  "is_aligned v a \<longleftrightarrow> (word_of_nat v :: 32 word) AND (word_of_nat (align_val a) - 1) = 0"

subsection \<open>Access permissions\<close>

record access_permission =
  perm_read :: bool
  perm_write :: bool
  perm_execute :: bool

definition access_to_u8 :: "access_permission \<Rightarrow> u8" where
  "access_to_u8 p =
    (if perm_read p then 0b100 else 0) OR (if perm_write p then 0b010 else 0) OR
    (if perm_execute p then 0b001 else 0)"

definition access_try_from_u8 :: "u8 \<Rightarrow> access_permission kres" where
  "access_try_from_u8 v =
    (if v > 0b111 then fail InvalidArgument ''invalid value for access permission''
     else Ok \<lparr>perm_read = (v AND 0b100 \<noteq> 0), perm_write = (v AND 0b010 \<noteq> 0),
              perm_execute = (v AND 0b001 \<noteq> 0)\<rparr>)"

definition access_try_from_usize :: "nat \<Rightarrow> access_permission kres" where
  "access_try_from_usize v = access_try_from_u8 (word_of_nat v)"

definition RDONLY :: access_permission where
  "RDONLY = \<lparr>perm_read = True, perm_write = False, perm_execute = False\<rparr>"

definition RDWR :: access_permission where
  "RDWR = \<lparr>perm_read = True, perm_write = True, perm_execute = False\<rparr>"

subsection \<open>Regions\<close>

datatype memory_region_type = Usable | Reserved | Mmio | Bad

record mmio_cache_policy =
  write_through :: bool
  cache_enabled :: bool

record memory_region =
  mr_name :: string
  mr_start :: addr
  mr_size :: nat
  mr_typ :: memory_region_type
  mr_perm :: access_permission
  mr_cache_policy :: "mmio_cache_policy option"

definition MEMORY_REGION_NAME_MAX :: nat where
  "MEMORY_REGION_NAME_MAX = 32"

definition memory_region_new ::
  "nat \<Rightarrow> string \<Rightarrow> addr \<Rightarrow> nat \<Rightarrow> memory_region_type \<Rightarrow> access_permission \<Rightarrow> memory_region kres" where
  "memory_region_new max_addr name start nbytes typ perm =
    (if length name > MEMORY_REGION_NAME_MAX
     then fail InvalidArgument ''memory region name is too long''
     else if nbytes = 0 then fail InvalidArgument ''invalid memory region size''
     else (case checked_add start (nbytes - 1) of
             None \<Rightarrow> fail TooBig ''memory region is too big''
           | Some end_raw_addr \<Rightarrow>
               if end_raw_addr > max_addr
               then fail InvalidArgument ''memory region spans outside the address space''
               else Ok \<lparr>mr_name = name, mr_start = start, mr_size = nbytes, mr_typ = typ,
                        mr_perm = perm, mr_cache_policy = None\<rparr>))"

definition set_cache_policy :: "memory_region \<Rightarrow> mmio_cache_policy \<Rightarrow> memory_region" where
  "set_cache_policy r policy = r\<lparr>mr_cache_policy := Some policy\<rparr>"

text \<open>A truncated region is a memory region with a page-aligned start.\<close>

definition truncated_new ::
  "nat \<Rightarrow> string \<Rightarrow> addr \<Rightarrow> nat \<Rightarrow> memory_region_type \<Rightarrow> access_permission \<Rightarrow> memory_region kres" where
  "truncated_new max_addr name start nbytes typ perm =
    (case align_up nbytes PAGE_ALIGNMENT of
       None \<Rightarrow> fail InvalidArgument ''align_up overflow''
     | Some nbytes \<Rightarrow> memory_region_new max_addr name start nbytes typ perm)"

definition truncated_new_mmio ::
  "nat \<Rightarrow> string \<Rightarrow> addr \<Rightarrow> nat \<Rightarrow> access_permission \<Rightarrow> mmio_cache_policy \<Rightarrow> memory_region kres" where
  "truncated_new_mmio max_addr name start nbytes perm policy =
    bind_res (truncated_new max_addr name start nbytes Mmio perm) (\<lambda>region.
      Ok (set_cache_policy region policy))"

definition truncated_from_memory_region :: "nat \<Rightarrow> memory_region \<Rightarrow> memory_region kres" where
  "truncated_from_memory_region max_addr region =
    bind_res (page_aligned_from_address (align_down (mr_start region) PAGE_ALIGNMENT)) (\<lambda>start.
    bind_res (truncated_new max_addr (mr_name region) start (mr_size region) (mr_typ region)
                (mr_perm region)) (\<lambda>truncated.
      Ok (case mr_cache_policy region of
            Some policy \<Rightarrow> set_cache_policy truncated policy
          | None \<Rightarrow> truncated)))"

subsection \<open>Specification\<close>

definition alignment_ok :: "alignment \<Rightarrow> bool" where
  "alignment_ok a \<longleftrightarrow> align_val a \<in> set alignment_values"

definition region_bytes :: "memory_region \<Rightarrow> addr set" where
  "region_bytes r = {mr_start r ..< mr_start r + mr_size r}"

definition region_ok :: "nat \<Rightarrow> memory_region \<Rightarrow> bool" where
  "region_ok max_addr r \<longleftrightarrow>
    length (mr_name r) \<le> MEMORY_REGION_NAME_MAX \<and> 0 < mr_size r \<and>
    mr_start r + mr_size r - 1 \<le> min max_addr USIZE_MAX"

section \<open>Lemmas\<close>

lemma alignment_power:
  assumes "alignment_ok a"
  obtains k where "k \<le> 22" "align_val a = 2 ^ k"
proof -
  have "alignment_values = map (\<lambda>k. 2 ^ k) [2..<23]" by (simp add: alignment_values_def upt_rec)
  then have "align_val a \<in> (\<lambda>k. 2 ^ k) ` set [2..<23]"
    using assms unfolding alignment_ok_def by (metis set_map)
  then obtain k where "k \<in> set [2..<23]" "align_val a = 2 ^ k" by (rule imageE)
  then show thesis by (intro that [of k]) (simp_all only: set_upt atLeastLessThan_iff, linarith)
qed

lemma mask_low_power:
  assumes "align_val a = 2 ^ k" "k \<le> 22" "v \<le> USIZE_MAX"
  shows "mask_low v a = v div 2 ^ k * 2 ^ k"
proof -
  have "(word_of_nat (align_val a) - 1 :: 32 word) = mask k"
    by (simp add: assms(1) mask_eq_exp_minus_1)
  moreover have "w AND NOT (mask k) = push_bit k (drop_bit k w)" for w :: "32 word"
    by (rule bit_word_eqI) (auto simp: bit_simps)
  ultimately have "mask_low v a = unat (push_bit k (drop_bit k (word_of_nat v :: 32 word)))"
    by (simp add: mask_low_def)
  also have "\<dots> = take_bit 32 (push_bit k (drop_bit k (take_bit 32 v)))"
    by (simp add: unsigned_push_bit_eq unsigned_drop_bit_eq unsigned_of_nat)
  also have "take_bit 32 v = v" using assms(3) by (simp add: take_bit_nat_eq_self)
  also have "push_bit k (drop_bit k v) = v div 2 ^ k * 2 ^ k"
    by (simp add: push_bit_eq_mult drop_bit_eq_div)
  also have "take_bit 32 \<dots> = \<dots>"
  proof (rule take_bit_nat_eq_self)
    have "v div 2 ^ k * 2 ^ k \<le> v" by (rule div_times_less_eq_dividend)
    also have "v < 2 ^ 32" using assms(3) by simp
    finally show "v div 2 ^ k * 2 ^ k < 2 ^ 32" .
  qed
  finally show ?thesis .
qed

lemma align_down_eq: "alignment_ok a \<Longrightarrow> v \<le> USIZE_MAX \<Longrightarrow> align_down v a = v div align_val a * align_val a"
  by (erule alignment_power) (simp add: align_down_def mask_low_power)

lemma align_up_eq:
  assumes "alignment_ok a"
  shows "align_up v a =
    (if v + (align_val a - 1) \<le> USIZE_MAX
     then Some ((v + (align_val a - 1)) div align_val a * align_val a) else None)"
proof -
  obtain k where k: "k \<le> 22" "align_val a = 2 ^ k" using assms by (rule alignment_power)
  show ?thesis
    unfolding align_up_def checked_add_def using mask_low_power [OF k(2,1)] by (simp add: k(2))
qed

lemma is_aligned_iff:
  assumes "alignment_ok a" "v \<le> USIZE_MAX"
  shows "is_aligned v a \<longleftrightarrow> align_val a dvd v"
proof -
  obtain k where k: "k \<le> 22" "align_val a = 2 ^ k" using assms(1) by (rule alignment_power)
  have "(word_of_nat (align_val a) - 1 :: 32 word) = mask k" by (simp add: k mask_eq_exp_minus_1)
  then have "is_aligned v a \<longleftrightarrow> take_bit k (word_of_nat v :: 32 word) = 0"
    by (simp add: is_aligned_def take_bit_eq_mask)
  also have "\<dots> \<longleftrightarrow> unat (take_bit k (word_of_nat v :: 32 word)) = 0" by (simp add: unsigned_eq_0_iff)
  also have "unat (take_bit k (word_of_nat v :: 32 word)) = v mod 2 ^ k"
    using assms(2) k(1) by (simp add: unsigned_take_bit_eq unsigned_of_nat take_bit_eq_mod [symmetric] min_def)
  finally show ?thesis by (simp add: k(2) mod_eq_0_iff_dvd)
qed

text \<open>The least multiple at or above a number, when it is representable.\<close>

lemma round_up_least:
  fixes v a :: nat
  assumes "0 < a"
  shows "a dvd (v + (a - 1)) div a * a" "v \<le> (v + (a - 1)) div a * a" "(v + (a - 1)) div a * a < v + a"
proof -
  have m: "(v + (a - 1)) div a * a + (v + (a - 1)) mod a = v + (a - 1)" by simp
  have "(v + (a - 1)) mod a < a" using assms by simp
  then show "v \<le> (v + (a - 1)) div a * a" using m assms by linarith
  show "(v + (a - 1)) div a * a < v + a" using m assms by linarith
  show "a dvd (v + (a - 1)) div a * a" by simp
qed

lemma no_multiple_above:
  fixes v a :: nat
  assumes "alignment_ok al" "a = align_val al" "USIZE_MAX < v + (a - 1)" "v \<le> r" "a dvd r"
  shows "USIZE_MAX < r"
proof (rule ccontr)
  assume r: "\<not> USIZE_MAX < r"
  obtain k where k: "k \<le> 22" "a = 2 ^ k" using assms(1) unfolding assms(2) by (rule alignment_power)
  have "(2 :: nat) ^ 32 = 2 ^ k * 2 ^ (32 - k)" using k(1) by (simp add: power_add [symmetric])
  then have "a dvd 2 ^ 32" unfolding k(2) by (rule dvdI)
  then have "a dvd 2 ^ 32 - r" using assms(5) by (rule dvd_diff_nat)
  moreover have "0 < (2 :: nat) ^ 32 - r" using r by simp
  ultimately have "a \<le> 2 ^ 32 - r" by (rule dvd_imp_le)
  then show False using assms(3,4) r by simp
qed

lemma page_alignment_ok [simp]: "alignment_ok PAGE_ALIGNMENT" "align_val PAGE_ALIGNMENT = 4096"
  by (simp_all add: alignment_ok_def PAGE_ALIGNMENT_def alignment_values_def)

lemma memory_region_new_Ok:
  "memory_region_new m n s z t p = Ok r \<longleftrightarrow>
    r = \<lparr>mr_name = n, mr_start = s, mr_size = z, mr_typ = t, mr_perm = p, mr_cache_policy = None\<rparr> \<and>
    region_ok m r"
  by (auto simp: memory_region_new_def region_ok_def checked_add_def split: option.splits)

lemma memory_region_new_total: "memory_region_new m n s z t p \<noteq> Panic"
  by (simp add: memory_region_new_def split: option.splits)

section \<open>Claims\<close>

text \<open>
  Alignment: \<open>align_down\<close> is the largest multiple of the alignment at or below the value,
  \<open>align_up\<close> the smallest one at or above it, and \<open>None\<close> exactly when no such multiple fits into a
  \<open>usize\<close>; \<open>is_aligned\<close> is divisibility.
\<close>

lemma alignment_correct:
  assumes "alignment_ok al" "v \<le> USIZE_MAX"
  shows "align_val al dvd align_down v al \<and> align_down v al \<le> v \<and> v < align_down v al + align_val al \<and>
    (case align_up v al of
       Some r \<Rightarrow> align_val al dvd r \<and> v \<le> r \<and> r < v + align_val al \<and> r \<le> USIZE_MAX
     | None \<Rightarrow> {r. align_val al dvd r \<and> v \<le> r \<and> r \<le> USIZE_MAX} = {}) \<and>
    (is_aligned v al \<longleftrightarrow> align_val al dvd v)"
proof -
  have pos: "0 < align_val al" using assms(1) by (rule alignment_power) simp
  have down: "align_val al dvd align_down v al \<and> align_down v al \<le> v \<and>
      v < align_down v al + align_val al"
    unfolding align_down_eq [OF assms]
    using div_mult_mod_eq [of v "align_val al"] mod_less_divisor [OF pos, of v]
    by (intro conjI dvd_triv_right) linarith+
  have up: "case align_up v al of
       Some r \<Rightarrow> align_val al dvd r \<and> v \<le> r \<and> r < v + align_val al \<and> r \<le> USIZE_MAX
     | None \<Rightarrow> {r. align_val al dvd r \<and> v \<le> r \<and> r \<le> USIZE_MAX} = {}"
  proof (cases "v + (align_val al - 1) \<le> USIZE_MAX")
    case True
    then have "(v + (align_val al - 1)) div align_val al * align_val al \<le> USIZE_MAX"
      using div_times_less_eq_dividend order_trans by blast
    then show ?thesis unfolding align_up_eq [OF assms(1)] if_P [OF True] option.case
      using round_up_least [OF pos, of v] by blast
  next
    case False
    then have "{r. align_val al dvd r \<and> v \<le> r \<and> r \<le> USIZE_MAX} = {}"
      using no_multiple_above [OF assms(1) refl, of v] by (metis (mono_tags, lifting) empty_Collect_eq not_le)
    then show ?thesis using False by (simp add: align_up_eq [OF assms(1)])
  qed
  show ?thesis using down up is_aligned_iff [OF assms] by blast
qed

text \<open>
  C19. Access permissions survive the conversion to a byte and back, and a byte above seven is
  refused. The conversions from wider integers only look at the low byte, so a number is accepted
  exactly when its remainder modulo 256 is at most seven, larger numbers included.
\<close>

theorem access_permission_round_trip:
  "access_try_from_u8 (access_to_u8 p) = Ok p \<and>
   access_try_from_usize (unat (access_to_u8 p) + 256 * k) = Ok p \<and>
   (case access_try_from_usize v of
      Ok q \<Rightarrow> v mod 256 \<le> 7 \<and> unat (access_to_u8 q) = v mod 256
    | Err e \<Rightarrow> 7 < v mod 256 \<and> code e = InvalidArgument
    | Panic \<Rightarrow> False)"
proof -
  have p: "access_try_from_u8 (access_to_u8 p) = Ok p"
    by (cases p) (auto simp: access_try_from_u8_def access_to_u8_def)
  have z: "(256 :: u8) = 0" by simp
  have "(word_of_nat (unat (access_to_u8 p) + 256 * k) :: u8) = access_to_u8 p" by (simp add: z)
  then have w: "access_try_from_usize (unat (access_to_u8 p) + 256 * k) = Ok p"
    using p by (simp only: access_try_from_usize_def)
  have u: "unat (word_of_nat v :: u8) = v mod 256" by (simp add: unsigned_of_nat take_bit_eq_mod)
  have small: "b \<in> {0, 1, 2, 3, 4, 5, 6, 7}" if "\<not> 7 < b" for b :: u8
  proof -
    have "unat b \<le> 7" using that by (simp add: word_less_nat_alt not_less)
    then have "unat b \<in> {0, 1, 2, 3, 4, 5, 6, 7}" by auto
    moreover have "b = word_of_nat (unat b)" by simp
    ultimately show ?thesis by (elim insertE) auto
  qed
  have "access_to_u8 \<lparr>perm_read = (b AND 4 \<noteq> 0), perm_write = (b AND 2 \<noteq> 0),
      perm_execute = (b AND 1 \<noteq> 0)\<rparr> = b" if "\<not> 7 < b" for b :: u8
    using small [OF that] by (elim insertE) (simp_all add: access_to_u8_def)
  then have "case access_try_from_usize v of
      Ok q \<Rightarrow> v mod 256 \<le> 7 \<and> unat (access_to_u8 q) = v mod 256
    | Err e \<Rightarrow> 7 < v mod 256 \<and> code e = InvalidArgument
    | Panic \<Rightarrow> False"
    by (simp add: access_try_from_usize_def access_try_from_u8_def fail_def u word_less_nat_alt)
  then show ?thesis using p w by blast
qed

text \<open>
  C20. Truncating a memory region to pages: the result, when there is one, is a valid region that
  starts on a page boundary at or below the original start and spans whole pages. Only its size is
  rounded up, so it covers the original region exactly when the offset of the start in its page and
  the size together stay within the rounded size. It fails exactly when the name is too long, the size
  is zero or too large to be rounded, or the rounded region leaves the address space.
\<close>

theorem truncated_region_coverage:
  assumes "mr_start region \<le> USIZE_MAX"
  shows "case truncated_from_memory_region max_addr region of
      Ok r \<Rightarrow> region_ok max_addr r \<and> 4096 dvd mr_start r \<and> 4096 dvd mr_size r \<and>
        mr_start r \<le> mr_start region \<and> mr_size region \<le> mr_size r \<and>
        (region_bytes region \<subseteq> region_bytes r \<longleftrightarrow>
           mr_start region mod 4096 + mr_size region \<le> mr_size r)
    | Err e \<Rightarrow> MEMORY_REGION_NAME_MAX < length (mr_name region) \<or> mr_size region = 0 \<or>
        USIZE_MAX < mr_size region + 4095 \<or>
        min max_addr USIZE_MAX <
          mr_start region div 4096 * 4096 + (mr_size region + 4095) div 4096 * 4096 - 1
    | Panic \<Rightarrow> False"
proof -
  let ?s = "mr_start region div 4096 * 4096"
  have down: "align_down (mr_start region) PAGE_ALIGNMENT = ?s" using assms by (simp add: align_down_eq)
  have s: "?s + mr_start region mod 4096 = mr_start region" by simp
  show ?thesis
  proof (cases "truncated_from_memory_region max_addr region")
    case (Ok r)
    then obtain z t where z: "align_up (mr_size region) PAGE_ALIGNMENT = Some z"
      and t: "memory_region_new max_addr (mr_name region) ?s z (mr_typ region) (mr_perm region) = Ok t"
      and r: "mr_start r = mr_start t" "mr_size r = mr_size t" "mr_name r = mr_name t"
      by (auto simp: truncated_from_memory_region_def down page_aligned_from_address_def
          truncated_new_def set_cache_policy_def split: option.splits)
    have t': "mr_start t = ?s" "mr_size t = z" "region_ok max_addr t"
      using t by (auto simp: memory_region_new_Ok)
    have up: "4096 dvd z" "mr_size region \<le> z"
      using z round_up_least [of 4096 "mr_size region"] by (auto simp: align_up_eq split: if_splits)
    have "0 < mr_size region"
      using t'(3) z by (cases "mr_size region") (auto simp: region_ok_def align_up_eq t'(2))
    then have "region_bytes region \<subseteq> region_bytes r \<longleftrightarrow> mr_start region + mr_size region \<le> ?s + z"
      using s by (auto simp: region_bytes_def r t' ivl_subset)
    also have "\<dots> \<longleftrightarrow> mr_start region mod 4096 + mr_size region \<le> z" using s by linarith
    finally show ?thesis using Ok t' up r s by (simp add: region_ok_def)
  next
    case Panic
    then show ?thesis using memory_region_new_total
      by (auto simp: truncated_from_memory_region_def page_aligned_from_address_def truncated_new_def
          bind_res_eq_Panic_iff split: option.splits if_splits)
  next
    case (Err e)
    let ?z = "(mr_size region + 4095) div 4096 * 4096"
    have "\<not> (length (mr_name region) \<le> MEMORY_REGION_NAME_MAX \<and> 0 < ?z \<and>
        mr_size region + 4095 \<le> USIZE_MAX \<and> ?s + ?z - 1 \<le> min max_addr USIZE_MAX)"
    proof
      assume fits: "length (mr_name region) \<le> MEMORY_REGION_NAME_MAX \<and> 0 < ?z \<and>
        mr_size region + 4095 \<le> USIZE_MAX \<and> ?s + ?z - 1 \<le> min max_addr USIZE_MAX"
      then obtain t where "memory_region_new max_addr (mr_name region) ?s ?z (mr_typ region)
          (mr_perm region) = Ok t"
        by (simp add: memory_region_new_Ok region_ok_def)
      then show False using Err fits
        by (simp add: truncated_from_memory_region_def down page_aligned_from_address_def
            truncated_new_def align_up_eq)
    qed
    moreover have "0 < ?z" if "0 < mr_size region" using that by (simp add: div_greater_zero_iff)
    ultimately show ?thesis using Err by auto
  qed
qed

theorem truncated_region_coverage_witness:
  "case truncated_from_memory_region USIZE_MAX
       \<lparr>mr_name = ''mmio'', mr_start = 6144, mr_size = 4096, mr_typ = Mmio, mr_perm = RDWR,
        mr_cache_policy = None\<rparr> of
     Ok r \<Rightarrow> \<not> region_bytes \<lparr>mr_name = ''mmio'', mr_start = 6144, mr_size = 4096, mr_typ = Mmio,
                  mr_perm = RDWR, mr_cache_policy = None\<rparr> \<subseteq> region_bytes r
   | _ \<Rightarrow> False"
  using truncated_region_coverage [of "\<lparr>mr_name = ''mmio'', mr_start = 6144, mr_size = 4096,
      mr_typ = Mmio, mr_perm = RDWR, mr_cache_policy = None\<rparr>" USIZE_MAX]
  by (simp add: truncated_from_memory_region_def align_down_eq page_aligned_from_address_def
      truncated_new_def align_up_eq memory_region_new_def MEMORY_REGION_NAME_MAX_def checked_add_def)

end
