(* ===== verification/Sorted_Vecs.thy ===== *)
theory Sorted_Vecs
  imports Nonempty_Deques
begin

text \<open>
  The sorted vector of \<open>src/src/libs/sorted-vec/src/lib.rs\<close>. Elements are compared by their \<open>Ord\<close>
  instance, which the model takes as a key function into a linear order. \<open>binary_search\<close> of the
  standard library is modelled by what it documents for a sorted slice: the position of the element
  when there is one, and otherwise the position where it can be inserted.
\<close>

section \<open>Definitions\<close>

definition binary_search :: "('a \<Rightarrow> 'k::linorder) \<Rightarrow> 'a list \<Rightarrow> 'k \<Rightarrow> nat + nat" where
  "binary_search f xs k =
    (case position (\<lambda>x. f x = k) xs of
       Some i \<Rightarrow> Inr i
     | None \<Rightarrow> Inl (length (takeWhile (\<lambda>x. f x < k) xs)))"

definition sv_new :: "'a list" where
  "sv_new = []"

definition sv_insert :: "('a \<Rightarrow> 'k::linorder) \<Rightarrow> 'a list \<Rightarrow> 'a \<Rightarrow> 'a option \<times> 'a list" where
  "sv_insert f xs v =
    (case binary_search f xs (f v) of
       Inr i \<Rightarrow> (Some (xs ! i), xs[i := v])
     | Inl i \<Rightarrow> (None, take i xs @ v # drop i xs))"

definition sv_remove_by :: "('a \<Rightarrow> 'k::linorder) \<Rightarrow> 'a list \<Rightarrow> 'k \<Rightarrow> 'a option \<times> 'a list" where
  "sv_remove_by f xs k =
    (case binary_search f xs k of
       Inr i \<Rightarrow> (Some (xs ! i), take i xs @ drop (Suc i) xs)
     | Inl i \<Rightarrow> (None, xs))"

definition sv_remove :: "('a \<Rightarrow> 'k::linorder) \<Rightarrow> 'a list \<Rightarrow> 'a \<Rightarrow> 'a option \<times> 'a list" where
  "sv_remove f xs v =
    (case binary_search f xs (f v) of
       Inr i \<Rightarrow> (Some (xs ! i), take i xs @ drop (Suc i) xs)
     | Inl i \<Rightarrow> (None, xs))"

definition sv_contains :: "('a \<Rightarrow> 'k::linorder) \<Rightarrow> 'a list \<Rightarrow> 'a \<Rightarrow> bool" where
  "sv_contains f xs v \<longleftrightarrow> \<not> isl (binary_search f xs (f v))"

definition sv_get :: "('a \<Rightarrow> 'k::linorder) \<Rightarrow> 'a list \<Rightarrow> 'a \<Rightarrow> 'a option" where
  "sv_get f xs v = (case binary_search f xs (f v) of Inr i \<Rightarrow> Some (xs ! i) | Inl i \<Rightarrow> None)"

definition sv_lookup_by :: "('a \<Rightarrow> 'k::linorder) \<Rightarrow> 'a list \<Rightarrow> 'k \<Rightarrow> 'a option" where
  "sv_lookup_by f xs k = (case binary_search f xs k of Inr i \<Rightarrow> Some (xs ! i) | Inl i \<Rightarrow> None)"

definition sv_first :: "'a list \<Rightarrow> 'a option" where
  "sv_first xs = (case xs of [] \<Rightarrow> None | x # _ \<Rightarrow> Some x)"

definition sv_last :: "'a list \<Rightarrow> 'a option" where
  "sv_last xs = (case xs of [] \<Rightarrow> None | _ \<Rightarrow> Some (last xs))"

text \<open>\<open>From<Vec<T>>\<close>: sort, then drop consecutive duplicates.\<close>

definition sv_from :: "'a::linorder list \<Rightarrow> 'a list" where
  "sv_from xs = remdups_adj (sort xs)"

text \<open>Invariant and abstract view: strictly sorted, a finite map from keys to elements.\<close>

definition sv_inv :: "('a \<Rightarrow> 'k::linorder) \<Rightarrow> 'a list \<Rightarrow> bool" where
  "sv_inv f xs \<longleftrightarrow> sorted_wrt (<) (map f xs)"

definition sv_view :: "('a \<Rightarrow> 'k::linorder) \<Rightarrow> 'a list \<Rightarrow> 'k \<rightharpoonup> 'a" where
  "sv_view f xs = map_of (map (\<lambda>x. (f x, x)) xs)"

section \<open>Lemmas\<close>

lemma sv_inv_split:
  "sv_inv f (pre @ x # post) \<longleftrightarrow>
    sv_inv f pre \<and> sv_inv f post \<and> (\<forall>y\<in>set pre. f y < f x) \<and> (\<forall>y\<in>set post. f x < f y) \<and>
    (\<forall>y\<in>set pre. \<forall>z\<in>set post. f y < f z)"
  by (auto simp: sv_inv_def sorted_wrt_append)

lemma sv_inv_append:
  "sv_inv f (pre @ post) \<longleftrightarrow>
    sv_inv f pre \<and> sv_inv f post \<and> (\<forall>y\<in>set pre. \<forall>z\<in>set post. f y < f z)"
  by (auto simp: sv_inv_def sorted_wrt_append)

lemma sv_inv_Cons: "sv_inv f (x # xs) \<longleftrightarrow> (\<forall>y\<in>set xs. f x < f y) \<and> sv_inv f xs"
  by (auto simp: sv_inv_def)

lemma sv_view_append: "sv_view f (xs @ ys) = sv_view f ys ++ sv_view f xs"
  by (simp add: sv_view_def)

lemma sv_view_Cons: "sv_view f (x # xs) = (sv_view f xs)(f x \<mapsto> x)"
  by (simp add: sv_view_def)

lemma sv_view_Nil [simp]: "sv_view f [] = Map.empty"
  by (simp add: sv_view_def)

lemma sv_view_None: "sv_view f xs k = None \<longleftrightarrow> (\<forall>x\<in>set xs. f x \<noteq> k)"
  by (auto simp: sv_view_def map_of_eq_None_iff image_image)

lemma sv_view_split:
  assumes "sv_inv f (pre @ x # post)"
  shows "sv_view f (pre @ x # post) = (sv_view f (pre @ post))(f x \<mapsto> x)"
proof -
  have "sv_view f pre (f x) = None" using assms by (auto simp: sv_inv_split sv_view_None)
  then show ?thesis by (auto simp: sv_view_append sv_view_Cons map_add_def fun_eq_iff split: option.splits)
qed

lemma binary_search_Inr:
  assumes "binary_search f xs k = Inr i"
  obtains pre x post where "xs = pre @ x # post" "length pre = i" "f x = k"
proof -
  have "position (\<lambda>x. f x = k) xs = Some i"
    using assms by (simp add: binary_search_def split: option.splits)
  then obtain pre x post where "xs = pre @ x # post" "length pre = i" "f x = k"
    by (rule position_split)
  then show thesis by (rule that)
qed

lemma takeWhile_split_sorted:
  "sv_inv f xs \<Longrightarrow> \<forall>x\<in>set xs. f x \<noteq> k \<Longrightarrow> \<forall>x\<in>set (dropWhile (\<lambda>x. f x < k) xs). k < f x"
proof (induction xs)
  case (Cons a xs)
  show ?case
  proof (cases "f a < k")
    case True
    then show ?thesis using Cons by (simp add: sv_inv_Cons)
  next
    case False
    then have k: "k < f a" using Cons.prems(2) by (simp add: neq_iff)
    moreover have "k < f y" if "y \<in> set xs" for y
      using k Cons.prems(1) that by (intro less_trans [OF k]) (simp add: sv_inv_Cons)
    ultimately show ?thesis using False by simp
  qed
qed simp

lemma binary_search_Inl:
  assumes "binary_search f xs k = Inl i" "sv_inv f xs"
  obtains pre post where "xs = pre @ post" "length pre = i" "\<forall>y\<in>set pre. f y < k"
    "\<forall>y\<in>set post. k < f y"
proof
  have n: "position (\<lambda>x. f x = k) xs = None" "i = length (takeWhile (\<lambda>x. f x < k) xs)"
    using assms(1) by (auto simp: binary_search_def split: option.splits)
  show "xs = takeWhile (\<lambda>x. f x < k) xs @ dropWhile (\<lambda>x. f x < k) xs" by simp
  show "length (takeWhile (\<lambda>x. f x < k) xs) = i" by (simp add: n)
  show "\<forall>y\<in>set (takeWhile (\<lambda>x. f x < k) xs). f y < k" by (auto dest: set_takeWhileD)
  show "\<forall>y\<in>set (dropWhile (\<lambda>x. f x < k) xs). k < f y"
    using takeWhile_split_sorted [OF assms(2)] n(1) by (simp add: position_None)
qed

lemma sv_lookup_view: "sv_inv f xs \<Longrightarrow> sv_lookup_by f xs k = sv_view f xs k"
proof (cases "binary_search f xs k")
  case (Inr i)
  assume inv: "sv_inv f xs"
  from Inr obtain pre x post where s: "xs = pre @ x # post" "length pre = i" "f x = k"
    by (rule binary_search_Inr)
  have "sv_lookup_by f xs k = Some x" using Inr s(1,2) by (simp add: sv_lookup_by_def nth_append)
  moreover have "sv_view f xs k = Some x" using sv_view_split [of f pre x post] inv s by simp
  ultimately show ?thesis by simp
next
  case (Inl i)
  assume inv: "sv_inv f xs"
  from Inl inv obtain pre post where "xs = pre @ post" "\<forall>y\<in>set pre. f y < k" "\<forall>y\<in>set post. k < f y"
    by (rule binary_search_Inl)
  then have "sv_view f xs k = None" by (auto simp: sv_view_None)
  then show ?thesis by (simp add: sv_lookup_by_def Inl)
qed

lemma sv_insert_view:
  assumes "sv_inv f xs"
  shows "fst (sv_insert f xs v) = sv_view f xs (f v)"
    "sv_view f (snd (sv_insert f xs v)) = (sv_view f xs)(f v \<mapsto> v)" "sv_inv f (snd (sv_insert f xs v))"
proof -
  have "fst (sv_insert f xs v) = sv_view f xs (f v) \<and>
    sv_view f (snd (sv_insert f xs v)) = (sv_view f xs)(f v \<mapsto> v) \<and> sv_inv f (snd (sv_insert f xs v))"
  proof (cases "binary_search f xs (f v)")
    case (Inr i)
    then obtain pre x post where s: "xs = pre @ x # post" "length pre = i" "f x = f v"
      by (rule binary_search_Inr)
    have u: "xs[i := v] = pre @ v # post" using s(1,2) by (simp add: list_update_append)
    have inv: "sv_inv f (pre @ v # post)" using assms s(3) unfolding s(1) sv_inv_split by simp
    have "sv_insert f xs v = (Some x, pre @ v # post)"
      using u s(1,2) Inr by (simp add: sv_insert_def nth_append)
    then show ?thesis
      using inv s(3) sv_view_split [OF inv] sv_view_split [OF assms [unfolded s(1)]]
      by (simp add: s(1))
  next
    case (Inl i)
    from Inl assms obtain pre post where s: "xs = pre @ post" "length pre = i" "\<forall>y\<in>set pre. f y < f v"
        "\<forall>y\<in>set post. f v < f y"
      by (rule binary_search_Inl)
    have inv: "sv_inv f (pre @ v # post)" using assms s by (simp add: sv_inv_append sv_inv_Cons)
    have "sv_view f xs (f v) = None" using s by (auto simp: sv_view_None)
    moreover have "sv_insert f xs v = (None, pre @ v # post)"
      using s(1,2) Inl by (simp add: sv_insert_def)
    ultimately show ?thesis using inv sv_view_split [OF inv] by (simp add: s(1))
  qed
  then show "fst (sv_insert f xs v) = sv_view f xs (f v)"
    "sv_view f (snd (sv_insert f xs v)) = (sv_view f xs)(f v \<mapsto> v)" "sv_inv f (snd (sv_insert f xs v))"
    by simp_all
qed

lemma sv_remove_view:
  assumes "sv_inv f xs"
  shows "fst (sv_remove_by f xs k) = sv_view f xs k"
    "sv_view f (snd (sv_remove_by f xs k)) = (sv_view f xs)(k := None)"
    "sv_inv f (snd (sv_remove_by f xs k))"
proof -
  have "fst (sv_remove_by f xs k) = sv_view f xs k \<and>
    sv_view f (snd (sv_remove_by f xs k)) = (sv_view f xs)(k := None) \<and>
    sv_inv f (snd (sv_remove_by f xs k))"
  proof (cases "binary_search f xs k")
    case (Inr i)
    then obtain pre x post where s: "xs = pre @ x # post" "length pre = i" "f x = k"
      by (rule binary_search_Inr)
    have "sv_view f (pre @ post) k = None"
      using assms s by (auto simp: sv_view_None sv_inv_split)
    moreover have "sv_remove_by f xs k = (Some x, pre @ post)"
      using s(1,2) Inr by (simp add: sv_remove_by_def nth_append)
    moreover have "sv_inv f (pre @ post)"
      using assms by (simp add: s(1) sv_inv_append sv_inv_Cons)
    ultimately show ?thesis
      using sv_view_split [OF assms [unfolded s(1)]] s(3) by (simp add: s(1) fun_upd_idem)
  next
    case (Inl i)
    from Inl assms obtain pre post where s: "xs = pre @ post" "\<forall>y\<in>set pre. f y < k"
        "\<forall>y\<in>set post. k < f y"
      by (rule binary_search_Inl)
    then have "sv_view f xs k = None" by (auto simp: sv_view_None)
    then show ?thesis using assms by (simp add: sv_remove_by_def Inl fun_upd_idem)
  qed
  then show "fst (sv_remove_by f xs k) = sv_view f xs k"
    "sv_view f (snd (sv_remove_by f xs k)) = (sv_view f xs)(k := None)"
    "sv_inv f (snd (sv_remove_by f xs k))"
    by simp_all
qed

lemma sv_view_set: "sv_inv f xs \<Longrightarrow> sv_view f xs k = Some x \<longleftrightarrow> x \<in> set xs \<and> f x = k"
proof -
  assume inv: "sv_inv f xs"
  then have "distinct (map fst (map (\<lambda>x. (f x, x)) xs))"
    by (simp add: sv_inv_def comp_def strict_sorted_iff)
  then show ?thesis by (auto simp: sv_view_def dest: map_of_SomeD)
qed

section \<open>Interface\<close>

text \<open>A finite map with at most one element per key, as the allocators use it.\<close>

locale keyed_store =
  fixes ok :: "'s \<Rightarrow> bool"
    and view :: "'s \<Rightarrow> 'k \<rightharpoonup> 'a"
    and key :: "'a \<Rightarrow> 'k"
    and find_by :: "'s \<Rightarrow> 'k \<Rightarrow> 'a option"
    and put :: "'s \<Rightarrow> 'a \<Rightarrow> 'a option \<times> 's"
    and take_by :: "'s \<Rightarrow> 'k \<Rightarrow> 'a option \<times> 's"
  assumes find_view: "ok s \<Longrightarrow> find_by s k = view s k"
    and put_view: "ok s \<Longrightarrow> fst (put s v) = view s (key v)"
      "ok s \<Longrightarrow> view (snd (put s v)) = (view s)(key v \<mapsto> v)" "ok s \<Longrightarrow> ok (snd (put s v))"
    and take_view: "ok s \<Longrightarrow> fst (take_by s k) = view s k"
      "ok s \<Longrightarrow> view (snd (take_by s k)) = (view s)(k := None)" "ok s \<Longrightarrow> ok (snd (take_by s k))"
begin

lemma put_then_take:
  "ok s \<Longrightarrow> view s (key v) = None \<Longrightarrow>
   fst (take_by (snd (put s v)) (key v)) = Some v \<and>
   view (snd (take_by (snd (put s v)) (key v))) = view s"
  by (simp add: take_view put_view fun_upd_idem)

lemma put_all_dom:
  "ok s \<Longrightarrow> ok (fold (\<lambda>v s. snd (put s v)) vs s) \<and>
   dom (view (fold (\<lambda>v s. snd (put s v)) vs s)) = dom (view s) \<union> key ` set vs"
proof (induction vs arbitrary: s)
  case (Cons v vs)
  then show ?case using Cons.IH [of "snd (put s v)"] by (auto simp: put_view)
qed simp

end

interpretation sv: keyed_store "sv_inv f" "sv_view f" f "sv_lookup_by f" "sv_insert f" "sv_remove_by f"
  by unfold_locales (simp_all add: sv_lookup_view sv_insert_view sv_remove_view)

section \<open>Claims\<close>

text \<open>
  C13. A sorted vector is a finite map: from any vector built by insertions, looking a key up returns
  the element inserted last with it, inserting reports the element it replaces, removing reports and
  removes exactly the element of its key, and the elements stay strictly sorted.
\<close>

theorem sorted_vec_correct:
  fixes f :: "'a \<Rightarrow> 'k::linorder"
  assumes "sv_inv f xs"
  shows "sv_lookup_by f (snd (sv_insert f xs v)) k =
      (if k = f v then Some v else sv_lookup_by f xs k) \<and>
    fst (sv_insert f xs v) = sv_lookup_by f xs (f v) \<and>
    fst (sv_remove_by f xs k) = sv_lookup_by f xs k \<and>
    sv_lookup_by f (snd (sv_remove_by f xs k)) k' = (if k' = k then None else sv_lookup_by f xs k') \<and>
    sv_remove f xs v = sv_remove_by f xs (f v) \<and>
    (sv_contains f xs v \<longleftrightarrow> sv_get f xs v \<noteq> None) \<and> sv_get f xs v = sv_lookup_by f xs (f v) \<and>
    sv_inv f (snd (sv_insert f xs v)) \<and> sv_inv f (snd (sv_remove_by f xs k))"
proof -
  have "sv_remove f xs v = sv_remove_by f xs (f v)" "sv_get f xs v = sv_lookup_by f xs (f v)"
    "sv_contains f xs v \<longleftrightarrow> sv_get f xs v \<noteq> None"
    by (auto simp: sv_remove_def sv_remove_by_def sv_get_def sv_lookup_by_def sv_contains_def
        split: sum.splits)
  then show ?thesis using assms by (simp add: sv.find_view sv.put_view sv.take_view)
qed

theorem sorted_vec_correct_witness:
  "sv_lookup_by fst (snd (sv_insert fst [(1 :: nat, True), (4, False)] (2, True))) 2 = Some (2, True)"
  using sorted_vec_correct [of fst "[(1 :: nat, True), (4, False)]" "(2, True)" 2 0]
  by (simp add: sv_inv_def)

end
