(* ===== verification/Mmio_Regions.thy ===== *)
theory Mmio_Regions
  imports Memory_Regions Sorted_Vecs
begin

text \<open>
  The allocator of memory-mapped I/O regions (\<open>src/src/kernel/src/hal/io/mmio/allocator.rs\<close>) and the
  handles it gives out (\<open>region.rs\<close>). Registered regions are in one of two sorted vectors; dropping
  a handle puts its region into a return channel, which the allocator empties before it registers or
  allocates. A tag is eight bytes compared lexicographically and is represented by its big-endian
  value. The reference-counted return channel is part of the state of the allocator, and the handles
  that are still alive are a parameter of the invariant.
\<close>

section \<open>Definitions\<close>

type_synonym mmio_tag = nat

record mmio_entry =
  me_tag :: mmio_tag
  me_region :: memory_region

text \<open>A handle and an entry carry the same data: a tag and a region.\<close>

type_synonym io_memory_region = mmio_entry

record mmio_allocator =
  available :: "mmio_entry list"
  allocated :: "mmio_entry list"
  return_channel :: "mmio_entry list"

definition mmio_new :: mmio_allocator where
  "mmio_new = \<lparr>available = [], allocated = [], return_channel = []\<rparr>"

definition compute_inclusive_end :: "nat \<Rightarrow> nat \<Rightarrow> nat kres" where
  "compute_inclusive_end start nbytes =
    (if nbytes = 0 then fail InvalidArgument ''region size underflow''
     else (case checked_add start (nbytes - 1) of
             Some last_addr \<Rightarrow> Ok last_addr
           | None \<Rightarrow> fail InvalidArgument ''region end address overflow''))"

text \<open>The loop of \<open>reclaim\<close>; an early return leaves the rest of the channel in place.\<close>

fun reclaim_loop :: "mmio_entry list \<Rightarrow> mmio_allocator \<Rightarrow> unit kres \<times> mmio_allocator" where
  "reclaim_loop [] a = (Ok (), a\<lparr>return_channel := []\<rparr>)"
| "reclaim_loop (h # rest) a =
    (case sv_remove_by me_tag (allocated a) (me_tag h) of
       (None, _) \<Rightarrow> (fail NoSuchEntry ''region not found in allocated'', a\<lparr>return_channel := rest\<rparr>)
     | (Some _, alloc) \<Rightarrow>
         (case sv_insert me_tag (available a) h of
            (Some _, avail) \<Rightarrow>
              (fail EntryExists ''region already in available'',
               a\<lparr>allocated := alloc, available := avail, return_channel := rest\<rparr>)
          | (None, avail) \<Rightarrow> reclaim_loop rest (a\<lparr>allocated := alloc, available := avail\<rparr>)))"

definition reclaim :: "mmio_allocator \<Rightarrow> unit kres \<times> mmio_allocator" where
  "reclaim a = reclaim_loop (return_channel a) a"

text \<open>The overlap check of \<open>register\<close> against every known region.\<close>

fun check_overlap :: "nat \<Rightarrow> nat \<Rightarrow> mmio_entry list \<Rightarrow> unit kres" where
  "check_overlap start last_addr [] = Ok ()"
| "check_overlap start last_addr (e # es) =
    bind_res (compute_inclusive_end (mr_start (me_region e)) (mr_size (me_region e))) (\<lambda>reg_end.
      if \<not> (last_addr < mr_start (me_region e) \<or> start > reg_end)
      then fail EntryExists ''region overlaps existing entry''
      else check_overlap start last_addr es)"

definition mmio_register :: "mmio_allocator \<Rightarrow> mmio_tag \<Rightarrow> memory_region \<Rightarrow> unit kres \<times> mmio_allocator" where
  "mmio_register a tag region =
    (case reclaim a of
       (Ok _, a) \<Rightarrow>
         if sv_lookup_by me_tag (available a) tag \<noteq> None \<or> sv_lookup_by me_tag (allocated a) tag \<noteq> None
         then (fail EntryExists ''tag already registered'', a)
         else (case bind_res (compute_inclusive_end (mr_start region) (mr_size region)) (\<lambda>last_addr.
                 check_overlap (mr_start region) last_addr (available a @ allocated a)) of
                 Ok _ \<Rightarrow>
                   (case sv_insert me_tag (available a) \<lparr>me_tag = tag, me_region = region\<rparr> of
                      (Some _, avail) \<Rightarrow>
                        (fail EntryExists ''tag already registered'', a\<lparr>available := avail\<rparr>)
                    | (None, avail) \<Rightarrow> (Ok (), a\<lparr>available := avail\<rparr>))
               | Err e \<Rightarrow> (Err e, a)
               | Panic \<Rightarrow> (Panic, a))
     | (Err e, a) \<Rightarrow> (Err e, a)
     | (Panic, a) \<Rightarrow> (Panic, a))"

definition mmio_allocate :: "mmio_allocator \<Rightarrow> mmio_tag \<Rightarrow> io_memory_region kres \<times> mmio_allocator" where
  "mmio_allocate a tag =
    (case reclaim a of
       (Ok _, a) \<Rightarrow>
         (case sv_remove_by me_tag (available a) tag of
            (Some entry, avail) \<Rightarrow>
              (case sv_insert me_tag (allocated a) entry of
                 (Some _, alloc) \<Rightarrow>
                   (fail EntryExists ''tag already allocated'',
                    a\<lparr>available := avail, allocated := alloc\<rparr>)
               | (None, alloc) \<Rightarrow>
                   (Ok \<lparr>me_tag = tag, me_region = me_region entry\<rparr>,
                    a\<lparr>available := avail, allocated := alloc\<rparr>))
          | (None, avail) \<Rightarrow>
              if sv_lookup_by me_tag (allocated a) tag \<noteq> None
              then (fail EntryExists ''region already allocated'', a)
              else (fail NoSuchEntry ''region not registered'', a))
     | (Err e, a) \<Rightarrow> (Err e, a)
     | (Panic, a) \<Rightarrow> (Panic, a))"

text \<open>\<open>Drop for IoMemoryRegion\<close>.\<close>

definition mmio_drop :: "mmio_allocator \<Rightarrow> io_memory_region \<Rightarrow> mmio_allocator" where
  "mmio_drop a h = a\<lparr>return_channel := return_channel a @ [h]\<rparr>"

definition mmio_len :: "mmio_allocator \<Rightarrow> nat" where
  "mmio_len a = length (available a) + length (allocated a)"

subsection \<open>Invariant\<close>

definition entry_bytes :: "mmio_entry \<Rightarrow> addr set" where
  "entry_bytes e = region_bytes (me_region e)"

definition entry_ok :: "mmio_entry \<Rightarrow> bool" where
  "entry_ok e \<longleftrightarrow> 0 < mr_size (me_region e) \<and>
    mr_start (me_region e) + mr_size (me_region e) - 1 \<le> USIZE_MAX"

text \<open>
  With the handles \<open>hs\<close> alive: both vectors are sorted and share no tag, the regions are well-formed
  and pairwise disjoint, and the allocated ones are those of the live handles and of the handles
  waiting in the channel, each exactly once.
\<close>

definition mmio_inv :: "mmio_allocator \<Rightarrow> io_memory_region list \<Rightarrow> bool" where
  "mmio_inv a hs \<longleftrightarrow>
    sv_inv me_tag (available a) \<and> sv_inv me_tag (allocated a) \<and>
    me_tag ` set (available a) \<inter> me_tag ` set (allocated a) = {} \<and>
    (\<forall>e\<in>set (available a @ allocated a). entry_ok e) \<and>
    (\<forall>e\<in>set (available a @ allocated a). \<forall>e'\<in>set (available a @ allocated a).
       e \<noteq> e' \<longrightarrow> entry_bytes e \<inter> entry_bytes e' = {}) \<and>
    mset (return_channel a @ hs) = mset (allocated a)"

text \<open>What \<open>register\<close> asks of a region, given the entries \<open>E\<close> already known.\<close>

definition registrable :: "mmio_entry set \<Rightarrow> mmio_tag \<Rightarrow> memory_region \<Rightarrow> bool" where
  "registrable E tag region \<longleftrightarrow>
    tag \<notin> me_tag ` E \<and> entry_ok \<lparr>me_tag = tag, me_region = region\<rparr> \<and>
    \<Union> (entry_bytes ` E) \<inter> region_bytes region = {}"

section \<open>Lemmas\<close>

lemma sv_insert_mset:
  assumes "sv_inv f xs" "fst (sv_insert f xs v) = None"
  shows "mset (snd (sv_insert f xs v)) = add_mset v (mset xs)"
proof (cases "binary_search f xs (f v)")
  case (Inl i)
  have "mset (take i xs) + mset (drop i xs) = mset xs"
    by (simp add: mset_append [symmetric] del: mset_append)
  then show ?thesis by (simp add: sv_insert_def Inl)
next
  case (Inr i)
  then show ?thesis using assms(2) by (simp add: sv_insert_def)
qed

lemma sv_remove_mset:
  assumes "fst (sv_remove_by f xs k) = Some x"
  shows "mset xs = add_mset x (mset (snd (sv_remove_by f xs k)))" "f x = k"
proof -
  obtain i where i: "binary_search f xs k = Inr i"
    using assms by (cases "binary_search f xs k") (auto simp: sv_remove_by_def)
  then obtain pre y post where s: "xs = pre @ y # post" "length pre = i" "f y = k"
    by (rule binary_search_Inr)
  have "sv_remove_by f xs k = (Some y, pre @ post)"
    using i s(1,2) by (simp add: sv_remove_by_def nth_append)
  then show "mset xs = add_mset x (mset (snd (sv_remove_by f xs k)))" "f x = k"
    using assms s by simp_all
qed

text \<open>
  The part of the invariant that speaks about the entries as a set, and the part about tags, for two
  vectors.
\<close>

definition entries_ok :: "mmio_entry set \<Rightarrow> bool" where
  "entries_ok E \<longleftrightarrow> (\<forall>e\<in>E. entry_ok e) \<and>
    (\<forall>e\<in>E. \<forall>e'\<in>E. e \<noteq> e' \<longrightarrow> entry_bytes e \<inter> entry_bytes e' = {})"

definition tags_ok :: "mmio_entry list \<Rightarrow> mmio_entry list \<Rightarrow> bool" where
  "tags_ok xs ys \<longleftrightarrow> sv_inv me_tag xs \<and> sv_inv me_tag ys \<and> me_tag ` set xs \<inter> me_tag ` set ys = {}"

lemma mmio_inv_iff:
  "mmio_inv a hs \<longleftrightarrow> tags_ok (available a) (allocated a) \<and>
    entries_ok (set (available a) \<union> set (allocated a)) \<and>
    mset (return_channel a) + mset hs = mset (allocated a)"
  by (auto simp: mmio_inv_def tags_ok_def entries_ok_def)

lemma insert_disjoint_sub: "x \<notin> F' \<Longrightarrow> F' \<subseteq> F \<Longrightarrow> A \<inter> F = {} \<Longrightarrow> insert x A \<inter> F' = {}"
  by blast

text \<open>Moving an entry from one vector to the other.\<close>

lemma move_entry:
  assumes "tags_ok to_vec from_vec" "sv_remove_by me_tag from_vec k = (Some e, from')"
  obtains to' where "sv_insert me_tag to_vec e = (None, to')" "tags_ok to' from'" "me_tag e = k"
    "mset from_vec = add_mset e (mset from')" "mset to' = add_mset e (mset to_vec)"
    "set to' \<union> set from' = set to_vec \<union> set from_vec"
proof -
  have inv: "sv_inv me_tag to_vec" "sv_inv me_tag from_vec" using assms(1) by (auto simp: tags_ok_def)
  have e: "me_tag e = k" "mset from_vec = add_mset e (mset from')"
    using sv_remove_mset [of me_tag from_vec k e] assms(2) by simp_all
  have ef: "e \<in> set from_vec" using arg_cong [OF e(2), of set_mset] by auto
  have "\<forall>x\<in>set to_vec. me_tag x \<noteq> me_tag e" using assms(1) ef by (auto simp: tags_ok_def)
  then have n: "fst (sv_insert me_tag to_vec e) = None"
    using sv.put_view(1) [OF inv(1)] by (simp add: sv_view_None)
  obtain to' where t: "sv_insert me_tag to_vec e = (None, to')"
    using n by (cases "sv_insert me_tag to_vec e") simp
  have m: "mset to' = add_mset e (mset to_vec)" using sv_insert_mset [OF inv(1) n] t by simp
  have sub: "set from' \<subseteq> set from_vec" "set to' = insert e (set to_vec)"
    using arg_cong [OF e(2), of set_mset] arg_cong [OF m, of set_mset] by auto
  have "sv_view me_tag from' k = None" using sv.take_view(2) [OF inv(2), of k] assms(2) by simp
  then have ne: "me_tag e \<notin> me_tag ` set from'" by (auto simp: sv_view_None e(1))
  have "me_tag ` set to_vec \<inter> me_tag ` set from_vec = {}" using assms(1) by (simp add: tags_ok_def)
  from insert_disjoint_sub [OF ne image_mono [OF sub(1)] this]
  have "me_tag ` set to' \<inter> me_tag ` set from' = {}" by (simp add: sub(2))
  then have "tags_ok to' from'"
    using sv.put_view(3) [OF inv(1), of e] sv.take_view(3) [OF inv(2), of k]
    by (simp add: tags_ok_def assms(2) t)
  moreover have "set to' \<union> set from' = set to_vec \<union> set from_vec"
    using arg_cong [OF e(2), of set_mset] by (simp add: sub(2))
  ultimately show thesis using t e m by (intro that [of to'])
qed

lemma reclaim_loop_ok:
  assumes "mmio_inv (a\<lparr>return_channel := ch\<rparr>) hs"
  shows "\<exists>a'. reclaim_loop ch a = (Ok (), a') \<and> mmio_inv a' hs \<and> return_channel a' = [] \<and>
    set (available a') \<union> set (allocated a') = set (available a) \<union> set (allocated a)"
  using assms
proof (induction ch arbitrary: a)
  case Nil
  then show ?case by simp
next
  case (Cons h rest)
  have tags: "tags_ok (available a) (allocated a)"
    and ents: "entries_ok (set (available a) \<union> set (allocated a))"
    and chan: "add_mset h (mset rest) + mset hs = mset (allocated a)"
    using Cons.prems by (simp_all add: mmio_inv_iff)
  have inv: "sv_inv me_tag (allocated a)" using tags by (simp add: tags_ok_def)
  have "h \<in> set (allocated a)" using arg_cong [OF chan, of set_mset] by auto
  then have "sv_view me_tag (allocated a) (me_tag h) = Some h" by (simp add: sv_view_set [OF inv])
  then obtain from' where rm: "sv_remove_by me_tag (allocated a) (me_tag h) = (Some h, from')"
    using sv.take_view(1) [OF inv, of "me_tag h"]
    by (cases "sv_remove_by me_tag (allocated a) (me_tag h)") simp
  from tags rm obtain to' where mv: "sv_insert me_tag (available a) h = (None, to')"
      "tags_ok to' from'" "mset (allocated a) = add_mset h (mset from')"
      "set to' \<union> set from' = set (available a) \<union> set (allocated a)"
    by (rule move_entry)
  let ?a = "a\<lparr>allocated := from', available := to'\<rparr>"
  have "reclaim_loop (h # rest) a = reclaim_loop rest ?a" by (simp add: rm mv(1))
  moreover have "mmio_inv (?a\<lparr>return_channel := rest\<rparr>) hs"
    using mv(2,3,4) chan ents by (simp add: mmio_inv_iff)
  ultimately show ?case using Cons.IH [of ?a] mv(4) by simp
qed

lemma reclaim_ok:
  assumes "mmio_inv a hs"
  obtains a' where "reclaim a = (Ok (), a')" "mmio_inv a' hs" "return_channel a' = []"
    "set (available a') \<union> set (allocated a') = set (available a) \<union> set (allocated a)"
  using reclaim_loop_ok [where a = a and ch = "return_channel a" and hs = hs] assms
  by (auto simp: reclaim_def)

lemma compute_inclusive_end_Ok:
  "compute_inclusive_end s n = Ok l \<longleftrightarrow> 0 < n \<and> s + n - 1 \<le> USIZE_MAX \<and> l = s + n - 1"
  by (auto simp: compute_inclusive_end_def checked_add_def split: if_splits)

lemma check_overlap_Ok:
  assumes "\<forall>e\<in>set es. entry_ok e" "start \<le> last_addr"
  shows "check_overlap start last_addr es = Ok () \<longleftrightarrow>
    (\<forall>e\<in>set es. {start..last_addr} \<inter> entry_bytes e = {})"
  using assms(1)
proof (induction es)
  case (Cons e es)
  let ?s = "mr_start (me_region e)" and ?n = "mr_size (me_region e)"
  have c: "compute_inclusive_end ?s ?n = Ok (?s + ?n - 1)"
    using Cons.prems by (simp add: compute_inclusive_end_Ok entry_ok_def)
  have "{start..last_addr} \<inter> entry_bytes e = {} \<longleftrightarrow> last_addr < ?s \<or> start > ?s + ?n - 1"
  proof
    assume d: "{start..last_addr} \<inter> entry_bytes e = {}"
    show "last_addr < ?s \<or> start > ?s + ?n - 1"
    proof (rule ccontr)
      assume "\<not> (last_addr < ?s \<or> start > ?s + ?n - 1)"
      then have "max start ?s \<in> {start..last_addr} \<inter> entry_bytes e"
        using assms(2) Cons.prems by (auto simp: entry_bytes_def region_bytes_def entry_ok_def)
      then show False using d by blast
    qed
  qed (auto simp: entry_bytes_def region_bytes_def)
  then show ?case using Cons by (auto simp: c)
qed simp

lemma compute_inclusive_end_result:
  "case compute_inclusive_end s n of Ok l \<Rightarrow> True | Err e \<Rightarrow> code e = InvalidArgument | Panic \<Rightarrow> False"
  by (simp add: compute_inclusive_end_def fail_def split: option.splits)

lemma check_overlap_errors:
  "case check_overlap s l es of
     Ok u \<Rightarrow> True | Err e \<Rightarrow> code e \<in> {EntryExists, InvalidArgument} | Panic \<Rightarrow> False"
proof (induction es)
  case (Cons e es)
  then show ?case using compute_inclusive_end_result [of "mr_start (me_region e)" "mr_size (me_region e)"]
    by (cases "compute_inclusive_end (mr_start (me_region e)) (mr_size (me_region e))")
       (simp_all add: fail_def)
qed simp

lemma check_overlap_result:
  "case bind_res (compute_inclusive_end s n) (\<lambda>l. check_overlap s l es) of
     Ok u \<Rightarrow> True | Err e \<Rightarrow> code e \<in> {EntryExists, InvalidArgument} | Panic \<Rightarrow> False"
  using compute_inclusive_end_result [of s n] check_overlap_errors
  by (cases "compute_inclusive_end s n") simp_all

lemma check_overlap_is_ok:
  assumes "\<forall>x\<in>set es. entry_ok x"
  shows "is_ok (bind_res (compute_inclusive_end (mr_start region) (mr_size region)) (\<lambda>l.
      check_overlap (mr_start region) l es)) \<longleftrightarrow>
    entry_ok \<lparr>me_tag = tag, me_region = region\<rparr> \<and> \<Union> (entry_bytes ` set es) \<inter> region_bytes region = {}"
proof (cases "entry_ok \<lparr>me_tag = tag, me_region = region\<rparr>")
  case True
  let ?l = "mr_start region + mr_size region - 1"
  have l: "compute_inclusive_end (mr_start region) (mr_size region) = Ok ?l"
    "mr_start region \<le> ?l" "{mr_start region..?l} = region_bytes region"
    using True by (auto simp: compute_inclusive_end_Ok entry_ok_def region_bytes_def)
  have "is_ok (check_overlap (mr_start region) ?l es) \<longleftrightarrow> check_overlap (mr_start region) ?l es = Ok ()"
    by (cases "check_overlap (mr_start region) ?l es") simp_all
  also have "\<dots> \<longleftrightarrow> \<Union> (entry_bytes ` set es) \<inter> region_bytes region = {}"
    unfolding check_overlap_Ok [OF assms l(2)] l(3) by blast
  finally show ?thesis using True unfolding l(1) by simp
next
  case False
  then have "compute_inclusive_end (mr_start region) (mr_size region) \<noteq> Ok l" for l
    by (auto simp: compute_inclusive_end_Ok entry_ok_def)
  then show ?thesis using False
    by (cases "compute_inclusive_end (mr_start region) (mr_size region)") auto
qed

lemma mmio_allocate_cases:
  assumes "mmio_inv a hs"
  shows "case mmio_allocate a tag of
      (Ok h, a') \<Rightarrow> mmio_inv a' (h # hs) \<and> me_tag h = tag \<and> h \<notin> set hs \<and>
        h \<in> set (available a) \<union> set (allocated a) \<and>
        set (available a') \<union> set (allocated a') = set (available a) \<union> set (allocated a)
    | (Err e, a') \<Rightarrow> mmio_inv a' hs \<and> tag \<notin> me_tag ` (set (available a) \<union> set (allocated a) - set hs) \<and>
        code e = (if tag \<in> me_tag ` set hs then EntryExists else NoSuchEntry) \<and>
        set (available a') \<union> set (allocated a') = set (available a) \<union> set (allocated a)
    | (Panic, _) \<Rightarrow> False"
proof -
  from assms obtain b where b: "reclaim a = (Ok (), b)" "mmio_inv b hs" "return_channel b = []"
      "set (available b) \<union> set (allocated b) = set (available a) \<union> set (allocated a)"
    by (rule reclaim_ok)
  have tags: "tags_ok (available b) (allocated b)" using b(2) by (simp add: mmio_inv_iff)
  have al: "mset hs = mset (allocated b)" using b(2,3) by (simp add: mmio_inv_iff)
  then have set_hs: "set hs = set (allocated b)" by (rule mset_eq_setD)
  show ?thesis
  proof (cases "fst (sv_remove_by me_tag (available b) tag)")
    case (Some e)
    have tags': "tags_ok (allocated b) (available b)" using tags by (auto simp: tags_ok_def)
    obtain from' where rm: "sv_remove_by me_tag (available b) tag = (Some e, from')"
      using Some by (cases "sv_remove_by me_tag (available b) tag") simp
    from tags' rm obtain to' where mv: "sv_insert me_tag (allocated b) e = (None, to')"
        "tags_ok to' from'" "me_tag e = tag" "mset (available b) = add_mset e (mset from')"
        "mset to' = add_mset e (mset (allocated b))"
        "set to' \<union> set from' = set (allocated b) \<union> set (available b)"
      by (rule move_entry)
    have e: "\<lparr>me_tag = tag, me_region = me_region e\<rparr> = e" using mv(3) by simp
    have res: "mmio_allocate a tag = (Ok e, b\<lparr>available := from', allocated := to'\<rparr>)"
      by (simp add: mmio_allocate_def b(1) rm mv(1) e)
    have ea: "e \<in> set (available b)" using arg_cong [OF mv(4), of set_mset] by auto
    then have eh: "e \<notin> set hs" using tags by (auto simp: set_hs tags_ok_def)
    have "mmio_inv (b\<lparr>available := from', allocated := to'\<rparr>) (e # hs)"
      using mv(2,5,6) b(2,3) al by (simp add: mmio_inv_iff tags_ok_def Int_commute Un_commute)
    then show ?thesis using mv(3,6) b(4) ea eh by (auto simp: res)
  next
    case None
    have "sv_view me_tag (available b) tag = None"
      using None sv.take_view(1) [of me_tag "available b"] tags by (simp add: tags_ok_def)
    then have na: "tag \<notin> me_tag ` set (available b)" by (auto simp: sv_view_None)
    have lk: "sv_lookup_by me_tag (allocated b) tag \<noteq> None \<longleftrightarrow> tag \<in> me_tag ` set hs"
      using sv.find_view [of me_tag "allocated b"] tags sv_view_None [of me_tag "allocated b" tag]
      by (auto simp: tags_ok_def set_hs)
    have "tag \<notin> me_tag ` (set (available a) \<union> set (allocated a) - set hs)"
      using na b(4) set_hs by auto
    moreover obtain w where "sv_remove_by me_tag (available b) tag = (None, w)"
      using None by (metis prod.collapse)
    ultimately show ?thesis using b lk by (simp add: mmio_allocate_def fail_def)
  qed
qed

lemma entries_okD:
  "entries_ok E \<Longrightarrow> e \<in> E \<Longrightarrow> e' \<in> E \<Longrightarrow> e \<noteq> e' \<Longrightarrow> entry_bytes e \<inter> entry_bytes e' = {}"
  by (simp add: entries_ok_def)

lemma entries_ok_insert:
  assumes "entries_ok E" "entry_ok e" "\<forall>x\<in>E. entry_bytes e \<inter> entry_bytes x = {}"
  shows "entries_ok (insert e E)"
  using assms unfolding entries_ok_def by (auto simp: Int_commute)

lemma mmio_register_ok:
  assumes b: "reclaim a = (Ok (), b)" "mmio_inv b hs"
    and new: "sv_lookup_by me_tag (available b) tag = None" "sv_lookup_by me_tag (allocated b) tag = None"
    and chk: "compute_inclusive_end (mr_start region) (mr_size region) = Ok last_addr"
      "check_overlap (mr_start region) last_addr (available b @ allocated b) = Ok ()"
  defines "e \<equiv> \<lparr>me_tag = tag, me_region = region\<rparr>"
  shows "\<exists>a'. mmio_register a tag region = (Ok (), a') \<and> mmio_inv a' hs \<and>
    set (available a') \<union> set (allocated a') = insert e (set (available b) \<union> set (allocated b)) \<and>
    (\<forall>x\<in>set (available b) \<union> set (allocated b). entry_bytes e \<inter> entry_bytes x = {})"
proof -
  have tags: "tags_ok (available b) (allocated b)"
    and ents: "entries_ok (set (available b) \<union> set (allocated b))" using b(2) by (simp_all add: mmio_inv_iff)
  have inv: "sv_inv me_tag (available b)" "sv_inv me_tag (allocated b)"
    using tags by (simp_all add: tags_ok_def)
  have e: "entry_ok e" "last_addr = mr_start region + mr_size region - 1"
    using chk(1) by (auto simp: compute_inclusive_end_Ok entry_ok_def e_def)
  have eb: "{mr_start region..last_addr} = entry_bytes e" "mr_start region \<le> last_addr"
    using e by (auto simp: entry_bytes_def region_bytes_def e_def entry_ok_def)
  have ok: "\<forall>x\<in>set (available b @ allocated b). entry_ok x"
    using ents by (auto simp: entries_ok_def)
  have dis: "\<forall>x\<in>set (available b) \<union> set (allocated b). entry_bytes e \<inter> entry_bytes x = {}"
    using check_overlap_Ok [OF ok eb(2)] chk(2) by (simp add: eb(1))
  have "sv_view me_tag (available b) tag = None" "sv_view me_tag (allocated b) tag = None"
    using new sv.find_view [OF inv(1), of tag] sv.find_view [OF inv(2), of tag] by simp_all
  then have nt: "fst (sv_insert me_tag (available b) e) = None" "tag \<notin> me_tag ` set (allocated b)"
    using sv.put_view(1) [OF inv(1), of e] by (auto simp: e_def sv_view_None)
  then obtain to' where to': "sv_insert me_tag (available b) e = (None, to')"
    by (cases "sv_insert me_tag (available b) e") simp
  have st: "set to' = insert e (set (available b))"
    using arg_cong [OF sv_insert_mset [OF inv(1) nt(1)], of set_mset] by (simp add: to')
  have "tags_ok to' (allocated b)"
    using tags sv.put_view(3) [OF inv(1), of e] nt(2) by (simp add: tags_ok_def to' st) (simp add: e_def)
  then have "mmio_inv (b\<lparr>available := to'\<rparr>) hs"
    using b(2) entries_ok_insert [OF ents e(1) dis] by (simp add: mmio_inv_iff st)
  moreover have "mmio_register a tag region = (Ok (), b\<lparr>available := to'\<rparr>)"
    using new chk to' by (simp add: mmio_register_def b(1) e_def)
  ultimately show ?thesis using dis by (simp add: st)
qed

lemma mmio_inv_handles:
  assumes "mmio_inv a (h # hs)"
  shows "h \<notin> set hs" "\<forall>h'\<in>set hs. entry_bytes h \<inter> entry_bytes h' = {}"
    "mmio_inv (mmio_drop a h) hs"
proof -
  have d: "mset (return_channel a @ h # hs) = mset (allocated a)"
    using assms by (simp add: mmio_inv_iff)
  have "sv_inv me_tag (allocated a)" using assms by (simp add: mmio_inv_iff tags_ok_def)
  then have "distinct (allocated a)" by (auto simp: sv_inv_def strict_sorted_iff distinct_map)
  then have "distinct (return_channel a @ h # hs)" using mset_eq_imp_distinct_iff [OF d] by blast
  then show n: "h \<notin> set hs" by simp
  have sub: "h \<in> set (allocated a)" "set hs \<subseteq> set (allocated a)" using mset_eq_setD [OF d] by auto
  have ents: "entries_ok (set (available a) \<union> set (allocated a))"
    using assms by (simp add: mmio_inv_iff)
  show "\<forall>h'\<in>set hs. entry_bytes h \<inter> entry_bytes h' = {}"
  proof
    fix h'
    assume h': "h' \<in> set hs"
    then have "h \<noteq> h'" using n by blast
    then show "entry_bytes h \<inter> entry_bytes h' = {}"
      using sub h' by (intro entries_okD [OF ents]) auto
  qed
  show "mmio_inv (mmio_drop a h) hs"
    using assms by (simp add: mmio_inv_iff mmio_drop_def)
qed

section \<open>Claims\<close>

text \<open>
  C9. Registering a region: in any consistent state of the allocator \<open>register\<close> keeps it consistent
  and never panics; it succeeds exactly when the tag is new, the region is well-formed and it overlaps
  no registered region, and then adds exactly that region.
\<close>

theorem mmio_register_correct:
  assumes "mmio_inv a hs"
  defines "E \<equiv> set (available a) \<union> set (allocated a)"
  shows "case mmio_register a tag region of
      (Ok _, a') \<Rightarrow> mmio_inv a' hs \<and> registrable E tag region \<and>
        set (available a') \<union> set (allocated a') = insert \<lparr>me_tag = tag, me_region = region\<rparr> E
    | (Err e, a') \<Rightarrow> mmio_inv a' hs \<and> \<not> registrable E tag region \<and>
        set (available a') \<union> set (allocated a') = E \<and> code e \<in> {EntryExists, InvalidArgument}
    | (Panic, _) \<Rightarrow> False"
proof -
  from assms(1) obtain b where b: "reclaim a = (Ok (), b)" "mmio_inv b hs"
      "set (available b) \<union> set (allocated b) = E"
    unfolding E_def by (rule reclaim_ok)
  have inv: "sv_inv me_tag (available b)" "sv_inv me_tag (allocated b)"
    and ok: "\<forall>x\<in>set (available b @ allocated b). entry_ok x"
    using b(2) by (simp_all add: mmio_inv_iff tags_ok_def entries_ok_def)
  let ?new = "sv_lookup_by me_tag (available b) tag = None \<and> sv_lookup_by me_tag (allocated b) tag = None"
  let ?chk = "bind_res (compute_inclusive_end (mr_start region) (mr_size region)) (\<lambda>last_addr.
      check_overlap (mr_start region) last_addr (available b @ allocated b))"
  have "?new \<longleftrightarrow> tag \<notin> me_tag ` E"
    using sv.find_view [OF inv(1)] sv.find_view [OF inv(2)]
    unfolding b(3) [symmetric] image_Un by (auto simp: sv_view_None)
  then have reg: "registrable E tag region \<longleftrightarrow> ?new \<and> is_ok ?chk"
    using check_overlap_is_ok [OF ok, of region tag] unfolding registrable_def set_append b(3) by simp
  have ck: "case ?chk of
      Ok u \<Rightarrow> True | Err e \<Rightarrow> code e \<in> {EntryExists, InvalidArgument} | Panic \<Rightarrow> False"
    by (rule check_overlap_result)
  consider (ok) "?new" "is_ok ?chk" | (dup) "\<not> ?new" | (bad) "?new" "\<not> is_ok ?chk" by blast
  then show ?thesis
  proof cases
    case ok
    obtain l where "compute_inclusive_end (mr_start region) (mr_size region) = Ok l"
        "check_overlap (mr_start region) l (available b @ allocated b) = Ok ()"
      using ok(2) by (cases "compute_inclusive_end (mr_start region) (mr_size region)")
         (auto elim: is_ok.elims)
    with mmio_register_ok [OF b(1,2)] ok(1) obtain a' where
        "mmio_register a tag region = (Ok (), a')" "mmio_inv a' hs"
        "set (available a') \<union> set (allocated a') = insert \<lparr>me_tag = tag, me_region = region\<rparr> E"
      unfolding b(3) by metis
    then show ?thesis using reg ok by simp
  next
    case dup
    then have "mmio_register a tag region = (fail EntryExists ''tag already registered'', b)"
      by (simp add: mmio_register_def b(1))
    moreover have "\<not> registrable E tag region" using dup reg by blast
    ultimately show ?thesis using b by (simp add: fail_def)
  next
    case bad
    then obtain e where "?chk = Err e" "code e \<in> {EntryExists, InvalidArgument}"
      using ck by (cases ?chk) auto
    moreover have "\<not> registrable E tag region" using bad reg by blast
    ultimately show ?thesis using bad(1) b by (simp add: mmio_register_def)
  qed
qed

theorem mmio_register_correct_witness:
  "case mmio_register mmio_new 7
      \<lparr>mr_name = [], mr_start = 8192, mr_size = 4096, mr_typ = Mmio, mr_perm = RDWR,
       mr_cache_policy = None\<rparr> of
     (Ok _, a') \<Rightarrow> mmio_inv a' [] | _ \<Rightarrow> False"
  using mmio_register_correct [of mmio_new "[]" 7 "\<lparr>mr_name = [], mr_start = 8192, mr_size = 4096,
      mr_typ = Mmio, mr_perm = RDWR, mr_cache_policy = None\<rparr>"]
  by (simp add: mmio_register_def reclaim_def mmio_new_def compute_inclusive_end_def checked_add_def
      sv_lookup_by_def sv_insert_def binary_search_def mmio_inv_def sv_inv_def)

text \<open>
  C8. Allocating a registered region: with any set of live handles \<open>allocate\<close> succeeds exactly for a
  registered region without a live handle, including one whose handle was dropped, and returns a
  handle whose bytes no other live handle has; otherwise it reports \<open>EntryExists\<close> for a live region
  and \<open>NoSuchEntry\<close> for an unknown tag. The allocator stays consistent, the registered regions stay
  the same, and dropping the handle restores the state of the live handles.
\<close>

theorem mmio_allocate_exclusive:
  assumes "mmio_inv a hs"
  defines "E \<equiv> set (available a) \<union> set (allocated a)"
  shows "case mmio_allocate a tag of
      (Ok h, a') \<Rightarrow> mmio_inv a' (h # hs) \<and> mmio_inv (mmio_drop a' h) hs \<and> me_tag h = tag \<and> h \<in> E \<and>
        entry_bytes h \<inter> \<Union> (entry_bytes ` set hs) = {} \<and>
        set (available a') \<union> set (allocated a') = E
    | (Err e, a') \<Rightarrow> mmio_inv a' hs \<and> tag \<notin> me_tag ` (E - set hs) \<and>
        code e = (if tag \<in> me_tag ` set hs then EntryExists else NoSuchEntry) \<and>
        set (available a') \<union> set (allocated a') = E
    | (Panic, _) \<Rightarrow> False"
proof -
  obtain r a' where ra: "mmio_allocate a tag = (r, a')" by (cases "mmio_allocate a tag")
  note c = mmio_allocate_cases [OF assms(1), of tag, folded E_def, unfolded ra]
  show ?thesis
  proof (cases r)
    case (Ok h)
    then have inv: "mmio_inv a' (h # hs)" using c by simp
    have "entry_bytes h \<inter> \<Union> (entry_bytes ` set hs) = {}" using mmio_inv_handles(2) [OF inv] by auto
    then show ?thesis using c mmio_inv_handles(3) [OF inv] by (simp add: ra Ok)
  qed (use c in \<open>simp_all add: ra\<close>)
qed

theorem mmio_allocate_exclusive_witness:
  "case mmio_allocate \<lparr>available = [\<lparr>me_tag = 7, me_region = \<lparr>mr_name = [], mr_start = 8192,
        mr_size = 4096, mr_typ = Mmio, mr_perm = RDWR, mr_cache_policy = None\<rparr>\<rparr>],
        allocated = [], return_channel = []\<rparr> 7 of
     (Ok h, a') \<Rightarrow> mmio_inv (mmio_drop a' h) [] | _ \<Rightarrow> False"
  using mmio_allocate_exclusive [of "\<lparr>available = [\<lparr>me_tag = 7, me_region = \<lparr>mr_name = [],
        mr_start = 8192, mr_size = 4096, mr_typ = Mmio, mr_perm = RDWR, mr_cache_policy = None\<rparr>\<rparr>],
        allocated = [], return_channel = []\<rparr>" "[]" 7]
  by (simp add: mmio_allocate_def reclaim_def sv_remove_by_def sv_insert_def binary_search_def
      mmio_inv_def sv_inv_def entry_ok_def)

end
