(* ===== verification/Io_Ports.thy ===== *)
theory Io_Ports
  imports Nonempty_Deques Errors
begin

text \<open>
  The allocator of I/O ports and the handles it gives out (\<open>src/src/kernel/src/hal/io/pmio/\<close>). An
  entry of the allocator is a port behind a reference counter, which counts the allocator and the
  live handles of the port; a handle is typed by what it may do. Port numbers are unique, so a
  handle names its entry by the port. The machine instructions that read and write a port are
  hardware: reading is a parameter and a write is the value put on the bus.
\<close>

section \<open>Definitions\<close>

datatype io_port_type = ReadOnly | WriteOnly | ReadWrite

definition io_port_type_try_from :: "nat \<Rightarrow> io_port_type kres" where
  "io_port_type_try_from v =
    (if v = 0 then Ok ReadOnly else if v = 1 then Ok WriteOnly else if v = 2 then Ok ReadWrite
     else fail InvalidArgument ''invalid io port type'')"

datatype io_port_width = Bits8 | Bits16 | Bits32

definition io_port_width_try_from :: "nat \<Rightarrow> io_port_width kres" where
  "io_port_width_try_from v =
    (if v = 0 then Ok Bits8 else if v = 1 then Ok Bits16 else if v = 2 then Ok Bits32
     else fail InvalidArgument ''invalid io port width'')"

record io_port =
  port_number :: nat
  port_typ :: io_port_type

record io_port_entry =
  pe_port :: io_port
  strong_count :: nat

record io_port_allocator =
  ports :: "io_port_entry list"

datatype any_io_port = ReadOnlyPort io_port | WriteOnlyPort io_port | ReadWritePort io_port

definition io_port_allocator_new :: io_port_allocator where
  "io_port_allocator_new = \<lparr>ports = []\<rparr>"

definition io_port_register :: "io_port_allocator \<Rightarrow> io_port \<Rightarrow> unit kres \<times> io_port_allocator" where
  "io_port_register a port =
    (if list_ex (\<lambda>e. port_number (pe_port e) = port_number port) (ports a)
     then (fail AddressInUse ''io port is already registered'', a)
     else (Ok (), a\<lparr>ports := ports a @ [\<lparr>pe_port = port, strong_count = 1\<rparr>]\<rparr>))"

definition register_read_only :: "io_port_allocator \<Rightarrow> nat \<Rightarrow> unit kres \<times> io_port_allocator" where
  "register_read_only a number = io_port_register a \<lparr>port_number = number, port_typ = ReadOnly\<rparr>"

definition register_write_only :: "io_port_allocator \<Rightarrow> nat \<Rightarrow> unit kres \<times> io_port_allocator" where
  "register_write_only a number = io_port_register a \<lparr>port_number = number, port_typ = WriteOnly\<rparr>"

definition register_read_write :: "io_port_allocator \<Rightarrow> nat \<Rightarrow> unit kres \<times> io_port_allocator" where
  "register_read_write a number = io_port_register a \<lparr>port_number = number, port_typ = ReadWrite\<rparr>"

text \<open>The loop of \<open>allocate_io_port\<close>: the first free entry with the number and the type.\<close>

fun allocate_entry ::
  "nat \<Rightarrow> io_port_type \<Rightarrow> io_port_entry list \<Rightarrow> (io_port \<times> io_port_entry list) option" where
  "allocate_entry number typ [] = None"
| "allocate_entry number typ (e # es) =
    (if strong_count e > 1 then map_option (apsnd ((#) e)) (allocate_entry number typ es)
     else if port_number (pe_port e) = number \<and> port_typ (pe_port e) = typ
     then Some (pe_port e, e\<lparr>strong_count := strong_count e + 1\<rparr> # es)
     else map_option (apsnd ((#) e)) (allocate_entry number typ es))"

definition allocate_io_port ::
  "io_port_allocator \<Rightarrow> nat \<Rightarrow> io_port_type \<Rightarrow> io_port kres \<times> io_port_allocator" where
  "allocate_io_port a number typ =
    (case allocate_entry number typ (ports a) of
       Some (port, es) \<Rightarrow> (Ok port, a\<lparr>ports := es\<rparr>)
     | None \<Rightarrow> (fail NoSuchEntry ''io port is not registered'', a))"

definition allocate_read_only :: "io_port_allocator \<Rightarrow> nat \<Rightarrow> io_port kres \<times> io_port_allocator" where
  "allocate_read_only a number = allocate_io_port a number ReadOnly"

definition allocate_write_only :: "io_port_allocator \<Rightarrow> nat \<Rightarrow> io_port kres \<times> io_port_allocator" where
  "allocate_write_only a number = allocate_io_port a number WriteOnly"

definition allocate_read_write :: "io_port_allocator \<Rightarrow> nat \<Rightarrow> io_port kres \<times> io_port_allocator" where
  "allocate_read_write a number = allocate_io_port a number ReadWrite"

text \<open>The dispatch of \<open>do_pmio_alloc\<close> on the type the caller asks for.\<close>

definition map_port ::
  "(io_port \<Rightarrow> any_io_port) \<Rightarrow> io_port kres \<times> io_port_allocator \<Rightarrow> any_io_port kres \<times> io_port_allocator" where
  "map_port f ra = (bind_res (fst ra) (\<lambda>p. Ok (f p)), snd ra)"

fun allocate_any :: "io_port_allocator \<Rightarrow> nat \<Rightarrow> io_port_type \<Rightarrow> any_io_port kres \<times> io_port_allocator" where
  "allocate_any a number ReadOnly = map_port ReadOnlyPort (allocate_read_only a number)"
| "allocate_any a number WriteOnly = map_port WriteOnlyPort (allocate_write_only a number)"
| "allocate_any a number ReadWrite = map_port ReadWritePort (allocate_read_write a number)"

fun any_port :: "any_io_port \<Rightarrow> io_port" where
  "any_port (ReadOnlyPort p) = p"
| "any_port (WriteOnlyPort p) = p"
| "any_port (ReadWritePort p) = p"

definition any_port_number :: "any_io_port \<Rightarrow> nat" where
  "any_port_number p = port_number (any_port p)"

text \<open>Dropping a handle releases its reference.\<close>

definition drop_io_port :: "io_port_allocator \<Rightarrow> any_io_port \<Rightarrow> io_port_allocator" where
  "drop_io_port a h =
    a\<lparr>ports := map (\<lambda>e. if port_number (pe_port e) = any_port_number h
                        then e\<lparr>strong_count := strong_count e - 1\<rparr> else e) (ports a)\<rparr>"

text \<open>\<open>AnyIoPort::read\<close> and \<open>AnyIoPort::write\<close>; a value is cut to the width of the access.\<close>

fun width_bits :: "io_port_width \<Rightarrow> nat" where
  "width_bits Bits8 = 8"
| "width_bits Bits16 = 16"
| "width_bits Bits32 = 32"

fun any_port_read :: "(nat \<Rightarrow> io_port_width \<Rightarrow> nat) \<Rightarrow> any_io_port \<Rightarrow> io_port_width \<Rightarrow> nat kres" where
  "any_port_read io_in (ReadOnlyPort p) w = Ok (io_in (port_number p) w mod 2 ^ width_bits w)"
| "any_port_read io_in (WriteOnlyPort p) w = fail OperationNotSupported ''write-only io port''"
| "any_port_read io_in (ReadWritePort p) w = Ok (io_in (port_number p) w mod 2 ^ width_bits w)"

fun any_port_write :: "any_io_port \<Rightarrow> io_port_width \<Rightarrow> nat \<Rightarrow> (nat \<times> io_port_width \<times> nat) kres" where
  "any_port_write (ReadOnlyPort p) w v = fail OperationNotSupported ''read-only io port''"
| "any_port_write (WriteOnlyPort p) w v = Ok (port_number p, w, v mod 2 ^ width_bits w)"
| "any_port_write (ReadWritePort p) w v = Ok (port_number p, w, v mod 2 ^ width_bits w)"

subsection \<open>Invariant\<close>

text \<open>
  With the handles \<open>hs\<close> alive: port numbers are unique, the reference counter of an entry is one
  more than the number of live handles of its port, of which there is at most one, and every handle is
  the one for the type its port is registered with.
\<close>

definition handle_for :: "io_port \<Rightarrow> any_io_port" where
  "handle_for p =
    (case port_typ p of ReadOnly \<Rightarrow> ReadOnlyPort p | WriteOnly \<Rightarrow> WriteOnlyPort p | ReadWrite \<Rightarrow> ReadWritePort p)"

definition live :: "any_io_port list \<Rightarrow> nat \<Rightarrow> nat" where
  "live hs number = length (filter (\<lambda>h. any_port_number h = number) hs)"

definition io_ports_inv :: "io_port_allocator \<Rightarrow> any_io_port list \<Rightarrow> bool" where
  "io_ports_inv a hs \<longleftrightarrow>
    distinct (map (\<lambda>e. port_number (pe_port e)) (ports a)) \<and>
    (\<forall>e\<in>set (ports a). strong_count e = 1 + live hs (port_number (pe_port e)) \<and>
       live hs (port_number (pe_port e)) \<le> 1) \<and>
    (\<forall>h\<in>set hs. any_port h \<in> pe_port ` set (ports a) \<and> h = handle_for (any_port h))"

section \<open>Lemmas\<close>

lemma allocate_entry_Some:
  assumes "allocate_entry n t es = Some (p, es')"
  shows "\<exists>pre e post. es = pre @ e # post \<and> es' = pre @ e\<lparr>strong_count := strong_count e + 1\<rparr> # post \<and>
    strong_count e \<le> 1 \<and> p = pe_port e \<and> port_number p = n \<and> port_typ p = t"
  using assms
proof (induction es arbitrary: es')
  case (Cons a es)
  show ?case
  proof (cases "strong_count a \<le> 1 \<and> port_number (pe_port a) = n \<and> port_typ (pe_port a) = t")
    case True
    then show ?thesis using Cons.prems
      by (intro exI [of _ "[]"] exI [of _ a] exI [of _ es]) auto
  next
    case False
    then obtain es1 where e: "allocate_entry n t es = Some (p, es1)" "es' = a # es1"
      using Cons.prems by (auto split: if_splits)
    from Cons.IH [OF e(1)] obtain pre x post where "es = pre @ x # post"
        "es1 = pre @ x\<lparr>strong_count := strong_count x + 1\<rparr> # post"
        "strong_count x \<le> 1" "p = pe_port x" "port_number p = n" "port_typ p = t" by blast
    then have "a # es = (a # pre) @ x # post \<and>
        es' = (a # pre) @ x\<lparr>strong_count := strong_count x + 1\<rparr> # post \<and>
        strong_count x \<le> 1 \<and> p = pe_port x \<and> port_number p = n \<and> port_typ p = t"
      using e(2) by simp
    then show ?thesis by blast
  qed
qed simp

lemma allocate_entry_None:
  "allocate_entry n t es = None \<longleftrightarrow>
    \<not> list_ex (\<lambda>e. strong_count e \<le> 1 \<and> port_number (pe_port e) = n \<and> port_typ (pe_port e) = t) es"
  by (induction es) auto

lemma any_port_handle_for [simp]: "any_port (handle_for p) = p"
  by (cases "port_typ p") (simp_all add: handle_for_def)

lemma live_Cons: "live (h # hs) n = (if any_port_number h = n then 1 else 0) + live hs n"
  by (simp add: live_def)

lemma io_ports_inv_allocate:
  assumes "io_ports_inv a hs" "allocate_entry n t (ports a) = Some (p, es)" "h = handle_for p"
  shows "io_ports_inv (a\<lparr>ports := es\<rparr>) (h # hs)" "live hs n = 0" "port_number p = n" "port_typ p = t"
proof -
  obtain pre e post where s: "ports a = pre @ e # post"
      "es = pre @ e\<lparr>strong_count := strong_count e + 1\<rparr> # post" "strong_count e \<le> 1" "p = pe_port e"
    and p: "port_number p = n" "port_typ p = t"
    using allocate_entry_Some [OF assms(2)] by blast
  show "port_number p = n" "port_typ p = t" by (rule p)+
  have e: "strong_count e = 1 + live hs n" using assms(1) s p by (auto simp: io_ports_inv_def)
  then show l: "live hs n = 0" using s(3) by simp
  have h: "any_port_number h = n" using assms(3) p(1) by (simp add: any_port_number_def)
  have "distinct (map (\<lambda>e. port_number (pe_port e)) (pre @ e # post))"
    using assms(1) unfolding io_ports_inv_def s(1) by blast
  then have "n \<notin> (\<lambda>e. port_number (pe_port e)) ` (set pre \<union> set post)"
    using p(1) s(4) by (simp add: image_Un)
  then have other: "port_number (pe_port x) \<noteq> n" if "x \<in> set pre \<union> set post" for x
    using that by blast
  show "io_ports_inv (a\<lparr>ports := es\<rparr>) (h # hs)"
    using assms(1) s p e l h other assms(3) by (auto simp: io_ports_inv_def live_Cons)
qed

lemma drop_pe_port: "map pe_port (ports (drop_io_port a h)) = map pe_port (ports a)"
  by (simp add: drop_io_port_def)

lemma io_ports_inv_alt:
  "io_ports_inv a hs \<longleftrightarrow>
    distinct (map port_number (map pe_port (ports a))) \<and>
    (\<forall>e\<in>set (ports a). strong_count e = 1 + live hs (port_number (pe_port e)) \<and>
       live hs (port_number (pe_port e)) \<le> 1) \<and>
    (\<forall>h\<in>set hs. any_port h \<in> set (map pe_port (ports a)) \<and> h = handle_for (any_port h))"
  by (simp add: io_ports_inv_def comp_def)

lemma io_ports_inv_drop:
  assumes "io_ports_inv a (h # hs)"
  shows "io_ports_inv (drop_io_port a h) hs"
proof -
  have "strong_count e = 1 + live hs (port_number (pe_port e)) \<and> live hs (port_number (pe_port e)) \<le> 1"
    if e: "e \<in> set (ports (drop_io_port a h))" for e
  proof -
    obtain e0 where e0: "e0 \<in> set (ports a)" "e = (if port_number (pe_port e0) = any_port_number h
        then e0\<lparr>strong_count := strong_count e0 - 1\<rparr> else e0)"
      using e by (auto simp: drop_io_port_def)
    then have "strong_count e0 = 1 + live (h # hs) (port_number (pe_port e0))"
        "live (h # hs) (port_number (pe_port e0)) \<le> 1"
      using assms by (auto simp: io_ports_inv_def)
    then show ?thesis using e0(2) by (auto simp: live_Cons)
  qed
  then show ?thesis using assms unfolding io_ports_inv_alt drop_pe_port by simp
qed

lemma allocate_any_cases:
  "allocate_any a n t =
    (case allocate_entry n t (ports a) of
       Some (p, es) \<Rightarrow> (Ok (handle_for p), a\<lparr>ports := es\<rparr>)
     | None \<Rightarrow> (fail NoSuchEntry ''io port is not registered'', a))"
  by (cases t)
    (auto dest!: allocate_entry_Some simp: handle_for_def map_port_def allocate_read_only_def allocate_write_only_def allocate_read_write_def
       allocate_io_port_def fail_def split: option.splits)

lemma io_ports_inv_register:
  assumes "io_ports_inv a hs"
  shows "io_ports_inv (snd (io_port_register a p)) hs"
proof (cases "list_ex (\<lambda>e. port_number (pe_port e) = port_number p) (ports a)")
  case False
  have "live hs (port_number p) = 0"
    using assms False
    by (fastforce simp: live_def io_ports_inv_def filter_empty_conv any_port_number_def list_ex_iff)
  then show ?thesis using assms False
    by (auto simp: io_port_register_def io_ports_inv_def list_ex_iff)
qed (use assms in \<open>simp add: io_port_register_def\<close>)

lemma free_entry_iff:
  assumes "io_ports_inv a hs"
  shows "allocate_entry n t (ports a) = None \<longleftrightarrow>
    \<not> (\<lparr>port_number = n, port_typ = t\<rparr> \<in> pe_port ` set (ports a) \<and> live hs n = 0)"
proof -
  have p: "port_number p = n \<and> port_typ p = t \<longleftrightarrow> \<lparr>port_number = n, port_typ = t\<rparr> = p" for p
    by (cases p) auto
  have "strong_count e \<le> 1 \<longleftrightarrow> live hs (port_number (pe_port e)) = 0" if "e \<in> set (ports a)" for e
    using assms that by (simp add: io_ports_inv_def)
  then have "(strong_count e \<le> 1 \<and> port_number (pe_port e) = n \<and> port_typ (pe_port e) = t) \<longleftrightarrow>
      \<lparr>port_number = n, port_typ = t\<rparr> = pe_port e \<and> live hs n = 0" if "e \<in> set (ports a)" for e
    using that p [of "pe_port e"] by metis
  then show ?thesis unfolding allocate_entry_None list_ex_iff image_iff by blast
qed

lemma drop_pe_port_set: "pe_port ` set (ports (drop_io_port a h)) = pe_port ` set (ports a)"
  using arg_cong [OF drop_pe_port [of a h], of set] by simp

lemma allocate_any_result:
  assumes inv: "io_ports_inv a hs"
  shows "case allocate_any a n t of
      (Ok h, a') \<Rightarrow> \<lparr>port_number = n, port_typ = t\<rparr> \<in> pe_port ` set (ports a) \<and> live hs n = 0 \<and>
        h = handle_for \<lparr>port_number = n, port_typ = t\<rparr> \<and> io_ports_inv a' (h # hs) \<and>
        any_port_read io_in h w =
          (if t = WriteOnly then fail OperationNotSupported ''write-only io port''
           else Ok (io_in n w mod 2 ^ width_bits w)) \<and>
        any_port_write h w v =
          (if t = ReadOnly then fail OperationNotSupported ''read-only io port''
           else Ok (n, w, v mod 2 ^ width_bits w)) \<and>
        io_ports_inv (drop_io_port a' h) hs \<and> is_ok (fst (allocate_any (drop_io_port a' h) n t))
    | (Err e, a') \<Rightarrow> code e = NoSuchEntry \<and> a' = a \<and>
        \<not> (\<lparr>port_number = n, port_typ = t\<rparr> \<in> pe_port ` set (ports a) \<and> live hs n = 0)
    | (Panic, a') \<Rightarrow> False"
proof (cases "allocate_entry n t (ports a)")
  case None
  then show ?thesis using free_entry_iff [OF inv, of n t]
    by (simp add: allocate_any_cases fail_def)
next
  case (Some q)
  obtain p es where q: "q = (p, es)" by (cases q)
  define h where "h = handle_for p"
  define a' where "a' = a\<lparr>ports := es\<rparr>"
  have al: "allocate_any a n t = (Ok h, a')"
    using Some q by (simp add: allocate_any_cases h_def a'_def)
  have hp: "any_port h = p" by (simp add: h_def)
  note io = io_ports_inv_allocate [OF inv Some [unfolded q] h_def]
  have p: "p = \<lparr>port_number = n, port_typ = t\<rparr>" using io(3,4) by (cases p) simp
  have i': "io_ports_inv a' (h # hs)" using io(1) by (simp add: a'_def)
  have "p \<in> pe_port ` set (ports (drop_io_port a' h))"
    using i' hp by (simp add: drop_pe_port_set io_ports_inv_def)
  then have "allocate_entry n t (ports (drop_io_port a' h)) \<noteq> None"
    using free_entry_iff [OF io_ports_inv_drop [OF i'], of n t] io(2) p by simp
  then have "is_ok (fst (allocate_any (drop_io_port a' h) n t))"
    by (auto simp: allocate_any_cases)
  moreover have "p \<in> pe_port ` set (ports a) \<and> live hs n = 0"
    using free_entry_iff [OF inv, of n t] Some p by simp
  moreover have "any_port_read io_in h w = (if t = WriteOnly then fail OperationNotSupported ''write-only io port''
      else Ok (io_in n w mod 2 ^ width_bits w))" "any_port_write h w v =
      (if t = ReadOnly then fail OperationNotSupported ''read-only io port'' else Ok (n, w, v mod 2 ^ width_bits w))"
    by (cases t; simp add: h_def p handle_for_def)+
  ultimately show ?thesis using al h_def p i' io_ports_inv_drop [OF i'] by simp
qed

section \<open>Properties\<close>

text \<open>C10. A port is owned exclusively. From any state in which \<open>hs\<close> are the live handles, asking for
  a port succeeds exactly when a port with that number and that type is registered and no live handle
  names it. The handle is then the one for that port and its type: it reads the port unless it is
  write-only, writes it unless it is read-only, and refuses the other access. The invariant (unique
  numbers, at most one handle for a port and of its type, reference counters that count the handles)
  holds with the new handle alive. Every refusal is NoSuchEntry and changes nothing. Registering keeps the invariant
  and is refused exactly for a number in use, and once a handle is dropped its port can be allocated
  again.\<close>

theorem io_port_exclusive:
  assumes inv: "io_ports_inv a hs"
  shows "(case allocate_any a n t of
      (Ok h, a') \<Rightarrow> \<lparr>port_number = n, port_typ = t\<rparr> \<in> pe_port ` set (ports a) \<and> live hs n = 0 \<and>
        h = handle_for \<lparr>port_number = n, port_typ = t\<rparr> \<and> io_ports_inv a' (h # hs) \<and>
        any_port_read io_in h w =
          (if t = WriteOnly then fail OperationNotSupported ''write-only io port''
           else Ok (io_in n w mod 2 ^ width_bits w)) \<and>
        any_port_write h w v =
          (if t = ReadOnly then fail OperationNotSupported ''read-only io port''
           else Ok (n, w, v mod 2 ^ width_bits w)) \<and>
        io_ports_inv (drop_io_port a' h) hs \<and> is_ok (fst (allocate_any (drop_io_port a' h) n t))
    | (Err e, a') \<Rightarrow> code e = NoSuchEntry \<and> a' = a \<and>
        \<not> (\<lparr>port_number = n, port_typ = t\<rparr> \<in> pe_port ` set (ports a) \<and> live hs n = 0)
    | (Panic, a') \<Rightarrow> False) \<and>
    io_ports_inv (snd (io_port_register a p)) hs \<and>
    (is_ok (fst (io_port_register a p)) \<longleftrightarrow> port_number p \<notin> port_number ` pe_port ` set (ports a))"
proof (intro conjI)
  show "is_ok (fst (io_port_register a p)) \<longleftrightarrow> port_number p \<notin> port_number ` pe_port ` set (ports a)"
    by (force simp: io_port_register_def list_ex_iff fail_def image_image image_iff)
qed (rule allocate_any_result [OF inv] io_ports_inv_register [OF inv])+

theorem io_port_exclusive_witness:
  "is_ok (fst (allocate_any \<lparr>ports = [\<lparr>pe_port = \<lparr>port_number = 96, port_typ = ReadOnly\<rparr>, strong_count = 1\<rparr>]\<rparr>
     96 ReadOnly)) \<and>
   any_port_write (ReadOnlyPort \<lparr>port_number = 96, port_typ = ReadOnly\<rparr>) Bits8 1 =
     fail OperationNotSupported ''read-only io port'' \<and>
   io_ports_inv \<lparr>ports = [\<lparr>pe_port = \<lparr>port_number = 96, port_typ = ReadOnly\<rparr>, strong_count = 2\<rparr>]\<rparr>
     [ReadOnlyPort \<lparr>port_number = 96, port_typ = ReadOnly\<rparr>]"
  using io_port_exclusive [of "\<lparr>ports = [\<lparr>pe_port = \<lparr>port_number = 96, port_typ = ReadOnly\<rparr>,
      strong_count = 1\<rparr>]\<rparr>" "[]" 96 ReadOnly]
  by (simp add: io_ports_inv_def live_def allocate_any_cases any_port_number_def handle_for_def)

end
