(* ===== verification/Process_States.thy ===== *)
theory Process_States
  imports Threads Event_Codes Mmio_Regions Io_Ports
begin

text \<open>
  What a process owns (\<open>src/src/kernel/src/pm/process/state/mod.rs\<close>, \<open>capability.rs\<close>): its
  capabilities, events, messages, I/O regions and ports, and the mutexes and condition variables its
  threads have opened. The address space is a value of an abstract type \<open>'v\<close>. A mutex or condition
  variable is the handle of a shared object; the handle of a new object (\<open>Mutex::new\<close>,
  \<open>Condvar::new\<close>) and the reference counts of the objects are parameters. An event ownership is the
  event it owns. The limits \<open>MUTEX_OPEN_MAX\<close> and \<open>COND_OPEN_MAX\<close> are build-time constants and appear
  as parameters.
\<close>

section \<open>Definitions\<close>

subsection \<open>Capabilities\<close>

datatype capability =
  ExceptionControl | InterruptControl | IoManagement | MemoryManagement | ProcessManagement

fun capability_value :: "capability \<Rightarrow> nat" where
  "capability_value ExceptionControl = 0"
| "capability_value InterruptControl = 1"
| "capability_value IoManagement = 2"
| "capability_value MemoryManagement = 3"
| "capability_value ProcessManagement = 4"

definition capability_try_from :: "nat \<Rightarrow> capability kres" where
  "capability_try_from v =
    (if v = 0 then Ok ExceptionControl
     else if v = 1 then Ok InterruptControl
     else if v = 2 then Ok IoManagement
     else if v = 3 then Ok MemoryManagement
     else if v = 4 then Ok ProcessManagement
     else fail InvalidArgument ''invalid capability'')"

type_synonym capabilities = u8

definition capabilities_set :: "capabilities \<Rightarrow> capability \<Rightarrow> capabilities" where
  "capabilities_set cs c = cs OR one_shl (capability_value c)"

definition capabilities_clear :: "capabilities \<Rightarrow> capability \<Rightarrow> capabilities" where
  "capabilities_clear cs c = cs AND NOT (one_shl (capability_value c))"

definition capabilities_has :: "capabilities \<Rightarrow> capability \<Rightarrow> bool" where
  "capabilities_has cs c \<longleftrightarrow> cs AND one_shl (capability_value c) \<noteq> 0"

subsection \<open>The state of a process\<close>

type_synonym cond_handle = nat

record 'v process_state =
  ps_pid :: pid
  ps_capabilities :: capabilities
  ps_vmem :: 'v
  ps_events :: "event list"
  ps_mailbox :: mailbox
  ps_mmio :: "io_memory_region list"
  ps_pmio :: "any_io_port list"
  ps_mutexes :: "(addr \<times> mutex_handle) list"
  ps_conditions :: "(addr \<times> cond_handle) list"
  ps_pending_exit_status :: "nat option"

definition process_state_new :: "pid \<Rightarrow> 'v \<Rightarrow> 'v process_state" where
  "process_state_new pid vmem =
    \<lparr>ps_pid = pid, ps_capabilities = 0, ps_vmem = vmem, ps_events = [], ps_mailbox = mailbox_default,
     ps_mmio = [], ps_pmio = [], ps_mutexes = [], ps_conditions = [], ps_pending_exit_status = None\<rparr>"

definition set_pending_exit_status :: "'v process_state \<Rightarrow> nat \<Rightarrow> 'v process_state" where
  "set_pending_exit_status ps st =
    (if ps_pending_exit_status ps = None then ps\<lparr>ps_pending_exit_status := Some st\<rparr> else ps)"

definition take_pending_exit_status :: "'v process_state \<Rightarrow> nat option \<times> 'v process_state" where
  "take_pending_exit_status ps = (ps_pending_exit_status ps, ps\<lparr>ps_pending_exit_status := None\<rparr>)"

definition set_capability :: "'v process_state \<Rightarrow> capability \<Rightarrow> 'v process_state" where
  "set_capability ps c = ps\<lparr>ps_capabilities := capabilities_set (ps_capabilities ps) c\<rparr>"

definition clear_capability :: "'v process_state \<Rightarrow> capability \<Rightarrow> 'v process_state" where
  "clear_capability ps c = ps\<lparr>ps_capabilities := capabilities_clear (ps_capabilities ps) c\<rparr>"

definition has_capability :: "'v process_state \<Rightarrow> capability \<Rightarrow> bool" where
  "has_capability ps c = capabilities_has (ps_capabilities ps) c"

definition has_special_resources :: "'v process_state \<Rightarrow> bool" where
  "has_special_resources ps \<longleftrightarrow>
    ps_mmio ps \<noteq> [] \<or> ps_pmio ps \<noteq> [] \<or> ps_events ps \<noteq> [] \<or> \<not> mailbox_is_empty (ps_mailbox ps)"

definition add_event :: "'v process_state \<Rightarrow> event \<Rightarrow> 'v process_state" where
  "add_event ps ev = ps\<lparr>ps_events := ps_events ps @ [ev]\<rparr>"

definition remove_event :: "'v process_state \<Rightarrow> event \<Rightarrow> 'v process_state" where
  "remove_event ps ev = ps\<lparr>ps_events := filter (\<lambda>e. e \<noteq> ev) (ps_events ps)\<rparr>"

definition post_message :: "'v process_state \<Rightarrow> message \<Rightarrow> 'v process_state" where
  "post_message ps msg = ps\<lparr>ps_mailbox := mailbox_send (ps_mailbox ps) msg\<rparr>"

definition receive_message :: "'v process_state \<Rightarrow> tid \<Rightarrow> message option kres \<times> 'v process_state" where
  "receive_message ps tid =
    (case mailbox_receive (ps_mailbox ps) tid of (r, mb) \<Rightarrow> (r, ps\<lparr>ps_mailbox := mb\<rparr>))"

definition add_mmio :: "'v process_state \<Rightarrow> io_memory_region \<Rightarrow> 'v process_state" where
  "add_mmio ps region = ps\<lparr>ps_mmio := ps_mmio ps @ [region]\<rparr>"

text \<open>\<open>remove_mmio\<close> drops the region it removes; the dropped region is returned.\<close>

definition remove_mmio ::
  "'v process_state \<Rightarrow> mmio_tag \<Rightarrow> io_memory_region option kres \<times> 'v process_state" where
  "remove_mmio ps tag =
    (case position (\<lambda>r. me_tag r = tag) (ps_mmio ps) of
       Some i \<Rightarrow>
         (case vec_remove (ps_mmio ps) i of
            Some (rest, r) \<Rightarrow> (Ok (Some r), ps\<lparr>ps_mmio := rest\<rparr>)
          | None \<Rightarrow> (Panic, ps))
     | None \<Rightarrow> (Ok None, ps))"

definition mmio_info :: "'v process_state \<Rightarrow> mmio_tag \<Rightarrow> io_memory_region option" where
  "mmio_info ps tag = find (\<lambda>r. me_tag r = tag) (ps_mmio ps)"

definition add_pmio :: "'v process_state \<Rightarrow> any_io_port \<Rightarrow> 'v process_state" where
  "add_pmio ps port = ps\<lparr>ps_pmio := ps_pmio ps @ [port]\<rparr>"

definition remove_pmio :: "'v process_state \<Rightarrow> nat \<Rightarrow> any_io_port kres \<times> 'v process_state" where
  "remove_pmio ps number =
    (case position (\<lambda>p. any_port_number p = number) (ps_pmio ps) of
       Some i \<Rightarrow>
         (case vec_remove (ps_pmio ps) i of
            Some (rest, p) \<Rightarrow> (Ok p, ps\<lparr>ps_pmio := rest\<rparr>)
          | None \<Rightarrow> (Panic, ps))
     | None \<Rightarrow> (fail NoSuchEntry ''io port not found'', ps))"

definition get_pmio :: "'v process_state \<Rightarrow> nat \<Rightarrow> any_io_port kres" where
  "get_pmio ps number =
    (case find (\<lambda>p. any_port_number p = number) (ps_pmio ps) of
       Some p \<Rightarrow> Ok p
     | None \<Rightarrow> fail NoSuchEntry ''io port not found'')"

definition read_pmio ::
  "(nat \<Rightarrow> io_port_width \<Rightarrow> nat) \<Rightarrow> 'v process_state \<Rightarrow> nat \<Rightarrow> io_port_width \<Rightarrow> nat kres" where
  "read_pmio io_in ps number width = bind_res (get_pmio ps number) (\<lambda>p. any_port_read io_in p width)"

definition write_pmio ::
  "'v process_state \<Rightarrow> nat \<Rightarrow> io_port_width \<Rightarrow> nat \<Rightarrow> (nat \<times> io_port_width \<times> nat) kres" where
  "write_pmio ps number width v = bind_res (get_pmio ps number) (\<lambda>p. any_port_write p width v)"

definition get_mutex ::
  "nat \<Rightarrow> mutex_handle \<Rightarrow> 'v process_state \<Rightarrow> addr \<Rightarrow> mutex_handle kres \<times> 'v process_state" where
  "get_mutex mutex_open_max fresh ps address =
    (case map_of (ps_mutexes ps) address of
       Some h \<Rightarrow> (Ok h, ps)
     | None \<Rightarrow>
         if length (ps_mutexes ps) \<ge> mutex_open_max
         then (fail OutOfMemory ''maximum number of mutexes reached'', ps)
         else (Ok fresh, ps\<lparr>ps_mutexes := map_insert address fresh (ps_mutexes ps)\<rparr>))"

definition put_mutex ::
  "(mutex_handle \<Rightarrow> nat) \<Rightarrow> 'v process_state \<Rightarrow> addr \<Rightarrow> unit kres \<times> 'v process_state" where
  "put_mutex reference_count ps address =
    (if map_of (ps_mutexes ps) address = None then (fail NoSuchEntry ''mutex not found'', ps)
     else (Ok (), ps\<lparr>ps_mutexes :=
       filter (\<lambda>(a, h). \<not> (address = a \<and> reference_count h \<le> 2)) (ps_mutexes ps)\<rparr>))"

definition get_cond ::
  "nat \<Rightarrow> cond_handle \<Rightarrow> 'v process_state \<Rightarrow> addr \<Rightarrow> cond_handle kres \<times> 'v process_state" where
  "get_cond cond_open_max fresh ps address =
    (case map_of (ps_conditions ps) address of
       Some h \<Rightarrow> (Ok h, ps)
     | None \<Rightarrow>
         if length (ps_conditions ps) \<ge> cond_open_max
         then (fail OutOfMemory ''maximum number of condition variables reached'', ps)
         else (Ok fresh, ps\<lparr>ps_conditions := map_insert address fresh (ps_conditions ps)\<rparr>))"

definition put_cond ::
  "(cond_handle \<Rightarrow> nat) \<Rightarrow> 'v process_state \<Rightarrow> addr \<Rightarrow> unit kres \<times> 'v process_state" where
  "put_cond reference_count ps address =
    (if map_of (ps_conditions ps) address = None
     then (fail NoSuchEntry ''condition variable not found'', ps)
     else (Ok (), ps\<lparr>ps_conditions :=
       filter (\<lambda>(a, h). \<not> (address = a \<and> reference_count h \<le> 1)) (ps_conditions ps)\<rparr>))"

subsection \<open>Specification\<close>

text \<open>A table of open objects has one entry per address and at most \<open>limit\<close> entries.\<close>

definition table_ok :: "nat \<Rightarrow> (addr \<times> nat) list \<Rightarrow> bool" where
  "table_ok limit t \<longleftrightarrow> distinct (map fst t) \<and> length t \<le> limit"

section \<open>Lemmas\<close>

lemma capability_value_less [simp]: "capability_value c < 8"
  by (cases c) simp_all

lemma capability_value_inject [simp]: "capability_value a = capability_value b \<longleftrightarrow> a = b"
  by (cases a; cases b) simp_all

lemma capabilities_has_set [simp]:
  "capabilities_has (capabilities_set cs a) b \<longleftrightarrow> b = a \<or> capabilities_has cs b"
  by (auto simp: capabilities_has_def capabilities_set_def byte_mask_test bit_or_mask)

lemma capabilities_has_clear [simp]:
  "capabilities_has (capabilities_clear cs a) b \<longleftrightarrow> b \<noteq> a \<and> capabilities_has cs b"
  by (auto simp: capabilities_has_def capabilities_clear_def byte_mask_test bit_and_not_mask)

lemma map_of_filter_key: "map_of (filter (\<lambda>(k', _). k' \<noteq> k) m) a = (if a = k then None else map_of m a)"
  by (induction m) auto

lemma map_of_map_insert [simp]: "map_of (map_insert k v m) = (map_of m)(k \<mapsto> v)"
  by (rule ext) (auto simp: map_insert_def map_of_filter_key)

lemma map_of_filter_entry:
  assumes "distinct (map fst m)"
  shows "map_of (filter (\<lambda>(a, h). \<not> (address = a \<and> P h)) m) a =
    (if a = address \<and> (\<exists>h. map_of m a = Some h \<and> P h) then None else map_of m a)"
  using assms by (induction m) (auto simp: map_of_eq_None_iff image_iff split: if_splits)

subsection \<open>Tables of open objects\<close>

text \<open>
  The contract that the tables of mutexes and of condition variables share: \<open>get\<close> opens the object of
  an address, \<open>put\<close> closes it once nobody but the table and the closing call (\<open>keep\<close> references)
  refers to it.
\<close>

locale handle_table =
  fixes tab :: "'s \<Rightarrow> (addr \<times> nat) list"
    and get :: "nat \<Rightarrow> nat \<Rightarrow> 's \<Rightarrow> addr \<Rightarrow> nat kres \<times> 's"
    and put :: "(nat \<Rightarrow> nat) \<Rightarrow> 's \<Rightarrow> addr \<Rightarrow> unit kres \<times> 's"
    and keep :: nat
  assumes get_hit: "map_of (tab s) a = Some h \<Longrightarrow> get limit fresh s a = (Ok h, s)"
    and get_full: "map_of (tab s) a = None \<Longrightarrow> limit \<le> length (tab s) \<Longrightarrow>
      \<exists>e. get limit fresh s a = (Err e, s) \<and> code e = OutOfMemory"
    and get_new: "map_of (tab s) a = None \<Longrightarrow> length (tab s) < limit \<Longrightarrow>
      \<exists>s'. get limit fresh s a = (Ok fresh, s') \<and> tab s' = map_insert a fresh (tab s)"
    and put_miss: "map_of (tab s) a = None \<Longrightarrow>
      \<exists>e. put rc s a = (Err e, s) \<and> code e = NoSuchEntry"
    and put_hit: "map_of (tab s) a \<noteq> None \<Longrightarrow>
      \<exists>s'. put rc s a = (Ok (), s') \<and>
        tab s' = filter (\<lambda>(a', h). \<not> (a = a' \<and> rc h \<le> keep)) (tab s)"
begin

lemma get_result:
  assumes "table_ok limit (tab s)"
  shows "case get limit fresh s a of
      (Ok h, s') \<Rightarrow> table_ok limit (tab s') \<and> h = (case map_of (tab s) a of Some h \<Rightarrow> h | None \<Rightarrow> fresh) \<and>
        map_of (tab s') = (map_of (tab s))(a \<mapsto> h) \<and> get limit fresh' s' a = (Ok h, s')
    | (Err e, s') \<Rightarrow> s' = s \<and> code e = OutOfMemory \<and> map_of (tab s) a = None \<and> length (tab s) = limit
    | (Panic, s') \<Rightarrow> False"
proof (cases "map_of (tab s) a")
  case None
  show ?thesis
  proof (cases "length (tab s) < limit")
    case True
    from get_new [OF None True] obtain s' where
        s': "get limit fresh s a = (Ok fresh, s')" "tab s' = map_insert a fresh (tab s)" by blast
    have "filter (\<lambda>(k', _). k' \<noteq> a) (tab s) = tab s"
      using None by (auto simp: filter_id_conv map_of_eq_None_iff image_iff)
    then have "tab s' = (a, fresh) # tab s" by (simp add: s'(2) map_insert_def)
    then have "table_ok limit (tab s')"
      using assms True None by (simp add: table_ok_def map_of_eq_None_iff)
    then show ?thesis using None get_hit [of s' a fresh] by (simp add: s')
  next
    case False
    then show ?thesis using get_full [OF None, of limit fresh] assms None by (auto simp: table_ok_def)
  qed
next
  case (Some h)
  then show ?thesis using assms get_hit [OF Some] by (simp add: fun_upd_idem)
qed

lemma put_result:
  assumes "table_ok limit (tab s)"
  shows "case put rc s a of
      (Ok _, s') \<Rightarrow> table_ok limit (tab s') \<and>
        (\<exists>h. map_of (tab s) a = Some h \<and>
          map_of (tab s') = (if rc h \<le> keep then (map_of (tab s))(a := None) else map_of (tab s)))
    | (Err e, s') \<Rightarrow> s' = s \<and> code e = NoSuchEntry \<and> map_of (tab s) a = None
    | (Panic, s') \<Rightarrow> False"
proof (cases "map_of (tab s) a")
  case None
  then show ?thesis using put_miss [OF None, of rc] by auto
next
  case (Some h)
  then obtain s' where s': "put rc s a = (Ok (), s')"
      "tab s' = filter (\<lambda>(a', h). \<not> (a = a' \<and> rc h \<le> keep)) (tab s)"
    using put_hit [of s a rc] by auto
  have d: "distinct (map fst (tab s))" using assms by (simp add: table_ok_def)
  have "table_ok limit (tab s')"
    using assms by (auto simp: s'(2) table_ok_def distinct_map_filter intro: le_trans [OF length_filter_le])
  moreover have "map_of (tab s') = (if rc h \<le> keep then (map_of (tab s))(a := None) else map_of (tab s))"
  proof (rule ext)
    fix x
    show "map_of (tab s') x = (if rc h \<le> keep then (map_of (tab s))(a := None) else map_of (tab s)) x"
      unfolding s'(2) map_of_filter_entry [OF d, of a "\<lambda>h. rc h \<le> keep"] using Some by auto
  qed
  ultimately show ?thesis using Some s'(1) by auto
qed

end

interpretation mt: handle_table ps_mutexes get_mutex put_mutex 2
  by unfold_locales (auto simp: get_mutex_def put_mutex_def fail_def)

interpretation ct: handle_table ps_conditions get_cond put_cond 1
  by unfold_locales (auto simp: get_cond_def put_cond_def fail_def)

section \<open>Properties\<close>

text \<open>Capabilities of a process are independent: granting or revoking one changes that one only,
  a new process has none, and the numbers 0 to 4 name the five capabilities while every other number
  is refused.\<close>

lemma capabilities_independent:
  "(has_capability (set_capability ps a) b \<longleftrightarrow> b = a \<or> has_capability ps b) \<and>
   (has_capability (clear_capability ps a) b \<longleftrightarrow> b \<noteq> a \<and> has_capability ps b) \<and>
   \<not> has_capability (process_state_new pid vmem) a \<and>
   capability_try_from (capability_value a) = Ok a \<and>
   (case capability_try_from v of
      Ok c \<Rightarrow> v = capability_value c | Err e \<Rightarrow> 4 < v \<and> code e = InvalidArgument | Panic \<Rightarrow> False)"
proof -
  have "capability_try_from (capability_value a) = Ok a"
    by (cases a) (simp_all add: capability_try_from_def)
  moreover have "case capability_try_from v of
      Ok c \<Rightarrow> v = capability_value c | Err e \<Rightarrow> 4 < v \<and> code e = InvalidArgument | Panic \<Rightarrow> False"
    by (simp add: capability_try_from_def fail_def)
  ultimately show ?thesis
    by (simp add: has_capability_def set_capability_def clear_capability_def process_state_new_def)
       (simp add: capabilities_has_def)
qed

text \<open>The tables of open mutexes and condition variables never exceed their limit and hold one
  object per address. Opening an address yields the object it already has, or a new one, refused with
  OutOfMemory exactly when the table is full; until it is closed the address keeps yielding that
  object, and no other address is affected. Closing removes the address exactly when no reference
  beyond the expected ones is left, and is refused for an address that is not open.\<close>

lemma open_tables_correct:
  assumes "table_ok mmax (ps_mutexes ps)" "table_ok cmax (ps_conditions ps)"
  shows "(case get_mutex mmax fresh ps a of
      (Ok h, ps') \<Rightarrow> table_ok mmax (ps_mutexes ps') \<and>
        h = (case map_of (ps_mutexes ps) a of Some h \<Rightarrow> h | None \<Rightarrow> fresh) \<and>
        map_of (ps_mutexes ps') = (map_of (ps_mutexes ps))(a \<mapsto> h) \<and>
        get_mutex mmax fresh' ps' a = (Ok h, ps')
    | (Err e, ps') \<Rightarrow> ps' = ps \<and> code e = OutOfMemory \<and> map_of (ps_mutexes ps) a = None \<and>
        length (ps_mutexes ps) = mmax
    | (Panic, ps') \<Rightarrow> False) \<and>
   (case put_mutex rc ps a of
      (Ok _, ps') \<Rightarrow> table_ok mmax (ps_mutexes ps') \<and> (\<exists>h. map_of (ps_mutexes ps) a = Some h \<and>
        map_of (ps_mutexes ps') =
          (if rc h \<le> 2 then (map_of (ps_mutexes ps))(a := None) else map_of (ps_mutexes ps)))
    | (Err e, ps') \<Rightarrow> ps' = ps \<and> code e = NoSuchEntry \<and> map_of (ps_mutexes ps) a = None
    | (Panic, ps') \<Rightarrow> False) \<and>
   (case get_cond cmax fresh ps a of
      (Ok h, ps') \<Rightarrow> table_ok cmax (ps_conditions ps') \<and>
        h = (case map_of (ps_conditions ps) a of Some h \<Rightarrow> h | None \<Rightarrow> fresh) \<and>
        map_of (ps_conditions ps') = (map_of (ps_conditions ps))(a \<mapsto> h) \<and>
        get_cond cmax fresh' ps' a = (Ok h, ps')
    | (Err e, ps') \<Rightarrow> ps' = ps \<and> code e = OutOfMemory \<and> map_of (ps_conditions ps) a = None \<and>
        length (ps_conditions ps) = cmax
    | (Panic, ps') \<Rightarrow> False) \<and>
   (case put_cond rc ps a of
      (Ok _, ps') \<Rightarrow> table_ok cmax (ps_conditions ps') \<and> (\<exists>h. map_of (ps_conditions ps) a = Some h \<and>
        map_of (ps_conditions ps') =
          (if rc h \<le> 1 then (map_of (ps_conditions ps))(a := None) else map_of (ps_conditions ps)))
    | (Err e, ps') \<Rightarrow> ps' = ps \<and> code e = NoSuchEntry \<and> map_of (ps_conditions ps) a = None
    | (Panic, ps') \<Rightarrow> False)"
  using mt.get_result [OF assms(1), where a = a and fresh = fresh and fresh' = fresh']
    mt.put_result [OF assms(1), where a = a and rc = rc]
    ct.get_result [OF assms(2), where a = a and fresh = fresh and fresh' = fresh']
    ct.put_result [OF assms(2), where a = a and rc = rc]
  by blast

end
