(* ===== verification/Processes.thy ===== *)
theory Processes
  imports Process_States
begin

text \<open>
  Processes and their states (\<open>src/src/kernel/src/pm/process/state/\<close>). A process keeps its threads in
  queues, one per thread state, and is itself runnable, running, sleeping, interrupted or a zombie.
  Each state of the source is a record, each transition a function that takes the old record apart
  and builds the new one; \<open>now\<close> is the time \<open>clock::now()\<close> returns. A condition variable and a context
  pointer are the identifier of the thread they belong to, as in the theory of threads.
\<close>

section \<open>Definitions\<close>

record 'v runnable_process =
  rb_state :: "'v process_state"
  rb_ready :: "ready_thread ne_deque"
  rb_interrupted :: "interrupted_thread ne_deque option"
  rb_sleeping :: "sleeping_thread ne_deque option"
  rb_zombie :: "zombie_thread ne_deque option"

record 'v running_process =
  rp_state :: "'v process_state"
  rp_running :: running_thread
  rp_ready :: "ready_thread ne_deque option"
  rp_interrupted :: "interrupted_thread ne_deque option"
  rp_sleeping :: "sleeping_thread ne_deque option"
  rp_zombie :: "zombie_thread ne_deque option"

record 'v sleeping_process =
  sp_state :: "'v process_state"
  sp_sleeping :: "sleeping_thread ne_deque"
  sp_zombie :: "zombie_thread ne_deque option"

record 'v interrupted_process =
  ip_state :: "'v process_state"
  ip_sleeping :: "sleeping_thread ne_deque option"
  ip_interrupted :: "interrupted_thread ne_deque"
  ip_zombie :: "zombie_thread ne_deque option"

record 'v zombie_process =
  zp_zombie :: "zombie_thread ne_deque"
  zp_state :: "'v process_state"
  zp_status :: nat

subsection \<open>Interrupted processes\<close>

definition interrupted_new ::
  "'v process_state \<Rightarrow> interrupted_thread ne_deque \<Rightarrow> zombie_thread ne_deque option \<Rightarrow> 'v interrupted_process" where
  "interrupted_new ps interrupted zombie =
    \<lparr>ip_state = ps, ip_sleeping = None, ip_interrupted = interrupted, ip_zombie = zombie\<rparr>"

definition interrupted_from_sleeping ::
  "'v process_state \<Rightarrow> sleeping_thread ne_deque option \<Rightarrow> interrupted_thread ne_deque \<Rightarrow>
   zombie_thread ne_deque option \<Rightarrow> 'v interrupted_process" where
  "interrupted_from_sleeping ps sleeping interrupted zombie =
    \<lparr>ip_state = ps, ip_sleeping = sleeping, ip_interrupted = interrupted, ip_zombie = zombie\<rparr>"

definition interrupt :: "sleeping_thread \<Rightarrow> interrupted_thread" where
  "interrupt t = sleeping_interrupt t Killed"

definition process_resume :: "system_time \<Rightarrow> 'v interrupted_process \<Rightarrow> 'v runnable_process" where
  "process_resume now p =
    (let (interrupted, next_thread) = ne_pop_front (ip_interrupted p)
     in \<lparr>rb_state = ip_state p, rb_ready = ne_new (interrupted_resume now next_thread),
         rb_interrupted = ne_from interrupted, rb_sleeping = ip_sleeping p, rb_zombie = ip_zombie p\<rparr>)"

subsection \<open>Runnable processes\<close>

definition runnable_new :: "pid \<Rightarrow> ready_thread \<Rightarrow> 'v \<Rightarrow> 'v runnable_process" where
  "runnable_new pid t vmem =
    \<lparr>rb_state = process_state_new pid vmem, rb_ready = ne_new t, rb_interrupted = None,
     rb_sleeping = None, rb_zombie = None\<rparr>"

definition process_run ::
  "'v runnable_process \<Rightarrow> 'v running_process \<times> interrupt_reason option \<times> tid \<times> addr option" where
  "process_run p =
    (let (ready, next_thread) = ne_remove_min_by_key (rb_ready p) rd_admission_time;
         (running, cause, ctx, tda) = ready_run next_thread
     in (\<lparr>rp_state = rb_state p, rp_running = running, rp_ready = ne_from ready,
          rp_interrupted = rb_interrupted p, rp_sleeping = rb_sleeping p, rp_zombie = rb_zombie p\<rparr>,
         cause, ctx, tda))"

text \<open>Appending the killed sleepers to the interrupted threads, as \<open>terminate\<close> and \<open>exit\<close> do.\<close>

definition collect_interrupted ::
  "interrupted_thread ne_deque option \<Rightarrow> sleeping_thread ne_deque option \<Rightarrow>
   interrupted_thread ne_deque option" where
  "collect_interrupted interrupted sleeping =
    (case sleeping of
       Some s \<Rightarrow>
         (let more = ne_map interrupt s
          in case interrupted of None \<Rightarrow> Some more | Some i \<Rightarrow> Some (ne_append i more))
     | None \<Rightarrow> interrupted)"

definition unwrap_or :: "'a option \<Rightarrow> 'a \<Rightarrow> 'a" where
  "unwrap_or x d = (case x of Some v \<Rightarrow> v | None \<Rightarrow> d)"

definition runnable_terminate :: "'v runnable_process \<Rightarrow> 'v zombie_process + 'v interrupted_process" where
  "runnable_terminate p =
    (let more_zombie = ne_map ready_terminate (rb_ready p);
         zombie = (case rb_zombie p of Some z \<Rightarrow> ne_append more_zombie z | None \<Rightarrow> more_zombie)
     in case collect_interrupted (rb_interrupted p) (rb_sleeping p) of
          Some interrupted \<Rightarrow> Inr (interrupted_new (rb_state p) interrupted (Some zombie))
        | None \<Rightarrow>
            (case take_pending_exit_status (rb_state p) of (st, ps) \<Rightarrow>
               Inl \<lparr>zp_zombie = zombie, zp_state = ps,
                    zp_status = unwrap_or st (exit_status_from_error Interrupted)\<rparr>))"

definition runnable_wakeup ::
  "system_time \<Rightarrow> 'v runnable_process \<Rightarrow> tid \<Rightarrow> 'v runnable_process + 'v runnable_process" where
  "runnable_wakeup now p tid =
    (case rb_sleeping p of
       Some sleeping \<Rightarrow>
         (case ne_remove_if sleeping (\<lambda>t. ts_id (sl_state t) = tid) of
            Inr (rest, t) \<Rightarrow>
              Inr (p\<lparr>rb_ready := ne_push_back (rb_ready p) (sleeping_wakeup now t),
                     rb_sleeping := ne_from rest\<rparr>)
          | Inl sleeping \<Rightarrow> Inl (p\<lparr>rb_sleeping := Some sleeping\<rparr>))
     | None \<Rightarrow> Inl p)"

definition earliest_admission_time :: "system_time \<Rightarrow> 'v runnable_process \<Rightarrow> system_time" where
  "earliest_admission_time now p =
    (case map rd_admission_time (iter_collect (ne_iter (rb_ready p))) of
       [] \<Rightarrow> now | t # ts \<Rightarrow> fold min ts t)"

subsection \<open>Sleeping processes\<close>

definition sleeping_terminate :: "'v sleeping_process \<Rightarrow> 'v interrupted_process" where
  "sleeping_terminate p =
    (case ne_pop_front (sp_sleeping p) of (rest, t) \<Rightarrow>
       interrupted_new (sp_state p)
         (fold (\<lambda>t q. ne_push_back q (sleeping_interrupt t Killed)) rest
            (ne_new (sleeping_interrupt t Killed)))
         (sp_zombie p))"

definition sleeping_process_wakeup ::
  "system_time \<Rightarrow> 'v sleeping_process \<Rightarrow> tid \<Rightarrow> 'v sleeping_process + 'v runnable_process" where
  "sleeping_process_wakeup now p tid =
    (case ne_remove_if (sp_sleeping p) (\<lambda>t. ts_id (sl_state t) = tid) of
       Inr (rest, t) \<Rightarrow>
         Inr \<lparr>rb_state = sp_state p, rb_ready = ne_new (sleeping_wakeup now t), rb_interrupted = None,
              rb_sleeping = ne_from rest, rb_zombie = sp_zombie p\<rparr>
     | Inl sleeping \<Rightarrow> Inl (p\<lparr>sp_sleeping := sleeping\<rparr>))"

definition alarm_expired :: "system_time \<Rightarrow> sleeping_thread \<Rightarrow> bool" where
  "alarm_expired now t = (case sl_alarm t of Some alarm \<Rightarrow> now \<ge> alarm | None \<Rightarrow> False)"

text \<open>The two loops of \<open>wakeup_alarm\<close>, after an expired and after an unexpired first thread.\<close>

fun alarm_loop_expired ::
  "system_time \<Rightarrow> sleeping_thread list \<Rightarrow> interrupted_thread ne_deque \<Rightarrow> sleeping_thread list \<Rightarrow>
   interrupted_thread ne_deque \<times> sleeping_thread list" where
  "alarm_loop_expired now [] interrupted sleeping = (interrupted, sleeping)"
| "alarm_loop_expired now (t # ts) interrupted sleeping =
    (if alarm_expired now t
     then alarm_loop_expired now ts (ne_push_back interrupted (sleeping_interrupt t TimedOut)) sleeping
     else alarm_loop_expired now ts interrupted (sleeping @ [t]))"

fun alarm_loop_pending ::
  "system_time \<Rightarrow> sleeping_thread list \<Rightarrow> interrupted_thread list \<Rightarrow> sleeping_thread ne_deque \<Rightarrow>
   interrupted_thread list \<times> sleeping_thread ne_deque" where
  "alarm_loop_pending now [] interrupted sleeping = (interrupted, sleeping)"
| "alarm_loop_pending now (t # ts) interrupted sleeping =
    (if alarm_expired now t
     then alarm_loop_pending now ts (interrupted @ [sleeping_interrupt t TimedOut]) sleeping
     else alarm_loop_pending now ts interrupted (ne_push_back sleeping t))"

definition wakeup_alarm ::
  "'v sleeping_process \<Rightarrow> system_time \<Rightarrow> 'v sleeping_process + 'v interrupted_process" where
  "wakeup_alarm p now =
    (case ne_pop_front (sp_sleeping p) of (rest, t) \<Rightarrow>
       if alarm_expired now t
       then (case alarm_loop_expired now rest (ne_new (sleeping_interrupt t TimedOut)) [] of
               (interrupted, sleeping) \<Rightarrow>
                 Inr (interrupted_from_sleeping (sp_state p) (ne_from sleeping) interrupted (sp_zombie p)))
       else (case alarm_loop_pending now rest [] (ne_new t) of
               (interrupted, sleeping) \<Rightarrow>
                 (case ne_from interrupted of
                    Some interrupted \<Rightarrow>
                      Inr (interrupted_from_sleeping (sp_state p) (Some sleeping) interrupted (sp_zombie p))
                  | None \<Rightarrow> Inl (p\<lparr>sp_sleeping := sleeping\<rparr>))))"

subsection \<open>Running processes\<close>

definition process_schedule :: "system_time \<Rightarrow> 'v running_process \<Rightarrow> 'v runnable_process \<times> tid" where
  "process_schedule now p =
    (case running_schedule now (rp_running p) of (t, ctx) \<Rightarrow>
       (\<lparr>rb_state = rp_state p, rb_ready = opt_push (rp_ready p) t, rb_interrupted = rp_interrupted p,
         rb_sleeping = rp_sleeping p, rb_zombie = rp_zombie p\<rparr>, ctx))"

definition process_sleep ::
  "system_time \<Rightarrow> 'v running_process \<Rightarrow> system_time option \<Rightarrow>
   ('v sleeping_process \<times> tid) + ('v runnable_process \<times> tid)" where
  "process_sleep now p alarm =
    (case running_sleep (rp_running p) alarm of (t, ctx) \<Rightarrow>
       let sleeping = opt_push (rp_sleeping p) t
       in case rp_ready p of
            Some ready \<Rightarrow>
              Inr (\<lparr>rb_state = rp_state p, rb_ready = ready, rb_interrupted = rp_interrupted p,
                    rb_sleeping = Some sleeping, rb_zombie = rp_zombie p\<rparr>, ctx)
          | None \<Rightarrow>
              (case rp_interrupted p of
                 Some interrupted \<Rightarrow>
                   Inr (process_resume now
                     (interrupted_from_sleeping (rp_state p) (Some sleeping) interrupted (rp_zombie p)), ctx)
               | None \<Rightarrow>
                   Inl (\<lparr>sp_state = rp_state p, sp_sleeping = sleeping, sp_zombie = rp_zombie p\<rparr>, ctx)))"

definition process_exit ::
  "system_time \<Rightarrow> 'v running_process \<Rightarrow> nat \<Rightarrow>
   ('v zombie_process \<times> tid) + ('v runnable_process \<times> tid)" where
  "process_exit now p st =
    (let ps = set_pending_exit_status (rp_state p) st;
         (z, ctx) = running_exit (rp_running p) st;
         zombie = opt_push (rp_zombie p) z;
         zombie = (case rp_ready p of
                     Some ready \<Rightarrow> ne_append zombie (ne_map ready_terminate ready)
                   | None \<Rightarrow> zombie)
     in case collect_interrupted (rp_interrupted p) (rp_sleeping p) of
          Some interrupted \<Rightarrow>
            Inr (process_resume now (interrupted_from_sleeping ps None interrupted (Some zombie)), ctx)
        | None \<Rightarrow>
            (case take_pending_exit_status ps of (earlier, ps) \<Rightarrow>
               Inl (\<lparr>zp_zombie = zombie, zp_state = ps, zp_status = unwrap_or earlier st\<rparr>, ctx)))"

datatype 'v exit_outcome =
    ExitRunnable tid "'v runnable_process" tid
  | ExitSleeping tid "'v sleeping_process" tid
  | ExitZombie tid "'v zombie_process" tid

definition process_exit_thread ::
  "system_time \<Rightarrow> 'v running_process \<Rightarrow> nat \<Rightarrow> ('v exit_outcome \<times> zombie_thread option) kres" where
  "process_exit_thread now p st =
    (let is_detached = ts_detached (rn_state (rp_running p));
         cond = join_cond (rn_state (rp_running p));
         (z, ctx) = running_exit (rp_running p) st;
         has_other_threads = (rp_ready p \<noteq> None \<or> rp_interrupted p \<noteq> None \<or> rp_sleeping p \<noteq> None);
         (zombie, deferred) =
           (if is_detached \<and> has_other_threads then (rp_zombie p, Some z)
            else (Some (opt_push (rp_zombie p) z), None))
     in case rp_ready p of
          Some ready \<Rightarrow>
            Ok (ExitRunnable cond
                  \<lparr>rb_state = rp_state p, rb_ready = ready, rb_interrupted = rp_interrupted p,
                   rb_sleeping = rp_sleeping p, rb_zombie = zombie\<rparr> ctx, deferred)
        | None \<Rightarrow>
            (case rp_interrupted p of
               Some interrupted \<Rightarrow>
                 Ok (ExitRunnable cond
                       (process_resume now
                         (interrupted_from_sleeping (rp_state p) (rp_sleeping p) interrupted zombie)) ctx,
                     deferred)
             | None \<Rightarrow>
                 (case rp_sleeping p of
                    Some sleeping \<Rightarrow>
                      Ok (ExitSleeping cond
                            \<lparr>sp_state = rp_state p, sp_sleeping = sleeping, sp_zombie = zombie\<rparr> ctx,
                          deferred)
                  | None \<Rightarrow>
                      (case zombie of
                         Some zombie \<Rightarrow>
                           (case take_pending_exit_status (rp_state p) of (earlier, ps) \<Rightarrow>
                              Ok (ExitZombie cond
                                    \<lparr>zp_zombie = zombie, zp_state = ps, zp_status = unwrap_or earlier st\<rparr>
                                    ctx, deferred))
                       | None \<Rightarrow> Panic))))"

definition get_tid :: "'v running_process \<Rightarrow> tid" where
  "get_tid p = ts_id (rn_state (rp_running p))"

definition add_thread :: "'v running_process \<Rightarrow> ready_thread \<Rightarrow> 'v running_process" where
  "add_thread p t = p\<lparr>rp_ready := Some (opt_push (rp_ready p) t)\<rparr>"

definition running_wakeup ::
  "system_time \<Rightarrow> 'v running_process \<Rightarrow> tid \<Rightarrow> 'v running_process + 'v running_process" where
  "running_wakeup now p tid =
    (case rp_sleeping p of
       Some sleeping \<Rightarrow>
         (case ne_remove_if sleeping (\<lambda>t. ts_id (sl_state t) = tid) of
            Inr (rest, t) \<Rightarrow>
              Inr (p\<lparr>rp_ready := Some (opt_push (rp_ready p) (sleeping_wakeup now t)),
                     rp_sleeping := ne_from rest\<rparr>)
          | Inl sleeping \<Rightarrow> Inl (p\<lparr>rp_sleeping := Some sleeping\<rparr>))
     | None \<Rightarrow> Inl p)"

subsection \<open>Joining and detaching\<close>

datatype join_result = Joined zombie_thread | JoinWait tid | JoinError error

text \<open>
  The search of \<open>try_join_thread\<close> in one queue: nothing found, a detached thread (an error), or the
  condition variable to wait on.
\<close>

definition join_in :: "('t \<Rightarrow> thread_state) \<Rightarrow> 't ne_deque option \<Rightarrow> tid \<Rightarrow> join_result option" where
  "join_in st q tid =
    (case find (\<lambda>t. ts_id (st t) = tid) (opt_list q) of
       None \<Rightarrow> None
     | Some t \<Rightarrow>
         Some (if ts_detached (st t)
               then JoinError (Error InvalidArgument ''cannot join a detached thread'')
               else JoinWait (join_cond (st t))))"

definition try_join_thread :: "'v running_process \<Rightarrow> tid \<Rightarrow> join_result \<times> 'v running_process" where
  "try_join_thread p tid =
    (if ts_id (rn_state (rp_running p)) = tid
     then (JoinError (Error OperationNotPermitted ''thread is running''), p)
     else if list_ex (\<lambda>z. ts_id (zb_state z) = tid \<and> ts_detached (zb_state z)) (opt_list (rp_zombie p))
     then (JoinError (Error InvalidArgument ''cannot join a detached thread''), p)
     else
       let wait =
         (case join_in rd_state (rp_ready p) tid of
            Some r \<Rightarrow> r
          | None \<Rightarrow>
              (case join_in sl_state (rp_sleeping p) tid of
                 Some r \<Rightarrow> r
               | None \<Rightarrow>
                   (case join_in in_state (rp_interrupted p) tid of
                      Some r \<Rightarrow> r
                    | None \<Rightarrow> JoinError (Error NoSuchProcess ''thread not found''))))
       in case rp_zombie p of
            Some zombie \<Rightarrow>
              (case ne_remove_if zombie (\<lambda>z. ts_id (zb_state z) = tid) of
                 Inr (rest, z) \<Rightarrow> (Joined z, p\<lparr>rp_zombie := ne_from rest\<rparr>)
               | Inl zombie \<Rightarrow> (wait, p\<lparr>rp_zombie := Some zombie\<rparr>))
          | None \<Rightarrow> (wait, p))"

text \<open>\<open>iter_mut().find(..)\<close>: changing the first element that satisfies a condition.\<close>

fun update_first :: "('a \<Rightarrow> bool) \<Rightarrow> ('a \<Rightarrow> 'a) \<Rightarrow> 'a list \<Rightarrow> 'a list" where
  "update_first c f [] = []"
| "update_first c f (x # xs) = (if c x then f x # xs else x # update_first c f xs)"

definition ne_update_first :: "('a \<Rightarrow> bool) \<Rightarrow> ('a \<Rightarrow> 'a) \<Rightarrow> 'a ne_deque \<Rightarrow> 'a ne_deque" where
  "ne_update_first c f q =
    (if c (ne_head q) then NonEmptyVecDeque (f (ne_head q)) (ne_tail q)
     else NonEmptyVecDeque (ne_head q) (map_option (update_first c f) (ne_tail q)))"

text \<open>The search of \<open>detach_thread\<close> in one queue.\<close>

definition detach_in ::
  "('t \<Rightarrow> thread_state) \<Rightarrow> ((thread_state \<Rightarrow> thread_state) \<Rightarrow> 't \<Rightarrow> 't) \<Rightarrow> 't ne_deque option \<Rightarrow> tid \<Rightarrow>
   't ne_deque option kres option" where
  "detach_in st upd q tid =
    (case find (\<lambda>t. ts_id (st t) = tid) (opt_list q) of
       None \<Rightarrow> None
     | Some t \<Rightarrow>
         Some (if ts_detached (st t) then fail InvalidArgument ''thread is already detached''
               else Ok (map_option (ne_update_first (\<lambda>t. ts_id (st t) = tid) (upd set_detached)) q)))"

definition finish_detach :: "('q \<Rightarrow> 'p) \<Rightarrow> 'q kres \<Rightarrow> 'p \<Rightarrow> zombie_thread option kres \<times> 'p" where
  "finish_detach put r p =
    (case r of Ok q \<Rightarrow> (Ok None, put q) | Err e \<Rightarrow> (Err e, p) | Panic \<Rightarrow> (Panic, p))"

definition detach_live :: "'v running_process \<Rightarrow> tid \<Rightarrow> zombie_thread option kres \<times> 'v running_process" where
  "detach_live p tid =
    (case detach_in rd_state rd_state_update (rp_ready p) tid of
       Some r \<Rightarrow> finish_detach (\<lambda>q. p\<lparr>rp_ready := q\<rparr>) r p
     | None \<Rightarrow>
         (case detach_in sl_state sl_state_update (rp_sleeping p) tid of
            Some r \<Rightarrow> finish_detach (\<lambda>q. p\<lparr>rp_sleeping := q\<rparr>) r p
          | None \<Rightarrow>
              (case detach_in in_state in_state_update (rp_interrupted p) tid of
                 Some r \<Rightarrow> finish_detach (\<lambda>q. p\<lparr>rp_interrupted := q\<rparr>) r p
               | None \<Rightarrow> (fail NoSuchProcess ''thread not found'', p))))"

definition detach_thread :: "'v running_process \<Rightarrow> tid \<Rightarrow> zombie_thread option kres \<times> 'v running_process" where
  "detach_thread p tid =
    (if ts_id (rn_state (rp_running p)) = tid
     then (if ts_detached (rn_state (rp_running p))
           then (fail InvalidArgument ''thread is already detached'', p)
           else (Ok None, p\<lparr>rp_running := rn_state_update set_detached (rp_running p)\<rparr>))
     else (case rp_zombie p of
             Some zombie \<Rightarrow>
               (case ne_remove_if zombie (\<lambda>z. ts_id (zb_state z) = tid) of
                  Inr (rest, z) \<Rightarrow> (Ok (Some z), p\<lparr>rp_zombie := ne_from rest\<rparr>)
                | Inl zombie \<Rightarrow> detach_live (p\<lparr>rp_zombie := Some zombie\<rparr>) tid)
           | None \<Rightarrow> detach_live p tid))"

subsection \<open>Finding a thread\<close>

definition find_in :: "('t \<Rightarrow> thread_state) \<Rightarrow> ('t \<Rightarrow> thread_ref) \<Rightarrow> 't list \<Rightarrow> tid \<Rightarrow> thread_ref option" where
  "find_in st wrap ts tid = map_option wrap (find (\<lambda>t. ts_id (st t) = tid) ts)"

definition or_else :: "'a option \<Rightarrow> 'a option \<Rightarrow> 'a option" where
  "or_else x y = (case x of Some v \<Rightarrow> Some v | None \<Rightarrow> y)"

datatype 'v process_ref =
    Runnable "'v runnable_process"
  | Running "'v running_process"
  | Sleeping "'v sleeping_process"
  | InterruptedProcess "'v interrupted_process"
  | Zombie "'v zombie_process"

fun process_ref_state :: "'v process_ref \<Rightarrow> 'v process_state" where
  "process_ref_state (Runnable p) = rb_state p"
| "process_ref_state (Running p) = rp_state p"
| "process_ref_state (Sleeping p) = sp_state p"
| "process_ref_state (InterruptedProcess p) = ip_state p"
| "process_ref_state (Zombie p) = zp_state p"

definition runnable_find_thread :: "'v runnable_process \<Rightarrow> tid \<Rightarrow> thread_ref option" where
  "runnable_find_thread p tid =
    or_else (find_in rd_state ReadyThread (ne_to_vec (rb_ready p)) tid)
    (or_else (find_in in_state InterruptedThread (opt_list (rb_interrupted p)) tid)
    (or_else (find_in sl_state SleepingThread (opt_list (rb_sleeping p)) tid)
      (find_in zb_state ZombieThread (opt_list (rb_zombie p)) tid)))"

definition running_find_thread :: "'v running_process \<Rightarrow> tid \<Rightarrow> thread_ref option" where
  "running_find_thread p tid =
    (if ts_id (rn_state (rp_running p)) = tid then Some (RunningThread (rp_running p))
     else or_else (find_in rd_state ReadyThread (opt_list (rp_ready p)) tid)
       (or_else (find_in in_state InterruptedThread (opt_list (rp_interrupted p)) tid)
       (or_else (find_in sl_state SleepingThread (opt_list (rp_sleeping p)) tid)
         (find_in zb_state ZombieThread (opt_list (rp_zombie p)) tid))))"

definition sleeping_find_thread :: "'v sleeping_process \<Rightarrow> tid \<Rightarrow> thread_ref option" where
  "sleeping_find_thread p tid =
    or_else (find_in sl_state SleepingThread (ne_to_vec (sp_sleeping p)) tid)
      (find_in zb_state ZombieThread (opt_list (sp_zombie p)) tid)"

definition interrupted_find_thread :: "'v interrupted_process \<Rightarrow> tid \<Rightarrow> thread_ref option" where
  "interrupted_find_thread p tid =
    or_else (find_in in_state InterruptedThread (ne_to_vec (ip_interrupted p)) tid)
    (or_else (find_in sl_state SleepingThread (opt_list (ip_sleeping p)) tid)
      (find_in zb_state ZombieThread (opt_list (ip_zombie p)) tid))"

definition zombie_find_thread :: "'v zombie_process \<Rightarrow> tid \<Rightarrow> thread_ref option" where
  "zombie_find_thread p tid = find_in zb_state ZombieThread (ne_to_vec (zp_zombie p)) tid"

fun find_thread :: "'v process_ref \<Rightarrow> tid \<Rightarrow> thread_ref option" where
  "find_thread (Runnable p) tid = runnable_find_thread p tid"
| "find_thread (Running p) tid = running_find_thread p tid"
| "find_thread (Sleeping p) tid = sleeping_find_thread p tid"
| "find_thread (InterruptedProcess p) tid = interrupted_find_thread p tid"
| "find_thread (Zombie p) tid = zombie_find_thread p tid"

subsection \<open>Specification\<close>

text \<open>The threads of a process, and their identifiers.\<close>

fun threads :: "'v process_ref \<Rightarrow> thread_ref list" where
  "threads (Runnable p) =
    map ReadyThread (ne_to_vec (rb_ready p)) @ map InterruptedThread (opt_list (rb_interrupted p)) @
    map SleepingThread (opt_list (rb_sleeping p)) @ map ZombieThread (opt_list (rb_zombie p))"
| "threads (Running p) =
    RunningThread (rp_running p) # map ReadyThread (opt_list (rp_ready p)) @
    map InterruptedThread (opt_list (rp_interrupted p)) @ map SleepingThread (opt_list (rp_sleeping p)) @
    map ZombieThread (opt_list (rp_zombie p))"
| "threads (Sleeping p) =
    map SleepingThread (ne_to_vec (sp_sleeping p)) @ map ZombieThread (opt_list (sp_zombie p))"
| "threads (InterruptedProcess p) =
    map InterruptedThread (ne_to_vec (ip_interrupted p)) @ map SleepingThread (opt_list (ip_sleeping p)) @
    map ZombieThread (opt_list (ip_zombie p))"
| "threads (Zombie p) = map ZombieThread (ne_to_vec (zp_zombie p))"

definition thread_id :: "thread_ref \<Rightarrow> tid" where
  "thread_id r = ts_id (thread_ref_state r)"

definition tids :: "'v process_ref \<Rightarrow> tid multiset" where
  "tids p = image_mset thread_id (mset (threads p))"

definition zombie_tids :: "zombie_thread list \<Rightarrow> tid multiset" where
  "zombie_tids zs = image_mset (\<lambda>z. ts_id (zb_state z)) (mset zs)"

fun outcome_process :: "'v exit_outcome \<Rightarrow> 'v process_ref" where
  "outcome_process (ExitRunnable cond p ctx) = Runnable p"
| "outcome_process (ExitSleeping cond p ctx) = Sleeping p"
| "outcome_process (ExitZombie cond p ctx) = Zombie p"

text \<open>
  One transition of a process, with the threads it adds and the zombie threads it hands over to be
  reaped.
\<close>

inductive process_step ::
  "'v process_ref \<Rightarrow> ready_thread list \<Rightarrow> zombie_thread list \<Rightarrow> 'v process_ref \<Rightarrow> bool" where
  ps_run: "process_step (Runnable p) [] [] (Running (fst (process_run p)))"
| ps_schedule: "process_step (Running p) [] [] (Runnable (fst (process_schedule now p)))"
| ps_sleep: "process_step (Running p) [] []
    (case process_sleep now p alarm of Inl (q, ctx) \<Rightarrow> Sleeping q | Inr (q, ctx) \<Rightarrow> Runnable q)"
| ps_exit: "process_step (Running p) [] []
    (case process_exit now p st of Inl (q, ctx) \<Rightarrow> Zombie q | Inr (q, ctx) \<Rightarrow> Runnable q)"
| ps_exit_thread: "process_exit_thread now p st = Ok (r, deferred) \<Longrightarrow>
    process_step (Running p) [] (case deferred of Some z \<Rightarrow> [z] | None \<Rightarrow> []) (outcome_process r)"
| ps_add: "process_step (Running p) [t] [] (Running (add_thread p t))"
| ps_wakeup_running: "process_step (Running p) [] []
    (Running (case running_wakeup now p tid of Inl q \<Rightarrow> q | Inr q \<Rightarrow> q))"
| ps_wakeup_runnable: "process_step (Runnable p) [] []
    (Runnable (case runnable_wakeup now p tid of Inl q \<Rightarrow> q | Inr q \<Rightarrow> q))"
| ps_wakeup_sleeping: "process_step (Sleeping p) [] []
    (case sleeping_process_wakeup now p tid of Inl q \<Rightarrow> Sleeping q | Inr q \<Rightarrow> Runnable q)"
| ps_alarm: "process_step (Sleeping p) [] []
    (case wakeup_alarm p now of Inl q \<Rightarrow> Sleeping q | Inr q \<Rightarrow> InterruptedProcess q)"
| ps_terminate_runnable: "process_step (Runnable p) [] []
    (case runnable_terminate p of Inl q \<Rightarrow> Zombie q | Inr q \<Rightarrow> InterruptedProcess q)"
| ps_terminate_sleeping: "process_step (Sleeping p) [] [] (InterruptedProcess (sleeping_terminate p))"
| ps_resume: "process_step (InterruptedProcess p) [] [] (Runnable (process_resume now p))"
| ps_join: "try_join_thread p tid = (Joined z, q) \<Longrightarrow> process_step (Running p) [] [z] (Running q)"
| ps_detach: "detach_thread p tid = (Ok r, q) \<Longrightarrow>
    process_step (Running p) [] (case r of Some z \<Rightarrow> [z] | None \<Rightarrow> []) (Running q)"

inductive process_steps ::
  "'v process_ref \<Rightarrow> ready_thread list \<Rightarrow> zombie_thread list \<Rightarrow> 'v process_ref \<Rightarrow> bool" where
  steps_none: "process_steps p [] [] p"
| steps_more: "process_steps p new reaped q \<Longrightarrow> process_step q new' reaped' r \<Longrightarrow>
    process_steps p (new @ new') (reaped @ reaped') r"

section \<open>Lemmas\<close>

lemmas process_ops [defs] = process_run_def process_schedule_def process_sleep_def process_exit_def
  process_exit_thread_def add_thread_def running_wakeup_def runnable_wakeup_def
  sleeping_process_wakeup_def runnable_terminate_def sleeping_terminate_def process_resume_def
  interrupted_new_def interrupted_from_sleeping_def

text \<open>The identifiers of a process, queue by queue.\<close>

definition ids :: "('t \<Rightarrow> thread_state) \<Rightarrow> 't list \<Rightarrow> tid multiset" where
  "ids st ts = image_mset (\<lambda>t. ts_id (st t)) (mset ts)"

lemma ids_simps [simp]:
  "ids st [] = {#}" "ids st (t # ts) = add_mset (ts_id (st t)) (ids st ts)"
  "ids st (ts @ us) = ids st ts + ids st us"
  by (simp_all add: ids_def)

lemma tids_simps:
  "tids (Runnable p) = ids rd_state (ne_to_vec (rb_ready p)) + ids in_state (opt_list (rb_interrupted p)) +
     ids sl_state (opt_list (rb_sleeping p)) + ids zb_state (opt_list (rb_zombie p))"
  "tids (Running q) = add_mset (ts_id (rn_state (rp_running q))) (ids rd_state (opt_list (rp_ready q)) +
     ids in_state (opt_list (rp_interrupted q)) + ids sl_state (opt_list (rp_sleeping q)) +
     ids zb_state (opt_list (rp_zombie q)))"
  "tids (Sleeping s) = ids sl_state (ne_to_vec (sp_sleeping s)) + ids zb_state (opt_list (sp_zombie s))"
  "tids (InterruptedProcess i) = ids in_state (ne_to_vec (ip_interrupted i)) +
     ids sl_state (opt_list (ip_sleeping i)) + ids zb_state (opt_list (ip_zombie i))"
  "tids (Zombie z) = ids zb_state (ne_to_vec (zp_zombie z))"
  by (simp_all add: tids_def thread_id_def ids_def image_mset.compositionality comp_def add.assoc)

lemma ids_map:
  "(\<And>t. ts_id (st (f t)) = ts_id (st' t)) \<Longrightarrow> ids st (map f ts) = ids st' ts"
  by (simp add: ids_def image_mset.compositionality comp_def)

lemma ids_mset_cong: "mset ts = mset us \<Longrightarrow> ids st ts = ids st us"
  by (simp add: ids_def)

lemma ids_first_split: "first_split c ts rest t \<Longrightarrow> ids st ts = add_mset (ts_id (st t)) (ids st rest)"
  using first_split_mset by (fastforce simp: ids_def)

lemma ids_min_split: "min_split k ts rest t \<Longrightarrow> ids st ts = add_mset (ts_id (st t)) (ids st rest)"
  using min_split_mset by (fastforce simp: ids_def)

lemma ids_pop: "ne_pop_front q = (rest, t) \<Longrightarrow> ids st (ne_to_vec q) = add_mset (ts_id (st t)) (ids st rest)"
  by (cases "ne_to_vec q") (auto simp: ne_pop_front_view)

lemma thread_op_ids [simp]:
  "ts_id (rn_state (fst (ready_run t))) = ts_id (rd_state t)"
  "ts_id (zb_state (ready_terminate t)) = ts_id (rd_state t)"
  "ts_id (rd_state (sleeping_wakeup now sl)) = ts_id (sl_state sl)"
  "ts_id (in_state (sleeping_interrupt sl cause)) = ts_id (sl_state sl)"
  "ts_id (in_state (interrupt sl)) = ts_id (sl_state sl)"
  "ts_id (rd_state (interrupted_resume now i)) = ts_id (in_state i)"
  by (simp_all add: thread_ops interrupt_def)

lemma ids_collect_interrupted [simp]:
  "ids in_state (opt_list (collect_interrupted i sl)) = ids in_state (opt_list i) + ids sl_state (opt_list sl)"
  by (cases i; cases sl) (simp_all add: collect_interrupted_def Let_def ids_map)

lemma collect_interrupted_None: "collect_interrupted i sl = None \<longleftrightarrow> i = None \<and> sl = None"
  by (cases i; cases sl) (simp_all add: collect_interrupted_def Let_def)

lemma resume_conserves:
  "tids (Runnable (process_resume now p)) = tids (InterruptedProcess p)"
  "rb_state (process_resume now p) = ip_state p"
proof -
  obtain rest t where pop: "ne_pop_front (ip_interrupted p) = (rest, t)" by fastforce
  show "tids (Runnable (process_resume now p)) = tids (InterruptedProcess p)"
    "rb_state (process_resume now p) = ip_state p"
    using ids_pop [OF pop, of in_state] by (simp_all add: process_resume_def pop tids_simps)
qed

lemmas resume_sum = resume_conserves(1) [unfolded tids_simps] resume_conserves(2)

lemma run_conserves:
  "tids (Running (fst (process_run p))) = tids (Runnable p)" "rp_state (fst (process_run p)) = rb_state p"
proof -
  obtain rest t where rm: "ne_remove_min_by_key (rb_ready p) rd_admission_time = (rest, t)" by fastforce
  have "min_split rd_admission_time (ne_to_vec (rb_ready p)) rest t"
    using ne_remove_min_split [of "rb_ready p" rd_admission_time] by (simp add: rm)
  note i = ids_min_split [OF this, of rd_state]
  obtain r c x a where "ready_run t = (r, c, x, a)" by (cases "ready_run t") auto
  then show "tids (Running (fst (process_run p))) = tids (Runnable p)"
    "rp_state (fst (process_run p)) = rb_state p"
    using i thread_op_ids(1) [of t] by (simp_all add: process_run_def rm tids_simps)
qed

lemma add_conserves:
  "tids (Running (add_thread p t)) = add_mset (ts_id (rd_state t)) (tids (Running p))"
  "rp_state (add_thread p t) = rp_state p"
  by (simp_all add: add_thread_def tids_simps)

lemma schedule_conserves:
  "tids (Runnable (fst (process_schedule now p))) = tids (Running p)"
  "rb_state (fst (process_schedule now p)) = rp_state p"
  by (simp_all add: process_schedule_def thread_ops tids_simps)

lemma sleep_conserves:
  "case process_sleep now p alarm of
     Inl (q, ctx) \<Rightarrow> tids (Sleeping q) = tids (Running p) \<and> sp_state q = rp_state p
   | Inr (q, ctx) \<Rightarrow> tids (Runnable q) = tids (Running p) \<and> rb_state q = rp_state p"
  by (simp add: process_sleep_def thread_ops tids_simps Let_def split: option.splits)
     (simp add: resume_sum interrupted_from_sleeping_def)

definition exit_zombies :: "'v running_process \<Rightarrow> nat \<Rightarrow> zombie_thread ne_deque" where
  "exit_zombies p st =
    (let zombie = opt_push (rp_zombie p) (fst (running_exit (rp_running p) st))
     in case rp_ready p of
          Some ready \<Rightarrow> ne_append zombie (ne_map ready_terminate ready) | None \<Rightarrow> zombie)"

lemma exit_zombies_ids:
  "ids zb_state (ne_to_vec (exit_zombies p st)) = add_mset (ts_id (rn_state (rp_running p)))
     (ids rd_state (opt_list (rp_ready p)) + ids zb_state (opt_list (rp_zombie p)))"
  by (simp add: exit_zombies_def thread_ops Let_def ids_map ac_simps split: option.splits)

lemma process_exit_cases:
  "process_exit now p st =
    (case collect_interrupted (rp_interrupted p) (rp_sleeping p) of
       Some interrupted \<Rightarrow>
         Inr (process_resume now (interrupted_from_sleeping (set_pending_exit_status (rp_state p) st)
           None interrupted (Some (exit_zombies p st))), ts_id (rn_state (rp_running p)))
     | None \<Rightarrow>
         Inl (\<lparr>zp_zombie = exit_zombies p st,
               zp_state = snd (take_pending_exit_status (set_pending_exit_status (rp_state p) st)),
               zp_status = unwrap_or (ps_pending_exit_status (rp_state p)) st\<rparr>,
              ts_id (rn_state (rp_running p))))"
  by (simp add: process_exit_def exit_zombies_def thread_ops Let_def take_pending_exit_status_def
      set_pending_exit_status_def unwrap_or_def split: option.splits)

lemma exit_conserves:
  "case process_exit now p st of
     Inl (q, ctx) \<Rightarrow> tids (Zombie q) = tids (Running p) \<and>
       zp_status q = unwrap_or (ps_pending_exit_status (rp_state p)) st \<and>
       ps_pid (zp_state q) = ps_pid (rp_state p)
   | Inr (q, ctx) \<Rightarrow> tids (Runnable q) = tids (Running p) \<and>
       rb_state q = set_pending_exit_status (rp_state p) st"
proof (cases "collect_interrupted (rp_interrupted p) (rp_sleeping p)")
  case None
  then have "rp_interrupted p = None" "rp_sleeping p = None" by (simp_all add: collect_interrupted_None)
  then show ?thesis using None
    by (simp add: process_exit_cases tids_simps exit_zombies_ids
        take_pending_exit_status_def set_pending_exit_status_def)
next
  case (Some interrupted)
  have "ids in_state (ne_to_vec interrupted) =
      ids in_state (opt_list (rp_interrupted p)) + ids sl_state (opt_list (rp_sleeping p))"
    using ids_collect_interrupted [of "rp_interrupted p" "rp_sleeping p"] by (simp add: Some)
  then show ?thesis
    by (simp add: process_exit_cases Some resume_conserves)
       (simp add: tids_simps interrupted_from_sleeping_def exit_zombies_ids)
qed

lemma exit_thread_conserves:
  "case process_exit_thread now p st of
     Ok (r, deferred) \<Rightarrow>
       tids (Running p) = tids (outcome_process r) +
         zombie_tids (case deferred of Some z \<Rightarrow> [z] | None \<Rightarrow> []) \<and>
       (case r of
          ExitZombie cond q ctx \<Rightarrow> deferred = None \<and>
            zp_status q = unwrap_or (ps_pending_exit_status (rp_state p)) st \<and>
            ps_pid (zp_state q) = ps_pid (rp_state p)
        | _ \<Rightarrow> process_ref_state (outcome_process r) = rp_state p) \<and>
       (deferred \<noteq> None \<longleftrightarrow> ts_detached (rn_state (rp_running p)) \<and>
          (rp_ready p \<noteq> None \<or> rp_interrupted p \<noteq> None \<or> rp_sleeping p \<noteq> None))
   | _ \<Rightarrow> False"
  by (cases "rp_ready p"; cases "rp_interrupted p"; cases "rp_sleeping p";
      cases "ts_detached (rn_state (rp_running p))")
     (simp_all add: process_exit_thread_def thread_ops Let_def take_pending_exit_status_def
       zombie_tids_def resume_conserves, simp_all add: tids_simps interrupted_from_sleeping_def)

text \<open>Taking the thread with an identifier out of a queue.\<close>

lemma remove_if_ids:
  "case ne_remove_if q (\<lambda>t. ts_id (st t) = tid) of
     Inl r \<Rightarrow> r = q \<and> tid \<notin># ids st (ne_to_vec q)
   | Inr (rest, t) \<Rightarrow> ts_id (st t) = tid \<and> ids st (ne_to_vec q) = add_mset tid (ids st rest)"
proof (cases "ne_remove_if q (\<lambda>t. ts_id (st t) = tid)")
  case (Inl r)
  then show ?thesis using ne_remove_if_Inl [OF Inl] by (auto simp: ids_def)
next
  case (Inr x)
  obtain rest t where x: "x = (rest, t)" by fastforce
  note f = ne_remove_if_Inr [OF Inr [unfolded x]]
  have "ts_id (st t) = tid" using f by (auto simp: first_split_def)
  then show ?thesis using ids_first_split [OF f, of st] by (simp add: Inr x)
qed

lemma running_wakeup_conserves:
  "case running_wakeup now p tid of
     Inl q \<Rightarrow> q = p \<and> tid \<notin># ids sl_state (opt_list (rp_sleeping p))
   | Inr q \<Rightarrow> tids (Running q) = tids (Running p) \<and> rp_state q = rp_state p \<and>
       tid \<in># ids rd_state (opt_list (rp_ready q))"
proof (cases "rp_sleeping p")
  case (Some sl)
  then show ?thesis using remove_if_ids [where q = sl and st = sl_state and tid = tid]
    by (auto simp: running_wakeup_def tids_simps split: sum.splits prod.splits)
qed (simp add: running_wakeup_def)

lemma runnable_wakeup_conserves:
  "case runnable_wakeup now p tid of
     Inl q \<Rightarrow> q = p \<and> tid \<notin># ids sl_state (opt_list (rb_sleeping p))
   | Inr q \<Rightarrow> tids (Runnable q) = tids (Runnable p) \<and> rb_state q = rb_state p \<and>
       tid \<in># ids rd_state (ne_to_vec (rb_ready q))"
proof (cases "rb_sleeping p")
  case (Some sl)
  then show ?thesis using remove_if_ids [where q = sl and st = sl_state and tid = tid]
    by (auto simp: runnable_wakeup_def tids_simps split: sum.splits prod.splits)
qed (simp add: runnable_wakeup_def)

lemma sleeping_wakeup_conserves:
  "case sleeping_process_wakeup now p tid of
     Inl q \<Rightarrow> q = p \<and> tid \<notin># ids sl_state (ne_to_vec (sp_sleeping p))
   | Inr q \<Rightarrow> tids (Runnable q) = tids (Sleeping p) \<and> rb_state q = sp_state p \<and>
       tid \<in># ids rd_state (ne_to_vec (rb_ready q))"
  using remove_if_ids [where q = "sp_sleeping p" and st = sl_state and tid = tid]
  by (auto simp: sleeping_process_wakeup_def tids_simps split: sum.splits prod.splits)

lemma fold_push [simp]:
  "ne_to_vec (fold (\<lambda>t q. ne_push_back q (f t)) ts q) = ne_to_vec q @ map f ts"
  by (induction ts arbitrary: q) simp_all

lemma terminate_conserves:
  "tids (InterruptedProcess (sleeping_terminate p)) = tids (Sleeping p)"
  "ip_state (sleeping_terminate p) = sp_state p"
  "case runnable_terminate r of
     Inl z \<Rightarrow> tids (Zombie z) = tids (Runnable r) \<and> ps_pid (zp_state z) = ps_pid (rb_state r) \<and>
       zp_status z = unwrap_or (ps_pending_exit_status (rb_state r)) (exit_status_from_error Interrupted)
   | Inr i \<Rightarrow> tids (InterruptedProcess i) = tids (Runnable r) \<and> ip_state i = rb_state r"
proof -
  obtain rest t where pop: "ne_pop_front (sp_sleeping p) = (rest, t)" by fastforce
  show "tids (InterruptedProcess (sleeping_terminate p)) = tids (Sleeping p)"
    "ip_state (sleeping_terminate p) = sp_state p"
    using ids_pop [OF pop, of sl_state]
    by (simp_all add: sleeping_terminate_def pop interrupted_new_def tids_simps ids_map)
  let ?z = "case rb_zombie r of Some z \<Rightarrow> ne_append (ne_map ready_terminate (rb_ready r)) z
    | None \<Rightarrow> ne_map ready_terminate (rb_ready r)"
  have z: "ids zb_state (ne_to_vec ?z) =
      ids rd_state (ne_to_vec (rb_ready r)) + ids zb_state (opt_list (rb_zombie r))"
    by (simp add: ids_map split: option.splits)
  show "case runnable_terminate r of
     Inl z \<Rightarrow> tids (Zombie z) = tids (Runnable r) \<and> ps_pid (zp_state z) = ps_pid (rb_state r) \<and>
       zp_status z = unwrap_or (ps_pending_exit_status (rb_state r)) (exit_status_from_error Interrupted)
   | Inr i \<Rightarrow> tids (InterruptedProcess i) = tids (Runnable r) \<and> ip_state i = rb_state r"
  proof (cases "collect_interrupted (rb_interrupted r) (rb_sleeping r)")
    case None
    then have "rb_interrupted r = None" "rb_sleeping r = None"
      by (simp_all add: collect_interrupted_None)
    then show ?thesis using None z
      by (simp add: runnable_terminate_def Let_def tids_simps take_pending_exit_status_def)
  next
    case (Some i)
    have "ids in_state (ne_to_vec i) =
        ids in_state (opt_list (rb_interrupted r)) + ids sl_state (opt_list (rb_sleeping r))"
      using ids_collect_interrupted [of "rb_interrupted r" "rb_sleeping r"] by (simp add: Some)
    then show ?thesis using z
      by (simp add: runnable_terminate_def Let_def Some tids_simps interrupted_new_def)
  qed
qed

subsection \<open>Alarms\<close>

lemma alarm_loop_expired_view:
  assumes "alarm_loop_expired now ts i sl = (i', sl')"
  shows "ne_to_vec i' = ne_to_vec i @ map (\<lambda>t. sleeping_interrupt t TimedOut) (filter (alarm_expired now) ts) \<and>
    sl' = sl @ filter (\<lambda>t. \<not> alarm_expired now t) ts"
  using assms by (induction now ts i sl rule: alarm_loop_expired.induct) (auto split: if_splits)

lemma alarm_loop_pending_view:
  assumes "alarm_loop_pending now ts i sl = (i', sl')"
  shows "i' = i @ map (\<lambda>t. sleeping_interrupt t TimedOut) (filter (alarm_expired now) ts) \<and>
    ne_to_vec sl' = ne_to_vec sl @ filter (\<lambda>t. \<not> alarm_expired now t) ts"
  using assms by (induction now ts i sl rule: alarm_loop_pending.induct) (auto split: if_splits)

lemma ids_partition: "ids st (filter c ts) + ids st (filter (\<lambda>t. \<not> c t) ts) = ids st ts"
  by (simp add: ids_def flip: image_mset_union)

lemma wakeup_alarm_result:
  "case wakeup_alarm p now of
     Inl q \<Rightarrow> ne_to_vec (sp_sleeping q) = ne_to_vec (sp_sleeping p) \<and> sp_state q = sp_state p \<and>
       sp_zombie q = sp_zombie p \<and> filter (alarm_expired now) (ne_to_vec (sp_sleeping p)) = []
   | Inr q \<Rightarrow> ne_to_vec (ip_interrupted q) =
         map (\<lambda>t. sleeping_interrupt t TimedOut) (filter (alarm_expired now) (ne_to_vec (sp_sleeping p))) \<and>
       opt_list (ip_sleeping q) = filter (\<lambda>t. \<not> alarm_expired now t) (ne_to_vec (sp_sleeping p)) \<and>
       ip_state q = sp_state p \<and> ip_zombie q = sp_zombie p"
proof -
  obtain rest t where pop: "ne_pop_front (sp_sleeping p) = (rest, t)" by fastforce
  then have v: "ne_to_vec (sp_sleeping p) = t # rest"
    by (cases "ne_to_vec (sp_sleeping p)") (auto simp: ne_pop_front_view)
  show ?thesis
  proof (cases "alarm_expired now t")
    case True
    obtain i sl where l: "alarm_loop_expired now rest (ne_new (sleeping_interrupt t TimedOut)) [] = (i, sl)"
      by fastforce
    then show ?thesis using alarm_loop_expired_view [OF l] True v
      by (simp add: wakeup_alarm_def pop interrupted_from_sleeping_def)
  next
    case False
    obtain i sl where l: "alarm_loop_pending now rest [] (ne_new t) = (i, sl)" by fastforce
    note view = alarm_loop_pending_view [OF l]
    show ?thesis
    proof (cases "ne_from i")
      case None
      then have "filter (alarm_expired now) rest = []" using view by (simp add: ne_from_view)
      moreover from this have "filter (\<lambda>t. \<not> alarm_expired now t) rest = rest"
        by (simp add: filter_id_conv filter_empty_conv)
      ultimately show ?thesis using None False v view by (simp add: wakeup_alarm_def pop l)
    next
      case (Some iq)
      then show ?thesis using ne_from_view(2) [OF Some] False v view
        by (simp add: wakeup_alarm_def pop l interrupted_from_sleeping_def)
    qed
  qed
qed

lemma alarm_conserves:
  "case wakeup_alarm p now of
     Inl q \<Rightarrow> tids (Sleeping q) = tids (Sleeping p) \<and> sp_state q = sp_state p
   | Inr q \<Rightarrow> tids (InterruptedProcess q) = tids (Sleeping p) \<and> ip_state q = sp_state p"
  using wakeup_alarm_result [of p now]
    ids_partition [of sl_state "alarm_expired now" "ne_to_vec (sp_sleeping p)"]
  by (auto simp: tids_simps ids_map split: sum.splits)

subsection \<open>Joining and detaching\<close>

lemma join_conserves:
  "case try_join_thread p tid of (r, q) \<Rightarrow>
     rp_state q = rp_state p \<and>
     (case r of
        Joined z \<Rightarrow> ts_id (zb_state z) = tid \<and> tids (Running p) = add_mset tid (tids (Running q))
      | _ \<Rightarrow> q = p)"
proof (cases "rp_zombie p")
  case (Some zombie)
  then show ?thesis using remove_if_ids [where q = zombie and st = zb_state and tid = tid]
    by (auto simp: try_join_thread_def tids_simps Let_def join_in_def split: sum.splits option.splits prod.splits)
qed (auto simp: try_join_thread_def Let_def join_in_def split: option.splits)

lemma ids_update_first:
  "(\<And>t. ts_id (st (f t)) = ts_id (st t)) \<Longrightarrow> ids st (update_first c f ts) = ids st ts"
  by (induction ts) auto

lemma ne_update_first_view: "ne_to_vec (ne_update_first c f q) = update_first c f (ne_to_vec q)"
  by (cases "ne_tail q") (simp_all add: ne_update_first_def ne_to_vec_Cons)

lemma detach_in_result:
  assumes "\<And>t. st (upd set_detached t) = set_detached (st t)"
  shows "case detach_in st upd q tid of
      None \<Rightarrow> tid \<notin># ids st (opt_list q)
    | Some (Ok q') \<Rightarrow> ids st (opt_list q') = ids st (opt_list q) \<and> tid \<in># ids st (opt_list q)
    | Some (Err e) \<Rightarrow> code e = InvalidArgument
    | Some Panic \<Rightarrow> False"
proof (cases "find (\<lambda>t. ts_id (st t) = tid) (opt_list q)")
  case None
  moreover from this have "tid \<notin># ids st (opt_list q)" by (auto simp: ids_def find_None_iff)
  ultimately show ?thesis by (simp add: detach_in_def)
next
  case (Some t)
  have "ts_id (st (upd set_detached u)) = ts_id (st u)" for u
    by (simp add: assms set_detached_def)
  then have "ids st (opt_list (map_option (ne_update_first (\<lambda>t. ts_id (st t) = tid) (upd set_detached)) q)) =
      ids st (opt_list q)"
    by (cases q) (simp_all add: ne_update_first_view ids_update_first)
  moreover have "tid \<in># ids st (opt_list q)"
    using Some by (auto simp: ids_def find_Some_iff)
  ultimately show ?thesis by (simp add: detach_in_def Some fail_def)
qed

lemma detach_live_conserves:
  "case detach_live p tid of
     (Ok r, q) \<Rightarrow> r = None \<and> tids (Running q) = tids (Running p) \<and> rp_state q = rp_state p
   | (Err e, q) \<Rightarrow> q = p
   | (Panic, q) \<Rightarrow> False"
  using detach_in_result [where st = rd_state and upd = rd_state_update and q = "rp_ready p" and tid = tid]
    detach_in_result [where st = sl_state and upd = sl_state_update and q = "rp_sleeping p" and tid = tid]
    detach_in_result [where st = in_state and upd = in_state_update and q = "rp_interrupted p" and tid = tid]
  by (auto simp: detach_live_def finish_detach_def tids_simps fail_def split: option.splits res.splits)

lemma detach_conserves:
  "case detach_thread p tid of
     (Ok (Some z), q) \<Rightarrow> ts_id (zb_state z) = tid \<and> tids (Running p) = add_mset tid (tids (Running q)) \<and>
       rp_state q = rp_state p
   | (Ok None, q) \<Rightarrow> tids (Running q) = tids (Running p) \<and> rp_state q = rp_state p
   | (Err e, q) \<Rightarrow> q = p
   | (Panic, q) \<Rightarrow> False"
proof (cases "ts_id (rn_state (rp_running p)) = tid")
  case True
  then show ?thesis by (simp add: detach_thread_def tids_simps set_detached_def fail_def)
next
  case running: False
  have live: "case detach_live p tid of
      (Ok (Some z), q) \<Rightarrow> ts_id (zb_state z) = tid \<and> tids (Running p) = add_mset tid (tids (Running q)) \<and>
        rp_state q = rp_state p
    | (Ok None, q) \<Rightarrow> tids (Running q) = tids (Running p) \<and> rp_state q = rp_state p
    | (Err e, q) \<Rightarrow> q = p
    | (Panic, q) \<Rightarrow> False"
    using detach_live_conserves [of p tid] by (auto split: prod.splits res.splits option.splits)
  show ?thesis
  proof (cases "rp_zombie p")
    case None
    then show ?thesis using running live by (simp add: detach_thread_def)
  next
    case (Some zombie)
    show ?thesis
    proof (cases "ne_remove_if zombie (\<lambda>z. ts_id (zb_state z) = tid)")
      case (Inl r)
      then have "r = zombie" using remove_if_ids [where q = zombie and st = zb_state and tid = tid] by simp
      then have same: "p\<lparr>rp_zombie := Some r\<rparr> = p" using Some by simp
      have "detach_thread p tid = detach_live (p\<lparr>rp_zombie := Some r\<rparr>) tid"
        by (simp add: detach_thread_def running Some Inl)
      then show ?thesis using live unfolding same by simp
    next
      case (Inr x)
      then show ?thesis using remove_if_ids [where q = zombie and st = zb_state and tid = tid] running Some
        by (cases x) (simp add: detach_thread_def tids_simps)
    qed
  qed
qed

subsection \<open>Steps\<close>

lemma step_conserves:
  assumes "process_step p new reaped q"
  shows "tids p + ids rd_state new = tids q + zombie_tids reaped \<and>
    ps_pid (process_ref_state q) = ps_pid (process_ref_state p)"
  using assms
proof cases
  case (ps_sleep p now alarm)
  then show ?thesis using sleep_conserves [where now = now and p = p and alarm = alarm]
    by (auto simp: zombie_tids_def split: sum.splits prod.splits)
next
  case (ps_exit p now st)
  then show ?thesis using exit_conserves [where now = now and p = p and st = st]
    by (auto simp: zombie_tids_def set_pending_exit_status_def split: sum.splits prod.splits)
next
  case (ps_exit_thread now p st r deferred)
  then show ?thesis using exit_thread_conserves [where now = now and p = p and st = st]
    by (cases r) (auto split: option.splits)
next
  case (ps_wakeup_running p now tid)
  then show ?thesis using running_wakeup_conserves [where now = now and p = p and tid = tid]
    by (auto simp: zombie_tids_def split: sum.splits)
next
  case (ps_wakeup_runnable p now tid)
  then show ?thesis using runnable_wakeup_conserves [where now = now and p = p and tid = tid]
    by (auto simp: zombie_tids_def split: sum.splits)
next
  case (ps_wakeup_sleeping p now tid)
  then show ?thesis using sleeping_wakeup_conserves [where now = now and p = p and tid = tid]
    by (auto simp: zombie_tids_def split: sum.splits)
next
  case (ps_alarm p now)
  then show ?thesis using alarm_conserves [where p = p and now = now] by (auto simp: zombie_tids_def split: sum.splits)
next
  case (ps_terminate_runnable p)
  then show ?thesis using terminate_conserves(3) [where r = p] by (auto simp: zombie_tids_def split: sum.splits)
next
  case (ps_join p tid z q)
  then show ?thesis using join_conserves [where p = p and tid = tid] by (auto simp: zombie_tids_def)
next
  case (ps_detach p tid r q)
  then show ?thesis using detach_conserves [where p = p and tid = tid] by (auto simp: zombie_tids_def split: option.splits)
qed (simp_all add: zombie_tids_def run_conserves schedule_conserves terminate_conserves resume_conserves
  add_conserves)

text \<open>The status of the first exit, pending or final.\<close>

fun exit_status_is :: "nat \<Rightarrow> 'v process_ref \<Rightarrow> bool" where
  "exit_status_is st (Zombie z) \<longleftrightarrow> zp_status z = st"
| "exit_status_is st p \<longleftrightarrow> ps_pending_exit_status (process_ref_state p) = Some st"

inductive_simps zombie_step_simps [simp]: "process_step (Zombie z) new reaped q"

lemma step_exit_status:
  assumes "process_step p new reaped q" "exit_status_is st p"
  shows "exit_status_is st q"
  using assms
proof cases
  case (ps_sleep p now alarm)
  then show ?thesis using assms(2) sleep_conserves [where now = now and p = p and alarm = alarm] by (auto split: sum.splits prod.splits)
next
  case (ps_exit p now st)
  then show ?thesis using assms(2) exit_conserves [where now = now and p = p and st = st]
    by (auto simp: set_pending_exit_status_def unwrap_or_def split: sum.splits prod.splits)
next
  case (ps_exit_thread now p st r deferred)
  then show ?thesis using assms(2) exit_thread_conserves [where now = now and p = p and st = st]
    by (cases r) (auto simp: unwrap_or_def)
next
  case (ps_wakeup_running p now tid)
  then show ?thesis using assms(2) running_wakeup_conserves [where now = now and p = p and tid = tid] by (auto split: sum.splits)
next
  case (ps_wakeup_runnable p now tid)
  then show ?thesis using assms(2) runnable_wakeup_conserves [where now = now and p = p and tid = tid] by (auto split: sum.splits)
next
  case (ps_wakeup_sleeping p now tid)
  then show ?thesis using assms(2) sleeping_wakeup_conserves [where now = now and p = p and tid = tid] by (auto split: sum.splits)
next
  case (ps_alarm p now)
  then show ?thesis using assms(2) alarm_conserves [where p = p and now = now] by (auto split: sum.splits)
next
  case (ps_terminate_runnable p)
  then show ?thesis using assms(2) terminate_conserves(3) [where r = p]
    by (auto simp: unwrap_or_def split: sum.splits)
next
  case (ps_join p tid z q)
  then show ?thesis using assms(2) join_conserves [where p = p and tid = tid] by auto
next
  case (ps_detach p tid r q)
  then show ?thesis using assms(2) detach_conserves [where p = p and tid = tid] by (auto split: option.splits)
qed (simp_all add: run_conserves schedule_conserves terminate_conserves resume_conserves add_conserves)

lemma steps_exit_status:
  assumes "process_steps p new reaped q" "exit_status_is st p"
  shows "exit_status_is st q"
  using assms by (induction rule: process_steps.induct) (auto intro: step_exit_status)

lemma steps_conserve:
  assumes "process_steps p new reaped q"
  shows "tids p + ids rd_state new = tids q + zombie_tids reaped \<and>
    ps_pid (process_ref_state q) = ps_pid (process_ref_state p)"
  using assms
proof (induction rule: process_steps.induct)
  case (steps_more p new reaped q new' reaped' r)
  have "tids p + ids rd_state (new @ new') = tids q + ids rd_state new' + zombie_tids reaped"
    using steps_more.IH by (simp add: ac_simps)
  also have "\<dots> = tids r + zombie_tids (reaped @ reaped')"
    using step_conserves [OF steps_more.hyps(2)] by (simp add: zombie_tids_def ac_simps)
  finally show ?case using step_conserves [OF steps_more.hyps(2)] steps_more.IH by simp
qed (simp add: zombie_tids_def)

text \<open>Searching the queues of a process one after the other.\<close>

lemma find_in_list:
  assumes "\<And>t. thread_ref_state (wrap t) = st t"
  shows "find_in st wrap ts tid = find (\<lambda>r. thread_id r = tid) (map wrap ts)"
  using assms by (induction ts) (simp_all add: find_in_def thread_id_def)

lemma find_append: "find c (xs @ ys) = or_else (find c xs) (find c ys)"
  by (induction xs) (auto simp: or_else_def)

lemma find_thread_list: "find_thread p tid = find (\<lambda>r. thread_id r = tid) (threads p)"
  by (cases p)
     (simp_all add: runnable_find_thread_def running_find_thread_def sleeping_find_thread_def
       interrupted_find_thread_def zombie_find_thread_def find_in_list find_append,
      simp_all add: thread_id_def)

lemma earliest_admission_time_view:
  "earliest_admission_time now p = Min (rd_admission_time ` set (ne_to_vec (rb_ready p)))"
proof -
  obtain t ts where v: "ne_to_vec (rb_ready p) = t # ts" by (simp add: ne_to_vec_Cons)
  then show ?thesis
    using Min.set_eq_fold [of "rd_admission_time t" "map rd_admission_time ts"]
    by (simp add: earliest_admission_time_def iter_collect_view)
qed

section \<open>Properties\<close>

text \<open>C25. No transition of a process loses, duplicates or invents a thread. Along any sequence of
  scheduling, sleeping, waking, alarms, termination, exits, joins and detaches, the identifiers of the
  threads a process had and of those added to it are, as a multiset, those of the threads it still has
  and of the zombies handed over to be reaped; and it keeps its identifier.\<close>

theorem process_threads_conserved:
  assumes "process_steps p new reaped q"
  shows "tids p + ids rd_state new = tids q + zombie_tids reaped \<and>
    ps_pid (process_ref_state q) = ps_pid (process_ref_state p)"
  by (rule steps_conserve [OF assms])

theorem process_threads_conserved_witness:
  "tids (Running (add_thread (fst (process_run (runnable_new 3 (ready_new EPOCH 5 None None None) ())))
     (ready_new EPOCH 6 None None None))) = {#5, 6#}"
proof -
  let ?p = "runnable_new 3 (ready_new EPOCH 5 None None None) ()"
  let ?t = "ready_new EPOCH 6 None None None"
  have "process_steps (Runnable ?p) ([] @ []) ([] @ []) (Running (fst (process_run ?p)))"
    by (rule steps_more [OF steps_none ps_run])
  then have "process_steps (Runnable ?p) (([] @ []) @ [?t]) (([] @ []) @ [])
      (Running (add_thread (fst (process_run ?p)) ?t))"
    by (rule steps_more [OF _ ps_add])
  from process_threads_conserved [OF this] have e:
      "tids (Running (add_thread (fst (process_run ?p)) ?t)) = tids (Runnable ?p) + ids rd_state [?t]"
    by (simp add: zombie_tids_def)
  show ?thesis unfolding e
    by (simp add: tids_simps runnable_new_def ready_new_def thread_state_new_def)
qed

text \<open>C26. The status of the first exit is the one a process ends with: once a thread has called
  \<open>exit\<close>, then whatever the remaining threads do (exiting with other statuses, being woken, timing out
  or being terminated), the process keeps that status pending and becomes a zombie with it.\<close>

theorem first_exit_status_wins:
  assumes "ps_pending_exit_status (rp_state p) = None"
    "process_steps (case process_exit now p st of Inl (z, ctx) \<Rightarrow> Zombie z | Inr (r, ctx) \<Rightarrow> Runnable r)
       new reaped q"
  shows "case q of
      Zombie z \<Rightarrow> zp_status z = st
    | _ \<Rightarrow> ps_pending_exit_status (process_ref_state q) = Some st"
proof -
  have "exit_status_is st
      (case process_exit now p st of Inl (z, ctx) \<Rightarrow> Zombie z | Inr (r, ctx) \<Rightarrow> Runnable r)"
    using exit_conserves [where now = now and p = p and st = st] assms(1)
    by (auto simp: set_pending_exit_status_def unwrap_or_def split: sum.splits prod.splits)
  then have "exit_status_is st q" by (rule steps_exit_status [OF assms(2)])
  then show ?thesis by (cases q) simp_all
qed

theorem first_exit_status_wins_witness:
  "case process_exit EPOCH (fst (process_run (runnable_new 3 (ready_new EPOCH 5 None None None) ()))) 42 of
     Inl (z, ctx) \<Rightarrow> zp_status z = 42 | Inr _ \<Rightarrow> False"
proof -
  let ?p = "fst (process_run (runnable_new 3 (ready_new EPOCH 5 None None None) ()))"
  obtain z ctx where z: "process_exit EPOCH ?p 42 = Inl (z, ctx)"
    by (simp add: process_run_def runnable_new_def ready_new_def ne_new_def ne_remove_min_by_key_def
        ready_run_def Let_def process_exit_cases collect_interrupted_def take_interrupt_reason_def)
  have "ps_pending_exit_status (rp_state ?p) = None"
    by (simp add: run_conserves runnable_new_def process_state_new_def)
  from first_exit_status_wins [OF this, of EPOCH 42 "[]" "[]" "Zombie z"]
  show ?thesis by (simp add: z steps_none)
qed

text \<open>C27. A thread that exits never hits the unreachable branch of \<open>exit_thread\<close>. The process stays
  runnable exactly when a ready or an interrupted thread is left, sleeps exactly when only sleeping
  ones are, and is a zombie exactly when none is; the zombie of the exiting thread is returned for
  deferred reaping exactly when the thread is detached and others are left, and is kept in the process
  otherwise.\<close>

theorem exit_thread_correct:
  "case process_exit_thread now p st of
     Ok (r, deferred) \<Rightarrow>
       (case r of
          ExitRunnable cond q ctx \<Rightarrow> (rp_ready p, rp_interrupted p) \<noteq> (None, None)
        | ExitSleeping cond q ctx \<Rightarrow> rp_ready p = None \<and> rp_interrupted p = None \<and> rp_sleeping p \<noteq> None
        | ExitZombie cond q ctx \<Rightarrow> rp_ready p = None \<and> rp_interrupted p = None \<and> rp_sleeping p = None \<and>
            zp_status q = unwrap_or (ps_pending_exit_status (rp_state p)) st) \<and>
       (case deferred of
          Some z \<Rightarrow> z = fst (running_exit (rp_running p) st) \<and> ts_detached (rn_state (rp_running p)) \<and>
            (rp_ready p, rp_interrupted p, rp_sleeping p) \<noteq> (None, None, None) \<and>
            tids (Running p) = add_mset (get_tid p) (tids (outcome_process r))
        | None \<Rightarrow> (if ts_detached (rn_state (rp_running p))
             then (rp_ready p, rp_interrupted p, rp_sleeping p) = (None, None, None) else True) \<and>
            tids (Running p) = tids (outcome_process r))
   | _ \<Rightarrow> False"
proof -
  obtain r d where e: "process_exit_thread now p st = Ok (r, d)"
    using exit_thread_conserves [where now = now and p = p and st = st]
    by (cases "process_exit_thread now p st") auto
  have d: "d = (if ts_detached (rn_state (rp_running p)) \<and>
      (rp_ready p \<noteq> None \<or> rp_interrupted p \<noteq> None \<or> rp_sleeping p \<noteq> None)
      then Some (fst (running_exit (rp_running p) st)) else None)"
    using e by (auto simp: process_exit_thread_def Let_def thread_ops take_pending_exit_status_def
        split: option.splits if_splits)
  have r: "case r of
      ExitRunnable cond q ctx \<Rightarrow> (rp_ready p, rp_interrupted p) \<noteq> (None, None)
    | ExitSleeping cond q ctx \<Rightarrow> rp_ready p = None \<and> rp_interrupted p = None \<and> rp_sleeping p \<noteq> None
    | ExitZombie cond q ctx \<Rightarrow> rp_ready p = None \<and> rp_interrupted p = None \<and> rp_sleeping p = None \<and>
        zp_status q = unwrap_or (ps_pending_exit_status (rp_state p)) st"
    using e by (auto simp: process_exit_thread_def Let_def thread_ops take_pending_exit_status_def
        split: option.splits if_splits)
  have t: "tids (Running p) = tids (outcome_process r) +
      zombie_tids (case d of Some z \<Rightarrow> [z] | None \<Rightarrow> [])"
    using exit_thread_conserves [where now = now and p = p and st = st] by (simp add: e)
  show ?thesis using d r t
    by (auto simp: e zombie_tids_def running_exit_def get_tid_def split: option.splits if_splits)
qed

text \<open>Running a process dispatches the ready thread with the earliest admission time, the one in
  front among equals; the time by which the scheduler compares processes is the admission time of that
  thread. The thread is told the reason of its interruption, if any; the other ready threads keep
  their order and every other queue is left alone.\<close>

lemma process_run_earliest:
  "case process_run p of (q, cause, ctx, tda) \<Rightarrow>
     (\<exists>t rest. min_split rd_admission_time (ne_to_vec (rb_ready p)) rest t \<and>
        earliest_admission_time now p = rd_admission_time t \<and>
        opt_list (rp_ready q) = rest \<and>
        rp_running q = \<lparr>rn_state = (rd_state t)\<lparr>ts_interrupt_reason := None\<rparr>\<rparr> \<and>
        cause = ts_interrupt_reason (rd_state t) \<and> tda = ts_user_tda (rd_state t)) \<and>
     rp_interrupted q = rb_interrupted p \<and> rp_sleeping q = rb_sleeping p \<and>
     rp_zombie q = rb_zombie p \<and> rp_state q = rb_state p"
proof -
  obtain rest t where rm: "ne_remove_min_by_key (rb_ready p) rd_admission_time = (rest, t)" by fastforce
  note sp = ne_remove_min_split [OF rm]
  have "t \<in> set (ne_to_vec (rb_ready p))" using sp by (auto simp: min_split_def)
  then have "Min (rd_admission_time ` set (ne_to_vec (rb_ready p))) = rd_admission_time t"
    using min_split_least [OF sp] by (intro Min_eqI) auto
  then show ?thesis using sp
    by (auto simp: process_run_def rm thread_ops earliest_admission_time_view)
qed

text \<open>C28. Checking the alarms of a sleeping process interrupts exactly the threads whose alarm has
  passed, in their order and with the reason TimedOut, and leaves the others asleep in theirs; the
  process is reported as interrupted exactly when there is such a thread.\<close>

theorem wakeup_alarm_correct:
  "case wakeup_alarm p now of
     Inl q \<Rightarrow> ne_to_vec (sp_sleeping q) = ne_to_vec (sp_sleeping p) \<and>
       list_all (\<lambda>t. case sl_alarm t of Some a \<Rightarrow> now < a | None \<Rightarrow> True) (ne_to_vec (sp_sleeping p)) \<and>
       sp_zombie q = sp_zombie p \<and> sp_state q = sp_state p
   | Inr q \<Rightarrow>
       ne_to_vec (ip_interrupted q) =
         [\<lparr>in_state = sl_state t, in_reason = TimedOut\<rparr>.
           t \<leftarrow> ne_to_vec (sp_sleeping p), case sl_alarm t of Some a \<Rightarrow> a \<le> now | None \<Rightarrow> False] \<and>
       opt_list (ip_sleeping q) =
         filter (\<lambda>t. case sl_alarm t of Some a \<Rightarrow> now < a | None \<Rightarrow> True) (ne_to_vec (sp_sleeping p)) \<and>
       ip_zombie q = sp_zombie p \<and> ip_state q = sp_state p"
proof -
  have n: "(\<lambda>t. case sl_alarm t of Some a \<Rightarrow> now < a | None \<Rightarrow> True) = (\<lambda>t. \<not> alarm_expired now t)"
    by (rule ext) (auto simp: alarm_expired_def split: option.splits)
  have m: "[\<lparr>in_state = sl_state t, in_reason = TimedOut\<rparr>.
        t \<leftarrow> ts, case sl_alarm t of Some a \<Rightarrow> a \<le> now | None \<Rightarrow> False] =
      map (\<lambda>t. sleeping_interrupt t TimedOut) (filter (alarm_expired now) ts)" for ts
    by (induction ts) (simp_all add: alarm_expired_def sleeping_interrupt_def)
  show ?thesis using wakeup_alarm_result [of p now] unfolding n m
    by (auto simp: list_all_iff filter_empty_conv split: sum.splits)
qed

text \<open>Looking a thread up finds it in whichever queue it is: the result is a thread of the process
  with the identifier asked for, the first one in the order in which the queues are searched (running,
  ready, interrupted, sleeping, zombie), and nothing is found exactly when no thread of the process has
  that identifier.\<close>

lemma find_thread_correct:
  "case find_thread p tid of
     Some r \<Rightarrow> first_split (\<lambda>r. thread_id r = tid) (threads p) (remove1 r (threads p)) r
   | None \<Rightarrow> tid \<notin># tids p"
proof (cases "find (\<lambda>r. thread_id r = tid) (threads p)")
  case None
  moreover from this have "tid \<notin># tids p" by (auto simp: find_None_iff tids_def)
  ultimately show ?thesis by (simp add: find_thread_list)
next
  case (Some r)
  then obtain i where i: "i < length (threads p)" "thread_id r = tid" "r = threads p ! i"
      "\<forall>j<i. thread_id (threads p ! j) \<noteq> tid"
    by (auto simp: find_Some_iff)
  let ?pre = "take i (threads p)" and ?post = "drop (Suc i) (threads p)"
  have s: "threads p = ?pre @ r # ?post" using i(1) by (simp add: i(3) id_take_nth_drop)
  have n: "\<forall>x\<in>set ?pre. thread_id x \<noteq> tid"
  proof
    fix x
    assume "x \<in> set ?pre"
    then obtain j where "j < length ?pre" "x = ?pre ! j" by (auto simp: in_set_conv_nth)
    then show "thread_id x \<noteq> tid" using i(4) by simp
  qed
  then have "remove1 r (?pre @ r # ?post) = ?pre @ ?post" using i(2) by (auto simp: remove1_append)
  then have "first_split (\<lambda>r. thread_id r = tid) (threads p) (remove1 r (threads p)) r"
    unfolding first_split_def using s n i(2) by metis
  then show ?thesis using Some by (simp add: find_thread_list)
qed

end
