(* ===== verification/Rendezvous.thy ===== *)
theory Rendezvous
  imports Nonempty_Deques Threads
begin

text \<open>
  The rendezvous of threads that push and pull data (\<open>src/src/kernel/src/ipc/rendezvous.rs\<close>). A call
  that finds its counterpart waiting transfers the data and wakes it up; otherwise it registers
  itself and sleeps. A call is therefore two functions: what it does until it returns or sleeps, and
  what it does when the sleep returns. The rest of the kernel is a state of type \<open>'k\<close>; copying between
  user spaces (\<open>vmcopy_user_to_user\<close>) and waking up a thread (\<open>ProcessManager::wakeup\<close>) are parameters
  that act on it. The shared counter of a pending pull is a cell under the identifier of the pulling
  thread.
\<close>

section \<open>Definitions\<close>

record pending_push =
  pu_pid :: pid
  pu_tid :: tid
  pu_dst_pid :: pid
  pu_dst_tid :: tid
  pu_buffer :: addr
  pu_transfer_len :: nat

record pending_pull =
  pl_pid :: pid
  pl_tid :: tid
  pl_src_pid :: pid
  pl_src_tid :: tid
  pl_buffer :: addr
  pl_transfer_len :: nat

record pending_lists =
  pushes :: "pending_push list"
  pulls :: "pending_pull list"
  bytes_transferred :: "(tid \<times> nat) list"

definition pending_new :: pending_lists where
  "pending_new = \<lparr>pushes = [], pulls = [], bytes_transferred = []\<rparr>"

text \<open>\<open>Vec::swap_remove\<close>: the last element takes the place of the removed one.\<close>

definition swap_remove :: "'a list \<Rightarrow> nat \<Rightarrow> ('a \<times> 'a list) kres" where
  "swap_remove xs i =
    (if i < length xs then Ok (xs ! i, butlast (xs[i := last xs])) else Panic)"

datatype sleep_error = InterruptedSleep interrupt_reason | Generic error

datatype 'a outcome = Done "(sleep_error, 'a) res" | Blocked

text \<open>The copy and the wake-up both sides do once they have found their counterpart.\<close>

definition transfer ::
  "('k \<Rightarrow> pid \<Rightarrow> addr \<Rightarrow> pid \<Rightarrow> addr \<Rightarrow> nat \<Rightarrow> unit kres \<times> 'k) \<Rightarrow>
   ('k \<Rightarrow> tid \<Rightarrow> unit kres \<times> 'k) \<Rightarrow>
   'k \<Rightarrow> pid \<Rightarrow> addr \<Rightarrow> pid \<Rightarrow> addr \<Rightarrow> nat \<Rightarrow> tid \<Rightarrow> (sleep_error, unit) res \<times> 'k" where
  "transfer cross_process_copy wakeup k src_pid src dst_pid dst len peer =
    (case (if len > 0 then cross_process_copy k src_pid src dst_pid dst len else (Ok (), k)) of
       (Err e, k) \<Rightarrow>
         (case wakeup k peer of (Panic, k) \<Rightarrow> (Panic, k) | (_, k) \<Rightarrow> (Err (Generic e), k))
     | (Panic, k) \<Rightarrow> (Panic, k)
     | (Ok _, k) \<Rightarrow>
         (case wakeup k peer of
            (Ok _, k) \<Rightarrow> (Ok (), k)
          | (Err e, k) \<Rightarrow> (Err (Generic e), k)
          | (Panic, k) \<Rightarrow> (Panic, k)))"

definition copy_failed ::
  "('k \<Rightarrow> pid \<Rightarrow> addr \<Rightarrow> pid \<Rightarrow> addr \<Rightarrow> nat \<Rightarrow> unit kres \<times> 'k) \<Rightarrow>
   'k \<Rightarrow> pid \<Rightarrow> addr \<Rightarrow> pid \<Rightarrow> addr \<Rightarrow> nat \<Rightarrow> bool" where
  "copy_failed cross_process_copy k src_pid src dst_pid dst len \<longleftrightarrow>
    len > 0 \<and> \<not> is_ok (fst (cross_process_copy k src_pid src dst_pid dst len))"

definition pull_matches :: "pid \<Rightarrow> tid \<Rightarrow> pid \<Rightarrow> tid \<Rightarrow> pending_pull \<Rightarrow> bool" where
  "pull_matches caller_pid caller_tid dst_pid dst_tid l \<longleftrightarrow>
    pl_src_pid l = caller_pid \<and> pl_src_tid l = caller_tid \<and> pl_pid l = dst_pid \<and> pl_tid l = dst_tid"

definition do_push ::
  "('k \<Rightarrow> pid \<Rightarrow> addr \<Rightarrow> pid \<Rightarrow> addr \<Rightarrow> nat \<Rightarrow> unit kres \<times> 'k) \<Rightarrow>
   ('k \<Rightarrow> tid \<Rightarrow> unit kres \<times> 'k) \<Rightarrow>
   pending_lists \<Rightarrow> 'k \<Rightarrow> pid \<Rightarrow> tid \<Rightarrow> pid \<Rightarrow> tid \<Rightarrow> addr \<Rightarrow> nat \<Rightarrow>
   unit outcome \<times> pending_lists \<times> 'k" where
  "do_push copy wakeup s k caller_pid caller_tid dst_pid dst_tid buf len =
    (if caller_tid = dst_tid
     then (Done (Err (Generic (Error InvalidArgument ''cannot push data to self''))), s, k)
     else
       (case position (pull_matches caller_pid caller_tid dst_pid dst_tid) (pulls s) of
          Some idx \<Rightarrow>
            (case swap_remove (pulls s) idx of
               Ok (req, rest) \<Rightarrow>
                 let s = s\<lparr>pulls := rest\<rparr>;
                     actual_len = min len (pl_transfer_len req);
                     failed = copy_failed copy k caller_pid buf (pl_pid req) (pl_buffer req) actual_len;
                     (r, k) = transfer copy wakeup k caller_pid buf (pl_pid req) (pl_buffer req)
                                actual_len (pl_tid req)
                 in (Done r,
                     if failed then s
                     else s\<lparr>bytes_transferred := map_insert (pl_tid req) actual_len (bytes_transferred s)\<rparr>,
                     k)
             | _ \<Rightarrow> (Done Panic, s, k))
        | None \<Rightarrow>
            (Blocked,
             s\<lparr>pushes := pushes s @
               [\<lparr>pu_pid = caller_pid, pu_tid = caller_tid, pu_dst_pid = dst_pid, pu_dst_tid = dst_tid,
                 pu_buffer = buf, pu_transfer_len = len\<rparr>]\<rparr>, k)))"

text \<open>What \<open>do_push\<close> does when its sleep returns.\<close>

fun push_resume ::
  "pending_lists \<Rightarrow> pid \<Rightarrow> tid \<Rightarrow> (sleep_error, unit) res \<Rightarrow> (sleep_error, unit) res \<times> pending_lists" where
  "push_resume s caller_pid caller_tid (Ok u) = (Ok u, s)"
| "push_resume s caller_pid caller_tid (Err e) =
    (Err e, s\<lparr>pushes := filter (\<lambda>u. pu_pid u \<noteq> caller_pid \<or> pu_tid u \<noteq> caller_tid) (pushes s)\<rparr>)"
| "push_resume s caller_pid caller_tid Panic = (Panic, s)"

definition push_matches :: "pid \<Rightarrow> tid \<Rightarrow> pid \<Rightarrow> tid \<Rightarrow> pending_push \<Rightarrow> bool" where
  "push_matches caller_pid caller_tid src_pid src_tid u \<longleftrightarrow>
    pu_pid u = src_pid \<and> pu_tid u = src_tid \<and> pu_dst_pid u = caller_pid \<and> pu_dst_tid u = caller_tid"

definition do_pull ::
  "('k \<Rightarrow> pid \<Rightarrow> addr \<Rightarrow> pid \<Rightarrow> addr \<Rightarrow> nat \<Rightarrow> unit kres \<times> 'k) \<Rightarrow>
   ('k \<Rightarrow> tid \<Rightarrow> unit kres \<times> 'k) \<Rightarrow>
   pending_lists \<Rightarrow> 'k \<Rightarrow> pid \<Rightarrow> tid \<Rightarrow> pid \<Rightarrow> tid \<Rightarrow> addr \<Rightarrow> nat \<Rightarrow>
   nat outcome \<times> pending_lists \<times> 'k" where
  "do_pull copy wakeup s k caller_pid caller_tid src_pid src_tid buf len =
    (if caller_tid = src_tid
     then (Done (Err (Generic (Error InvalidArgument ''cannot pull data from self''))), s, k)
     else
       (case position (push_matches caller_pid caller_tid src_pid src_tid) (pushes s) of
          Some idx \<Rightarrow>
            (case swap_remove (pushes s) idx of
               Ok (req, rest) \<Rightarrow>
                 let actual_len = min len (pu_transfer_len req);
                     (r, k) = transfer copy wakeup k (pu_pid req) (pu_buffer req) caller_pid buf
                                actual_len (pu_tid req)
                 in (Done (bind_res r (\<lambda>_. Ok actual_len)), s\<lparr>pushes := rest\<rparr>, k)
             | _ \<Rightarrow> (Done Panic, s, k))
        | None \<Rightarrow>
            (Blocked,
             s\<lparr>pulls := pulls s @
                 [\<lparr>pl_pid = caller_pid, pl_tid = caller_tid, pl_src_pid = src_pid, pl_src_tid = src_tid,
                   pl_buffer = buf, pl_transfer_len = len\<rparr>],
               bytes_transferred := map_insert caller_tid 0 (bytes_transferred s)\<rparr>, k)))"

text \<open>What \<open>do_pull\<close> does when its sleep returns: it reads the counter of its request.\<close>

fun pull_resume ::
  "pending_lists \<Rightarrow> pid \<Rightarrow> tid \<Rightarrow> (sleep_error, unit) res \<Rightarrow> (sleep_error, nat) res \<times> pending_lists" where
  "pull_resume s caller_pid caller_tid (Ok u) =
    (Ok (case map_of (bytes_transferred s) caller_tid of Some n \<Rightarrow> n | None \<Rightarrow> 0), s)"
| "pull_resume s caller_pid caller_tid (Err e) =
    (Err e, s\<lparr>pulls := filter (\<lambda>l. pl_pid l \<noteq> caller_pid \<or> pl_tid l \<noteq> caller_tid) (pulls s)\<rparr>)"
| "pull_resume s caller_pid caller_tid Panic = (Panic, s)"

definition cleanup_process :: "pending_lists \<Rightarrow> pid \<Rightarrow> tid list \<times> pending_lists" where
  "cleanup_process s pid =
    (map pu_tid (filter (\<lambda>u. pu_pid u \<noteq> pid \<and> pu_dst_pid u = pid) (pushes s)) @
     map pl_tid (filter (\<lambda>l. pl_pid l \<noteq> pid \<and> pl_src_pid l = pid) (pulls s)),
     s\<lparr>pushes := filter (\<lambda>u. pu_pid u \<noteq> pid \<and> pu_dst_pid u \<noteq> pid) (pushes s),
       pulls := filter (\<lambda>l. pl_pid l \<noteq> pid \<and> pl_src_pid l \<noteq> pid) (pulls s)\<rparr>)"

subsection \<open>Invariant\<close>

text \<open>
  A thread sleeps on at most one request, and no push waits together with the pull that would match
  it.
\<close>

definition counterparts :: "pending_push \<Rightarrow> pending_pull \<Rightarrow> bool" where
  "counterparts u l \<longleftrightarrow> pull_matches (pu_pid u) (pu_tid u) (pu_dst_pid u) (pu_dst_tid u) l"

definition waiting :: "pending_lists \<Rightarrow> tid list" where
  "waiting s = map pu_tid (pushes s) @ map pl_tid (pulls s)"

definition rendezvous_inv :: "pending_lists \<Rightarrow> bool" where
  "rendezvous_inv s \<longleftrightarrow>
    distinct (waiting s) \<and> (\<forall>u\<in>set (pushes s). \<forall>l\<in>set (pulls s). \<not> counterparts u l)"

text \<open>
  One call or one return from sleep; a thread that waits makes no new call.
\<close>

inductive rendezvous_step ::
  "('k \<Rightarrow> pid \<Rightarrow> addr \<Rightarrow> pid \<Rightarrow> addr \<Rightarrow> nat \<Rightarrow> unit kres \<times> 'k) \<Rightarrow>
   ('k \<Rightarrow> tid \<Rightarrow> unit kres \<times> 'k) \<Rightarrow> pending_lists \<Rightarrow> pending_lists \<Rightarrow> bool"
  for copy wakeup where
  rv_push: "tid \<notin> set (waiting s) \<Longrightarrow>
    rendezvous_step copy wakeup s (fst (snd (do_push copy wakeup s k pid tid dst_pid dst_tid buf len)))"
| rv_pull: "tid \<notin> set (waiting s) \<Longrightarrow>
    rendezvous_step copy wakeup s (fst (snd (do_pull copy wakeup s k pid tid src_pid src_tid buf len)))"
| rv_push_resume: "rendezvous_step copy wakeup s (snd (push_resume s pid tid r))"
| rv_pull_resume: "rendezvous_step copy wakeup s (snd (pull_resume s pid tid r))"
| rv_cleanup: "rendezvous_step copy wakeup s (snd (cleanup_process s pid))"

section \<open>Lemmas\<close>

lemma swap_remove_position:
  assumes "position c xs = Some i"
  shows "\<exists>x rest. swap_remove xs i = Ok (x, rest) \<and> c x \<and> mset xs = add_mset x (mset rest)"
proof -
  from assms obtain pre x post where s: "xs = pre @ x # post" "length pre = i" "c x"
    by (rule position_split)
  have "mset (butlast (pre @ (last xs # post))) = mset (pre @ post)"
  proof (cases post rule: rev_cases)
    case (snoc ys y)
    then show ?thesis by (simp add: s(1) butlast_append)
  qed (simp add: butlast_append)
  moreover have "xs[i := last xs] = pre @ last xs # post"
    unfolding s(1) s(2) [symmetric] by (rule list_update_length)
  ultimately have "swap_remove xs i = Ok (x, butlast (pre @ last xs # post))"
    using s(1,2) by (auto simp: swap_remove_def)
  then show ?thesis using \<open>mset (butlast _) = _\<close> s by simp
qed

lemma distinct_subset_mset:
  assumes "mset xs \<subseteq># mset ys" "distinct ys"
  shows "distinct xs"
proof -
  obtain zs where "mset zs = mset ys - mset xs" using ex_mset by blast
  then have "mset (xs @ zs) = mset ys" using assms(1) by simp
  then show ?thesis using mset_eq_imp_distinct_iff assms(2) distinct_append by metis
qed

lemma inv_mset:
  assumes "rendezvous_inv s" "set (pushes s') \<subseteq> set (pushes s)" "set (pulls s') \<subseteq> set (pulls s)"
    "mset (waiting s') \<subseteq># mset (waiting s)"
  shows "rendezvous_inv s'"
proof -
  have "distinct (waiting s')"
    using assms(1) distinct_subset_mset [OF assms(4)] by (simp add: rendezvous_inv_def)
  then show ?thesis using assms(1-3) unfolding rendezvous_inv_def by blast
qed

lemma waiting_mset: "mset (waiting s) = image_mset pu_tid (mset (pushes s)) + image_mset pl_tid (mset (pulls s))"
  by (simp add: waiting_def)

lemma filter_inv:
  assumes "rendezvous_inv s"
  shows "rendezvous_inv (s\<lparr>pushes := filter a (pushes s), pulls := filter b (pulls s)\<rparr>)"
proof (rule inv_mset [OF assms])
  show "mset (waiting (s\<lparr>pushes := filter a (pushes s), pulls := filter b (pulls s)\<rparr>)) \<subseteq># mset (waiting s)"
    by (simp add: waiting_mset) (intro subset_mset.add_mono image_mset_subseteq_mono; simp)
qed auto

lemma filter_inv_one:
  assumes "rendezvous_inv s"
  shows "rendezvous_inv (s\<lparr>pushes := filter a (pushes s)\<rparr>)" "rendezvous_inv (s\<lparr>pulls := filter b (pulls s)\<rparr>)"
  using filter_inv [OF assms, where a = a and b = "\<lambda>_. True"]
    filter_inv [OF assms, where a = "\<lambda>_. True" and b = b] by simp_all

lemma counters_inv [simp]: "rendezvous_inv (s\<lparr>bytes_transferred := b\<rparr>) \<longleftrightarrow> rendezvous_inv s"
  by (simp add: rendezvous_inv_def waiting_def)

lemma do_push_inv:
  assumes inv: "rendezvous_inv s" and new: "tid \<notin> set (waiting s)"
  shows "rendezvous_inv (fst (snd (do_push copy wakeup s k pid tid dst_pid dst_tid buf len)))"
proof (cases "position (pull_matches pid tid dst_pid dst_tid) (pulls s)")
  case None
  then have "\<forall>l\<in>set (pulls s). \<not> pull_matches pid tid dst_pid dst_tid l" by (simp add: position_None)
  then show ?thesis using inv new None
    by (auto simp: do_push_def rendezvous_inv_def waiting_def counterparts_def)
next
  case (Some i)
  from swap_remove_position [OF Some] obtain l rest where
      l: "swap_remove (pulls s) i = Ok (l, rest)" "mset (pulls s) = add_mset l (mset rest)" by blast
  have "rendezvous_inv (s\<lparr>pulls := rest\<rparr>)"
    using l(2) by (intro inv_mset [OF inv]) (auto simp: waiting_mset dest: arg_cong [of _ _ set_mset])
  then show ?thesis using inv Some l(1)
    by (simp add: do_push_def Let_def split: prod.splits)
qed

lemma do_pull_inv:
  assumes inv: "rendezvous_inv s" and new: "tid \<notin> set (waiting s)"
  shows "rendezvous_inv (fst (snd (do_pull copy wakeup s k pid tid src_pid src_tid buf len)))"
proof (cases "position (push_matches pid tid src_pid src_tid) (pushes s)")
  case None
  then have "\<forall>u\<in>set (pushes s). \<not> push_matches pid tid src_pid src_tid u" by (simp add: position_None)
  then show ?thesis using inv new None
    by (auto simp: do_pull_def rendezvous_inv_def waiting_def counterparts_def pull_matches_def
        push_matches_def)
next
  case (Some i)
  from swap_remove_position [OF Some] obtain u rest where
      u: "swap_remove (pushes s) i = Ok (u, rest)" "mset (pushes s) = add_mset u (mset rest)" by blast
  have "rendezvous_inv (s\<lparr>pushes := rest\<rparr>)"
    using u(2) by (intro inv_mset [OF inv]) (auto simp: waiting_mset dest: arg_cong [of _ _ set_mset])
  then show ?thesis using inv Some u(1)
    by (simp add: do_pull_def Let_def split: prod.splits)
qed

lemma step_inv:
  assumes "rendezvous_step copy wakeup s s'" "rendezvous_inv s"
  shows "rendezvous_inv s'"
  using assms
proof cases
  case (rv_push_resume pid tid r)
  then show ?thesis using assms(2) filter_inv_one(1) by (cases r) simp_all
next
  case (rv_pull_resume pid tid r)
  then show ?thesis using assms(2) filter_inv_one(2) by (cases r) simp_all
qed (simp_all add: do_push_inv do_pull_inv cleanup_process_def filter_inv)

lemma reachable_inv:
  assumes "(rendezvous_step copy wakeup)\<^sup>*\<^sup>* pending_new s"
  shows "rendezvous_inv s"
  using assms
  by (induction rule: rtranclp_induct)
     (auto simp: pending_new_def rendezvous_inv_def [of "\<lparr>pushes = [], pulls = [], bytes_transferred = []\<rparr>"]
       waiting_def intro: step_inv)

text \<open>The only pull a push can match, in a state that satisfies the invariant.\<close>

lemma matching_pull:
  assumes inv: "rendezvous_inv s" and l: "l \<in> set (pulls s)" "pull_matches pid tid dst_pid dst_tid l"
  obtains i rest where "position (pull_matches pid tid dst_pid dst_tid) (pulls s) = Some i"
    "swap_remove (pulls s) i = Ok (l, rest)" "mset (pulls s) = add_mset l (mset rest)"
proof -
  obtain i where i: "position (pull_matches pid tid dst_pid dst_tid) (pulls s) = Some i"
    using l position_None [of "pull_matches pid tid dst_pid dst_tid" "pulls s"] by fastforce
  from swap_remove_position [OF i] obtain l' rest where
      r: "swap_remove (pulls s) i = Ok (l', rest)" "pull_matches pid tid dst_pid dst_tid l'"
        "mset (pulls s) = add_mset l' (mset rest)" by blast
  have "l' \<in> set (pulls s)" using arg_cong [OF r(3), of set_mset] by simp
  moreover have "inj_on pl_tid (set (pulls s))"
    using inv by (simp add: rendezvous_inv_def waiting_def distinct_map)
  ultimately have "l' = l" using l r(2) by (auto simp: pull_matches_def inj_on_def)
  with i r that show ?thesis by simp
qed

section \<open>Properties\<close>

text \<open>C29. No rendezvous is missed. Whatever sequence of pushes, pulls, interrupted sleeps and process
  clean-ups has run, every thread waits on at most one request, and no push waits while the pull it is
  meant for waits too; a push that is not addressed to its own thread blocks exactly when no matching
  pull is waiting.\<close>

theorem no_missed_rendezvous:
  assumes "(rendezvous_step copy wakeup)\<^sup>*\<^sup>* pending_new s"
  shows "distinct (waiting s) \<and>
    filter (\<lambda>(u, l). counterparts u l) (List.product (pushes s) (pulls s)) = [] \<and>
    (fst (do_push copy wakeup s k pid tid dst_pid dst_tid buf len) = Blocked \<longleftrightarrow>
       tid \<noteq> dst_tid \<and> filter (pull_matches pid tid dst_pid dst_tid) (pulls s) = [])"
proof -
  have inv: "rendezvous_inv s" by (rule reachable_inv [OF assms])
  have "fst (do_push copy wakeup s k pid tid dst_pid dst_tid buf len) = Blocked \<longleftrightarrow>
      tid \<noteq> dst_tid \<and> position (pull_matches pid tid dst_pid dst_tid) (pulls s) = None"
    using swap_remove_position [of "pull_matches pid tid dst_pid dst_tid" "pulls s"]
    by (auto simp: do_push_def Let_def split: option.splits prod.splits res.splits)
  then show ?thesis using inv
    by (auto simp: rendezvous_inv_def filter_empty_conv position_None)
qed

theorem no_missed_rendezvous_witness:
  "waiting (fst (snd (do_push (\<lambda>k _ _ _ _ _. (Ok (), k)) (\<lambda>k _. (Ok (), k)) pending_new () 1 10 2 20 4096 8)))
     = [10] \<and>
   fst (do_push (\<lambda>k _ _ _ _ _. (Ok (), k)) (\<lambda>k _. (Ok (), k))
     (fst (snd (do_push (\<lambda>k _ _ _ _ _. (Ok (), k)) (\<lambda>k _. (Ok (), k)) pending_new () 1 10 2 20 4096 8)))
     () 2 21 1 10 0 1) = Blocked"
proof -
  let ?c = "\<lambda>(k::unit) _ _ _ _ _. (Ok (), k)" and ?w = "\<lambda>(k::unit) _. (Ok (), k)"
  have "(rendezvous_step ?c ?w)\<^sup>*\<^sup>* pending_new (fst (snd (do_push ?c ?w pending_new () 1 10 2 20 4096 8)))"
    by (rule r_into_rtranclp, rule rv_push) (simp add: pending_new_def waiting_def)
  from no_missed_rendezvous [OF this, of "()" 2 21 1 10 0 1] show ?thesis
    by (simp add: do_push_def pending_new_def waiting_def)
qed

text \<open>C30. A push that meets a waiting pull moves as many bytes as both sides allow: it asks for exactly
  one copy of that length, from its buffer into the buffer of the pull, removes that pull and no other
  entry, and wakes the pulling thread, whose call then returns that length. When the copy fails, the
  push reports the error and the pull is removed as well.\<close>

theorem push_meets_pull:
  assumes "rendezvous_inv s" "l \<in> set (pulls s)" "pl_src_pid l = pid" "pl_src_tid l = tid"
    "tid \<noteq> pl_tid l" "0 < min len (pl_transfer_len l)"
    "copy k pid buf (pl_pid l) (pl_buffer l) (min len (pl_transfer_len l)) = (r, k')"
    "wakeup k' (pl_tid l) = (Ok (), k'')"
  shows "case do_push copy wakeup s k pid tid (pl_pid l) (pl_tid l) buf len of (out, s', kk) \<Rightarrow>
    mset (pulls s) = add_mset l (mset (pulls s')) \<and> pushes s' = pushes s \<and>
    (case r of
       Ok _ \<Rightarrow> out = Done (Ok ()) \<and> kk = k'' \<and>
         fst (pull_resume s' (pl_pid l) (pl_tid l) (Ok ())) = Ok (min len (pl_transfer_len l))
     | Err e \<Rightarrow> out = Done (Err (Generic e)) \<and> kk = k''
     | Panic \<Rightarrow> out = Done Panic \<and> kk = k')"
proof -
  have "pull_matches pid tid (pl_pid l) (pl_tid l) l" using assms(3,4) by (simp add: pull_matches_def)
  with assms(1,2) obtain i rest where
      i: "position (pull_matches pid tid (pl_pid l) (pl_tid l)) (pulls s) = Some i"
      "swap_remove (pulls s) i = Ok (l, rest)" "mset (pulls s) = add_mset l (mset rest)"
    by (rule matching_pull)
  show ?thesis
    using assms(5-8) i by (cases r) (auto simp: do_push_def Let_def transfer_def copy_failed_def map_of_insert)
qed

theorem push_meets_pull_witness:
  "case do_push (\<lambda>k _ _ _ _ n. (Ok (), n)) (\<lambda>k _. (Ok (), k))
      \<lparr>pushes = [], pulls = [\<lparr>pl_pid = 2, pl_tid = 20, pl_src_pid = 1, pl_src_tid = 10, pl_buffer = 64,
         pl_transfer_len = 8\<rparr>], bytes_transferred = [(20, 0)]\<rparr> 0 1 10 2 20 4096 32 of
     (out, s', kk) \<Rightarrow> out = Done (Ok ()) \<and> kk = 8 \<and> pulls s' = [] \<and>
       fst (pull_resume s' 2 20 (Ok ())) = Ok 8"
  using push_meets_pull [of "\<lparr>pushes = [], pulls = [\<lparr>pl_pid = 2, pl_tid = 20, pl_src_pid = 1,
      pl_src_tid = 10, pl_buffer = 64, pl_transfer_len = 8\<rparr>], bytes_transferred = [(20, 0)]\<rparr>"
    "\<lparr>pl_pid = 2, pl_tid = 20, pl_src_pid = 1, pl_src_tid = 10, pl_buffer = 64, pl_transfer_len = 8\<rparr>"
    1 10 32 "\<lambda>k _ _ _ _ n. (Ok (), n)" 0 4096 "Ok ()" 8 "\<lambda>k _. (Ok (), k)" 8]
  by (simp add: rendezvous_inv_def waiting_def split: prod.splits)

text \<open>C31. Cleaning up after a process leaves no request that involves it. Every other request stays, in
  order, and the threads reported for waking are exactly those of other processes whose requests were
  removed, so that no thread of another process is left waiting for the dead one.\<close>

theorem cleanup_complete:
  "case cleanup_process s pid of (tids, s') \<Rightarrow>
     list_all (\<lambda>u. pu_pid u \<noteq> pid \<and> pu_dst_pid u \<noteq> pid) (pushes s') \<and>
     list_all (\<lambda>l. pl_pid l \<noteq> pid \<and> pl_src_pid l \<noteq> pid) (pulls s') \<and>
     mset (waiting s) = mset tids + mset (waiting s') +
       image_mset pu_tid (mset (filter (\<lambda>u. pu_pid u = pid) (pushes s))) +
       image_mset pl_tid (mset (filter (\<lambda>l. pl_pid l = pid) (pulls s))) \<and>
     pushes s' = filter (\<lambda>u. pu_pid u \<noteq> pid \<and> pu_dst_pid u \<noteq> pid) (pushes s) \<and>
     pulls s' = filter (\<lambda>l. pl_pid l \<noteq> pid \<and> pl_src_pid l \<noteq> pid) (pulls s)"
proof -
  have u: "mset us = mset (filter (\<lambda>u. pu_pid u \<noteq> pid \<and> pu_dst_pid u = pid) us) +
      mset (filter (\<lambda>u. pu_pid u \<noteq> pid \<and> pu_dst_pid u \<noteq> pid) us) + mset (filter (\<lambda>u. pu_pid u = pid) us)" for us
    by (induction us) auto
  have l: "mset ls = mset (filter (\<lambda>l. pl_pid l \<noteq> pid \<and> pl_src_pid l = pid) ls) +
      mset (filter (\<lambda>l. pl_pid l \<noteq> pid \<and> pl_src_pid l \<noteq> pid) ls) + mset (filter (\<lambda>l. pl_pid l = pid) ls)" for ls
    by (induction ls) auto
  show ?thesis
    using arg_cong [OF u [of "pushes s"], of "image_mset pu_tid"]
      arg_cong [OF l [of "pulls s"], of "image_mset pl_tid"]
    by (simp add: cleanup_process_def waiting_mset list_all_iff waiting_def flip: mset_filter)
qed

end
