(* ===== verification/Scheduler.thy ===== *)
theory Scheduler
  imports Processes Rendezvous
begin

text \<open>
  The process manager of the kernel as a scheduler
  (\<open>src/src/kernel/src/pm/process/manager/mod.rs\<close> and \<open>unsafe.rs\<close>): its queues of processes, the
  selection of the next process, sleeping, waking up, exiting and terminating. The queues are
  lists of processes by state, the running process is an option, and a call of \<open>expect\<close> on an absent
  running process or an empty ready queue is \<open>Panic\<close>.

  The kernel runs these operations with interrupts disabled, so the clock does not advance within
  one of them: \<open>clock::now()\<close> is a parameter \<open>now\<close> of the operation. The pending rendezvous requests
  are a global of the source; the operations that clean them up take and return them. The check of
  the stack guard, which either does nothing or halts the machine, is left out.
\<close>

section \<open>Definitions\<close>

definition KERNEL :: pid where
  "KERNEL = 0"

record 'v process_manager =
  pm_interrupt_capable :: bool
  pm_interrupt_reason :: "interrupt_reason option"
  pm_next_pid :: pid
  pm_running :: "'v running_process option"
  pm_ready :: "'v runnable_process list"
  pm_suspended :: "'v sleeping_process list"
  pm_interrupted :: "'v interrupted_process list"
  pm_zombies :: "'v zombie_process list"
  pm_tm :: thread_manager
  pm_live_count :: nat
  pm_number_buffered_messages :: nat
  pm_deferred_reap :: "(pid \<times> zombie_thread) list"

definition process_manager_new :: "bool \<Rightarrow> ready_thread \<Rightarrow> 'v \<Rightarrow> thread_manager \<Rightarrow> 'v process_manager" where
  "process_manager_new interrupt_capable kthread root tm =
    (let (kthread, cause, ctx, tda) = process_run (runnable_new KERNEL kthread root)
     in \<lparr>pm_interrupt_capable = interrupt_capable, pm_interrupt_reason = None, pm_next_pid = 1,
         pm_running = Some kthread, pm_ready = [], pm_suspended = [], pm_interrupted = [],
         pm_zombies = [], pm_tm = tm, pm_live_count = 1, pm_number_buffered_messages = 0,
         pm_deferred_reap = []\<rparr>)"

subsection \<open>Selecting the next process\<close>

definition take_running :: "'v process_manager \<Rightarrow> 'v running_process kres \<times> 'v process_manager" where
  "take_running pm =
    (case pm_running pm of
       Some p \<Rightarrow> (Ok p, pm\<lparr>pm_running := None\<rparr>)
     | None \<Rightarrow> (Panic, pm))"

definition get_running :: "'v process_manager \<Rightarrow> 'v running_process kres" where
  "get_running pm = (case pm_running pm of Some p \<Rightarrow> Ok p | None \<Rightarrow> Panic)"

text \<open>\<open>LinkedList::remove\<close> panics out of range.\<close>

definition list_remove :: "'a list \<Rightarrow> nat \<Rightarrow> ('a \<times> 'a list) kres" where
  "list_remove xs i = (if i < length xs then Ok (xs ! i, take i xs @ drop (Suc i) xs) else Panic)"

text \<open>The loop of \<open>take_earliest_ready\<close>, over the enumerated ready queue.\<close>

fun earliest_scan ::
  "system_time \<Rightarrow> nat \<Rightarrow> 'v runnable_process list \<Rightarrow> nat \<times> system_time \<Rightarrow> nat \<times> system_time" where
  "earliest_scan now i [] selected = selected"
| "earliest_scan now i (p # ps) selected =
    (let t = earliest_admission_time now p
     in earliest_scan now (Suc i) ps (if t < snd selected then (i, t) else selected))"

definition take_earliest_ready ::
  "system_time \<Rightarrow> 'v process_manager \<Rightarrow> 'v runnable_process kres \<times> 'v process_manager" where
  "take_earliest_ready now pm =
    (case pm_ready pm of
       [] \<Rightarrow> (Panic, pm)
     | p # ps \<Rightarrow>
         (case list_remove (p # ps)
                 (fst (earliest_scan now 0 (p # ps) (0, earliest_admission_time now p))) of
            Ok (q, rest) \<Rightarrow> (Ok q, pm\<lparr>pm_ready := rest\<rparr>)
          | Err e \<Rightarrow> (Err e, pm)
          | Panic \<Rightarrow> (Panic, pm)))"

text \<open>
  What a scheduling operation returns: the identifiers of the next process and thread, the contexts
  to switch from and to, and the thread data area of the next thread.
\<close>

type_synonym switch_info = "pid \<times> tid \<times> tid \<times> tid \<times> addr option"

text \<open>The common end of \<open>schedule\<close>, \<open>do_sleep\<close>, \<open>do_exit\<close> and \<open>do_exit_thread\<close>.\<close>

definition dispatch ::
  "system_time \<Rightarrow> tid \<Rightarrow> 'v process_manager \<Rightarrow> switch_info kres \<times> 'v process_manager" where
  "dispatch now previous_context pm =
    (case take_earliest_ready now pm of
       (Ok p, pm) \<Rightarrow>
         (let (p, cause, next_context, tda) = process_run p
          in (Ok (ps_pid (rp_state p), get_tid p, previous_context, next_context, tda),
              pm\<lparr>pm_interrupt_reason := cause, pm_running := Some p\<rparr>))
     | (Err e, pm) \<Rightarrow> (Err e, pm)
     | (Panic, pm) \<Rightarrow> (Panic, pm))"

subsection \<open>Preemption and alarms\<close>

text \<open>The loop of \<open>check_alarm\<close>.\<close>

fun alarm_scan ::
  "system_time \<Rightarrow> 'v sleeping_process list \<Rightarrow> 'v interrupted_process list \<Rightarrow> 'v sleeping_process list \<Rightarrow>
   'v interrupted_process list \<times> 'v sleeping_process list" where
  "alarm_scan now [] interrupted suspended = (interrupted, suspended)"
| "alarm_scan now (p # ps) interrupted suspended =
    (case wakeup_alarm p now of
       Inr q \<Rightarrow> alarm_scan now ps (interrupted @ [q]) suspended
     | Inl q \<Rightarrow> alarm_scan now ps interrupted (suspended @ [q]))"

definition check_alarm :: "system_time \<Rightarrow> 'v process_manager \<Rightarrow> 'v process_manager" where
  "check_alarm now pm =
    (let (interrupted, suspended) = alarm_scan now (pm_suspended pm) (pm_interrupted pm) []
     in pm\<lparr>pm_interrupted := interrupted, pm_suspended := suspended\<rparr>)"

text \<open>The loop of \<open>schedule\<close> over the interrupted processes.\<close>

fun resume_scan ::
  "system_time \<Rightarrow> 'v interrupted_process list \<Rightarrow> 'v runnable_process list \<Rightarrow> 'v runnable_process list" where
  "resume_scan now [] ready = ready"
| "resume_scan now (p # ps) ready = resume_scan now ps (ready @ [process_resume now p])"

definition schedule :: "system_time \<Rightarrow> 'v process_manager \<Rightarrow> switch_info kres \<times> 'v process_manager" where
  "schedule now pm =
    (case take_running pm of
       (Ok p, pm) \<Rightarrow>
         (let (p, previous_context) = process_schedule now p;
              pm = check_alarm now (pm\<lparr>pm_ready := pm_ready pm @ [p]\<rparr>);
              pm = pm\<lparr>pm_ready := resume_scan now (pm_interrupted pm) (pm_ready pm), pm_interrupted := []\<rparr>
          in dispatch now previous_context pm)
     | (Err e, pm) \<Rightarrow> (Err e, pm)
     | (Panic, pm) \<Rightarrow> (Panic, pm))"

subsection \<open>Sleeping and waking up\<close>

definition do_sleep ::
  "system_time \<Rightarrow> system_time option \<Rightarrow> 'v process_manager \<Rightarrow> switch_info kres \<times> 'v process_manager" where
  "do_sleep now alarm pm =
    (case take_running pm of
       (Ok p, pm) \<Rightarrow>
         if ps_pid (rp_state p) = KERNEL then (Panic, pm)
         else (case process_sleep now p alarm of
                 Inr (q, previous_context) \<Rightarrow>
                   dispatch now previous_context (pm\<lparr>pm_ready := pm_ready pm @ [q]\<rparr>)
               | Inl (q, previous_context) \<Rightarrow>
                   dispatch now previous_context (pm\<lparr>pm_suspended := pm_suspended pm @ [q]\<rparr>))
     | (Err e, pm) \<Rightarrow> (Err e, pm)
     | (Panic, pm) \<Rightarrow> (Panic, pm))"

text \<open>
  The two loops of \<open>try_wakeup\<close>: the first process that has the thread is taken out of its queue and
  woken up, or put back in place when the thread does not sleep.
\<close>

fun wakeup_scan ::
  "('p \<Rightarrow> bool) \<Rightarrow> ('p \<Rightarrow> 'p + 'q) \<Rightarrow> 'p list \<Rightarrow> 'p list \<Rightarrow> 'q option option \<times> 'p list" where
  "wakeup_scan has wake skipped [] = (None, skipped)"
| "wakeup_scan has wake skipped (p # ps) =
    (if has p
     then (case wake p of
             Inr q \<Rightarrow> (Some (Some q), skipped @ ps)
           | Inl p \<Rightarrow> (Some None, skipped @ p # ps))
     else wakeup_scan has wake (skipped @ [p]) ps)"

definition try_wakeup ::
  "system_time \<Rightarrow> tid \<Rightarrow> 'v process_manager \<Rightarrow> 'v runnable_process option \<times> 'v process_manager" where
  "try_wakeup now tid pm =
    (case wakeup_scan (\<lambda>p. sleeping_find_thread p tid \<noteq> None) (\<lambda>p. sleeping_process_wakeup now p tid) []
            (pm_suspended pm) of
       (Some r, suspended) \<Rightarrow> (r, pm\<lparr>pm_suspended := suspended\<rparr>)
     | (None, suspended) \<Rightarrow>
         (let pm = pm\<lparr>pm_suspended := suspended\<rparr>
          in case wakeup_scan (\<lambda>p. runnable_find_thread p tid \<noteq> None) (\<lambda>p. runnable_wakeup now p tid) []
                    (pm_ready pm) of
               (Some r, ready) \<Rightarrow> (r, pm\<lparr>pm_ready := ready\<rparr>)
             | (None, ready) \<Rightarrow> (None, pm\<lparr>pm_ready := ready\<rparr>)))"

definition do_wakeup :: "system_time \<Rightarrow> tid \<Rightarrow> 'v process_manager \<Rightarrow> unit kres \<times> 'v process_manager" where
  "do_wakeup now tid pm =
    (case pm_running pm of
       None \<Rightarrow> (Panic, pm)
     | Some p \<Rightarrow>
         if running_find_thread p tid \<noteq> None
         then (case running_wakeup now p tid of
                 Inr p \<Rightarrow> (Ok (), pm\<lparr>pm_running := Some p\<rparr>)
               | Inl p \<Rightarrow> (fail NoSuchEntry ''thread not found'', pm\<lparr>pm_running := Some p\<rparr>))
         else (case try_wakeup now tid pm of
                 (Some p, pm) \<Rightarrow> (Ok (), pm\<lparr>pm_ready := pm_ready pm @ [p]\<rparr>)
               | (None, pm) \<Rightarrow> (fail NoSuchEntry ''thread not found'', pm)))"

subsection \<open>Exiting and terminating\<close>

text \<open>The loop of \<open>cleanup_rendezvous\<close>: a failure to wake up a thread is only logged.\<close>

fun wake_orphans :: "system_time \<Rightarrow> tid list \<Rightarrow> 'v process_manager \<Rightarrow> unit kres \<times> 'v process_manager" where
  "wake_orphans now [] pm = (Ok (), pm)"
| "wake_orphans now (tid # ts) pm =
    (case do_wakeup now tid pm of
       (Panic, pm) \<Rightarrow> (Panic, pm)
     | (_, pm) \<Rightarrow> wake_orphans now ts pm)"

definition cleanup_rendezvous ::
  "system_time \<Rightarrow> pid \<Rightarrow> pending_lists \<Rightarrow> 'v process_manager \<Rightarrow>
   unit kres \<times> pending_lists \<times> 'v process_manager" where
  "cleanup_rendezvous now pid pl pm =
    (let (orphaned, pl) = cleanup_process pl pid; (r, pm) = wake_orphans now orphaned pm
     in (r, pl, pm))"

definition do_exit ::
  "system_time \<Rightarrow> nat \<Rightarrow> pending_lists \<Rightarrow> 'v process_manager \<Rightarrow>
   switch_info kres \<times> pending_lists \<times> 'v process_manager" where
  "do_exit now st pl pm =
    (case take_running pm of
       (Ok p, pm) \<Rightarrow>
         if ps_pid (rp_state p) = KERNEL then (Panic, pl, pm)
         else (case cleanup_rendezvous now (ps_pid (rp_state p)) pl pm of
                 (Ok _, pl, pm) \<Rightarrow>
                   (case process_exit now p st of
                      Inr (q, previous_context) \<Rightarrow>
                        (let (r, pm) = dispatch now previous_context (pm\<lparr>pm_ready := pm_ready pm @ [q]\<rparr>)
                         in (r, pl, pm))
                    | Inl (q, previous_context) \<Rightarrow>
                        (let (r, pm) = dispatch now previous_context (pm\<lparr>pm_zombies := pm_zombies pm @ [q]\<rparr>)
                         in (r, pl, pm)))
               | (Err e, pl, pm) \<Rightarrow> (Err e, pl, pm)
               | (Panic, pl, pm) \<Rightarrow> (Panic, pl, pm))
     | (Err e, pm) \<Rightarrow> (Err e, pl, pm)
     | (Panic, pm) \<Rightarrow> (Panic, pl, pm))"

definition defer_reap ::
  "pid \<Rightarrow> zombie_thread option \<Rightarrow> 'v process_manager \<Rightarrow> 'v process_manager" where
  "defer_reap pid deferred pm =
    (case deferred of
       Some z \<Rightarrow> pm\<lparr>pm_deferred_reap := pm_deferred_reap pm @ [(pid, z)]\<rparr>
     | None \<Rightarrow> pm)"

text \<open>The result of \<open>do_exit_thread\<close> also has the condition variable its joiners wait on.\<close>

definition do_exit_thread ::
  "system_time \<Rightarrow> nat \<Rightarrow> 'v process_manager \<Rightarrow> (tid \<times> switch_info) kres \<times> 'v process_manager" where
  "do_exit_thread now st pm =
    (case take_running pm of
       (Ok p, pm) \<Rightarrow>
         if ps_pid (rp_state p) = KERNEL then (Panic, pm)
         else (let finish = (\<lambda>cond ctx pm. case dispatch now ctx pm of (r, pm) \<Rightarrow>
                     (bind_res r (\<lambda>r. Ok (cond, r)), pm))
               in case process_exit_thread now p st of
                    Ok (ExitRunnable cond q ctx, deferred) \<Rightarrow>
                      finish cond ctx (defer_reap (ps_pid (rb_state q)) deferred (pm\<lparr>pm_ready := pm_ready pm @ [q]\<rparr>))
                  | Ok (ExitSleeping cond q ctx, deferred) \<Rightarrow>
                      finish cond ctx
                        (defer_reap (ps_pid (sp_state q)) deferred (pm\<lparr>pm_suspended := pm_suspended pm @ [q]\<rparr>))
                  | Ok (ExitZombie cond q ctx, deferred) \<Rightarrow>
                      finish cond ctx (pm\<lparr>pm_zombies := pm_zombies pm @ [q]\<rparr>)
                  | Err e \<Rightarrow> (Err e, pm)
                  | Panic \<Rightarrow> (Panic, pm))
     | (Err e, pm) \<Rightarrow> (Err e, pm)
     | (Panic, pm) \<Rightarrow> (Panic, pm))"

text \<open>\<open>terminate\<close>, after the checks and the clean-up of its rendezvous requests.\<close>

definition terminate_queued :: "system_time \<Rightarrow> pid \<Rightarrow> 'v process_manager \<Rightarrow> unit kres \<times> 'v process_manager" where
  "terminate_queued now pid pm =
    (case position (\<lambda>p. ps_pid (rb_state p) = pid) (pm_ready pm) of
       Some i \<Rightarrow>
         (case list_remove (pm_ready pm) i of
            Ok (p, rest) \<Rightarrow>
              (case runnable_terminate p of
                 Inr q \<Rightarrow> (Ok (), pm\<lparr>pm_ready := rest @ [process_resume now q]\<rparr>)
               | Inl q \<Rightarrow> (Ok (), pm\<lparr>pm_ready := rest, pm_zombies := pm_zombies pm @ [q]\<rparr>))
          | Err e \<Rightarrow> (Err e, pm)
          | Panic \<Rightarrow> (Panic, pm))
     | None \<Rightarrow>
         (case position (\<lambda>p. ps_pid (sp_state p) = pid) (pm_suspended pm) of
            Some i \<Rightarrow>
              (case list_remove (pm_suspended pm) i of
                 Ok (p, rest) \<Rightarrow>
                   (Ok (), pm\<lparr>pm_suspended := rest,
                              pm_interrupted := pm_interrupted pm @ [sleeping_terminate p]\<rparr>)
               | Err e \<Rightarrow> (Err e, pm)
               | Panic \<Rightarrow> (Panic, pm))
          | None \<Rightarrow> (fail NoSuchProcess ''process not found'', pm)))"

definition terminate ::
  "system_time \<Rightarrow> pid \<Rightarrow> pending_lists \<Rightarrow> 'v process_manager \<Rightarrow>
   unit kres \<times> pending_lists \<times> 'v process_manager" where
  "terminate now pid pl pm =
    (if pid = KERNEL then (fail InvalidArgument ''cannot terminate kernel process'', pl, pm)
     else if (case pm_running pm of Some p \<Rightarrow> ps_pid (rp_state p) = pid | None \<Rightarrow> False)
     then (fail InvalidArgument ''cannot terminate running process'', pl, pm)
     else (case cleanup_rendezvous now pid pl pm of
             (Ok _, pl, pm) \<Rightarrow> (let (r, pm) = terminate_queued now pid pm in (r, pl, pm))
           | (Err e, pl, pm) \<Rightarrow> (Err e, pl, pm)
           | (Panic, pl, pm) \<Rightarrow> (Panic, pl, pm)))"

subsection \<open>New processes\<close>

text \<open>
  The infallible end of \<open>create_process\<close> and \<open>duplicate_process\<close>: the reserved identifiers are
  committed and the process becomes ready.
\<close>

definition admit_process ::
  "pid \<Rightarrow> pid \<Rightarrow> tid \<Rightarrow> ready_thread \<Rightarrow> 'v \<Rightarrow> 'v process_manager \<Rightarrow> 'v process_manager" where
  "admit_process pid next_pid next_tid t vmem pm =
    pm\<lparr>pm_next_pid := next_pid, pm_tm := commit_next_tid (pm_tm pm) next_tid,
       pm_live_count := pm_live_count pm + 1, pm_ready := pm_ready pm @ [runnable_new pid t vmem]\<rparr>"

subsection \<open>Finding a process\<close>

definition find_process :: "'v process_manager \<Rightarrow> pid \<Rightarrow> 'v process_ref kres" where
  "find_process pm pid =
    (case pm_running pm of
       None \<Rightarrow> Panic
     | Some running \<Rightarrow>
         if ps_pid (rp_state running) = pid then Ok (Running running)
         else (case find (\<lambda>p. ps_pid (rb_state p) = pid) (pm_ready pm) of
           Some p \<Rightarrow> Ok (Runnable p)
         | None \<Rightarrow> (case find (\<lambda>p. ps_pid (sp_state p) = pid) (pm_suspended pm) of
           Some p \<Rightarrow> Ok (Sleeping p)
         | None \<Rightarrow> (case find (\<lambda>p. ps_pid (ip_state p) = pid) (pm_interrupted pm) of
           Some p \<Rightarrow> Ok (InterruptedProcess p)
         | None \<Rightarrow> (case find (\<lambda>p. ps_pid (zp_state p) = pid) (pm_zombies pm) of
           Some p \<Rightarrow> Ok (Zombie p)
         | None \<Rightarrow> fail NoSuchProcess ''process not found'')))))"

text \<open>A change of the state of the process that \<open>find_process_mut\<close> returns.\<close>

definition update_process ::
  "('v process_state \<Rightarrow> 'v process_state) \<Rightarrow> pid \<Rightarrow> 'v process_manager \<Rightarrow> 'v process_manager" where
  "update_process f pid pm =
    (case find_process pm pid of
       Ok (Running p) \<Rightarrow> pm\<lparr>pm_running := Some (p\<lparr>rp_state := f (rp_state p)\<rparr>)\<rparr>
     | Ok (Runnable _) \<Rightarrow> pm\<lparr>pm_ready := update_first (\<lambda>p. ps_pid (rb_state p) = pid) (rb_state_update f) (pm_ready pm)\<rparr>
     | Ok (Sleeping _) \<Rightarrow> pm\<lparr>pm_suspended := update_first (\<lambda>p. ps_pid (sp_state p) = pid) (sp_state_update f) (pm_suspended pm)\<rparr>
     | Ok (InterruptedProcess _) \<Rightarrow>
         pm\<lparr>pm_interrupted := update_first (\<lambda>p. ps_pid (ip_state p) = pid) (ip_state_update f) (pm_interrupted pm)\<rparr>
     | Ok (Zombie _) \<Rightarrow> pm\<lparr>pm_zombies := update_first (\<lambda>p. ps_pid (zp_state p) = pid) (zp_state_update f) (pm_zombies pm)\<rparr>
     | _ \<Rightarrow> pm)"

subsection \<open>Threads of the running process\<close>

text \<open>
  The kernel stack comes from the memory manager, through \<open>forge_user_context\<close>: its answer is a parameter.
  The assertion that the caller runs is compiled into debug builds only.
\<close>

definition create_thread ::
  "system_time \<Rightarrow> nat \<Rightarrow> addr kres \<Rightarrow> addr option \<Rightarrow> 'v process_manager \<Rightarrow> tid kres \<times> 'v process_manager" where
  "create_thread now max_threads forged user_tda pm =
    (case try_next_tid max_threads (pm_tm pm) of
       Err e \<Rightarrow> (Err e, pm)
     | Panic \<Rightarrow> (Panic, pm)
     | Ok (tid, next_tid) \<Rightarrow>
         (case get_running pm of
            Err e \<Rightarrow> (Err e, pm)
          | Panic \<Rightarrow> (Panic, pm)
          | Ok p \<Rightarrow>
              (case forged of
                 Err e \<Rightarrow> (Err e, pm)
               | Panic \<Rightarrow> (Panic, pm)
               | Ok kernel_stack \<Rightarrow>
                   (let t = tm_create_thread now tid (Some kernel_stack) None user_tda
                    in (Ok tid, pm\<lparr>pm_tm := commit_next_tid (pm_tm pm) next_tid,
                                   pm_running := Some (add_thread p t)\<rparr>)))))"

definition pm_try_join_thread :: "pid \<Rightarrow> tid \<Rightarrow> 'v process_manager \<Rightarrow> join_result kres \<times> 'v process_manager" where
  "pm_try_join_thread pid tid pm =
    (let refuse = (\<lambda>why. (Ok (JoinError (Error OperationNotPermitted why)), pm))
     in case find_process pm pid of
       Ok (Running p) \<Rightarrow> (case try_join_thread p tid of (r, p) \<Rightarrow> (Ok r, pm\<lparr>pm_running := Some p\<rparr>))
     | Ok (Runnable _) \<Rightarrow> refuse ''process is runnable''
     | Ok (Sleeping _) \<Rightarrow> refuse ''process is sleeping''
     | Ok (InterruptedProcess _) \<Rightarrow> refuse ''process is interrupted''
     | Ok (Zombie _) \<Rightarrow> refuse ''process is a zombie''
     | Err e \<Rightarrow> (Ok (JoinError e), pm)
     | Panic \<Rightarrow> (Panic, pm))"

definition do_detach_thread :: "pid \<Rightarrow> tid \<Rightarrow> 'v process_manager \<Rightarrow> zombie_thread option kres \<times> 'v process_manager" where
  "do_detach_thread pid tid pm =
    (case find_process pm pid of
       Ok (Running p) \<Rightarrow> (case detach_thread p tid of (r, p) \<Rightarrow> (r, pm\<lparr>pm_running := Some p\<rparr>))
     | Ok _ \<Rightarrow> (fail OperationNotPermitted ''process is not running'', pm)
     | Err e \<Rightarrow> (Err e, pm)
     | Panic \<Rightarrow> (Panic, pm))"

definition pm_store_mutex_guard :: "addr \<Rightarrow> mutex_handle \<Rightarrow> 'v process_manager \<Rightarrow> unit kres \<times> 'v process_manager" where
  "pm_store_mutex_guard mutex_addr guard pm =
    (case get_running pm of
       Ok p \<Rightarrow> (Ok (), pm\<lparr>pm_running := Some (p\<lparr>rp_running := running_put_mutex_guard (rp_running p) mutex_addr guard\<rparr>)\<rparr>)
     | Err e \<Rightarrow> (Err e, pm)
     | Panic \<Rightarrow> (Panic, pm))"

text \<open>The number of references to the mutex, which decides whether its table entry goes, is a parameter of \<open>put_mutex\<close>.\<close>

definition pm_remove_mutex_guard ::
  "(mutex_handle \<Rightarrow> nat) \<Rightarrow> addr \<Rightarrow> 'v process_manager \<Rightarrow> mutex_handle kres \<times> 'v process_manager" where
  "pm_remove_mutex_guard reference_count mutex_addr pm =
    (case get_running pm of
       Err e \<Rightarrow> (Err e, pm)
     | Panic \<Rightarrow> (Panic, pm)
     | Ok p \<Rightarrow>
         (case running_take_mutex_guard (rp_running p) mutex_addr of
            (None, t) \<Rightarrow> (fail OperationNotPermitted ''thread does not own mutex'', pm\<lparr>pm_running := Some (p\<lparr>rp_running := t\<rparr>)\<rparr>)
          | (Some guard, t) \<Rightarrow>
              (case put_mutex reference_count (rp_state p) mutex_addr of
                 (r, ps) \<Rightarrow> (bind_res r (\<lambda>_. Ok guard), pm\<lparr>pm_running := Some (p\<lparr>rp_running := t, rp_state := ps\<rparr>)\<rparr>))))"

subsection \<open>Harvesting\<close>

text \<open>
  Unmapping the pages of a user stack is the business of the memory manager: the parameter
  \<open>unmap vmem base top\<close> is the address space that is left.
\<close>

definition thread_reaped :: "'v process_manager \<Rightarrow> unit kres \<times> 'v process_manager" where
  "thread_reaped pm = (case on_thread_reaped (pm_tm pm) of (r, tm) \<Rightarrow> (r, pm\<lparr>pm_tm := tm\<rparr>))"

definition harvest_zombie_thread ::
  "('v \<Rightarrow> addr \<Rightarrow> addr \<Rightarrow> 'v) \<Rightarrow> pid \<Rightarrow> zombie_thread \<Rightarrow> 'v process_manager \<Rightarrow> unit kres \<times> 'v process_manager" where
  "harvest_zombie_thread unmap pid z pm =
    (case zombie_harvest z of
       (Some _, Some us) \<Rightarrow>
         (case find_process pm pid of
            Ok _ \<Rightarrow> thread_reaped (update_process (\<lambda>ps. ps\<lparr>ps_vmem := unmap (ps_vmem ps) (us_base us) (us_top us)\<rparr>) pid pm)
          | Err _ \<Rightarrow> (Ok (), pm)
          | Panic \<Rightarrow> (Panic, pm))
     | _ \<Rightarrow> thread_reaped pm)"

fun harvest_all ::
  "('v \<Rightarrow> addr \<Rightarrow> addr \<Rightarrow> 'v) \<Rightarrow> (pid \<times> zombie_thread) list \<Rightarrow> 'v process_manager \<Rightarrow> unit kres \<times> 'v process_manager" where
  "harvest_all unmap [] pm = (Ok (), pm)"
| "harvest_all unmap ((pid, z) # zs) pm =
    (case harvest_zombie_thread unmap pid z pm of
       (Ok _, pm) \<Rightarrow> harvest_all unmap zs pm
     | res \<Rightarrow> res)"

definition reap_deferred :: "('v \<Rightarrow> addr \<Rightarrow> addr \<Rightarrow> 'v) \<Rightarrow> 'v process_manager \<Rightarrow> unit kres \<times> 'v process_manager" where
  "reap_deferred unmap pm = harvest_all unmap (pm_deferred_reap pm) (pm\<lparr>pm_deferred_reap := []\<rparr>)"

definition pop_zombie_process ::
  "'v process_manager \<Rightarrow> (zombie_thread list \<times> 'v process_state \<times> nat) option kres \<times> 'v process_manager" where
  "pop_zombie_process pm =
    (case pm_zombies pm of
       [] \<Rightarrow> (Ok None, pm)
     | z # zs \<Rightarrow>
         (let pm = pm\<lparr>pm_zombies := zs\<rparr>
          in if pm_live_count pm \<le> 1 then (Panic, pm)
             else (Ok (Some (ne_to_vec (zp_zombie z), zp_state z, zp_status z)),
                   pm\<lparr>pm_live_count := pm_live_count pm - 1\<rparr>)))"

text \<open>
  The loop of \<open>harvest_zombies\<close> over the threads of a dead process. What it unmaps belongs to an address space
  that is dropped with the process.
\<close>

fun reap_threads :: "zombie_thread list \<Rightarrow> 'v process_manager \<Rightarrow> unit kres \<times> 'v process_manager" where
  "reap_threads [] pm = (Ok (), pm)"
| "reap_threads (z # zs) pm =
    (case thread_reaped pm of (Ok _, pm) \<Rightarrow> reap_threads zs pm | res \<Rightarrow> res)"

definition harvest_zombies :: "'v process_manager \<Rightarrow> (pid \<times> nat) option kres \<times> 'v process_manager" where
  "harvest_zombies pm =
    (case pop_zombie_process pm of
       (Ok None, pm) \<Rightarrow> (Ok None, pm)
     | (Ok (Some (zs, ps, st)), pm) \<Rightarrow>
         (case reap_threads zs pm of (r, pm) \<Rightarrow> (bind_res r (\<lambda>_. Ok (Some (ps_pid ps, st))), pm))
     | (Err e, pm) \<Rightarrow> (Err e, pm)
     | (Panic, pm) \<Rightarrow> (Panic, pm))"

text \<open>
  One turn of the loop of \<open>join_thread\<close>: it ends with the exit status or an error, or blocks on the condition
  variable of the thread and is repeated when that wakes it up.
\<close>

definition join_attempt ::
  "('v \<Rightarrow> addr \<Rightarrow> addr \<Rightarrow> 'v) \<Rightarrow> pid \<Rightarrow> tid \<Rightarrow> 'v process_manager \<Rightarrow> nat outcome \<times> 'v process_manager" where
  "join_attempt unmap pid tid pm =
    (case pm_try_join_thread pid tid pm of
       (Ok (Joined z), pm) \<Rightarrow>
         (case harvest_zombie_thread unmap pid z pm of
            (Ok _, pm) \<Rightarrow> (Done (Ok (zb_status z)), pm)
          | (Err e, pm) \<Rightarrow> (Done (Err (Generic e)), pm)
          | (Panic, pm) \<Rightarrow> (Done Panic, pm))
     | (Ok (JoinWait _), pm) \<Rightarrow> (Blocked, pm)
     | (Ok (JoinError e), pm) \<Rightarrow> (Done (Err (Generic e)), pm)
     | (Err e, pm) \<Rightarrow> (Done (Err (Generic e)), pm)
     | (Panic, pm) \<Rightarrow> (Done Panic, pm))"

definition join_thread ::
  "('v \<Rightarrow> addr \<Rightarrow> addr \<Rightarrow> 'v) \<Rightarrow> pid \<Rightarrow> tid \<Rightarrow> 'v process_manager \<Rightarrow> nat outcome \<times> 'v process_manager" where
  "join_thread unmap pid tid pm =
    (case reap_deferred unmap pm of
       (Ok _, pm) \<Rightarrow> join_attempt unmap pid tid pm
     | (Err e, pm) \<Rightarrow> (Done (Err (Generic e)), pm)
     | (Panic, pm) \<Rightarrow> (Done Panic, pm))"

definition pm_detach_thread ::
  "('v \<Rightarrow> addr \<Rightarrow> addr \<Rightarrow> 'v) \<Rightarrow> pid \<Rightarrow> tid \<Rightarrow> 'v process_manager \<Rightarrow> unit kres \<times> 'v process_manager" where
  "pm_detach_thread unmap pid tid pm =
    (case reap_deferred unmap pm of
       (Ok _, pm) \<Rightarrow>
         (case do_detach_thread pid tid pm of
            (Ok (Some z), pm) \<Rightarrow> harvest_zombie_thread unmap pid z pm
          | (Ok None, pm) \<Rightarrow> (Ok (), pm)
          | (Err e, pm) \<Rightarrow> (Err e, pm)
          | (Panic, pm) \<Rightarrow> (Panic, pm))
     | res \<Rightarrow> res)"

subsection \<open>Specification\<close>

text \<open>
  The system as a multiset of processes, each of which moves by the transitions of a process on its
  own. What a scheduler operation does to the queues is a sequence of such moves.
\<close>

definition running_list :: "'v process_manager \<Rightarrow> 'v running_process list" where
  "running_list pm = (case pm_running pm of Some p \<Rightarrow> [p] | None \<Rightarrow> [])"

definition processes :: "'v process_manager \<Rightarrow> 'v process_ref multiset" where
  "processes pm =
    mset (map Running (running_list pm)) + mset (map Runnable (pm_ready pm)) +
    mset (map Sleeping (pm_suspended pm)) + mset (map InterruptedProcess (pm_interrupted pm)) +
    mset (map Zombie (pm_zombies pm))"

inductive system_steps ::
  "'v process_ref multiset \<Rightarrow> zombie_thread list \<Rightarrow> 'v process_ref multiset \<Rightarrow> bool" where
  sys_none: "system_steps M [] M"
| sys_more: "system_steps M reaped (add_mset p N) \<Longrightarrow> process_step p [] reaped' q \<Longrightarrow>
    system_steps M (reaped @ reaped') (add_mset q N)"

definition process_pid :: "'v process_ref \<Rightarrow> pid" where
  "process_pid p = ps_pid (process_ref_state p)"

definition system_tids :: "'v process_ref multiset \<Rightarrow> tid multiset" where
  "system_tids M = sum_mset (image_mset tids M)"

text \<open>
  One operation of the scheduler, on the pending rendezvous requests and the process manager, that
  returns to its caller; a rendezvous changes the requests, and wakes up threads by a step of its own.
\<close>

inductive sched_step ::
  "pending_lists \<times> 'v process_manager \<Rightarrow> pending_lists \<times> 'v process_manager \<Rightarrow> bool" where
  sc_schedule: "schedule now pm = (Ok r, pm') \<Longrightarrow> sched_step (pl, pm) (pl, pm')"
| sc_sleep: "do_sleep now alarm pm = (Ok r, pm') \<Longrightarrow> sched_step (pl, pm) (pl, pm')"
| sc_wakeup: "do_wakeup now tid pm = (r, pm') \<Longrightarrow> r \<noteq> Panic \<Longrightarrow> sched_step (pl, pm) (pl, pm')"
| sc_exit: "do_exit now st pl pm = (Ok r, pl', pm') \<Longrightarrow> sched_step (pl, pm) (pl', pm')"
| sc_exit_thread: "do_exit_thread now st pm = (Ok r, pm') \<Longrightarrow> sched_step (pl, pm) (pl, pm')"
| sc_terminate: "terminate now pid pl pm = (r, pl', pm') \<Longrightarrow> r \<noteq> Panic \<Longrightarrow> sched_step (pl, pm) (pl', pm')"
| sc_rendezvous: "rendezvous_step (copy :: 'v process_manager \<Rightarrow> _) wakeup pl pl' \<Longrightarrow> sched_step (pl, pm) (pl', pm)"

section \<open>Lemmas\<close>

lemma running_list_simps [simp]:
  "pm_running pm = None \<Longrightarrow> running_list pm = []" "pm_running pm = Some p \<Longrightarrow> running_list pm = [p]"
  "running_list (pm\<lparr>pm_ready := x1\<rparr>) = running_list pm" "running_list (pm\<lparr>pm_suspended := x2\<rparr>) = running_list pm"
  "running_list (pm\<lparr>pm_interrupted := x3\<rparr>) = running_list pm" "running_list (pm\<lparr>pm_zombies := x4\<rparr>) = running_list pm"
  "running_list (pm\<lparr>pm_deferred_reap := x5\<rparr>) = running_list pm"
  "running_list (pm\<lparr>pm_interrupt_reason := x6\<rparr>) = running_list pm"
  "running_list (pm\<lparr>pm_running := x7\<rparr>) = (case x7 of Some p \<Rightarrow> [p] | None \<Rightarrow> [])"
  by (simp_all add: running_list_def)

lemma processes_deferred [simp]: "processes (pm\<lparr>pm_deferred_reap := x\<rparr>) = processes pm"
  by (simp add: processes_def)

lemma sys_one: "process_step p [] reaped q \<Longrightarrow> system_steps (add_mset p N) reaped (add_mset q N)"
  using sys_more [OF sys_none] by fastforce

lemma sys_trans:
  assumes "system_steps N reaped' L" "system_steps M reaped N"
  shows "system_steps M (reaped @ reaped') L"
  using assms
proof (induction rule: system_steps.induct)
  case (sys_more M' rs p N' r q)
  then have "system_steps M (reaped @ rs) (add_mset p N')" by simp
  from system_steps.sys_more [OF this sys_more(2)] show ?case by simp
qed simp

lemma sys_quiet: "system_steps M [] N \<Longrightarrow> system_steps N [] L \<Longrightarrow> system_steps M [] L"
  using sys_trans [of N "[]" L M "[]"] by simp

lemma sys_map:
  assumes "\<And>p. process_step (f p) [] [] (g p)"
  shows "system_steps (mset (map f ps) + N) [] (mset (map g ps) + N)"
proof (induction ps arbitrary: N)
  case (Cons p ps)
  have "system_steps (mset (map f ps) + add_mset (f p) N) [] (mset (map g ps) + add_mset (f p) N)"
    by (rule Cons.IH)
  moreover have "system_steps (mset (map g ps) + add_mset (f p) N) [] (mset (map g ps) + add_mset (g p) N)"
    using sys_one [OF assms [of p]] by simp
  ultimately show ?case using sys_quiet by fastforce
qed (simp add: sys_none)

lemma system_steps_conserve:
  assumes "system_steps M reaped N"
  shows "system_tids M = system_tids N + zombie_tids reaped \<and>
    image_mset process_pid M = image_mset process_pid N"
  using assms
proof (induction rule: system_steps.induct)
  case (sys_more M rs p N r q)
  from step_conserves [OF sys_more(2)] sys_more(3) show ?case
    by (simp add: system_tids_def process_pid_def zombie_tids_def ac_simps)
qed (simp add: zombie_tids_def)

subsection \<open>Selection\<close>

lemma earliest_scan_result:
  assumes "i < length ps" "t = earliest_admission_time now (ps ! i)"
    "\<forall>j<n. earliest_admission_time now (ps ! j) \<ge> t \<and> (j < i \<longrightarrow> earliest_admission_time now (ps ! j) > t)"
    "n \<le> length ps" "i \<le> n"
    "earliest_scan now n (drop n ps) (i, t) = (i', t')"
  shows "i' < length ps \<and> t' = earliest_admission_time now (ps ! i') \<and>
    (\<forall>j<length ps. earliest_admission_time now (ps ! j) \<ge> t' \<and>
      (j < i' \<longrightarrow> earliest_admission_time now (ps ! j) > t'))"
  using assms
proof (induction "length ps - n" arbitrary: n i t)
  case 0
  then show ?case by auto
next
  case (Suc k)
  then have n: "n < length ps" by simp
  then have d: "drop n ps = ps ! n # drop (Suc n) ps" by (simp add: Cons_nth_drop_Suc)
  let ?a = "earliest_admission_time now (ps ! n)"
  show ?case
  proof (cases "?a < t")
    case True
    show ?thesis
      by (rule Suc.hyps(1) [of "Suc n" n ?a]) (use Suc n d True in \<open>auto simp: less_Suc_eq intro: order.strict_trans2\<close>)
  next
    case False
    show ?thesis
      by (rule Suc.hyps(1) [of "Suc n" i t]) (use Suc n d False in \<open>auto simp: less_Suc_eq\<close>)
  qed
qed

lemma take_earliest_ready_result:
  assumes "pm_ready pm \<noteq> []"
  shows "\<exists>p rest. take_earliest_ready now pm = (Ok p, pm\<lparr>pm_ready := rest\<rparr>) \<and>
    min_split (earliest_admission_time now) (pm_ready pm) rest p"
proof -
  let ?ps = "pm_ready pm" and ?k = "earliest_admission_time now"
  obtain q qs where q: "?ps = q # qs" using assms by (cases ?ps) auto
  obtain i t where e: "earliest_scan now 0 ?ps (0, ?k q) = (i, t)" by fastforce
  have i: "i < length ?ps \<and> t = ?k (?ps ! i) \<and> (\<forall>j<length ?ps. ?k (?ps ! j) \<ge> t \<and> (j < i \<longrightarrow> ?k (?ps ! j) > t))"
    by (rule earliest_scan_result [of 0 ?ps "?k q" now 0]) (use e q in auto)
  have "min_split ?k ?ps (take i ?ps @ drop (Suc i) ?ps) (?ps ! i)"
    unfolding min_split_def
  proof (intro exI conjI)
    show "?ps = take i ?ps @ ?ps ! i # drop (Suc i) ?ps" using i by (simp add: id_take_nth_drop)
    show "\<forall>y\<in>set (take i ?ps). ?k (?ps ! i) < ?k y" using i by (auto simp: in_set_conv_nth)
    show "\<forall>y\<in>set (drop (Suc i) ?ps). ?k (?ps ! i) \<le> ?k y" using i by (auto simp: in_set_conv_nth)
  qed simp
  moreover have "take_earliest_ready now pm = (Ok (?ps ! i), pm\<lparr>pm_ready := take i ?ps @ drop (Suc i) ?ps\<rparr>)"
    using e i by (simp add: take_earliest_ready_def q list_remove_def split: prod.splits)
  ultimately show ?thesis by blast
qed

text \<open>What \<open>dispatch\<close> does when a process is ready.\<close>

lemma dispatch_result:
  assumes "pm_ready pm \<noteq> []"
  obtains p rest where "min_split (earliest_admission_time now) (pm_ready pm) rest p"
    "dispatch now ctx pm =
      (Ok (ps_pid (rb_state p), get_tid (fst (process_run p)), ctx, fst (snd (snd (process_run p))),
           snd (snd (snd (process_run p)))),
       pm\<lparr>pm_ready := rest, pm_interrupt_reason := fst (snd (process_run p)),
          pm_running := Some (fst (process_run p))\<rparr>)"
proof -
  from take_earliest_ready_result [OF assms, of now] obtain p rest where
      "take_earliest_ready now pm = (Ok p, pm\<lparr>pm_ready := rest\<rparr>)"
      "min_split (earliest_admission_time now) (pm_ready pm) rest p" by blast
  with that [of rest p] show ?thesis
    using run_conserves(2) [of p] by (cases "process_run p") (simp add: dispatch_def)
qed

lemma dispatch_Ok:
  assumes "dispatch now ctx pm = (Ok r, pm')"
  shows "pm_ready pm \<noteq> []"
  using assms by (auto simp: dispatch_def take_earliest_ready_def)

lemma dispatch_state:
  assumes "dispatch now ctx pm = (Ok r, pm')"
  obtains p rest where "min_split (earliest_admission_time now) (pm_ready pm) rest p"
    "pm' = pm\<lparr>pm_ready := rest, pm_interrupt_reason := fst (snd (process_run p)),
      pm_running := Some (fst (process_run p))\<rparr>"
  using dispatch_result [OF dispatch_Ok [OF assms], of now ctx] assms by (metis prod.inject)

lemma dispatch_frame:
  assumes "dispatch now ctx pm = (Ok r, pm')"
  shows "pm_suspended pm' = pm_suspended pm" "pm_interrupted pm' = pm_interrupted pm"
    "pm_zombies pm' = pm_zombies pm" "pm_deferred_reap pm' = pm_deferred_reap pm" "pm_running pm' \<noteq> None"
proof -
  obtain p rest where d: "pm' = pm\<lparr>pm_ready := rest, pm_interrupt_reason := fst (snd (process_run p)),
      pm_running := Some (fst (process_run p))\<rparr>"
    using dispatch_state [OF assms] by blast
  show "pm_suspended pm' = pm_suspended pm" "pm_interrupted pm' = pm_interrupted pm"
    "pm_zombies pm' = pm_zombies pm" "pm_deferred_reap pm' = pm_deferred_reap pm" "pm_running pm' \<noteq> None"
    by (simp_all add: d)
qed

lemma dispatch_refines:
  assumes "dispatch now ctx pm = (Ok r, pm')" "pm_running pm = None"
  shows "system_steps (processes pm) [] (processes pm')"
proof -
  obtain p rest where m: "min_split (earliest_admission_time now) (pm_ready pm) rest p"
    and d: "pm' = pm\<lparr>pm_ready := rest, pm_interrupt_reason := fst (snd (process_run p)),
          pm_running := Some (fst (process_run p))\<rparr>"
    by (rule dispatch_state [OF assms(1)])
  let ?N = "mset (map Runnable rest) + mset (map Sleeping (pm_suspended pm)) +
    mset (map InterruptedProcess (pm_interrupted pm)) + mset (map Zombie (pm_zombies pm))"
  have "processes pm = add_mset (Runnable p) ?N"
    using assms(2) min_split_mset [OF m] by (simp add: processes_def)
  moreover have "processes pm' = add_mset (Running (fst (process_run p))) ?N"
    by (simp add: d processes_def)
  ultimately show ?thesis using sys_one [OF ps_run] by metis
qed

subsection \<open>Operations as sequences of process transitions\<close>

lemma alarm_scan_refines:
  assumes "alarm_scan now ps interrupted suspended = (interrupted', suspended')"
  shows "system_steps
    (mset (map Sleeping ps) + mset (map InterruptedProcess interrupted) + mset (map Sleeping suspended) + N) []
    (mset (map InterruptedProcess interrupted') + mset (map Sleeping suspended') + N)"
  using assms
proof (induction ps arbitrary: interrupted suspended)
  case (Cons p ps)
  let ?R = "\<lambda>i s. mset (map Sleeping ps) + mset (map InterruptedProcess i) + mset (map Sleeping s) + N"
  let ?q = "case wakeup_alarm p now of Inl q \<Rightarrow> Sleeping q | Inr q \<Rightarrow> InterruptedProcess q"
  have "system_steps (add_mset (Sleeping p) (?R interrupted suspended)) [] (add_mset ?q (?R interrupted suspended))"
    by (rule sys_one [OF ps_alarm])
  moreover have "system_steps (add_mset ?q (?R interrupted suspended)) []
      (mset (map InterruptedProcess interrupted') + mset (map Sleeping suspended') + N)"
    using Cons.IH Cons.prems by (cases "wakeup_alarm p now") fastforce+
  ultimately show ?case using sys_quiet by fastforce
qed (simp add: sys_none)

lemma check_alarm_refines: "system_steps (processes pm) [] (processes (check_alarm now pm))"
proof -
  obtain i s where e: "alarm_scan now (pm_suspended pm) (pm_interrupted pm) [] = (i, s)" by fastforce
  from alarm_scan_refines [OF e, of "mset (map Running (running_list pm)) + mset (map Runnable (pm_ready pm)) +
      mset (map Zombie (pm_zombies pm))"]
  show ?thesis by (simp add: check_alarm_def e processes_def ac_simps)
qed

lemma resume_scan_map: "resume_scan now ps ready = ready @ map (process_resume now) ps"
  by (induction ps arbitrary: ready) simp_all

lemma resume_refines:
  "system_steps (processes pm) []
    (processes (pm\<lparr>pm_ready := resume_scan now (pm_interrupted pm) (pm_ready pm), pm_interrupted := []\<rparr>))"
  using sys_map [where f = InterruptedProcess and g = "\<lambda>p. Runnable (process_resume now p)" and
      ps = "pm_interrupted pm" and N = "mset (map Running (running_list pm)) +
        mset (map Runnable (pm_ready pm)) + mset (map Sleeping (pm_suspended pm)) + mset (map Zombie (pm_zombies pm))",
      OF ps_resume]
  by (simp add: processes_def resume_scan_map ac_simps comp_def)

lemma schedule_refines:
  assumes "schedule now pm = (Ok r, pm')"
  shows "system_steps (processes pm) [] (processes pm') \<and> pm_deferred_reap pm' = pm_deferred_reap pm"
proof -
  obtain p where p: "pm_running pm = Some p"
    using assms by (auto simp: schedule_def take_running_def split: option.splits)
  obtain q ctx where q: "process_schedule now p = (q, ctx)" by fastforce
  let ?a = "pm\<lparr>pm_running := None, pm_ready := pm_ready pm @ [q]\<rparr>"
  let ?b = "check_alarm now ?a"
  let ?c = "?b\<lparr>pm_ready := resume_scan now (pm_interrupted ?b) (pm_ready ?b), pm_interrupted := []\<rparr>"
  have d: "dispatch now ctx ?c = (Ok r, pm')"
    using assms by (simp add: schedule_def take_running_def p q Let_def)
  have "system_steps (processes pm) [] (processes ?a)"
    using sys_one [OF ps_schedule [of p now]] p q by (simp add: processes_def)
  moreover have "system_steps (processes ?a) [] (processes ?b)" by (rule check_alarm_refines)
  moreover have "system_steps (processes ?b) [] (processes ?c)" by (rule resume_refines)
  moreover have "system_steps (processes ?c) [] (processes pm')"
    by (rule dispatch_refines [OF d]) (simp add: check_alarm_def split: prod.splits)
  moreover have "pm_deferred_reap pm' = pm_deferred_reap pm"
    using dispatch_frame(4) [OF d] by (simp add: check_alarm_def split: prod.splits)
  ultimately show ?thesis using sys_quiet by blast
qed

lemma do_sleep_refines:
  assumes "do_sleep now alarm pm = (Ok r, pm')"
  shows "system_steps (processes pm) [] (processes pm') \<and> pm_deferred_reap pm' = pm_deferred_reap pm"
proof -
  obtain p where p: "pm_running pm = Some p" and k: "ps_pid (rp_state p) \<noteq> KERNEL"
    using assms by (auto simp: do_sleep_def take_running_def split: option.splits if_splits)
  show ?thesis
  proof (cases "process_sleep now p alarm")
    case (Inl x)
    obtain q ctx where x: "x = (q, ctx)" by fastforce
    let ?a = "pm\<lparr>pm_running := None, pm_suspended := pm_suspended pm @ [q]\<rparr>"
    have "system_steps (processes pm) [] (processes ?a)"
      using sys_one [OF ps_sleep [of p now alarm]] p Inl x by (simp add: processes_def)
    moreover have d: "dispatch now ctx ?a = (Ok r, pm')"
      using assms p k Inl x by (simp add: do_sleep_def take_running_def)
    ultimately show ?thesis using sys_quiet [OF _ dispatch_refines [OF d]] dispatch_frame(4) [OF d] by simp
  next
    case (Inr x)
    obtain q ctx where x: "x = (q, ctx)" by fastforce
    let ?a = "pm\<lparr>pm_running := None, pm_ready := pm_ready pm @ [q]\<rparr>"
    have "system_steps (processes pm) [] (processes ?a)"
      using sys_one [OF ps_sleep [of p now alarm]] p Inr x by (simp add: processes_def)
    moreover have d: "dispatch now ctx ?a = (Ok r, pm')"
      using assms p k Inr x by (simp add: do_sleep_def take_running_def)
    ultimately show ?thesis using sys_quiet [OF _ dispatch_refines [OF d]] dispatch_frame(4) [OF d] by simp
  qed
qed

lemma wakeup_scan_result:
  assumes "wakeup_scan has wake skipped ps = (r, out)" "\<And>p q. wake p = Inl q \<Longrightarrow> q = p"
  shows "case r of
      Some (Some q) \<Rightarrow> \<exists>p pre post. skipped @ ps = pre @ p # post \<and> out = pre @ post \<and> has p \<and> wake p = Inr q
    | _ \<Rightarrow> out = skipped @ ps"
  using assms
proof (induction ps arbitrary: skipped)
  case (Cons p ps)
  show ?case
  proof (cases "has p")
    case True
    show ?thesis
    proof (cases "wake p")
      case (Inr q)
      then have "r = Some (Some q)" "out = skipped @ ps" using True Cons.prems(1) by simp_all
      then show ?thesis using True Inr by auto
    qed (use True Cons.prems in auto)
  next
    case False
    then show ?thesis
      using Cons.IH [of "skipped @ [p]", unfolded append_assoc append_Cons append_Nil] Cons.prems by simp
  qed
qed simp

lemma wake_same:
  "sleeping_process_wakeup now p tid = Inl q \<Longrightarrow> q = p" "runnable_wakeup now r tid = Inl s \<Longrightarrow> s = r"
  using sleeping_wakeup_conserves [where now = now and p = p and tid = tid]
    runnable_wakeup_conserves [where now = now and p = r and tid = tid] by simp_all

lemma try_wakeup_cases:
  assumes "try_wakeup now tid pm = (r, pm')"
  shows "r = None \<and> pm' = pm \<or>
    (\<exists>q p pre post. r = Some q \<and> pm_suspended pm = pre @ p # post \<and> sleeping_process_wakeup now p tid = Inr q \<and>
       pm' = pm\<lparr>pm_suspended := pre @ post\<rparr>) \<or>
    (\<exists>q p pre post. r = Some q \<and> pm_ready pm = pre @ p # post \<and> runnable_wakeup now p tid = Inr q \<and>
       pm' = pm\<lparr>pm_ready := pre @ post\<rparr>)"
proof -
  obtain x ss where s: "wakeup_scan (\<lambda>p. sleeping_find_thread p tid \<noteq> None)
      (\<lambda>p. sleeping_process_wakeup now p tid) [] (pm_suspended pm) = (x, ss)" by fastforce
  obtain y rs where rd: "wakeup_scan (\<lambda>p. runnable_find_thread p tid \<noteq> None)
      (\<lambda>p. runnable_wakeup now p tid) [] (pm_ready pm) = (y, rs)" by fastforce
  note w = wakeup_scan_result [OF s wake_same(1) [where now = now and tid = tid]]
    wakeup_scan_result [OF rd wake_same(2) [where now = now and tid = tid]]
  show ?thesis
  proof (cases x)
    case None
    then have e: "pm\<lparr>pm_suspended := ss\<rparr> = pm" using w(1) by simp
    have "try_wakeup now tid pm = (case y of Some r \<Rightarrow> (r, pm\<lparr>pm_ready := rs\<rparr>) | None \<Rightarrow> (None, pm\<lparr>pm_ready := rs\<rparr>))"
      unfolding try_wakeup_def s prod.case None option.case e Let_def rd by (simp split: option.splits)
    then show ?thesis using w(2) assms by (cases y) (fastforce split: option.splits)+
  next
    case (Some z)
    then have "try_wakeup now tid pm = (z, pm\<lparr>pm_suspended := ss\<rparr>)"
      unfolding try_wakeup_def s prod.case by simp
    then show ?thesis using w(1) assms Some by (cases z) fastforce+
  qed
qed

lemma do_wakeup_refines:
  assumes "do_wakeup now tid pm = (r, pm')" "r \<noteq> Panic"
  shows "system_steps (processes pm) [] (processes pm')"
proof -
  obtain p where p: "pm_running pm = Some p"
    using assms by (auto simp: do_wakeup_def split: option.splits)
  have same: "pm\<lparr>pm_running := Some p\<rparr> = pm" using p by simp
  show ?thesis
  proof (cases "running_find_thread p tid = None")
    case False
    then have "pm' = pm\<lparr>pm_running := Some (case running_wakeup now p tid of Inl q \<Rightarrow> q | Inr q \<Rightarrow> q)\<rparr>"
      using assms p by (auto simp: do_wakeup_def split: sum.splits)
    then show ?thesis using sys_one [OF ps_wakeup_running [of p now tid]] p by (simp add: processes_def)
  next
    case True
    obtain x pm2 where t: "try_wakeup now tid pm = (x, pm2)" by fastforce
    have d: "pm' = (case x of Some q \<Rightarrow> pm2\<lparr>pm_ready := pm_ready pm2 @ [q]\<rparr> | None \<Rightarrow> pm2)"
      using assms p True t by (auto simp: do_wakeup_def split: option.splits)
    from try_wakeup_cases [OF t] consider "x = None" "pm2 = pm"
      | q s pre post where "x = Some q" "pm_suspended pm = pre @ s # post"
          "sleeping_process_wakeup now s tid = Inr q" "pm2 = pm\<lparr>pm_suspended := pre @ post\<rparr>"
      | q s pre post where "x = Some q" "pm_ready pm = pre @ s # post"
          "runnable_wakeup now s tid = Inr q" "pm2 = pm\<lparr>pm_ready := pre @ post\<rparr>" by blast
    then show ?thesis
    proof cases
      case 2
      then show ?thesis using sys_one [OF ps_wakeup_sleeping [of s now tid]] d by (simp add: processes_def)
    next
      case 3
      then show ?thesis using sys_one [OF ps_wakeup_runnable [of s now tid]] d by (simp add: processes_def)
    qed (simp add: d sys_none)
  qed
qed

lemma wake_orphans_refines:
  assumes "wake_orphans now ts pm = (Ok u, pm')"
  shows "system_steps (processes pm) [] (processes pm')"
  using assms
proof (induction ts arbitrary: pm)
  case (Cons tid ts)
  obtain r pm2 where w: "do_wakeup now tid pm = (r, pm2)" by fastforce
  then have "r \<noteq> Panic" "wake_orphans now ts pm2 = (Ok u, pm')" using Cons.prems by (cases r; simp)+
  then show ?case using Cons.IH do_wakeup_refines [OF w] sys_quiet by blast
qed (simp add: sys_none)

text \<open>Waking up keeps the other parts of the process manager.\<close>

lemma try_wakeup_frame:
  assumes "try_wakeup now tid pm = (r, pm')"
  shows "pm_running pm' = pm_running pm" "pm_interrupted pm' = pm_interrupted pm"
    "pm_zombies pm' = pm_zombies pm" "pm_deferred_reap pm' = pm_deferred_reap pm"
    "pm_live_count pm' = pm_live_count pm" "pm_next_pid pm' = pm_next_pid pm" "pm_tm pm' = pm_tm pm"
  using try_wakeup_cases [OF assms] by auto

lemma do_wakeup_frame:
  assumes "do_wakeup now tid pm = (r, pm')"
  shows "pm_running pm' = None \<longleftrightarrow> pm_running pm = None" "pm_deferred_reap pm' = pm_deferred_reap pm"
    "r = Panic \<longleftrightarrow> pm_running pm = None"
proof -
  obtain x pm2 where t: "try_wakeup now tid pm = (x, pm2)" by fastforce
  note f = try_wakeup_frame [OF t]
  show "pm_running pm' = None \<longleftrightarrow> pm_running pm = None" "pm_deferred_reap pm' = pm_deferred_reap pm"
    "r = Panic \<longleftrightarrow> pm_running pm = None"
    using assms f by (auto simp: do_wakeup_def t fail_def split: option.splits if_splits sum.splits)
qed

lemma wake_orphans_frame:
  assumes "wake_orphans now ts pm = (r, pm')"
  shows "(pm_running pm' = None \<longleftrightarrow> pm_running pm = None) \<and> pm_deferred_reap pm' = pm_deferred_reap pm \<and>
    r = (if pm_running pm = None \<and> ts \<noteq> [] then Panic else Ok ())"
  using assms
proof (induction ts arbitrary: pm)
  case (Cons tid ts)
  obtain s pm2 where w: "do_wakeup now tid pm = (s, pm2)" by fastforce
  have e: "(r, pm') = (if s = Panic then (Panic, pm2) else wake_orphans now ts pm2)"
    using Cons.prems w by (cases s) simp_all
  show ?case
  proof (cases "s = Panic")
    case False
    then have "wake_orphans now ts pm2 = (r, pm')" using e by simp
    from Cons.IH [OF this] show ?thesis using do_wakeup_frame [OF w] False by auto
  qed (use e do_wakeup_frame [OF w] in simp)
qed simp

lemma cleanup_rendezvous_result:
  "fst (cleanup_rendezvous now pid pl pm) =
    (if pm_running pm = None \<and> fst (cleanup_process pl pid) \<noteq> [] then Panic else Ok ())"
proof -
  obtain ts pl2 where c: "cleanup_process pl pid = (ts, pl2)" by fastforce
  obtain r pm2 where w: "wake_orphans now ts pm = (r, pm2)" by fastforce
  show ?thesis using wake_orphans_frame [OF w] by (simp add: cleanup_rendezvous_def c w)
qed

lemma cleanup_rendezvous_refines:
  assumes "cleanup_rendezvous now pid pl pm = (Ok u, pl', pm')"
  shows "system_steps (processes pm) [] (processes pm')" "pm_deferred_reap pm' = pm_deferred_reap pm"
    "pm_running pm' = None \<longleftrightarrow> pm_running pm = None"
  using assms wake_orphans_refines wake_orphans_frame
  by (auto simp: cleanup_rendezvous_def split: prod.splits) blast+

lemma cleanup_rendezvous_stopped:
  assumes "cleanup_rendezvous now pid pl pm = (Ok u, pl', pm')" "pm_running pm = None"
  shows "pm' = pm" "fst (cleanup_process pl pid) = []" "pl' = snd (cleanup_process pl pid)"
proof -
  obtain ts pl2 where c: "cleanup_process pl pid = (ts, pl2)" by fastforce
  obtain r pm2 where w: "wake_orphans now ts pm = (r, pm2)" by fastforce
  have e: "r = Ok u" "pl' = pl2" "pm' = pm2" using assms(1) by (auto simp: cleanup_rendezvous_def c w)
  then have "ts = []" using wake_orphans_frame [OF w] assms(2) by (auto split: if_splits)
  then show "pm' = pm" "fst (cleanup_process pl pid) = []" "pl' = snd (cleanup_process pl pid)"
    using w e c by simp_all
qed

lemma do_exit_refines:
  assumes "do_exit now st pl pm = (Ok r, pl', pm')"
  shows "system_steps (processes pm) [] (processes pm') \<and> pm_deferred_reap pm' = pm_deferred_reap pm"
proof -
  obtain p where p: "pm_running pm = Some p" and k: "ps_pid (rp_state p) \<noteq> KERNEL"
    using assms by (auto simp: do_exit_def take_running_def split: option.splits if_splits)
  let ?a = "pm\<lparr>pm_running := None\<rparr>"
  obtain c pl2 pm2 where cr: "cleanup_rendezvous now (ps_pid (rp_state p)) pl ?a = (c, pl2, pm2)"
    by (cases "cleanup_rendezvous now (ps_pid (rp_state p)) pl ?a") auto
  then have c: "c = Ok ()" using assms p k by (cases c) (simp_all add: do_exit_def take_running_def)
  have a: "pm2 = ?a" using cleanup_rendezvous_stopped(1) cr c by fastforce
  show ?thesis
  proof (cases "process_exit now p st")
    case (Inl x)
    obtain q ctx where x: "x = (q, ctx)" by fastforce
    let ?b = "?a\<lparr>pm_zombies := pm_zombies pm @ [q]\<rparr>"
    have d: "dispatch now ctx ?b = (Ok r, pm')"
      using assms p k cr c a Inl x by (auto simp: do_exit_def take_running_def split: prod.splits)
    have "system_steps (processes pm) [] (processes ?b)"
      using sys_one [OF ps_exit [of p now st]] p Inl x by (simp add: processes_def)
    from sys_quiet [OF this dispatch_refines [OF d]] dispatch_frame [OF d] show ?thesis by simp
  next
    case (Inr x)
    obtain q ctx where x: "x = (q, ctx)" by fastforce
    let ?b = "?a\<lparr>pm_ready := pm_ready pm @ [q]\<rparr>"
    have d: "dispatch now ctx ?b = (Ok r, pm')"
      using assms p k cr c a Inr x by (auto simp: do_exit_def take_running_def split: prod.splits)
    have "system_steps (processes pm) [] (processes ?b)"
      using sys_one [OF ps_exit [of p now st]] p Inr x by (simp add: processes_def)
    from sys_quiet [OF this dispatch_refines [OF d]] dispatch_frame [OF d] show ?thesis by simp
  qed
qed

text \<open>The state in which \<open>do_exit_thread\<close> selects the next process.\<close>

lemma do_exit_thread_state:
  assumes "do_exit_thread now st pm = (Ok (cond, r), pm')" "pm_running pm = Some p"
    "ps_pid (rp_state p) \<noteq> KERNEL"
  shows "\<exists>o' dz ctx b. process_exit_thread now p st = Ok (o', dz) \<and> dispatch now ctx b = (Ok r, pm') \<and>
    pm_running b = None \<and>
    pm_ready b = (case o' of ExitRunnable _ q _ \<Rightarrow> pm_ready pm @ [q] | _ \<Rightarrow> pm_ready pm) \<and>
    (\<forall>N. processes pm = add_mset (Running p) N \<longrightarrow> processes b = add_mset (outcome_process o') N) \<and>
    map snd (pm_deferred_reap b) =
      map snd (pm_deferred_reap pm) @ (case dz of Some z \<Rightarrow> [z] | None \<Rightarrow> [])"
proof -
  obtain o' dz where e: "process_exit_thread now p st = Ok (o', dz)"
    using exit_thread_conserves [where now = now and p = p and st = st]
    by (cases "process_exit_thread now p st") auto
  let ?a = "pm\<lparr>pm_running := None\<rparr>"
  define b where "b = (case o' of
      ExitRunnable cond q ctx \<Rightarrow> defer_reap (ps_pid (rb_state q)) dz (?a\<lparr>pm_ready := pm_ready pm @ [q]\<rparr>)
    | ExitSleeping cond q ctx \<Rightarrow> defer_reap (ps_pid (sp_state q)) dz (?a\<lparr>pm_suspended := pm_suspended pm @ [q]\<rparr>)
    | ExitZombie cond q ctx \<Rightarrow> ?a\<lparr>pm_zombies := pm_zombies pm @ [q]\<rparr>)"
  have z: "dz = None" if "o' = ExitZombie cond q ctx" for cond q ctx
    using e that
    by (auto simp: process_exit_thread_def Let_def thread_ops split: option.splits if_splits prod.splits)
  obtain ctx where d: "dispatch now ctx b = (Ok r, pm')"
    using assms e
    by (cases o') (auto simp: do_exit_thread_def take_running_def b_def Let_def split: prod.splits)
  have "\<forall>N. processes pm = add_mset (Running p) N \<longrightarrow> processes b = add_mset (outcome_process o') N"
    using assms(2) by (cases o') (auto simp: processes_def b_def defer_reap_def split: option.splits)
  moreover have "pm_running b = None \<and> map snd (pm_deferred_reap b) =
      map snd (pm_deferred_reap pm) @ (case dz of Some z \<Rightarrow> [z] | None \<Rightarrow> [])"
    using z by (cases o'; cases dz; simp add: b_def defer_reap_def)
  moreover have "pm_ready b = (case o' of ExitRunnable _ q _ \<Rightarrow> pm_ready pm @ [q] | _ \<Rightarrow> pm_ready pm)"
    by (cases o'; cases dz; simp add: b_def defer_reap_def)
  ultimately show ?thesis using e d by blast
qed

lemma do_exit_thread_refines:
  assumes "do_exit_thread now st pm = (Ok r, pm')"
  shows "\<exists>reaped. system_steps (processes pm) reaped (processes pm') \<and>
    map snd (pm_deferred_reap pm') = map snd (pm_deferred_reap pm) @ reaped"
proof -
  obtain p where p: "pm_running pm = Some p" and k: "ps_pid (rp_state p) \<noteq> KERNEL"
    using assms by (auto simp: do_exit_thread_def take_running_def split: option.splits if_splits)
  obtain cond sw where r: "r = (cond, sw)" by (cases r)
  from do_exit_thread_state [OF assms [unfolded r] p k] obtain o' dz ctx b where
      e: "process_exit_thread now p st = Ok (o', dz)" and d: "dispatch now ctx b = (Ok sw, pm')" and
      b: "pm_running b = None"
        "\<forall>N. processes pm = add_mset (Running p) N \<longrightarrow> processes b = add_mset (outcome_process o') N"
        "map snd (pm_deferred_reap b) = map snd (pm_deferred_reap pm) @ (case dz of Some z \<Rightarrow> [z] | None \<Rightarrow> [])"
    by blast
  obtain N where N: "processes pm = add_mset (Running p) N" using p by (simp add: processes_def)
  let ?rs = "case dz of Some z \<Rightarrow> [z] | None \<Rightarrow> []"
  have "system_steps (processes pm) ?rs (processes b)"
    using sys_one [OF ps_exit_thread [OF e], of N] N b(2) by simp
  from sys_trans [OF dispatch_refines [OF d b(1)] this] show ?thesis
    using b(3) dispatch_frame(4) [OF d] by auto
qed

lemma list_remove_position:
  assumes "position c xs = Some i"
  obtains x pre post where "xs = pre @ x # post" "c x" "list_remove xs i = Ok (x, pre @ post)"
proof -
  from assms obtain pre x post where s: "xs = pre @ x # post" "length pre = i" "c x"
    by (rule position_split)
  then have "list_remove xs i = Ok (x, pre @ post)" by (auto simp: list_remove_def)
  with s that show ?thesis by blast
qed

lemma terminate_queued_refines:
  assumes "terminate_queued now pid pm = (r, pm')"
  shows "system_steps (processes pm) [] (processes pm')"
proof (cases "position (\<lambda>p. ps_pid (rb_state p) = pid) (pm_ready pm)")
  case (Some i)
  then obtain p pre post where s: "pm_ready pm = pre @ p # post"
      "list_remove (pm_ready pm) i = Ok (p, pre @ post)" by (rule list_remove_position)
  show ?thesis
  proof (cases "runnable_terminate p")
    case (Inl q)
    then show ?thesis using sys_one [OF ps_terminate_runnable [of p]] s Some assms
      by (auto simp: terminate_queued_def processes_def)
  next
    case (Inr q)
    let ?N = "mset (map Running (running_list pm)) + mset (map Runnable (pre @ post)) +
      mset (map Sleeping (pm_suspended pm)) + mset (map InterruptedProcess (pm_interrupted pm)) + mset (map Zombie (pm_zombies pm))"
    have "system_steps (add_mset (Runnable p) ?N) [] (add_mset (InterruptedProcess q) ?N)"
      using sys_one [OF ps_terminate_runnable [of p]] Inr by simp
    from sys_quiet [OF this sys_one [OF ps_resume]] show ?thesis using s Some assms Inr
      by (auto simp: terminate_queued_def processes_def)
  qed
next
  case None
  show ?thesis
  proof (cases "position (\<lambda>p. ps_pid (sp_state p) = pid) (pm_suspended pm)")
    case (Some i)
    then obtain p pre post where s: "pm_suspended pm = pre @ p # post"
        "list_remove (pm_suspended pm) i = Ok (p, pre @ post)" by (rule list_remove_position)
    then show ?thesis using sys_one [OF ps_terminate_sleeping [of p]] Some None assms
      by (auto simp: terminate_queued_def processes_def)
  qed (use None assms in \<open>simp add: terminate_queued_def sys_none\<close>)
qed

lemma terminate_queued_frame:
  assumes "terminate_queued now pid pm = (r, pm')"
  shows "pm_running pm' = pm_running pm" "pm_deferred_reap pm' = pm_deferred_reap pm" "r \<noteq> Panic"
  using assms
  by (auto simp: terminate_queued_def fail_def elim!: list_remove_position split: option.splits sum.splits res.splits)

lemma terminate_refines:
  assumes "terminate now pid pl pm = (r, pl', pm')" "r \<noteq> Panic"
  shows "system_steps (processes pm) [] (processes pm') \<and> pm_deferred_reap pm' = pm_deferred_reap pm"
proof (cases "pid = KERNEL \<or> (case pm_running pm of Some p \<Rightarrow> ps_pid (rp_state p) = pid | None \<Rightarrow> False)")
  case True
  then show ?thesis using assms(1) by (auto simp: terminate_def sys_none split: if_splits option.splits)
next
  case False
  obtain c pl2 pm2 where cr: "cleanup_rendezvous now pid pl pm = (c, pl2, pm2)"
    by (cases "cleanup_rendezvous now pid pl pm") auto
  have c: "c = Ok ()"
    using cr False assms cleanup_rendezvous_result [of now pid pl pm]
    by (auto simp: terminate_def split: if_splits)
  then have t: "terminate_queued now pid pm2 = (r, pm')"
    using assms(1) False cr by (auto simp: terminate_def split: prod.splits)
  show ?thesis
    using sys_quiet [OF cleanup_rendezvous_refines(1) terminate_queued_refines [OF t]] cr c
      cleanup_rendezvous_refines(2) terminate_queued_frame(2) [OF t] by metis
qed

lemma sched_step_refines:
  assumes "sched_step s s'"
  shows "\<exists>reaped. system_steps (processes (snd s)) reaped (processes (snd s')) \<and>
    map snd (pm_deferred_reap (snd s')) = map snd (pm_deferred_reap (snd s)) @ reaped"
  using assms
proof cases
  case (sc_schedule now pm r pm' pl)
  then show ?thesis using schedule_refines by fastforce
next
  case (sc_sleep now alarm pm r pm' pl)
  then show ?thesis using do_sleep_refines by fastforce
next
  case (sc_wakeup now tid pm r pm' pl)
  then show ?thesis using do_wakeup_refines do_wakeup_frame(2) by fastforce
next
  case (sc_exit now st pl pm r pl' pm')
  then show ?thesis using do_exit_refines by fastforce
next
  case (sc_exit_thread now st pm r pm' pl)
  then show ?thesis using do_exit_thread_refines by fastforce
next
  case (sc_terminate now pid pl pm r pl' pm')
  then show ?thesis using terminate_refines by fastforce
next
  case (sc_rendezvous copy wakeup pl pl' pm)
  then show ?thesis by (auto intro: sys_none)
qed

lemma schedule_total:
  assumes "pm_running pm = Some p"
  shows "\<exists>r pm'. schedule now pm = (Ok r, pm')"
proof -
  obtain q ctx where q: "process_schedule now p = (q, ctx)" by fastforce
  let ?b = "check_alarm now (pm\<lparr>pm_running := None, pm_ready := pm_ready pm @ [q]\<rparr>)"
  let ?c = "?b\<lparr>pm_ready := resume_scan now (pm_interrupted ?b) (pm_ready ?b), pm_interrupted := []\<rparr>"
  have "pm_ready ?c \<noteq> []" by (simp add: check_alarm_def resume_scan_map split: prod.splits)
  then obtain r pm' where "dispatch now ctx ?c = (Ok r, pm')" by (rule dispatch_result) blast
  then have "schedule now pm = (Ok r, pm')" using assms q by (simp add: schedule_def take_running_def Let_def)
  then show ?thesis by blast
qed

section \<open>Properties\<close>

text \<open>C21. The scheduler neither loses nor duplicates a thread or a process. Any sequence of preemptions,
  sleeps, wake-ups, exits and terminations amounts to transitions of single processes, so the
  identifiers of all processes stay the same, and those of all threads are those of the threads still
  in some process and of the zombies that were set aside for deferred reaping meanwhile.\<close>

theorem scheduler_conserves:
  assumes "sched_step\<^sup>*\<^sup>* (pl, pm) (pl', pm')"
  shows "\<exists>reaped. system_steps (processes pm) reaped (processes pm') \<and>
    map snd (pm_deferred_reap pm') = map snd (pm_deferred_reap pm) @ reaped \<and>
    system_tids (processes pm) = system_tids (processes pm') + zombie_tids reaped \<and>
    image_mset process_pid (processes pm') = image_mset process_pid (processes pm)"
proof -
  from assms have "\<exists>reaped. system_steps (processes (snd (pl, pm))) reaped (processes (snd (pl', pm'))) \<and>
    map snd (pm_deferred_reap (snd (pl', pm'))) = map snd (pm_deferred_reap (snd (pl, pm))) @ reaped"
  proof (induction rule: rtranclp_induct)
    case base
    show ?case by (auto intro: sys_none)
  next
    case (step y z)
    from step.IH obtain rs where a: "system_steps (processes (snd (pl, pm))) rs (processes (snd y))"
        "map snd (pm_deferred_reap (snd y)) = map snd (pm_deferred_reap (snd (pl, pm))) @ rs" by blast
    from sched_step_refines [OF step.hyps(2)] obtain ss where
        b: "system_steps (processes (snd y)) ss (processes (snd z))"
        "map snd (pm_deferred_reap (snd z)) = map snd (pm_deferred_reap (snd y)) @ ss" by blast
    from sys_trans [OF b(1) a(1)] a(2) b(2) show ?case by (intro exI [of _ "rs @ ss"]) simp
  qed
  then show ?thesis using system_steps_conserve by fastforce
qed

theorem scheduler_conserves_witness:
  "case schedule EPOCH (process_manager_new True (ready_new EPOCH 0 None None None) ()
      \<lparr>tm_next_id = 1, tm_live_count = 1\<rparr>) of
     (r, pm) \<Rightarrow> is_ok r \<and> image_mset process_pid (processes pm) = {#0#}"
proof -
  let ?pm = "process_manager_new True (ready_new EPOCH 0 None None None) () \<lparr>tm_next_id = 1, tm_live_count = 1\<rparr>"
  have "pm_running ?pm \<noteq> None" and pid: "image_mset process_pid (processes ?pm) = {#0#}"
    using run_conserves(2) [of "runnable_new KERNEL (ready_new EPOCH 0 None None None) ()"]
    by (auto simp: process_manager_new_def processes_def process_pid_def runnable_new_def KERNEL_def
        process_state_new_def split: prod.splits)
  then obtain p where p: "pm_running ?pm = Some p" by blast
  obtain r pm' where s: "schedule EPOCH ?pm = (Ok r, pm')"
    using schedule_total [OF p] by blast
  then have "sched_step\<^sup>*\<^sup>* (pending_new, ?pm) (pending_new, pm')" by (intro r_into_rtranclp sc_schedule)
  from scheduler_conserves [OF this] pid s show ?thesis by auto
qed

end
