(* ===== verification/Scheduler_Progress.thy ===== *)
theory Scheduler_Progress
  imports Scheduler
begin

text \<open>
  What the scheduler guarantees over time: it always has a process to run, because the kernel process
  is running or ready in every reachable state; a ready thread waits for a bounded number of context
  switches; and the one operation that can stop the machine, the exit of a process that another one
  waits for in a rendezvous.
\<close>

section \<open>Definitions\<close>

text \<open>The processes that can be dispatched, and the state in which the scheduler is sound.\<close>

definition ready_pids :: "'v process_manager \<Rightarrow> pid list" where
  "ready_pids pm = map (\<lambda>p. ps_pid (rb_state p)) (pm_ready pm)"

definition sched_ok :: "'v process_manager \<Rightarrow> bool" where
  "sched_ok pm \<longleftrightarrow>
    (case pm_running pm of
       Some p \<Rightarrow> ps_pid (rp_state p) = KERNEL \<or> KERNEL \<in> set (ready_pids pm)
     | None \<Rightarrow> False)"

text \<open>The threads that wait for the processor, those of the running process included.\<close>

definition ready_threads :: "'v process_manager \<Rightarrow> ready_thread multiset" where
  "ready_threads pm =
    mset (concat (map (\<lambda>p. opt_list (rp_ready p)) (running_list pm))) +
    mset (concat (map (\<lambda>p. ne_to_vec (rb_ready p)) (pm_ready pm)))"

definition ahead :: "system_time \<Rightarrow> 'v process_manager \<Rightarrow> nat" where
  "ahead a pm = size (filter_mset (\<lambda>t. rd_admission_time t \<le> a) (ready_threads pm))"

text \<open>
  A run of the scheduler in which the thread \<open>tid\<close> is not dispatched: preemptions, sleeps, exits of
  threads and wake-ups, each later than \<open>a\<close>, with \<open>n\<close> context switches in all.
\<close>

inductive passed_over :: "system_time \<Rightarrow> tid \<Rightarrow> nat \<Rightarrow> 'v process_manager \<Rightarrow> 'v process_manager \<Rightarrow> bool"
  for a tid where
  po_none: "passed_over a tid 0 pm pm"
| po_schedule: "passed_over a tid n pm pm1 \<Longrightarrow> a < now \<Longrightarrow> schedule now pm1 = (Ok r, pm2) \<Longrightarrow>
    fst (snd r) \<noteq> tid \<Longrightarrow> passed_over a tid (Suc n) pm pm2"
| po_sleep: "passed_over a tid n pm pm1 \<Longrightarrow> a < now \<Longrightarrow> do_sleep now alarm pm1 = (Ok r, pm2) \<Longrightarrow>
    fst (snd r) \<noteq> tid \<Longrightarrow> passed_over a tid (Suc n) pm pm2"
| po_exit_thread: "passed_over a tid n pm pm1 \<Longrightarrow> a < now \<Longrightarrow>
    do_exit_thread now st pm1 = (Ok (cond, r), pm2) \<Longrightarrow> fst (snd r) \<noteq> tid \<Longrightarrow> passed_over a tid (Suc n) pm pm2"
| po_wakeup: "passed_over a tid n pm pm1 \<Longrightarrow> a < now \<Longrightarrow> do_wakeup now u pm1 = (r, pm2) \<Longrightarrow>
    passed_over a tid n pm pm2"

text \<open>
  The states the process manager can reach from boot by its operations: scheduling, the creation of processes and of
  threads, joining, detaching and harvesting threads, and mutex guards stored and taken.
\<close>

inductive reachable :: "pending_lists \<times> 'v process_manager \<Rightarrow> bool" where
  rc_boot: "reachable (pending_new, process_manager_new interrupt_capable t root tm)"
| rc_step: "reachable s \<Longrightarrow> sched_step s s' \<Longrightarrow> reachable s'"
| rc_admit: "reachable (pl, pm) \<Longrightarrow> reachable (pl, admit_process pid next_pid next_tid t vmem pm)"
| rc_create_thread: "reachable (pl, pm) \<Longrightarrow> create_thread now max_threads forged tda pm = (r, pm') \<Longrightarrow> reachable (pl, pm')"
| rc_join: "reachable (pl, pm) \<Longrightarrow> join_thread unmap pid tid pm = (out, pm') \<Longrightarrow> out \<noteq> Done Panic \<Longrightarrow> reachable (pl, pm')"
| rc_join_again: "reachable (pl, pm) \<Longrightarrow> join_attempt unmap pid tid pm = (out, pm') \<Longrightarrow> out \<noteq> Done Panic \<Longrightarrow> reachable (pl, pm')"
| rc_detach: "reachable (pl, pm) \<Longrightarrow> pm_detach_thread unmap pid tid pm = (r, pm') \<Longrightarrow> r \<noteq> Panic \<Longrightarrow> reachable (pl, pm')"
| rc_harvest: "reachable (pl, pm) \<Longrightarrow> harvest_zombies pm = (r, pm') \<Longrightarrow> r \<noteq> Panic \<Longrightarrow> reachable (pl, pm')"
| rc_put_guard: "reachable (pl, pm) \<Longrightarrow> pm_store_mutex_guard a g pm = (r, pm') \<Longrightarrow> reachable (pl, pm')"
| rc_take_guard: "reachable (pl, pm) \<Longrightarrow> pm_remove_mutex_guard rc a pm = (r', pm') \<Longrightarrow> reachable (pl, pm')"

text \<open>Some thread of another process waits for this one in a rendezvous.\<close>

definition peer_waits :: "pending_lists \<Rightarrow> pid \<Rightarrow> bool" where
  "peer_waits pl pid \<longleftrightarrow>
    list_ex (\<lambda>u. pu_pid u \<noteq> pid \<and> pu_dst_pid u = pid) (pushes pl) \<or>
    list_ex (\<lambda>l. pl_pid l \<noteq> pid \<and> pl_src_pid l = pid) (pulls pl)"

section \<open>Ready threads\<close>

lemma ready_threads_none:
  "pm_running pm = None \<Longrightarrow> ready_threads pm = mset (concat (map (\<lambda>p. ne_to_vec (rb_ready p)) (pm_ready pm)))"
  by (simp add: ready_threads_def)

lemma process_run_ready:
  assumes "process_run p = (q, cause, ctx, tda)"
  obtains t where "mset (ne_to_vec (rb_ready p)) = add_mset t (mset (opt_list (rp_ready q)))"
    "\<And>now. rd_admission_time t = earliest_admission_time now p" "get_tid q = ts_id (rd_state t)"
proof -
  obtain rest t where rm: "ne_remove_min_by_key (rb_ready p) rd_admission_time = (rest, t)" by fastforce
  note sp = ne_remove_min_split [OF rm]
  have "t \<in> set (ne_to_vec (rb_ready p))" using sp by (auto simp: min_split_def)
  then have "Min (rd_admission_time ` set (ne_to_vec (rb_ready p))) = rd_admission_time t"
    using min_split_least [OF sp] by (intro Min_eqI) auto
  then show ?thesis using that [of t] assms min_split_mset [OF sp]
    by (auto simp: process_run_def rm thread_ops earliest_admission_time_view get_tid_def)
qed

text \<open>A dispatch runs the thread that was admitted first and leaves the other ones ready.\<close>

lemma dispatch_ready:
  assumes "dispatch now ctx pm = (Ok r, pm')" "pm_running pm = None"
  obtains t where "ready_threads pm = add_mset t (ready_threads pm')"
    "\<And>u. u \<in># ready_threads pm \<Longrightarrow> rd_admission_time t \<le> rd_admission_time u"
    "fst (snd r) = ts_id (rd_state t)"
proof -
  let ?v = "\<lambda>p. ne_to_vec (rb_ready p)"
  obtain p rest where m: "min_split (earliest_admission_time now) (pm_ready pm) rest p"
    and d: "dispatch now ctx pm =
      (Ok (ps_pid (rb_state p), get_tid (fst (process_run p)), ctx, fst (snd (snd (process_run p))),
           snd (snd (snd (process_run p)))),
       pm\<lparr>pm_ready := rest, pm_interrupt_reason := fst (snd (process_run p)),
          pm_running := Some (fst (process_run p))\<rparr>)"
    using dispatch_result [OF dispatch_Ok [OF assms(1)], of now ctx] by blast
  obtain q cause ctx' tda where q: "process_run p = (q, cause, ctx', tda)" by (cases "process_run p") auto
  obtain t where t: "mset (?v p) = add_mset t (mset (opt_list (rp_ready q)))"
      "\<And>now. rd_admission_time t = earliest_admission_time now p" "get_tid q = ts_id (rd_state t)"
    using process_run_ready [OF q] by blast
  have s: "mset (concat (map ?v (pm_ready pm))) = mset (?v p) + mset (concat (map ?v rest))"
    using m by (auto simp: min_split_def)
  have e: "fst (snd r) = get_tid q" "ready_threads pm' = mset (opt_list (rp_ready q)) + mset (concat (map ?v rest))"
    using assms(1) d q by (auto simp: ready_threads_def)
  show ?thesis
  proof (rule that [of t])
    show "ready_threads pm = add_mset t (ready_threads pm')"
      by (simp add: ready_threads_none [OF assms(2)] s e(2) t(1))
    show "fst (snd r) = ts_id (rd_state t)" using e(1) t(3) by simp
    fix u
    assume "u \<in># ready_threads pm"
    then obtain p' where p': "p' \<in> set (pm_ready pm)" "u \<in> set (?v p')"
      by (auto simp: ready_threads_none [OF assms(2)])
    have "earliest_admission_time now p' \<le> rd_admission_time u"
      using p'(2) by (simp add: earliest_admission_time_view)
    then show "rd_admission_time t \<le> rd_admission_time u"
      using t(2) [of now] min_split_least [OF m p'(1)] by simp
  qed
qed

text \<open>
  The change of the ready threads under an operation at time \<open>now\<close> that dispatches \<open>tid\<close>: some threads
  become ready at that time, and the first admitted one runs.
\<close>

definition ready_change ::
  "system_time \<Rightarrow> ready_thread multiset \<Rightarrow> tid \<Rightarrow> ready_thread multiset \<Rightarrow> bool" where
  "ready_change now R tid R' \<longleftrightarrow>
    (\<exists>N t. R + N = add_mset t R' \<and> (\<forall>u\<in>#N. rd_admission_time u = now) \<and>
       (\<forall>u\<in>#R + N. rd_admission_time t \<le> rd_admission_time u) \<and> ts_id (rd_state t) = tid)"

text \<open>Threads that become ready at time \<open>now\<close>.\<close>

definition admitted :: "system_time \<Rightarrow> ready_thread multiset \<Rightarrow> ready_thread multiset \<Rightarrow> bool" where
  "admitted now R R' \<longleftrightarrow> (\<exists>N. R' = R + N \<and> (\<forall>u\<in>#N. rd_admission_time u = now))"

lemma admitted_refl [simp]: "admitted now R R"
  by (simp add: admitted_def)

lemma admitted_more:
  "R' = R + N \<Longrightarrow> \<forall>u\<in>#N. rd_admission_time u = now \<Longrightarrow> admitted now R R'"
  by (auto simp: admitted_def)

lemma admitted_add: "admitted now R R' \<Longrightarrow> admitted now (R + S) (R' + S)" "admitted now R R' \<Longrightarrow> admitted now (S + R) (S + R')"
  by (auto simp: admitted_def ac_simps)

lemma dispatch_change:
  assumes "dispatch now ctx pm = (Ok r, pm')" "pm_running pm = None" "admitted now R (ready_threads pm)"
  shows "ready_change now R (fst (snd r)) (ready_threads pm')"
  using dispatch_ready [OF assms(1,2)] assms(3) unfolding ready_change_def admitted_def by metis

lemma resume_ready:
  "ne_to_vec (rb_ready (process_resume now p)) =
    [interrupted_resume now (snd (ne_pop_front (ip_interrupted p)))]"
  by (simp add: process_resume_def split: prod.splits)

lemma resume_admission [simp]:
  "rd_admission_time (interrupted_resume now t) = now" "rd_admission_time (ready_from_state now s) = now"
  "rd_admission_time (sleeping_wakeup now u) = now"
  by (simp_all add: thread_ops)

lemma schedule_change:
  assumes "schedule now pm = (Ok r, pm')"
  shows "ready_change now (ready_threads pm) (fst (snd r)) (ready_threads pm')"
proof -
  obtain p where p: "pm_running pm = Some p"
    using assms by (auto simp: schedule_def take_running_def split: option.splits)
  obtain q ctx where q: "process_schedule now p = (q, ctx)" by fastforce
  let ?b = "check_alarm now (pm\<lparr>pm_running := None, pm_ready := pm_ready pm @ [q]\<rparr>)"
  let ?c = "?b\<lparr>pm_ready := resume_scan now (pm_interrupted ?b) (pm_ready ?b), pm_interrupted := []\<rparr>"
  have d: "dispatch now ctx ?c = (Ok r, pm')"
    using assms by (simp add: schedule_def take_running_def p q Let_def)
  have b: "pm_running ?b = None" "pm_ready ?b = pm_ready pm @ [q]" by (simp_all add: check_alarm_def split: prod.splits)
  have v: "ne_to_vec (rb_ready q) = opt_list (rp_ready p) @ [ready_from_state now (rn_state (rp_running p))]"
    using q by (auto simp: process_schedule_def running_schedule_def)
  let ?N = "add_mset (ready_from_state now (rn_state (rp_running p)))
    (mset (map (\<lambda>p. interrupted_resume now (snd (ne_pop_front (ip_interrupted p)))) (pm_interrupted ?b)))"
  have "ready_threads ?c = ready_threads pm + ?N"
    using p by (simp add: ready_threads_def b resume_scan_map resume_ready v comp_def)
  then have "admitted now (ready_threads pm) (ready_threads ?c)" by (rule admitted_more) auto
  then show ?thesis by (intro dispatch_change [OF d]) (simp_all add: b)
qed

lemma sleep_ready:
  "case process_sleep now p alarm of
     Inl (q, ctx) \<Rightarrow> rp_ready p = None
   | Inr (q, ctx) \<Rightarrow> admitted now (mset (opt_list (rp_ready p))) (mset (ne_to_vec (rb_ready q)))"
  by (auto simp: process_sleep_def resume_ready Let_def split: option.splits prod.splits intro!: admitted_more)

lemma exit_thread_ready:
  assumes "process_exit_thread now p st = Ok (o', dz)"
  shows "case o' of
     ExitRunnable cond q ctx \<Rightarrow> admitted now (mset (opt_list (rp_ready p))) (mset (ne_to_vec (rb_ready q)))
   | _ \<Rightarrow> rp_ready p = None"
  using assms
  by (auto simp: process_exit_thread_def resume_ready Let_def split: option.splits prod.splits if_splits
      intro!: admitted_more)

lemma do_sleep_change:
  assumes "do_sleep now alarm pm = (Ok r, pm')"
  shows "ready_change now (ready_threads pm) (fst (snd r)) (ready_threads pm')"
proof -
  obtain p where p: "pm_running pm = Some p" and k: "ps_pid (rp_state p) \<noteq> KERNEL"
    using assms by (auto simp: do_sleep_def take_running_def split: option.splits if_splits)
  note sr = sleep_ready [where now = now and p = p and alarm = alarm]
  show ?thesis
  proof (cases "process_sleep now p alarm")
    case (Inl x)
    obtain q ctx where x: "x = (q, ctx)" by fastforce
    have d: "dispatch now ctx (pm\<lparr>pm_running := None, pm_suspended := pm_suspended pm @ [q]\<rparr>) = (Ok r, pm')"
      using assms p k Inl x by (simp add: do_sleep_def take_running_def)
    show ?thesis using sr Inl x p by (intro dispatch_change [OF d]) (simp_all add: ready_threads_def)
  next
    case (Inr x)
    obtain q ctx where x: "x = (q, ctx)" by fastforce
    have d: "dispatch now ctx (pm\<lparr>pm_running := None, pm_ready := pm_ready pm @ [q]\<rparr>) = (Ok r, pm')"
      using assms p k Inr x by (simp add: do_sleep_def take_running_def)
    show ?thesis using sr Inr x p
      by (intro dispatch_change [OF d]) (simp_all add: ready_threads_def admitted_add add.commute)
  qed
qed

lemma do_exit_thread_change:
  assumes "do_exit_thread now st pm = (Ok (cond, r), pm')"
  shows "ready_change now (ready_threads pm) (fst (snd r)) (ready_threads pm')"
proof -
  obtain p where p: "pm_running pm = Some p" and k: "ps_pid (rp_state p) \<noteq> KERNEL"
    using assms by (auto simp: do_exit_thread_def take_running_def split: option.splits if_splits)
  from do_exit_thread_state [OF assms p k] obtain o' dz ctx b where
      e: "process_exit_thread now p st = Ok (o', dz)" and d: "dispatch now ctx b = (Ok r, pm')" and
      b: "pm_running b = None" "pm_ready b = (case o' of ExitRunnable _ q _ \<Rightarrow> pm_ready pm @ [q] | _ \<Rightarrow> pm_ready pm)"
    by blast
  show ?thesis using exit_thread_ready [OF e] p
    by (intro dispatch_change [OF d b(1)], cases o')
       (simp_all add: ready_threads_def b running_list_def admitted_add add.commute)
qed

lemma wakeup_ready:
  "running_wakeup now p tid = Inr q \<Longrightarrow>
     \<exists>u. opt_list (rp_ready q) = opt_list (rp_ready p) @ [sleeping_wakeup now u]"
  "runnable_wakeup now r tid = Inr s \<Longrightarrow>
     \<exists>u. ne_to_vec (rb_ready s) = ne_to_vec (rb_ready r) @ [sleeping_wakeup now u]"
  "sleeping_process_wakeup now x tid = Inr y \<Longrightarrow> \<exists>u. ne_to_vec (rb_ready y) = [sleeping_wakeup now u]"
  by (auto simp: running_wakeup_def runnable_wakeup_def sleeping_process_wakeup_def
      split: option.splits sum.splits prod.splits)

lemma running_wakeup_same: "running_wakeup now p tid = Inl q \<Longrightarrow> q = p"
  using running_wakeup_conserves [where now = now and p = p and tid = tid] by simp

lemma do_wakeup_admits:
  assumes "do_wakeup now tid pm = (r, pm')"
  shows "admitted now (ready_threads pm) (ready_threads pm')"
proof (cases "pm_running pm")
  case None
  then show ?thesis using assms by (simp add: do_wakeup_def)
next
  case (Some p)
  obtain x pm2 where t: "try_wakeup now tid pm = (x, pm2)" by fastforce
  show ?thesis
  proof (cases "running_find_thread p tid = None")
    case False
    show ?thesis
    proof (cases "running_wakeup now p tid")
      case (Inl q)
      then have "pm' = pm\<lparr>pm_running := Some p\<rparr>"
        using assms Some False running_wakeup_same [OF Inl] by (auto simp: do_wakeup_def)
      then show ?thesis using Some by (simp add: ready_threads_def)
    next
      case (Inr q)
      then have "pm' = pm\<lparr>pm_running := Some q\<rparr>" using assms Some False by (auto simp: do_wakeup_def)
      moreover obtain u where "opt_list (rp_ready q) = opt_list (rp_ready p) @ [sleeping_wakeup now u]"
        using wakeup_ready(1) [OF Inr] by blast
      ultimately have "ready_threads pm' = ready_threads pm + {#sleeping_wakeup now u#}"
        using Some by (simp add: ready_threads_def)
      then show ?thesis by (rule admitted_more) simp
    qed
  next
    case True
    have d: "pm' = (case x of Some q \<Rightarrow> pm2\<lparr>pm_ready := pm_ready pm2 @ [q]\<rparr> | None \<Rightarrow> pm2)"
      using assms Some True t by (auto simp: do_wakeup_def split: option.splits)
    from try_wakeup_cases [OF t] consider "x = None" "pm2 = pm"
      | q s pre post where "x = Some q" "pm_suspended pm = pre @ s # post"
          "sleeping_process_wakeup now s tid = Inr q" "pm2 = pm\<lparr>pm_suspended := pre @ post\<rparr>"
      | q s pre post where "x = Some q" "pm_ready pm = pre @ s # post"
          "runnable_wakeup now s tid = Inr q" "pm2 = pm\<lparr>pm_ready := pre @ post\<rparr>" by blast
    then show ?thesis
    proof cases
      case 2
      from wakeup_ready(3) [OF 2(3)] obtain u where u: "ne_to_vec (rb_ready q) = [sleeping_wakeup now u]" by blast
      then have "ready_threads pm' = ready_threads pm + {#sleeping_wakeup now u#}"
        using 2 d Some by (simp add: ready_threads_def)
      then show ?thesis by (rule admitted_more) simp
    next
      case 3
      from wakeup_ready(2) [OF 3(3)] obtain u where
          u: "ne_to_vec (rb_ready q) = ne_to_vec (rb_ready s) @ [sleeping_wakeup now u]" by blast
      then have "ready_threads pm' = ready_threads pm + {#sleeping_wakeup now u#}"
        using 3 d Some by (simp add: ready_threads_def)
      then show ?thesis by (rule admitted_more) simp
    qed (simp add: d)
  qed
qed

subsection \<open>Bounded waiting\<close>

definition early :: "system_time \<Rightarrow> ready_thread multiset \<Rightarrow> nat" where
  "early a R = size (filter_mset (\<lambda>t. rd_admission_time t \<le> a) R)"

lemma ahead_early: "ahead a pm = early a (ready_threads pm)"
  by (simp add: ahead_def early_def)

lemma late_not_early:
  assumes "\<forall>u\<in>#N. rd_admission_time u = now" "a < now"
  shows "filter_mset (\<lambda>t. rd_admission_time t \<le> a) N = {#}"
  using assms by (auto simp: filter_mset_eq_conv)

lemma early_admitted: "admitted now R R' \<Longrightarrow> a < now \<Longrightarrow> early a R' = early a R"
  by (auto simp: admitted_def early_def late_not_early)

lemma early_change:
  assumes "ready_change now R tid R'" "x \<in># R" "rd_admission_time x < now" "tid \<noteq> ts_id (rd_state x)"
  shows "x \<in># R' \<and> Suc (early (rd_admission_time x) R') = early (rd_admission_time x) R"
proof -
  let ?a = "rd_admission_time x"
  from assms(1) obtain N t where c: "R + N = add_mset t R'" "\<forall>u\<in>#N. rd_admission_time u = now"
      "\<forall>u\<in>#R + N. rd_admission_time t \<le> rd_admission_time u" "ts_id (rd_state t) = tid"
    unfolding ready_change_def by blast
  have "x \<in># add_mset t R'" using assms(2) c(1) [symmetric] by simp
  then have x: "x \<in># R'" using assms(4) c(4) by auto
  have "rd_admission_time t \<le> ?a" using c(3) assms(2) by auto
  then have "early ?a (add_mset t R') = Suc (early ?a R')" by (simp add: early_def)
  moreover have "early ?a (R + N) = early ?a R" using late_not_early [OF c(2) assms(3)] by (simp add: early_def)
  ultimately show ?thesis using x c(1) by simp
qed

lemma passed_over_early:
  assumes "passed_over (rd_admission_time x) (ts_id (rd_state x)) n pm pm'" "x \<in># ready_threads pm"
  shows "x \<in># ready_threads pm' \<and>
    n + ahead (rd_admission_time x) pm' = ahead (rd_admission_time x) pm"
  using assms
proof (induction rule: passed_over.induct)
  case (po_schedule n pm pm1 now r pm2)
  then show ?case using early_change [OF schedule_change [OF po_schedule.hyps(3)], of x] by (simp add: ahead_early)
next
  case (po_sleep n pm pm1 now alarm r pm2)
  then show ?case using early_change [OF do_sleep_change [OF po_sleep.hyps(3)], of x] by (simp add: ahead_early)
next
  case (po_exit_thread n pm pm1 now st cond r pm2)
  then show ?case
    using early_change [OF do_exit_thread_change [OF po_exit_thread.hyps(3)], of x] by (simp add: ahead_early)
next
  case (po_wakeup n pm pm1 now u r pm2)
  note ad = do_wakeup_admits [OF po_wakeup.hyps(3)]
  show ?case using po_wakeup early_admitted [OF ad] ad by (auto simp: ahead_early admitted_def)
qed simp

subsection \<open>There is always a process to run\<close>

lemma ready_pids_simps [simp]:
  "ready_pids (pm\<lparr>pm_running := x1\<rparr>) = ready_pids pm" "ready_pids (pm\<lparr>pm_suspended := x2\<rparr>) = ready_pids pm"
  "ready_pids (pm\<lparr>pm_interrupted := x3\<rparr>) = ready_pids pm" "ready_pids (pm\<lparr>pm_zombies := x4\<rparr>) = ready_pids pm"
  "ready_pids (pm\<lparr>pm_ready := pm_ready pm' @ ps\<rparr>) = ready_pids pm' @ map (\<lambda>p. ps_pid (rb_state p)) ps"
  "ready_pids (defer_reap pid dz pm) = ready_pids pm"
  by (simp_all add: ready_pids_def defer_reap_def split: option.splits)

lemma dispatch_sound:
  assumes "pm_running pm = None" "KERNEL \<in> set (ready_pids pm)"
  shows "\<exists>r pm'. dispatch now ctx pm = (Ok r, pm') \<and> sched_ok pm'"
proof -
  have "pm_ready pm \<noteq> []" using assms(2) by (auto simp: ready_pids_def)
  then obtain r pm' where d: "dispatch now ctx pm = (Ok r, pm')" by (rule dispatch_result) blast
  then obtain p rest where m: "min_split (earliest_admission_time now) (pm_ready pm) rest p"
    and s: "pm' = pm\<lparr>pm_ready := rest, pm_interrupt_reason := fst (snd (process_run p)),
      pm_running := Some (fst (process_run p))\<rparr>" by (rule dispatch_state)
  have "set (ready_pids pm) = insert (ps_pid (rb_state p)) (set (ready_pids pm'))"
    using m s by (auto simp: min_split_def ready_pids_def)
  then have "sched_ok pm'" using assms(2) s run_conserves(2) [of p] by (auto simp: sched_ok_def)
  then show ?thesis using d by blast
qed

lemma schedule_sound:
  assumes "sched_ok pm"
  shows "\<exists>r pm'. schedule now pm = (Ok r, pm') \<and> sched_ok pm'"
proof -
  obtain p where p: "pm_running pm = Some p" "ps_pid (rp_state p) = KERNEL \<or> KERNEL \<in> set (ready_pids pm)"
    using assms by (auto simp: sched_ok_def split: option.splits)
  obtain q ctx where q: "process_schedule now p = (q, ctx)" by fastforce
  let ?b = "check_alarm now (pm\<lparr>pm_running := None, pm_ready := pm_ready pm @ [q]\<rparr>)"
  let ?c = "?b\<lparr>pm_ready := resume_scan now (pm_interrupted ?b) (pm_ready ?b), pm_interrupted := []\<rparr>"
  have b: "pm_running ?b = None" "pm_ready ?b = pm_ready pm @ [q]" by (simp_all add: check_alarm_def split: prod.splits)
  have "KERNEL \<in> set (ready_pids ?c)"
    using p(2) schedule_conserves(2) [of now p] q by (auto simp: ready_pids_def b resume_scan_map)
  then obtain r pm' where "dispatch now ctx ?c = (Ok r, pm')" "sched_ok pm'"
    using dispatch_sound [of ?c] b by fastforce
  then have "schedule now pm = (Ok r, pm')" using p q by (simp add: schedule_def take_running_def Let_def)
  then show ?thesis using \<open>sched_ok pm'\<close> by blast
qed

lemma do_sleep_sound:
  assumes "sched_ok pm" "pm_running pm = Some p" "ps_pid (rp_state p) \<noteq> KERNEL"
  shows "\<exists>r pm'. do_sleep now alarm pm = (Ok r, pm') \<and> sched_ok pm'"
proof -
  have k: "KERNEL \<in> set (ready_pids pm)" using assms by (simp add: sched_ok_def)
  have a: "\<exists>r pm'. dispatch now ctx (pm\<lparr>pm_running := None, pm_suspended := x\<rparr>) = (Ok r, pm') \<and> sched_ok pm'" for x ctx
    using k by (intro dispatch_sound) (simp_all add: ready_pids_def)
  have b: "\<exists>r pm'. dispatch now ctx (pm\<lparr>pm_running := None, pm_ready := pm_ready pm @ x\<rparr>) = (Ok r, pm') \<and> sched_ok pm'"
    for x ctx using k by (intro dispatch_sound) (auto simp: ready_pids_def)
  show ?thesis using a b assms(2,3)
    by (cases "process_sleep now p alarm") (simp_all add: do_sleep_def take_running_def split: prod.splits)
qed

lemma do_exit_thread_sound:
  assumes "sched_ok pm" "pm_running pm = Some p" "ps_pid (rp_state p) \<noteq> KERNEL"
  shows "\<exists>r pm'. do_exit_thread now st pm = (Ok r, pm') \<and> sched_ok pm'"
proof -
  have k: "KERNEL \<in> set (ready_pids pm)" using assms by (simp add: sched_ok_def)
  have df: "pm_running (defer_reap pid dz b) = pm_running b" for pid dz and b :: "'a process_manager"
    by (simp add: defer_reap_def split: option.splits)
  obtain o' dz where e: "process_exit_thread now p st = Ok (o', dz)"
    using exit_thread_conserves [where now = now and p = p and st = st]
    by (cases "process_exit_thread now p st") auto
  have r: "\<exists>r pm'. (case dispatch now ctx b of (r, pm) \<Rightarrow> (bind_res r (\<lambda>r. Ok (cond, r)), pm)) = (Ok r, pm') \<and> sched_ok pm'"
    if "pm_running b = None" "KERNEL \<in> set (ready_pids b)" for ctx cond and b :: "'a process_manager"
    using dispatch_sound [OF that, of now ctx] by fastforce
  show ?thesis
  proof (cases o')
    case (ExitRunnable cond q ctx)
    then show ?thesis
      using r [of "defer_reap (ps_pid (rb_state q)) dz (pm\<lparr>pm_running := None, pm_ready := pm_ready pm @ [q]\<rparr>)" cond ctx]
        k assms(2,3) e by (simp add: do_exit_thread_def take_running_def df)
  next
    case (ExitSleeping cond q ctx)
    then show ?thesis
      using r [of "defer_reap (ps_pid (sp_state q)) dz (pm\<lparr>pm_running := None, pm_suspended := pm_suspended pm @ [q]\<rparr>)" cond ctx]
        k assms(2,3) e by (simp add: do_exit_thread_def take_running_def df)
  next
    case (ExitZombie cond q ctx)
    then show ?thesis
      using r [of "pm\<lparr>pm_running := None, pm_zombies := pm_zombies pm @ [q]\<rparr>" cond ctx]
        k assms(2,3) e by (simp add: do_exit_thread_def take_running_def df)
  qed
qed

lemma do_wakeup_sound:
  assumes "do_wakeup now tid pm = (r, pm')" "sched_ok pm"
  shows "sched_ok pm'"
proof -
  obtain p where p: "pm_running pm = Some p" using assms(2) by (auto simp: sched_ok_def split: option.splits)
  obtain x pm2 where t: "try_wakeup now tid pm = (x, pm2)" by fastforce
  show ?thesis
  proof (cases "running_find_thread p tid = None")
    case False
    have "case running_wakeup now p tid of Inl q \<Rightarrow> rp_state q = rp_state p | Inr q \<Rightarrow> rp_state q = rp_state p"
      using running_wakeup_conserves [where now = now and p = p and tid = tid] by (auto split: sum.splits)
    then show ?thesis using assms p False by (auto simp: do_wakeup_def sched_ok_def split: sum.splits)
  next
    case True
    have d: "pm' = (case x of Some q \<Rightarrow> pm2\<lparr>pm_ready := pm_ready pm2 @ [q]\<rparr> | None \<Rightarrow> pm2)"
      using assms p True t by (auto simp: do_wakeup_def split: option.splits)
    from try_wakeup_cases [OF t] consider "x = None" "pm2 = pm"
      | q s pre post where "x = Some q" "pm2 = pm\<lparr>pm_suspended := pre @ post\<rparr>"
      | q s pre post where "x = Some q" "pm_ready pm = pre @ s # post"
          "runnable_wakeup now s tid = Inr q" "pm2 = pm\<lparr>pm_ready := pre @ post\<rparr>" by blast
    then show ?thesis
    proof cases
      case 3
      then have "rb_state q = rb_state s"
        using runnable_wakeup_conserves [where now = now and p = s and tid = tid] by simp
      then have "set (ready_pids pm') = set (ready_pids pm)" using 3 d by (auto simp: ready_pids_def)
      then show ?thesis using assms(2) 3 d by (auto simp: sched_ok_def p)
    qed (use assms(2) d in \<open>auto simp: sched_ok_def p ready_pids_def\<close>)
  qed
qed

lemma wake_orphans_sound:
  assumes "wake_orphans now ts pm = (r, pm')" "sched_ok pm"
  shows "sched_ok pm'"
  using assms
proof (induction ts arbitrary: pm)
  case (Cons tid ts)
  obtain s pm2 where w: "do_wakeup now tid pm = (s, pm2)" by fastforce
  then show ?case using Cons do_wakeup_sound [OF w] by (cases s) auto
qed simp

lemma terminate_sound:
  assumes "sched_ok pm"
  shows "\<exists>r pl' pm'. terminate now pid pl pm = (r, pl', pm') \<and> r \<noteq> Panic \<and> sched_ok pm'"
proof (cases "pid = KERNEL \<or> (case pm_running pm of Some p \<Rightarrow> ps_pid (rp_state p) = pid | None \<Rightarrow> False)")
  case True
  then show ?thesis using assms by (auto simp: terminate_def fail_def split: if_splits option.splits)
next
  case False
  obtain ts pl2 where c: "cleanup_process pl pid = (ts, pl2)" by fastforce
  obtain x pm2 where w: "wake_orphans now ts pm = (x, pm2)" by fastforce
  obtain r pm' where t: "terminate_queued now pid pm2 = (r, pm')" by fastforce
  have x: "x = Ok ()" using wake_orphans_frame [OF w] assms by (auto simp: sched_ok_def)
  have e: "terminate now pid pl pm = (r, pl2, pm')"
    using False c w t x by (simp add: terminate_def cleanup_rendezvous_def)
  have "set (ready_pids pm2) - {pid} \<subseteq> set (ready_pids pm')"
    using t
    by (auto simp: terminate_queued_def ready_pids_def elim!: list_remove_position split: option.splits sum.splits)
  then have "sched_ok pm'"
    using wake_orphans_sound [OF w assms] terminate_queued_frame(1) [OF t] False by (auto simp: sched_ok_def split: option.splits)
  then show ?thesis using e terminate_queued_frame(3) [OF t] by blast
qed

lemma do_exit_result:
  assumes "sched_ok pm" "pm_running pm = Some p" "ps_pid (rp_state p) \<noteq> KERNEL"
  shows "if fst (cleanup_process pl (ps_pid (rp_state p))) = []
    then \<exists>r pl' pm'. do_exit now st pl pm = (Ok r, pl', pm') \<and> sched_ok pm'
    else fst (do_exit now st pl pm) = Panic"
proof -
  let ?a = "pm\<lparr>pm_running := None\<rparr>" and ?pid = "ps_pid (rp_state p)"
  have k: "KERNEL \<in> set (ready_pids pm)" using assms by (simp add: sched_ok_def)
  obtain x pl2 pm2 where cr: "cleanup_rendezvous now ?pid pl ?a = (x, pl2, pm2)"
    by (cases "cleanup_rendezvous now ?pid pl ?a") auto
  have x: "x = (if fst (cleanup_process pl ?pid) = [] then Ok () else Panic)"
    using cleanup_rendezvous_result [of now ?pid pl ?a] cr by simp
  show ?thesis
  proof (cases "fst (cleanup_process pl ?pid) = []")
    case False
    then show ?thesis using x cr assms(2,3) by (simp add: do_exit_def take_running_def)
  next
    case True
    then have c: "cleanup_rendezvous now ?pid pl ?a = (Ok (), pl2, pm2)" using cr x by simp
    then have a: "pm2 = ?a" by (rule cleanup_rendezvous_stopped(1)) simp
    have z: "\<exists>r pm'. dispatch now ctx (?a\<lparr>pm_zombies := y\<rparr>) = (Ok r, pm') \<and> sched_ok pm'" for y ctx
      using k by (intro dispatch_sound) simp_all
    have b: "\<exists>r pm'. dispatch now ctx (?a\<lparr>pm_ready := pm_ready pm @ y\<rparr>) = (Ok r, pm') \<and> sched_ok pm'" for y ctx
      using k by (intro dispatch_sound) simp_all
    show ?thesis
    proof (cases "process_exit now p st")
      case (Inl y)
      then show ?thesis using True c a assms(2,3) z [of "snd y" "pm_zombies pm @ [fst y]"]
        by (auto simp: do_exit_def take_running_def split: prod.splits)
    next
      case (Inr y)
      then show ?thesis using True c a assms(2,3) b [of "snd y" "[fst y]"]
        by (auto simp: do_exit_def take_running_def split: prod.splits)
    qed
  qed
qed

lemma orphans_iff: "fst (cleanup_process pl pid) = [] \<longleftrightarrow> \<not> peer_waits pl pid"
  by (auto simp: cleanup_process_def peer_waits_def filter_empty_conv list_ex_iff)

lemma sched_step_sound:
  assumes "sched_step s s'" "sched_ok (snd s)"
  shows "sched_ok (snd s')"
  using assms(1)
proof cases
  case (sc_schedule now pm r pm' pl)
  then show ?thesis using schedule_sound [of pm now] assms(2) by auto
next
  case (sc_sleep now alarm pm r pm' pl)
  then obtain p where "pm_running pm = Some p" "ps_pid (rp_state p) \<noteq> KERNEL"
    by (auto simp: do_sleep_def take_running_def split: option.splits if_splits)
  then show ?thesis using do_sleep_sound [of pm p now alarm] assms(2) sc_sleep by auto
next
  case (sc_wakeup now tid pm r pm' pl)
  then show ?thesis using do_wakeup_sound assms(2) by auto
next
  case (sc_exit now st pl pm r pl' pm')
  then obtain p where "pm_running pm = Some p" "ps_pid (rp_state p) \<noteq> KERNEL"
    by (auto simp: do_exit_def take_running_def split: option.splits if_splits)
  then show ?thesis using do_exit_result [of pm p pl now st] assms(2) sc_exit by (auto split: if_splits)
next
  case (sc_exit_thread now st pm r pm' pl)
  then obtain p where "pm_running pm = Some p" "ps_pid (rp_state p) \<noteq> KERNEL"
    by (auto simp: do_exit_thread_def take_running_def split: option.splits if_splits)
  then show ?thesis using do_exit_thread_sound [of pm p now st] assms(2) sc_exit_thread by auto
next
  case (sc_terminate now pid pl pm r pl' pm')
  then show ?thesis using terminate_sound [of pm now pid pl] assms(2) by auto
next
  case (sc_rendezvous copy wakeup pl pl' pm)
  then show ?thesis using assms(2) by simp
qed

lemma new_sound: "sched_ok (process_manager_new ic t root tm)"
  using run_conserves(2) [of "runnable_new KERNEL t root"]
  by (auto simp: process_manager_new_def sched_ok_def runnable_new_def process_state_new_def split: prod.splits)

lemma admit_sound: "sched_ok pm \<Longrightarrow> sched_ok (admit_process pid next_pid next_tid t vmem pm)"
  by (auto simp: admit_process_def sched_ok_def ready_pids_def split: option.splits)

subsection \<open>Operations that move no process\<close>

definition same_pids :: "'v process_manager \<Rightarrow> 'v process_manager \<Rightarrow> bool" where
  "same_pids pm pm' \<longleftrightarrow>
    map_option (\<lambda>p. ps_pid (rp_state p)) (pm_running pm') = map_option (\<lambda>p. ps_pid (rp_state p)) (pm_running pm) \<and>
    ready_pids pm' = ready_pids pm"

lemma same_pids_sound: "same_pids pm pm' \<Longrightarrow> sched_ok pm \<Longrightarrow> sched_ok pm'"
  by (auto simp: same_pids_def sched_ok_def split: option.splits)

lemma same_pids_refl [simp]: "same_pids pm pm"
  by (simp add: same_pids_def)

lemma same_pids_trans: "same_pids pm pm1 \<Longrightarrow> same_pids pm1 pm2 \<Longrightarrow> same_pids pm pm2"
  by (simp add: same_pids_def)

lemma same_pids_simps [simp]:
  "same_pids pm (pm1\<lparr>pm_tm := x1\<rparr>) = same_pids pm pm1" "same_pids pm (pm1\<lparr>pm_zombies := x2\<rparr>) = same_pids pm pm1"
  "same_pids pm (pm1\<lparr>pm_live_count := x3\<rparr>) = same_pids pm pm1" "same_pids pm (pm1\<lparr>pm_deferred_reap := x4\<rparr>) = same_pids pm pm1"
  by (simp_all add: same_pids_def ready_pids_def)

lemma same_pids_running:
  "pm_running pm = Some p \<Longrightarrow> ps_pid (rp_state q) = ps_pid (rp_state p) \<Longrightarrow> same_pids pm (pm\<lparr>pm_running := Some q\<rparr>)"
  by (simp add: same_pids_def)

lemma map_update_first: "(\<And>x. g (u x) = g x) \<Longrightarrow> map g (update_first c u xs) = map g xs"
  by (induction xs) auto

lemma find_process_running:
  assumes "find_process pm pid = Ok (Running p)"
  shows "pm_running pm = Some p"
  using assms by (auto simp: find_process_def fail_def split: option.splits if_splits)

lemma find_process_panic: "find_process pm pid = Panic \<longleftrightarrow> pm_running pm = None"
  by (simp add: find_process_def fail_def split: option.split)

lemma update_process_same:
  assumes "\<And>ps. ps_pid (f ps) = ps_pid ps"
  shows "same_pids pm (update_process f pid pm)"
proof (cases "find_process pm pid")
  case (Ok x)
  then show ?thesis using assms find_process_running [of pm pid]
    by (cases x) (simp_all add: update_process_def same_pids_def ready_pids_def map_update_first)
qed (simp_all add: update_process_def)

lemma create_thread_same: "same_pids pm (snd (create_thread now max_threads forged tda pm))"
  by (auto simp: create_thread_def get_running_def same_pids_def ready_pids_def add_thread_def Let_def
      split: res.split prod.split option.split)

lemma join_detach_state:
  "try_join_thread p tid = (r, q) \<Longrightarrow> rp_state q = rp_state p" "detach_thread p tid = (r', q) \<Longrightarrow> rp_state q = rp_state p"
proof -
  show "rp_state q = rp_state p" if "try_join_thread p tid = (r, q)"
    using that by (simp add: try_join_thread_def Let_def split: option.splits sum.splits prod.splits if_splits) auto
  have l: "rp_state (snd (detach_live p' tid)) = rp_state p'" for p' :: "'a running_process"
    by (simp add: detach_live_def finish_detach_def split: option.split res.split)
  have "rp_state (snd (detach_thread p tid)) = rp_state p"
    by (simp add: detach_thread_def l split: option.split sum.split prod.split)
  then show "rp_state q = rp_state p" if "detach_thread p tid = (r', q)" using that by simp
qed

lemma try_join_same: "same_pids pm (snd (pm_try_join_thread pid tid pm))"
proof (cases "find_process pm pid")
  case (Ok x)
  then show ?thesis using find_process_running [of pm pid] join_detach_state(1)
    by (cases x) (auto simp: pm_try_join_thread_def Let_def intro!: same_pids_running arg_cong [of _ _ ps_pid] split: prod.split)
qed (simp_all add: pm_try_join_thread_def Let_def)

lemma do_detach_same: "same_pids pm (snd (do_detach_thread pid tid pm))"
proof (cases "find_process pm pid")
  case (Ok x)
  then show ?thesis using find_process_running [of pm pid] join_detach_state(2)
    by (cases x) (auto simp: do_detach_thread_def intro!: same_pids_running arg_cong [of _ _ ps_pid] split: prod.split)
qed (simp_all add: do_detach_thread_def)

lemma detach_thread_no_panic: "fst (detach_thread p tid) \<noteq> Panic"
  by (auto simp: detach_thread_def detach_live_def finish_detach_def detach_in_def fail_def
      split: option.split sum.split prod.split res.split)

lemma threads_no_panic:
  assumes "pm_running pm = Some p"
  shows "\<not> is_panic (fst (pm_try_join_thread pid tid pm))" "\<not> is_panic (fst (do_detach_thread pid tid pm))"
proof -
  have n: "find_process pm pid \<noteq> Panic" using assms by (simp add: find_process_panic)
  show "\<not> is_panic (fst (pm_try_join_thread pid tid pm))"
    using n by (simp add: pm_try_join_thread_def Let_def split: res.split process_ref.split prod.split)
  have "\<not> is_panic (fst (detach_thread q tid))" for q :: "'a running_process"
    using detach_thread_no_panic [of q tid] by (cases "fst (detach_thread q tid)") auto
  then show "\<not> is_panic (fst (do_detach_thread pid tid pm))"
    using n by (auto simp: do_detach_thread_def fail_def split: res.split process_ref.split prod.split) (metis fst_conv)
qed

lemma thread_reaped_same: "same_pids pm (snd (thread_reaped pm))"
  by (simp add: thread_reaped_def split: prod.split)

lemma harvest_zombie_thread_same: "same_pids pm (snd (harvest_zombie_thread unmap pid z pm))"
  by (auto simp: harvest_zombie_thread_def split: prod.split option.split res.split
      intro: thread_reaped_same same_pids_trans [OF update_process_same thread_reaped_same])

lemma harvest_all_same: "same_pids pm (snd (harvest_all unmap zs pm))"
proof (induction zs arbitrary: pm)
  case (Cons x zs)
  then show ?case using harvest_zombie_thread_same [of pm unmap "fst x" "snd x"]
    by (cases x) (auto split: prod.split res.split intro: same_pids_trans)
qed simp

lemma reap_deferred_same: "same_pids pm (snd (reap_deferred unmap pm))"
  unfolding reap_deferred_def by (rule same_pids_trans [OF _ harvest_all_same]) simp

text \<open>A first operation that moves no process, followed by one that moves none either.\<close>

lemma same_pids_then: "same_pids pm (snd x) \<Longrightarrow> (\<And>r pm1. x = (r, pm1) \<Longrightarrow> same_pids pm1 (snd (f r pm1))) \<Longrightarrow>
    same_pids pm (snd (case x of (r, pm1) \<Rightarrow> f r pm1))"
  by (cases x) (auto intro: same_pids_trans)

lemma same_pids_result: "same_pids pm (snd x) \<Longrightarrow> same_pids pm (snd (case x of (r, pm1) \<Rightarrow> (f r, pm1)))"
  by (cases x) simp

lemma join_attempt_same: "same_pids pm (snd (join_attempt unmap pid tid pm))"
proof -
  have h: "same_pids pm1 (snd (case harvest_zombie_thread unmap pid z pm1 of
      (r, pm1) \<Rightarrow> (case r of Ok _ \<Rightarrow> Done (Ok (zb_status z)) | Err e \<Rightarrow> Done (Err (Generic e)) | Panic \<Rightarrow> Done Panic, pm1)))" for z pm1
    by (rule same_pids_result [OF harvest_zombie_thread_same])
  have "join_attempt unmap pid tid pm = (case pm_try_join_thread pid tid pm of (r, pm1) \<Rightarrow>
      (case r of
         Ok (Joined z) \<Rightarrow> (case harvest_zombie_thread unmap pid z pm1 of
           (r, pm1) \<Rightarrow> (case r of Ok _ \<Rightarrow> Done (Ok (zb_status z)) | Err e \<Rightarrow> Done (Err (Generic e)) | Panic \<Rightarrow> Done Panic, pm1))
       | Ok (JoinWait _) \<Rightarrow> (Blocked, pm1)
       | Ok (JoinError e) \<Rightarrow> (Done (Err (Generic e)), pm1)
       | Err e \<Rightarrow> (Done (Err (Generic e)), pm1)
       | Panic \<Rightarrow> (Done Panic, pm1)))"
    by (simp add: join_attempt_def split: prod.split res.split join_result.split)
  then show ?thesis using h
    by (simp only:) (rule same_pids_then [OF try_join_same], simp split: res.split join_result.split)
qed

lemma join_thread_same: "same_pids pm (snd (join_thread unmap pid tid pm))"
  unfolding join_thread_def
  by (rule same_pids_then [OF reap_deferred_same]) (simp add: join_attempt_same split: res.split)

lemma pm_detach_same: "same_pids pm (snd (pm_detach_thread unmap pid tid pm))"
proof -
  have d: "same_pids pm1 (snd (case do_detach_thread pid tid pm1 of (r, pm2) \<Rightarrow>
      (case r of Ok (Some z) \<Rightarrow> harvest_zombie_thread unmap pid z pm2 | Ok None \<Rightarrow> (Ok (), pm2)
       | Err e \<Rightarrow> (Err e, pm2) | Panic \<Rightarrow> (Panic, pm2))))" for pm1
    by (rule same_pids_then [OF do_detach_same]) (simp add: harvest_zombie_thread_same split: res.split option.split)
  have "pm_detach_thread unmap pid tid pm = (case reap_deferred unmap pm of (r, pm1) \<Rightarrow>
      (case r of Ok _ \<Rightarrow> (case do_detach_thread pid tid pm1 of (r, pm2) \<Rightarrow>
          (case r of Ok (Some z) \<Rightarrow> harvest_zombie_thread unmap pid z pm2 | Ok None \<Rightarrow> (Ok (), pm2)
           | Err e \<Rightarrow> (Err e, pm2) | Panic \<Rightarrow> (Panic, pm2)))
       | Err e \<Rightarrow> (Err e, pm1) | Panic \<Rightarrow> (Panic, pm1)))"
    by (simp add: pm_detach_thread_def split: prod.split res.split option.split)
  then show ?thesis using d by (simp only:) (rule same_pids_then [OF reap_deferred_same], simp split: res.split)
qed

lemma reap_threads_same: "same_pids pm (snd (reap_threads zs pm))"
proof (induction zs arbitrary: pm)
  case (Cons z zs)
  then show ?case using thread_reaped_same [of pm] by (auto split: prod.split res.split intro: same_pids_trans)
qed simp

lemma harvest_zombies_same: "same_pids pm (snd (harvest_zombies pm))"
proof -
  have p: "same_pids pm (snd (pop_zombie_process pm))" by (auto simp: pop_zombie_process_def Let_def split: list.split)
  show ?thesis
  proof (cases "pop_zombie_process pm")
    case (Pair r pm1)
    then have s: "same_pids pm pm1" using p by simp
    have "same_pids pm (snd (reap_threads zs pm1))" for zs by (rule same_pids_trans [OF s reap_threads_same])
    then show ?thesis using s Pair
      by (auto simp: harvest_zombies_def split: prod.split res.split option.split) (metis snd_conv)
  qed
qed

lemma guard_same:
  "same_pids pm (snd (pm_store_mutex_guard a g pm))" "same_pids pm (snd (pm_remove_mutex_guard rc a pm))"
  by (auto simp: pm_store_mutex_guard_def pm_remove_mutex_guard_def get_running_def same_pids_def put_mutex_def fail_def
      split: option.split prod.split)

lemma reachable_sound: "reachable s \<Longrightarrow> sched_ok (snd s)"
proof (induction rule: reachable.induct)
  case (rc_step s s')
  then show ?case by (blast intro: sched_step_sound)
qed (metis snd_conv same_pids_sound new_sound admit_sound create_thread_same join_thread_same join_attempt_same
    pm_detach_same harvest_zombies_same guard_same)+

text \<open>Preemptions at the given times, and the threads they dispatch.\<close>

fun preempt :: "system_time list \<Rightarrow> 'v process_manager \<Rightarrow> tid list \<times> 'v process_manager" where
  "preempt [] pm = ([], pm)"
| "preempt (now # ts) pm =
    (case schedule now pm of
       (Ok r, pm) \<Rightarrow> (let (tids, pm) = preempt ts pm in (fst (snd r) # tids, pm))
     | (_, pm) \<Rightarrow> ([], pm))"

lemma schedule_running:
  assumes "schedule now pm = (Ok r, pm')"
  shows "pm_running pm' \<noteq> None"
proof -
  obtain ctx b where "dispatch now ctx b = (Ok r, pm')"
    using assms by (auto simp: schedule_def take_running_def Let_def split: option.splits prod.splits)
  then show ?thesis by (rule dispatch_frame(5))
qed

lemma ahead_pos:
  assumes "x \<in># ready_threads pm"
  shows "0 < ahead (rd_admission_time x) pm"
proof -
  from assms have "x \<in># filter_mset (\<lambda>t. rd_admission_time t \<le> rd_admission_time x) (ready_threads pm)" by simp
  then have "filter_mset (\<lambda>t. rd_admission_time t \<le> rd_admission_time x) (ready_threads pm) \<noteq> {#}" by force
  then show ?thesis by (simp only: ahead_def nonempty_has_size [symmetric]) simp
qed

lemma preempt_runs:
  assumes "pm_running pm \<noteq> None" "x \<in># ready_threads pm" "\<forall>now\<in>set ts. rd_admission_time x < now"
    "ahead (rd_admission_time x) pm \<le> length ts"
  shows "ts_id (rd_state x) \<in> set (fst (preempt ts pm))"
  using assms
proof (induction ts arbitrary: pm)
  case Nil
  then show ?case using ahead_pos [OF Nil(2)] by simp
next
  case (Cons now ts)
  from Cons.prems(1) obtain p where "pm_running pm = Some p" by blast
  from schedule_total [OF this, of now] obtain r pm' where s: "schedule now pm = (Ok r, pm')" by blast
  show ?case
  proof (cases "fst (snd r) = ts_id (rd_state x)")
    case False
    with early_change [OF schedule_change [OF s] Cons.prems(2)] Cons.prems(3)
    have "x \<in># ready_threads pm' \<and> Suc (ahead (rd_admission_time x) pm') = ahead (rd_admission_time x) pm"
      by (simp add: ahead_early)
    then have "ts_id (rd_state x) \<in> set (fst (preempt ts pm'))"
      using Cons.IH [of pm'] schedule_running [OF s] Cons.prems(3,4) by simp
    then show ?thesis by (auto simp: s split: prod.splits)
  qed (auto simp: s split: prod.splits)
qed

text \<open>A system with the kernel and two processes of one thread each, all admitted at the epoch.\<close>

definition example_pm :: "unit process_manager" where
  "example_pm = admit_process 2 3 3 (ready_new EPOCH 2 None None None) ()
    (admit_process 1 2 2 (ready_new EPOCH 1 None None None) ()
      (process_manager_new True (ready_new EPOCH 0 None None None) () \<lparr>tm_next_id = 1, tm_live_count = 1\<rparr>))"

lemma example_facts:
  "pm_running example_pm \<noteq> None" 
  "ready_threads example_pm = {#ready_new EPOCH 1 None None None, ready_new EPOCH 2 None None None#}"
  "reachable (pending_new, example_pm)"
proof -
  show "pm_running example_pm \<noteq> None" by code_simp
  show "ready_threads example_pm = {#ready_new EPOCH 1 None None None, ready_new EPOCH 2 None None None#}" 
    by code_simp
  show "reachable (pending_new, example_pm)"
    unfolding example_pm_def by (intro rc_admit rc_boot)
qed

text \<open>The same system after one preemption: the first of the two processes runs.\<close>

lemma example_running:
  obtains r pm p where "schedule (SystemTime 5 0) example_pm = (Ok r, pm)" "pm_running pm = Some p"
    "ps_pid (rp_state p) = 1" "reachable (pending_new, pm)"
proof -
  obtain r pm where s: "schedule (SystemTime 5 0) example_pm = (Ok r, pm)"
    using schedule_total example_facts(1) by blast
  have "(case schedule (SystemTime 5 0) example_pm of
      (r, pm) \<Rightarrow> map_option (\<lambda>p. ps_pid (rp_state p)) (pm_running pm)) = Some 1" by code_simp
  then obtain p where p: "pm_running pm = Some p" "ps_pid (rp_state p) = 1" by (auto simp: s)
  show ?thesis by (rule that [OF s p rc_step [OF example_facts(3) sc_schedule [OF s]]])
qed

section \<open>Properties\<close>



text \<open>C23. Every ready thread runs. While a thread is passed over by preemptions, sleeps and exits of other
  threads and wake-ups, at times later than its admission, fewer context switches happen than there are
  ready threads admitted no later than it. So as many preemptions as there are such threads, at whatever
  later times, dispatch it.\<close>

theorem ready_thread_runs:
  assumes "pm_running pm \<noteq> None" "x \<in># ready_threads pm" "\<forall>now\<in>set ts. rd_admission_time x < now"
    "length ts = ahead (rd_admission_time x) pm"
  shows "(\<forall>n pm'. passed_over (rd_admission_time x) (ts_id (rd_state x)) n pm pm' \<longrightarrow>
      n < ahead (rd_admission_time x) pm) \<and>
    ts_id (rd_state x) \<in> set (fst (preempt ts pm))"
proof (intro conjI allI impI)
  fix n pm'
  assume "passed_over (rd_admission_time x) (ts_id (rd_state x)) n pm pm'"
  from passed_over_early [OF this assms(2)] have "x \<in># ready_threads pm'"
    "n + ahead (rd_admission_time x) pm' = ahead (rd_admission_time x) pm" by simp_all
  moreover from this(1) have "0 < ahead (rd_admission_time x) pm'" by (rule ahead_pos)
  ultimately show "n < ahead (rd_admission_time x) pm" by linarith
qed (rule preempt_runs; use assms in simp)

theorem ready_thread_runs_witness:
  "2 \<in> set (fst (preempt [(SystemTime 5 0), (SystemTime 6 0)] example_pm))"
proof -
  let ?x = "ready_new EPOCH 2 None None None"
  have x: "rd_admission_time ?x = EPOCH" "ts_id (rd_state ?x) = 2"
    by (simp_all add: ready_new_def thread_state_new_def)
  have "length [(SystemTime 5 0), (SystemTime 6 0)] = ahead EPOCH example_pm"
    by (simp add: ahead_def example_facts(2) ready_new_def)
  moreover have "\<forall>now\<in>set [(SystemTime 5 0), (SystemTime 6 0)]. EPOCH < now"
    by code_simp
  ultimately show ?thesis
    using ready_thread_runs [of example_pm ?x "[SystemTime 5 0, SystemTime 6 0]"] example_facts(1,2)
    by (simp add: x del: preempt.simps)
qed

text \<open>C24. A process other than the kernel cannot exit while a thread of another process waits for it in
  a rendezvous: the clean-up wakes such threads after the running process has been taken out, and the
  wake-up expects one. The exit then stops the kernel, and it succeeds in every other case.\<close>

theorem exit_with_waiting_peer_panics:
  assumes "reachable (pl, pm)"
    "pm_running pm = Some p" "ps_pid (rp_state p) \<noteq> KERNEL"
  shows "if (\<exists>u\<in>set (pushes pl). pu_pid u \<noteq> ps_pid (rp_state p) \<and> pu_dst_pid u = ps_pid (rp_state p)) \<or>
      (\<exists>l\<in>set (pulls pl). pl_pid l \<noteq> ps_pid (rp_state p) \<and> pl_src_pid l = ps_pid (rp_state p))
    then is_panic (fst (do_exit now st pl pm)) else is_ok (fst (do_exit now st pl pm))"
  using do_exit_result [OF reachable_sound [OF assms(1), unfolded snd_conv] assms(2,3), of pl now st]
  by (auto simp: orphans_iff peer_waits_def list_ex_iff split: if_splits)

theorem exit_with_waiting_peer_panics_witness:
  "case schedule (SystemTime 5 0) example_pm of
     (r, pm) \<Rightarrow>
       is_panic (fst (do_exit EPOCH 0
         (fst (snd (do_push (\<lambda>k _ _ _ _ _. (Ok (), k)) (\<lambda>k _. (Ok (), k)) pending_new pm 2 2 1 1 4096 8))) pm)) \<and>
       is_ok (fst (do_exit EPOCH 0 pending_new pm))"
proof -
  let ?c = "\<lambda>(k :: unit process_manager) _ _ _ _ _. (Ok (), k)" and ?w = "\<lambda>(k :: unit process_manager) _. (Ok (), k)"
  obtain r pm p where s: "schedule (SystemTime 5 0) example_pm = (Ok r, pm)"
    and p: "pm_running pm = Some p" "ps_pid (rp_state p) = 1" and r0: "reachable (pending_new, pm)"
    by (rule example_running)
  let ?pl = "fst (snd (do_push ?c ?w pending_new pm 2 2 1 1 4096 8))"
  have pl: "pushes ?pl = [\<lparr>pu_pid = 2, pu_tid = 2, pu_dst_pid = 1, pu_dst_tid = 1, pu_buffer = 4096,
      pu_transfer_len = 8\<rparr>]" by (simp add: do_push_def pending_new_def)
  have "rendezvous_step ?c ?w pending_new ?pl" by (rule rv_push) (simp add: pending_new_def waiting_def)
  then have r1: "reachable (?pl, pm)" by (intro rc_step [OF r0 sc_rendezvous])
  show ?thesis
    using exit_with_waiting_peer_panics [OF r0 p(1), of EPOCH 0] exit_with_waiting_peer_panics [OF r1 p(1), of EPOCH 0] p(2)
    by (simp add: s pl KERNEL_def) (simp add: pending_new_def)
qed

end
