(* ===== verification/Page_Tables.thy ===== *)
theory Page_Tables
  imports Memory_Regions
begin

text \<open>
  The paging structures: entries of page tables and page directories and their encoding in 32-bit
  words (\<open>src/src/libs/arch/src/x86/mem/paging/\<close>), page tables and page directories
  (\<open>src/src/kernel/src/hal/arch/shared/mem/mmu/\<close>). A flag with two variants is a Boolean, and each
  entry is stored as the word the hardware reads. A page-aligned virtual address is a number, and
  the storage of a table is the frame it lives in. No operation changes a table when it fails, so an
  operation returns the new table, or its error. Flushing the translation look-aside buffer has no
  effect on the tables.

  The lemmas show that entries survive their encoding and that a table behaves as a finite map from
  pages to entries together with the number of its present entries.
\<close>

section \<open>Definitions\<close>

abbreviation (input) PAGE_SIZE :: nat where "PAGE_SIZE \<equiv> 4096"
abbreviation (input) PGTAB_SIZE :: nat where "PGTAB_SIZE \<equiv> 4194304"
abbreviation (input) PAGE_TABLE_LENGTH :: nat where "PAGE_TABLE_LENGTH \<equiv> 1024"

type_synonym pte_word = "32 word"

subsection \<open>Flags\<close>

abbreviation (input) PRESENT_SHIFT :: nat where "PRESENT_SHIFT \<equiv> 0"
abbreviation (input) READ_WRITE_SHIFT :: nat where "READ_WRITE_SHIFT \<equiv> 1"
abbreviation (input) USER_SUPERVISOR_SHIFT :: nat where "USER_SUPERVISOR_SHIFT \<equiv> 2"
abbreviation (input) PAGE_WRITE_THROUGH_SHIFT :: nat where "PAGE_WRITE_THROUGH_SHIFT \<equiv> 3"
abbreviation (input) PAGE_CACHE_DISABLE_SHIFT :: nat where "PAGE_CACHE_DISABLE_SHIFT \<equiv> 4"
abbreviation (input) ACCESSED_SHIFT :: nat where "ACCESSED_SHIFT \<equiv> 5"
abbreviation (input) DIRTY_SHIFT :: nat where "DIRTY_SHIFT \<equiv> 6"
abbreviation (input) PAGE_SIZE_SHIFT :: nat where "PAGE_SIZE_SHIFT \<equiv> 7"
abbreviation (input) COPY_ON_WRITE_SHIFT :: nat where "COPY_ON_WRITE_SHIFT \<equiv> 9"

definition flag_from_raw :: "nat \<Rightarrow> pte_word \<Rightarrow> bool" where
  "flag_from_raw shift value = (value AND push_bit shift 1 \<noteq> 0)"

definition flag_into_raw :: "nat \<Rightarrow> bool \<Rightarrow> pte_word" where
  "flag_into_raw shift b = (if b then push_bit shift 1 else 0)"

subsection \<open>Page table entries\<close>

text \<open>True is the variant with a set bit: present, read-write, user, write-through, cache disabled.\<close>

record page_table_entry_flags =
  tf_present :: bool
  tf_read_write :: bool
  tf_user :: bool
  tf_write_through :: bool
  tf_cache_disable :: bool
  tf_accessed :: bool
  tf_dirty :: bool
  tf_cow :: bool

record page_table_entry =
  te_flags :: page_table_entry_flags
  te_frame :: nat

definition pte_flags_new ::
  "bool \<Rightarrow> bool \<Rightarrow> bool \<Rightarrow> bool \<Rightarrow> bool \<Rightarrow> bool \<Rightarrow> bool \<Rightarrow> page_table_entry_flags" where
  "pte_flags_new present read_write user wthrough cache_disable accessed dirty =
    \<lparr>tf_present = present, tf_read_write = read_write, tf_user = user, tf_write_through = wthrough,
     tf_cache_disable = cache_disable, tf_accessed = accessed, tf_dirty = dirty, tf_cow = False\<rparr>"

definition pte_flags_from_raw :: "pte_word \<Rightarrow> page_table_entry_flags" where
  "pte_flags_from_raw value =
    \<lparr>tf_present = flag_from_raw PRESENT_SHIFT value, tf_read_write = flag_from_raw READ_WRITE_SHIFT value,
     tf_user = flag_from_raw USER_SUPERVISOR_SHIFT value,
     tf_write_through = flag_from_raw PAGE_WRITE_THROUGH_SHIFT value,
     tf_cache_disable = flag_from_raw PAGE_CACHE_DISABLE_SHIFT value,
     tf_accessed = flag_from_raw ACCESSED_SHIFT value, tf_dirty = flag_from_raw DIRTY_SHIFT value,
     tf_cow = flag_from_raw COPY_ON_WRITE_SHIFT value\<rparr>"

definition pte_flags_into_raw :: "page_table_entry_flags \<Rightarrow> pte_word" where
  "pte_flags_into_raw f =
    flag_into_raw PRESENT_SHIFT (tf_present f) OR flag_into_raw READ_WRITE_SHIFT (tf_read_write f) OR
    flag_into_raw USER_SUPERVISOR_SHIFT (tf_user f) OR
    flag_into_raw PAGE_WRITE_THROUGH_SHIFT (tf_write_through f) OR
    flag_into_raw PAGE_CACHE_DISABLE_SHIFT (tf_cache_disable f) OR
    flag_into_raw ACCESSED_SHIFT (tf_accessed f) OR flag_into_raw DIRTY_SHIFT (tf_dirty f) OR
    flag_into_raw COPY_ON_WRITE_SHIFT (tf_cow f)"

definition pte_from_raw :: "pte_word \<Rightarrow> page_table_entry option" where
  "pte_from_raw value =
    (case frame_number_from_raw_value (unat (drop_bit 12 value)) of
       Some frame \<Rightarrow> Some \<lparr>te_flags = pte_flags_from_raw value, te_frame = frame\<rparr>
     | None \<Rightarrow> None)"

definition pte_into_raw :: "page_table_entry \<Rightarrow> pte_word" where
  "pte_into_raw p = pte_flags_into_raw (te_flags p) OR push_bit 12 (word_of_nat (te_frame p))"

definition pte_frame_address :: "page_table_entry \<Rightarrow> addr" where
  "pte_frame_address p = te_frame p * FRAME_SIZE"

definition is_present :: "page_table_entry \<Rightarrow> bool" where
  "is_present p = tf_present (te_flags p)"

definition is_writable :: "page_table_entry \<Rightarrow> bool" where
  "is_writable p = tf_read_write (te_flags p)"

definition is_cow :: "page_table_entry \<Rightarrow> bool" where
  "is_cow p = tf_cow (te_flags p)"

definition set_read_write :: "bool \<Rightarrow> page_table_entry \<Rightarrow> page_table_entry" where
  "set_read_write b p = p\<lparr>te_flags := (te_flags p)\<lparr>tf_read_write := b\<rparr>\<rparr>"

definition set_user_supervisor :: "bool \<Rightarrow> page_table_entry \<Rightarrow> page_table_entry" where
  "set_user_supervisor b p = p\<lparr>te_flags := (te_flags p)\<lparr>tf_user := b\<rparr>\<rparr>"

definition set_cow :: "bool \<Rightarrow> page_table_entry \<Rightarrow> page_table_entry" where
  "set_cow b p = p\<lparr>te_flags := (te_flags p)\<lparr>tf_cow := b\<rparr>\<rparr>"

subsection \<open>Page tables\<close>

record page_table =
  pt_nmapped :: nat
  pt_entries :: "pte_word list"
  pt_storage :: addr

text \<open>The constructor clears the entries it is given.\<close>

definition page_table_new :: "addr \<Rightarrow> page_table" where
  "page_table_new storage =
    \<lparr>pt_nmapped = 0, pt_entries = replicate PAGE_TABLE_LENGTH 0, pt_storage = storage\<rparr>"

definition get_pte_index :: "addr \<Rightarrow> nat" where
  "get_pte_index a =
    unat (drop_bit 12 ((word_of_nat a :: 32 word) AND (NOT (4194304 - 1) XOR NOT (4096 - 1))))"

definition read_pte :: "page_table \<Rightarrow> addr \<Rightarrow> page_table_entry option kres" where
  "read_pte pt vaddr = bind_res (index_get (pt_entries pt) (get_pte_index vaddr)) (\<lambda>w. Ok (pte_from_raw w))"

definition write_pte :: "page_table \<Rightarrow> addr \<Rightarrow> page_table_entry \<Rightarrow> page_table kres" where
  "write_pte pt vaddr p =
    bind_res (index_set (pt_entries pt) (get_pte_index vaddr) (pte_into_raw p)) (\<lambda>es.
      Ok (pt\<lparr>pt_entries := es\<rparr>))"

text \<open>The cached copy of the entry every operation starts with.\<close>

definition cached_pte :: "page_table \<Rightarrow> addr \<Rightarrow> page_table_entry kres" where
  "cached_pte pt vaddr =
    bind_res (read_pte pt vaddr) (\<lambda>p.
      case p of Some p \<Rightarrow> Ok p | None \<Rightarrow> fail TryAgain ''failed to read page table entry'')"

definition mapped_pte :: "usize \<Rightarrow> bool \<Rightarrow> bool \<Rightarrow> bool \<Rightarrow> access_permission \<Rightarrow> page_table_entry" where
  "mapped_pte frame supervisor writethrough cache access =
    \<lparr>te_flags = pte_flags_new True (perm_write access) (\<not> supervisor) writethrough (\<not> cache) False False,
     te_frame = frame\<rparr>"

definition pt_map ::
  "page_table \<Rightarrow> addr \<Rightarrow> addr \<Rightarrow> bool \<Rightarrow> bool \<Rightarrow> bool \<Rightarrow> access_permission \<Rightarrow> page_table kres" where
  "pt_map pt vaddr paddr supervisor writethrough cache access =
    bind_res (cached_pte pt vaddr) (\<lambda>p.
      if is_present p then fail ResourceBusy ''page table entry is busy''
      else
        bind_res (into_frame_number paddr) (\<lambda>frame.
        bind_res (write_pte pt vaddr (mapped_pte frame supervisor writethrough cache access)) (\<lambda>pt.
        Ok (pt\<lparr>pt_nmapped := pt_nmapped pt + 1\<rparr>))))"

definition pt_unmap :: "page_table \<Rightarrow> addr \<Rightarrow> (addr \<times> page_table) kres" where
  "pt_unmap pt page_address =
    bind_res (cached_pte pt page_address) (\<lambda>p.
      if \<not> is_present p then fail ResourceBusy ''page is not present''
      else
        bind_res (from_frame_number (te_frame p)) (\<lambda>paddr.
        bind_res (write_pte pt page_address
          \<lparr>te_flags = pte_flags_new False False True False True False False, te_frame = 0\<rparr>) (\<lambda>pt.
        if pt_nmapped pt = 0 then Panic else Ok (paddr, pt\<lparr>pt_nmapped := pt_nmapped pt - 1\<rparr>))))"

definition pt_lookup :: "page_table \<Rightarrow> addr \<Rightarrow> addr kres" where
  "pt_lookup pt page_address =
    bind_res (cached_pte pt page_address) (\<lambda>p.
      if \<not> is_present p then fail NoSuchEntry ''page is not present''
      else from_frame_number (te_frame p))"

definition is_page_present :: "page_table \<Rightarrow> addr \<Rightarrow> bool kres" where
  "is_page_present pt page_address = bind_res (cached_pte pt page_address) (\<lambda>p. Ok (is_present p))"

definition pt_ctrl :: "page_table \<Rightarrow> bool \<Rightarrow> addr \<Rightarrow> access_permission \<Rightarrow> page_table kres" where
  "pt_ctrl pt supervisor page_address access =
    bind_res (cached_pte pt page_address) (\<lambda>p.
      if \<not> is_present p then fail NoSuchEntry ''page is not present''
      else write_pte pt page_address
        (set_user_supervisor (\<not> supervisor) (set_read_write (perm_write access) p)))"

definition mark_cow :: "page_table \<Rightarrow> addr \<Rightarrow> page_table kres" where
  "mark_cow pt page_address =
    bind_res (cached_pte pt page_address) (\<lambda>p.
      if \<not> is_present p then fail NoSuchEntry ''page is not present''
      else if \<not> is_writable p then fail InvalidArgument ''page is already read-only''
      else write_pte pt page_address (set_cow True (set_read_write False p)))"

definition unmark_cow :: "page_table \<Rightarrow> addr \<Rightarrow> page_table kres" where
  "unmark_cow pt page_address =
    bind_res (cached_pte pt page_address) (\<lambda>p.
      if \<not> is_present p then fail NoSuchEntry ''page is not present''
      else if \<not> is_cow p then fail InvalidArgument ''page is not copy-on-write''
      else write_pte pt page_address (set_read_write True (set_cow False p)))"

definition replace_cow_frame :: "page_table \<Rightarrow> addr \<Rightarrow> addr \<Rightarrow> (addr \<times> page_table) kres" where
  "replace_cow_frame pt page_address new_frame =
    bind_res (cached_pte pt page_address) (\<lambda>p.
      if \<not> is_present p then fail NoSuchEntry ''page is not present''
      else if \<not> is_cow p then fail InvalidArgument ''page is not copy-on-write''
      else if is_writable p then fail InvalidArgument ''copy-on-write page is unexpectedly writable''
      else
        bind_res (from_frame_number (te_frame p)) (\<lambda>old_frame.
        bind_res (into_frame_number new_frame) (\<lambda>frame.
        bind_res (write_pte pt page_address
          \<lparr>te_flags = (te_flags p)\<lparr>tf_read_write := True, tf_cow := False\<rparr>, te_frame = frame\<rparr>) (\<lambda>pt.
        Ok (old_frame, pt)))))"

text \<open>Filling stops at the first frame number out of range and keeps the entries written so far.\<close>

fun fill_entries ::
  "page_table_entry_flags \<Rightarrow> nat \<Rightarrow> nat \<Rightarrow> nat \<Rightarrow> nat \<Rightarrow> page_table \<Rightarrow> (nat \<times> error, unit) res \<times> page_table" where
  "fill_entries pte_flags base_frame start_index i 0 pt = (Ok (), pt)"
| "fill_entries pte_flags base_frame start_index i (Suc k) pt =
    (case checked_add base_frame i of
       None \<Rightarrow> (Err (i, Error InvalidArgument ''frame number overflow''), pt)
     | Some raw_frame \<Rightarrow>
         (case frame_number_from_raw_value raw_frame of
            None \<Rightarrow> (Err (i, Error InvalidArgument ''frame number out of range''), pt)
          | Some frame \<Rightarrow>
              (case index_set (pt_entries pt) (start_index + i)
                      (pte_into_raw \<lparr>te_flags = pte_flags, te_frame = frame\<rparr>) of
                 Ok es \<Rightarrow>
                   fill_entries pte_flags base_frame start_index (Suc i) k
                     (pt\<lparr>pt_entries := es, pt_nmapped := pt_nmapped pt + 1\<rparr>)
               | Err e \<Rightarrow> (Err e, pt)
               | Panic \<Rightarrow> (Panic, pt))))"

definition pt_fill ::
  "page_table \<Rightarrow> nat \<Rightarrow> nat \<Rightarrow> addr \<Rightarrow> page_table_entry_flags \<Rightarrow> bool \<Rightarrow>
   (nat \<times> error, nat) res \<times> page_table" where
  "pt_fill pt start_index cnt base_address pte_flags skip_pte_verification =
    (case checked_add start_index cnt of
       None \<Rightarrow> (Err (0, Error InvalidArgument ''index overflow''), pt)
     | Some stop \<Rightarrow>
         if length (pt_entries pt) < stop then (Err (0, Error InvalidArgument ''index out of bounds''), pt)
         else if \<not> tf_present pte_flags then
           (Err (0, Error InvalidArgument ''present bit not set in pte_flags''), pt)
         else if \<not> skip_pte_verification \<and>
           (\<exists>w \<in> set (List.take cnt (drop start_index (pt_entries pt))). flag_from_raw PRESENT_SHIFT w) then
           (Err (0, Error ResourceBusy ''page table entry is busy''), pt)
         else
           (case into_frame_number base_address of
              Ok base_frame \<Rightarrow>
                (case fill_entries pte_flags base_frame start_index 0 cnt pt of
                   (Ok _, pt) \<Rightarrow> (Ok cnt, pt)
                 | (Err e, pt) \<Rightarrow> (Err e, pt)
                 | (Panic, pt) \<Rightarrow> (Panic, pt))
            | Err e \<Rightarrow> (Err (0, e), pt)
            | Panic \<Rightarrow> (Panic, pt)))"

definition read_pte_at :: "page_table \<Rightarrow> addr \<Rightarrow> page_table_entry option kres" where
  "read_pte_at pt page_address =
    bind_res (read_pte pt page_address) (\<lambda>p.
      Ok (case p of Some p \<Rightarrow> if is_present p then Some p else None | None \<Rightarrow> None))"

definition present_entry :: "pte_word \<Rightarrow> page_table_entry option" where
  "present_entry w = (case pte_from_raw w of Some p \<Rightarrow> if is_present p then Some p else None | None \<Rightarrow> None)"

definition iter_present_ptes :: "page_table \<Rightarrow> (nat \<times> page_table_entry) list" where
  "iter_present_ptes pt =
    List.map_filter (\<lambda>(i, w). map_option (\<lambda>p. (i, p)) (present_entry w)) (enumerate 0 (pt_entries pt))"

subsection \<open>Page directories\<close>

record page_directory_entry_flags =
  df_present :: bool
  df_read_write :: bool
  df_user :: bool
  df_write_through :: bool
  df_cache_disable :: bool
  df_accessed :: bool
  df_dirty :: bool
  df_page_size :: bool

record page_directory_entry =
  de_flags :: page_directory_entry_flags
  de_frame :: nat

definition pde_flags_from_raw :: "pte_word \<Rightarrow> page_directory_entry_flags" where
  "pde_flags_from_raw value =
    \<lparr>df_present = flag_from_raw PRESENT_SHIFT value, df_read_write = flag_from_raw READ_WRITE_SHIFT value,
     df_user = flag_from_raw USER_SUPERVISOR_SHIFT value,
     df_write_through = flag_from_raw PAGE_WRITE_THROUGH_SHIFT value,
     df_cache_disable = flag_from_raw PAGE_CACHE_DISABLE_SHIFT value,
     df_accessed = flag_from_raw ACCESSED_SHIFT value, df_dirty = flag_from_raw DIRTY_SHIFT value,
     df_page_size = flag_from_raw PAGE_SIZE_SHIFT value\<rparr>"

definition pde_flags_into_raw :: "page_directory_entry_flags \<Rightarrow> pte_word" where
  "pde_flags_into_raw f =
    flag_into_raw PRESENT_SHIFT (df_present f) OR flag_into_raw READ_WRITE_SHIFT (df_read_write f) OR
    flag_into_raw USER_SUPERVISOR_SHIFT (df_user f) OR
    flag_into_raw PAGE_WRITE_THROUGH_SHIFT (df_write_through f) OR
    flag_into_raw PAGE_CACHE_DISABLE_SHIFT (df_cache_disable f) OR
    flag_into_raw ACCESSED_SHIFT (df_accessed f) OR flag_into_raw DIRTY_SHIFT (df_dirty f) OR
    flag_into_raw PAGE_SIZE_SHIFT (df_page_size f)"

definition pde_from_raw :: "pte_word \<Rightarrow> page_directory_entry option" where
  "pde_from_raw value =
    (case frame_number_from_raw_value (unat (drop_bit 12 value)) of
       Some frame \<Rightarrow> Some \<lparr>de_flags = pde_flags_from_raw value, de_frame = frame\<rparr>
     | None \<Rightarrow> None)"

definition pde_into_raw :: "page_directory_entry \<Rightarrow> pte_word" where
  "pde_into_raw p = pde_flags_into_raw (de_flags p) OR push_bit 12 (word_of_nat (de_frame p))"

record page_directory =
  pd_entries :: "pte_word list"

definition page_directory_new :: page_directory where
  "page_directory_new = \<lparr>pd_entries = replicate PAGE_TABLE_LENGTH 0\<rparr>"

definition get_pde_index :: "addr \<Rightarrow> nat" where
  "get_pde_index a = unat (drop_bit 22 ((word_of_nat a :: 32 word) AND NOT (4194304 - 1)))"

definition read_pde :: "page_directory \<Rightarrow> addr \<Rightarrow> page_directory_entry option kres" where
  "read_pde pd vaddr = bind_res (index_get (pd_entries pd) (get_pde_index vaddr)) (\<lambda>w. Ok (pde_from_raw w))"

definition write_pde :: "page_directory \<Rightarrow> addr \<Rightarrow> page_directory_entry \<Rightarrow> page_directory kres" where
  "write_pde pd vaddr p =
    bind_res (index_set (pd_entries pd) (get_pde_index vaddr) (pde_into_raw p)) (\<lambda>es.
      Ok (pd\<lparr>pd_entries := es\<rparr>))"

definition cached_pde :: "page_directory \<Rightarrow> addr \<Rightarrow> page_directory_entry kres" where
  "cached_pde pd vaddr =
    bind_res (read_pde pd vaddr) (\<lambda>p.
      case p of Some p \<Rightarrow> Ok p | None \<Rightarrow> fail TryAgain ''failed to read page directory entry'')"

definition pd_map :: "page_directory \<Rightarrow> addr \<Rightarrow> addr \<Rightarrow> bool \<Rightarrow> access_permission \<Rightarrow> page_directory kres" where
  "pd_map pd vaddr paddr supervisor access =
    bind_res (cached_pde pd vaddr) (\<lambda>p.
      if df_present (de_flags p) then fail ResourceBusy ''page directory entry is busy''
      else
        bind_res (into_frame_number paddr) (\<lambda>frame.
        write_pde pd vaddr
          \<lparr>de_flags = \<lparr>df_present = True, df_read_write = perm_write access, df_user = (\<not> supervisor),
             df_write_through = False, df_cache_disable = False, df_accessed = False, df_dirty = False,
             df_page_size = False\<rparr>, de_frame = frame\<rparr>))"

definition pd_unmap :: "page_directory \<Rightarrow> addr \<Rightarrow> (addr \<times> page_directory) kres" where
  "pd_unmap pd vaddr =
    bind_res (cached_pde pd vaddr) (\<lambda>p.
      if \<not> df_present (de_flags p) then fail ResourceBusy ''page directory entry is not present''
      else
        bind_res (from_frame_number (de_frame p)) (\<lambda>paddr.
        bind_res (write_pde pd vaddr
          \<lparr>de_flags = \<lparr>df_present = False, df_read_write = False, df_user = True, df_write_through = True,
             df_cache_disable = True, df_accessed = False, df_dirty = False, df_page_size = False\<rparr>,
           de_frame = 0\<rparr>) (\<lambda>pd.
        Ok (paddr, pd))))"

section \<open>Encoding\<close>

lemma flag_from_raw_bit: "flag_from_raw n w = bit w n"
  unfolding flag_from_raw_def by (simp only: bit_iff_and_push_bit_not_eq_0)

lemma bit_flag_into_raw: "bit (flag_into_raw n b) m \<longleftrightarrow> b \<and> m = n \<and> n < 32"
  by (auto simp: flag_into_raw_def bit_simps)

lemma frame_number_bound: "n \<le> FRAME_NUMBER_MAX \<Longrightarrow> n < 2 ^ 20"
  by (simp add: FRAME_NUMBER_MAX_def)

lemma drop_bit_entry:
  assumes "n \<le> FRAME_NUMBER_MAX" "\<And>m. 12 \<le> m \<Longrightarrow> \<not> bit f m"
  shows "unat (drop_bit 12 (f OR push_bit 12 (word_of_nat n) :: pte_word)) = n"
proof -
  have u: "unat (word_of_nat n :: pte_word) = n"
    using frame_number_bound [OF assms(1)] by (simp add: unat_of_nat)
  have b: "m < 20" if a: "bit (word_of_nat n :: pte_word) m" for m
  proof (rule ccontr)
    assume m: "\<not> m < 20"
    have "n < 2 ^ m" using frame_number_bound [OF assms(1)] m
      by (meson leI less_le_trans one_le_numeral power_increasing)
    then have "\<not> bit (unat (word_of_nat n :: pte_word)) m" by (simp add: u bit_iff_odd)
    then show False using a by (simp add: bit_unsigned_iff possible_bit_def)
  qed
  have "drop_bit 12 (f OR push_bit 12 (word_of_nat n)) = (word_of_nat n :: pte_word)"
  proof (rule bit_eqI)
    fix m
    show "bit (drop_bit 12 (f OR push_bit 12 (word_of_nat n :: pte_word))) m = bit (word_of_nat n :: pte_word) m"
      using assms(2) [of "12 + m"] b [of m] by (auto simp: bit_simps)
  qed
  then show ?thesis using u by simp
qed

lemma low_flags: "12 \<le> m \<Longrightarrow> \<not> bit (pte_flags_into_raw f) m" "12 \<le> m \<Longrightarrow> \<not> bit (pde_flags_into_raw g) m"
  by (auto simp: pte_flags_into_raw_def pde_flags_into_raw_def bit_simps bit_flag_into_raw)

lemma pte_round_trip:
  assumes "te_frame p \<le> FRAME_NUMBER_MAX"
  shows "pte_from_raw (pte_into_raw p) = Some p"
proof -
  have "unat (drop_bit 12 (pte_into_raw p)) = te_frame p"
    unfolding pte_into_raw_def by (rule drop_bit_entry [OF assms low_flags(1)])
  moreover have "pte_flags_from_raw (pte_into_raw p) = te_flags p"
    by (rule page_table_entry_flags.equality)
       (simp_all add: pte_flags_from_raw_def flag_from_raw_bit pte_into_raw_def pte_flags_into_raw_def
         bit_simps bit_flag_into_raw)
  ultimately show ?thesis using assms
    by (simp add: pte_from_raw_def frame_number_from_raw_value_def)
qed

lemma pde_round_trip:
  assumes "de_frame p \<le> FRAME_NUMBER_MAX"
  shows "pde_from_raw (pde_into_raw p) = Some p"
proof -
  have "unat (drop_bit 12 (pde_into_raw p)) = de_frame p"
    unfolding pde_into_raw_def by (rule drop_bit_entry [OF assms low_flags(2)])
  moreover have "pde_flags_from_raw (pde_into_raw p) = de_flags p"
    by (rule page_directory_entry_flags.equality)
       (simp_all add: pde_flags_from_raw_def flag_from_raw_bit pde_into_raw_def pde_flags_into_raw_def
         bit_simps bit_flag_into_raw)
  ultimately show ?thesis using assms
    by (simp add: pde_from_raw_def frame_number_from_raw_value_def)
qed

section \<open>Tables of entries\<close>

text \<open>What a table of encoded entries holds: the present entry at each index.\<close>

definition entry_view :: "(pte_word \<Rightarrow> 'e option) \<Rightarrow> ('e \<Rightarrow> bool) \<Rightarrow> pte_word list \<Rightarrow> nat \<Rightarrow> 'e option" where
  "entry_view decode present es i =
    (if i < length es then (case decode (es ! i) of Some e \<Rightarrow> if present e then Some e else None | None \<Rightarrow> None)
     else None)"

definition entries_ok :: "(pte_word \<Rightarrow> 'e option) \<Rightarrow> pte_word list \<Rightarrow> bool" where
  "entries_ok decode es \<longleftrightarrow> length es = PAGE_TABLE_LENGTH \<and> (\<forall>w \<in> set es. decode w \<noteq> None)"

text \<open>
  The interface between an entry format and the tables that store it: encoding loses nothing,
  decoding yields storable entries, and a cleared word is an entry that is not present.
\<close>

locale entry_format =
  fixes decode :: "pte_word \<Rightarrow> 'e option" and encode :: "'e \<Rightarrow> pte_word"
    and present :: "'e \<Rightarrow> bool" and storable :: "'e \<Rightarrow> bool"
  assumes decode_encode: "storable e \<Longrightarrow> decode (encode e) = Some e"
    and decode_storable: "decode w = Some e \<Longrightarrow> storable e"
    and decode_zero: "\<exists>e. decode 0 = Some e \<and> \<not> present e"
begin

lemma cleared: "entries_ok decode (replicate PAGE_TABLE_LENGTH 0)"
  "entry_view decode present (replicate n 0) = Map.empty"
  using decode_zero by (auto simp: entries_ok_def entry_view_def fun_eq_iff)

lemma decoded:
  assumes "entries_ok decode es" "i < PAGE_TABLE_LENGTH"
  obtains e where "decode (es ! i) = Some e" "storable e"
    "entry_view decode present es i = (if present e then Some e else None)"
proof -
  have i: "i < length es" using assms by (simp add: entries_ok_def)
  then have "decode (es ! i) \<noteq> None" using assms(1) nth_mem [OF i] unfolding entries_ok_def by blast
  then obtain e where "decode (es ! i) = Some e" by blast
  then show thesis using that decode_storable i by (simp add: entry_view_def)
qed

lemma written:
  assumes "entries_ok decode es" "i < PAGE_TABLE_LENGTH" "storable e"
  shows "entries_ok decode (es[i := encode e])"
    "entry_view decode present (es[i := encode e]) =
      (entry_view decode present es)(i := (if present e then Some e else None))"
proof -
  have i: "i < length es" using assms by (simp add: entries_ok_def)
  have "set (es[i := encode e]) \<subseteq> insert (encode e) (set es)" by (rule set_update_subset_insert)
  then show "entries_ok decode (es[i := encode e])"
    using assms(1) decode_encode [OF assms(3)] by (auto simp: entries_ok_def)
  show "entry_view decode present (es[i := encode e]) =
      (entry_view decode present es)(i := (if present e then Some e else None))"
    using i decode_encode [OF assms(3)] by (auto simp: entry_view_def fun_eq_iff nth_list_update)
qed

lemma view_dom: "dom (entry_view decode present es) \<subseteq> {..< length es}"
  by (auto simp: entry_view_def split: if_splits)

lemma view_finite: "finite (dom (entry_view decode present es))"
  using finite_subset [OF view_dom] by blast

lemma view_storable: "entry_view decode present es i = Some e \<Longrightarrow> storable e \<and> present e"
  using decode_storable by (auto simp: entry_view_def split: if_splits option.splits)

end

lemma zero_entries:
  "pte_from_raw 0 = Some \<lparr>te_flags = pte_flags_new False False False False False False False, te_frame = 0\<rparr>"
  "\<exists>e. pde_from_raw 0 = Some e \<and> \<not> df_present (de_flags e)"
  by (simp_all add: pte_from_raw_def pde_from_raw_def frame_number_from_raw_value_def
    pte_flags_from_raw_def pde_flags_from_raw_def flag_from_raw_bit pte_flags_new_def)

lemma decoded_frame:
  "pte_from_raw w = Some p \<Longrightarrow> te_frame p \<le> FRAME_NUMBER_MAX"
  "pde_from_raw w = Some d \<Longrightarrow> de_frame d \<le> FRAME_NUMBER_MAX"
  by (auto simp: pte_from_raw_def pde_from_raw_def frame_number_from_raw_value_def split: if_splits)

interpretation pte_format: entry_format pte_from_raw pte_into_raw is_present
  "\<lambda>p. te_frame p \<le> FRAME_NUMBER_MAX"
  by unfold_locales
    (simp_all add: pte_round_trip decoded_frame zero_entries(1) is_present_def pte_flags_new_def)

interpretation pde_format: entry_format pde_from_raw pde_into_raw "\<lambda>e. df_present (de_flags e)"
  "\<lambda>p. de_frame p \<le> FRAME_NUMBER_MAX"
  by unfold_locales (simp_all add: pde_round_trip decoded_frame zero_entries(2))

section \<open>Page tables as finite maps\<close>

abbreviation pt_view :: "page_table \<Rightarrow> nat \<Rightarrow> page_table_entry option" where
  "pt_view pt \<equiv> entry_view pte_from_raw is_present (pt_entries pt)"

definition pt_ok :: "page_table \<Rightarrow> bool" where
  "pt_ok pt \<longleftrightarrow> entries_ok pte_from_raw (pt_entries pt) \<and> pt_nmapped pt = card (dom (pt_view pt))"

lemma page_table_new_ok: "pt_ok (page_table_new s)" "pt_view (page_table_new s) = Map.empty"
  "pt_nmapped (page_table_new s) = 0" "pt_storage (page_table_new s) = s"
  by (simp_all add: pt_ok_def page_table_new_def pte_format.cleared)

lemma unat_drop_bit: "unat (drop_bit n (w :: 32 word)) = unat w div 2 ^ n"
proof -
  have "take_bit 32 (unat w) = unat w" using unsigned_less [of w, where 'a = nat] by (simp add: take_bit_nat_eq_self)
  then show ?thesis unfolding unsigned_drop_bit_eq by (simp add: drop_bit_eq_div)
qed

lemma unat_drop_take: "unat (take_bit m (drop_bit n (w :: 32 word))) = unat w div 2 ^ n mod 2 ^ m"
  unfolding unsigned_take_bit_eq unat_drop_bit
  by (simp only: take_bit_eq_mod)

lemma unat_addr: "a \<le> USIZE_MAX \<Longrightarrow> unat (word_of_nat a :: 32 word) = a"
  by (simp add: unat_of_nat)

lemma mask_words:
  "NOT (4194304 - 1 :: 32 word) = NOT (mask 22)" "NOT (4096 - 1 :: 32 word) = NOT (mask 12)"
  by (simp_all add: mask_eq_exp_minus_1)

lemma get_pte_index_eq: "a \<le> USIZE_MAX \<Longrightarrow> get_pte_index a = a div PAGE_SIZE mod PAGE_TABLE_LENGTH"
proof -
  assume a: "a \<le> USIZE_MAX"
  have "drop_bit 12 (w AND (NOT (mask 22) XOR NOT (mask 12))) = take_bit 10 (drop_bit 12 w)" for w :: "32 word"
    by (rule bit_eqI) (auto simp: bit_simps)
  then have "get_pte_index a = unat (take_bit 10 (drop_bit 12 (word_of_nat a :: 32 word)))"
    unfolding get_pte_index_def mask_words by simp
  then show ?thesis using unat_addr [OF a] by (simp add: unat_drop_take)
qed

lemma get_pte_index_less: "get_pte_index a < PAGE_TABLE_LENGTH"
proof -
  have "drop_bit 12 (w AND (NOT (mask 22) XOR NOT (mask 12))) = take_bit 10 (drop_bit 12 w)" for w :: "32 word"
    by (rule bit_eqI) (auto simp: bit_simps)
  then show ?thesis unfolding get_pte_index_def mask_words by (simp add: unat_drop_take)
qed

lemma get_pde_index_eq: "a \<le> USIZE_MAX \<Longrightarrow> get_pde_index a = a div PGTAB_SIZE"
proof -
  assume a: "a \<le> USIZE_MAX"
  have "drop_bit 22 (w AND NOT (mask 22)) = drop_bit 22 w" for w :: "32 word"
    by (rule bit_eqI) (auto simp: bit_simps dest: bit_imp_le_length)
  then have "get_pde_index a = unat (drop_bit 22 (word_of_nat a :: 32 word))"
    unfolding get_pde_index_def mask_words by simp
  then show ?thesis using unat_addr [OF a] by (simp add: unat_drop_bit)
qed

lemma get_pde_index_less: "a \<le> USIZE_MAX \<Longrightarrow> get_pde_index a < PAGE_TABLE_LENGTH"
  by (simp add: get_pde_index_eq)

lemma cached_pte_ok:
  assumes "pt_ok pt"
  obtains p where "cached_pte pt a = Ok p" "read_pte pt a = Ok (Some p)" "te_frame p \<le> FRAME_NUMBER_MAX"
    "pt_view pt (get_pte_index a) = (if is_present p then Some p else None)"
proof -
  have es: "entries_ok pte_from_raw (pt_entries pt)" using assms by (simp add: pt_ok_def)
  then have "get_pte_index a < length (pt_entries pt)" using get_pte_index_less by (simp add: entries_ok_def)
  then show thesis using pte_format.decoded [OF es get_pte_index_less [of a]] that
    by (auto simp: cached_pte_def read_pte_def)
qed

lemma write_pte_ok:
  assumes "pt_ok pt" "te_frame p \<le> FRAME_NUMBER_MAX"
  obtains pt' where "write_pte pt a p = Ok pt'" "entries_ok pte_from_raw (pt_entries pt')"
    "pt_view pt' = (pt_view pt)(get_pte_index a := (if is_present p then Some p else None))"
    "pt_nmapped pt' = card (dom (pt_view pt))" "pt_storage pt' = pt_storage pt"
proof -
  have es: "entries_ok pte_from_raw (pt_entries pt)" using assms by (simp add: pt_ok_def)
  then have "get_pte_index a < length (pt_entries pt)" using get_pte_index_less by (simp add: entries_ok_def)
  then show thesis using pte_format.written [OF es get_pte_index_less [of a] assms(2)] that assms(1)
    by (simp add: write_pte_def pt_ok_def)
qed

lemmas entry_defs = is_present_def is_writable_def is_cow_def set_read_write_def set_user_supervisor_def
  set_cow_def mapped_pte_def pte_flags_new_def

lemma from_frame_number_eq [simp]: "from_frame_number n = Ok (n * FRAME_SIZE)"
  by (simp add: from_frame_number_def page_aligned_from_address_def physical_from_number_def)

text \<open>Rewriting an entry in place keeps the number of mapped pages.\<close>

lemma write_present_ok:
  assumes ok: "pt_ok pt" and v: "pt_view pt (get_pte_index a) = Some p0"
    and p: "te_frame p \<le> FRAME_NUMBER_MAX" "is_present p"
  shows "\<exists>pt'. write_pte pt a p = Ok pt' \<and> pt_ok pt' \<and> pt_view pt' = (pt_view pt)(get_pte_index a \<mapsto> p) \<and>
    pt_storage pt' = pt_storage pt"
proof -
  obtain pt' where w: "write_pte pt a p = Ok pt'" "entries_ok pte_from_raw (pt_entries pt')"
    "pt_view pt' = (pt_view pt)(get_pte_index a \<mapsto> p)" "pt_nmapped pt' = card (dom (pt_view pt))"
    "pt_storage pt' = pt_storage pt"
    using write_pte_ok [OF ok p(1), of a] p(2) by auto
  have "dom (pt_view pt') = dom (pt_view pt)" using v by (auto simp: w(3))
  then have "pt_ok pt'" using w(2,4) by (simp add: pt_ok_def)
  then show ?thesis using w by blast
qed

lemma present_cached:
  assumes "pt_ok pt" "pt_view pt (get_pte_index a) = Some p"
  shows "cached_pte pt a = Ok p" "read_pte pt a = Ok (Some p)" "is_present p" "te_frame p \<le> FRAME_NUMBER_MAX"
  by (rule cached_pte_ok [OF assms(1), of a]; use assms(2) in \<open>auto split: if_splits\<close>)+

lemma absent_cached:
  assumes "pt_ok pt" "pt_view pt (get_pte_index a) = None"
  shows "\<exists>p. cached_pte pt a = Ok p \<and> read_pte pt a = Ok (Some p) \<and> \<not> is_present p"
  by (rule cached_pte_ok [OF assms(1), of a]; use assms(2) in \<open>auto split: if_splits\<close>)

lemma pt_map_ok:
  assumes ok: "pt_ok pt" and v: "pt_view pt (get_pte_index a) = None" and n: "into_frame_number f = Ok n"
  shows "\<exists>pt'. pt_map pt a f supervisor wt cache access = Ok pt' \<and> pt_ok pt' \<and>
    pt_view pt' = (pt_view pt)(get_pte_index a \<mapsto> mapped_pte n supervisor wt cache access) \<and>
    pt_storage pt' = pt_storage pt"
proof -
  let ?p = "mapped_pte n supervisor wt cache access"
  have p: "te_frame ?p \<le> FRAME_NUMBER_MAX" "is_present ?p"
    using n by (simp_all add: entry_defs into_frame_number_eq split: if_splits)
  obtain pt1 where w: "write_pte pt a ?p = Ok pt1" "entries_ok pte_from_raw (pt_entries pt1)"
    "pt_view pt1 = (pt_view pt)(get_pte_index a \<mapsto> ?p)" "pt_nmapped pt1 = card (dom (pt_view pt))"
    "pt_storage pt1 = pt_storage pt"
    using write_pte_ok [OF ok p(1), of a] p(2) by auto
  let ?pt = "pt1\<lparr>pt_nmapped := pt_nmapped pt1 + 1\<rparr>"
  have "card (dom (pt_view pt1)) = Suc (card (dom (pt_view pt)))"
    using v pte_format.view_finite by (simp add: w(3) card_insert_if domIff)
  then have "pt_ok ?pt" using w(2,4) by (simp add: pt_ok_def)
  moreover have "pt_map pt a f supervisor wt cache access = Ok ?pt"
    using absent_cached [OF ok v] w(1) n by (auto simp: pt_map_def)
  ultimately show ?thesis using w(3,5) by auto
qed

lemma pt_map_busy:
  assumes "pt_ok pt" "pt_view pt (get_pte_index a) = Some p"
  shows "pt_map pt a f supervisor wt cache access = fail ResourceBusy ''page table entry is busy''"
  using present_cached [OF assms] by (simp add: pt_map_def)

lemma pt_unmap_ok:
  assumes ok: "pt_ok pt" and v: "pt_view pt (get_pte_index a) = Some p"
  shows "\<exists>pt'. pt_unmap pt a = Ok (te_frame p * FRAME_SIZE, pt') \<and> pt_ok pt' \<and>
    pt_view pt' = (pt_view pt)(get_pte_index a := None) \<and> pt_storage pt' = pt_storage pt"
proof -
  let ?q = "\<lparr>te_flags = pte_flags_new False False True False True False False, te_frame = 0\<rparr>"
  obtain pt1 where w: "write_pte pt a ?q = Ok pt1" "entries_ok pte_from_raw (pt_entries pt1)"
    "pt_view pt1 = (pt_view pt)(get_pte_index a := None)" "pt_nmapped pt1 = card (dom (pt_view pt))"
    "pt_storage pt1 = pt_storage pt"
    using write_pte_ok [OF ok, of ?q a] by (auto simp: entry_defs)
  let ?pt = "pt1\<lparr>pt_nmapped := pt_nmapped pt1 - 1\<rparr>"
  have d: "get_pte_index a \<in> dom (pt_view pt)" using v by blast
  then have "card (dom (pt_view pt1)) = card (dom (pt_view pt)) - 1"
    using pte_format.view_finite by (simp add: w(3))
  then have "pt_ok ?pt" using w(2,4) by (simp add: pt_ok_def)
  moreover have "pt_nmapped pt1 \<noteq> 0" using d w(4) pte_format.view_finite by (auto simp: card_eq_0_iff)
  then have "pt_unmap pt a = Ok (te_frame p * FRAME_SIZE, ?pt)"
    using present_cached [OF ok v] w(1) by (auto simp: pt_unmap_def)
  ultimately show ?thesis using w(3,5) by auto
qed

lemma pt_absent:
  assumes "pt_ok pt" "pt_view pt (get_pte_index a) = None"
  shows "pt_unmap pt a = fail ResourceBusy ''page is not present''"
    "pt_lookup pt a = fail NoSuchEntry ''page is not present''" "is_page_present pt a = Ok False"
    "pt_ctrl pt supervisor a access = fail NoSuchEntry ''page is not present''"
    "mark_cow pt a = fail NoSuchEntry ''page is not present''"
    "unmark_cow pt a = fail NoSuchEntry ''page is not present''"
    "replace_cow_frame pt a f = fail NoSuchEntry ''page is not present''" "read_pte_at pt a = Ok None"
  using absent_cached [OF assms]
  by (auto simp: pt_unmap_def pt_lookup_def is_page_present_def pt_ctrl_def mark_cow_def unmark_cow_def
    replace_cow_frame_def read_pte_at_def)

lemma pt_present:
  assumes "pt_ok pt" "pt_view pt (get_pte_index a) = Some p"
  shows "pt_lookup pt a = Ok (te_frame p * FRAME_SIZE)" "is_page_present pt a = Ok True"
    "read_pte_at pt a = Ok (Some p)"
  using present_cached [OF assms] by (auto simp: pt_lookup_def is_page_present_def read_pte_at_def)

lemma pt_ctrl_ok:
  assumes "pt_ok pt" "pt_view pt (get_pte_index a) = Some p"
  shows "\<exists>pt'. pt_ctrl pt supervisor a access = Ok pt' \<and> pt_ok pt' \<and>
    pt_view pt' = (pt_view pt)(get_pte_index a \<mapsto>
      set_user_supervisor (\<not> supervisor) (set_read_write (perm_write access) p)) \<and>
    pt_storage pt' = pt_storage pt"
proof -
  note c = present_cached [OF assms]
  show ?thesis
    using write_present_ok [OF assms, of "set_user_supervisor (\<not> supervisor) (set_read_write (perm_write access) p)"] c
    by (simp add: pt_ctrl_def entry_defs)
qed

lemma mark_cow_ok:
  assumes "pt_ok pt" "pt_view pt (get_pte_index a) = Some p" "is_writable p"
  shows "\<exists>pt'. mark_cow pt a = Ok pt' \<and> pt_ok pt' \<and>
    pt_view pt' = (pt_view pt)(get_pte_index a \<mapsto> set_cow True (set_read_write False p)) \<and>
    pt_storage pt' = pt_storage pt"
  using write_present_ok [OF assms(1,2), of "set_cow True (set_read_write False p)"]
    present_cached [OF assms(1,2)] assms(3)
  by (simp add: mark_cow_def entry_defs)

lemma unmark_cow_ok:
  assumes "pt_ok pt" "pt_view pt (get_pte_index a) = Some p" "is_cow p"
  shows "\<exists>pt'. unmark_cow pt a = Ok pt' \<and> pt_ok pt' \<and>
    pt_view pt' = (pt_view pt)(get_pte_index a \<mapsto> set_read_write True (set_cow False p)) \<and>
    pt_storage pt' = pt_storage pt"
  using write_present_ok [OF assms(1,2), of "set_read_write True (set_cow False p)"]
    present_cached [OF assms(1,2)] assms(3)
  by (simp add: unmark_cow_def entry_defs)

definition resolved_pte :: "page_table_entry \<Rightarrow> nat \<Rightarrow> page_table_entry" where
  "resolved_pte p frame =
    \<lparr>te_flags = (te_flags p)\<lparr>tf_read_write := True, tf_cow := False\<rparr>, te_frame = frame\<rparr>"

lemma replace_cow_frame_ok:
  assumes "pt_ok pt" "pt_view pt (get_pte_index a) = Some p" "is_cow p" "\<not> is_writable p"
    "into_frame_number f = Ok n"
  shows "\<exists>pt'. replace_cow_frame pt a f = Ok (te_frame p * FRAME_SIZE, pt') \<and> pt_ok pt' \<and>
    pt_view pt' = (pt_view pt)(get_pte_index a \<mapsto> resolved_pte p n) \<and> pt_storage pt' = pt_storage pt"
proof -
  have n: "n \<le> FRAME_NUMBER_MAX" using assms(5) by (simp add: into_frame_number_eq split: if_splits)
  show ?thesis
    using write_present_ok [OF assms(1,2), of "resolved_pte p n"] present_cached [OF assms(1,2)] assms(3-5) n
    by (auto simp: replace_cow_frame_def resolved_pte_def entry_defs)
qed

lemma set_map_filter_eq: "set (List.map_filter f xs) = {y. \<exists>x \<in> set xs. f x = Some y}"
  by (induction xs) (auto simp: List.map_filter_simps split: option.splits)

lemma present_entry_view:
  "i < length (pt_entries pt) \<Longrightarrow> present_entry (pt_entries pt ! i) = pt_view pt i"
  by (simp add: present_entry_def entry_view_def)

lemma iter_present_ptes_set: "set (iter_present_ptes pt) = {(i, p). pt_view pt i = Some p}"
proof -
  have "(i, p) \<in> set (iter_present_ptes pt) \<longleftrightarrow> i < length (pt_entries pt) \<and> present_entry (pt_entries pt ! i) = Some p"
    for i p
    by (auto simp: iter_present_ptes_def set_map_filter_eq in_set_enumerate_eq
      intro!: bexI [of _ "(i, pt_entries pt ! i)"])
  moreover have "pt_view pt i = Some p \<Longrightarrow> i < length (pt_entries pt)" for i p
    using pte_format.view_dom by blast
  ultimately show ?thesis using present_entry_view by auto
qed

section \<open>Page directories as finite maps\<close>

abbreviation pd_view :: "page_directory \<Rightarrow> nat \<Rightarrow> page_directory_entry option" where
  "pd_view pd \<equiv> entry_view pde_from_raw (\<lambda>e. df_present (de_flags e)) (pd_entries pd)"

definition pd_ok :: "page_directory \<Rightarrow> bool" where
  "pd_ok pd \<longleftrightarrow> entries_ok pde_from_raw (pd_entries pd)"

lemma page_directory_new_ok: "pd_ok page_directory_new" "pd_view page_directory_new = Map.empty"
  by (simp_all add: pd_ok_def page_directory_new_def pde_format.cleared)

lemma read_pde_ok:
  assumes "pd_ok pd" "a \<le> USIZE_MAX"
  obtains e where "read_pde pd a = Ok (Some e)" "cached_pde pd a = Ok e" "de_frame e \<le> FRAME_NUMBER_MAX"
    "pd_view pd (get_pde_index a) = (if df_present (de_flags e) then Some e else None)"
proof -
  have es: "entries_ok pde_from_raw (pd_entries pd)" using assms by (simp add: pd_ok_def)
  then have "get_pde_index a < length (pd_entries pd)"
    using get_pde_index_less [OF assms(2)] by (simp add: entries_ok_def)
  then show thesis using pde_format.decoded [OF es get_pde_index_less [OF assms(2)]] that
    by (auto simp: cached_pde_def read_pde_def)
qed

lemma write_pde_ok:
  assumes "pd_ok pd" "a \<le> USIZE_MAX" "de_frame e \<le> FRAME_NUMBER_MAX"
  shows "\<exists>pd'. write_pde pd a e = Ok pd' \<and> pd_ok pd' \<and>
    pd_view pd' = (pd_view pd)(get_pde_index a := (if df_present (de_flags e) then Some e else None))"
proof -
  have es: "entries_ok pde_from_raw (pd_entries pd)" using assms by (simp add: pd_ok_def)
  then have "get_pde_index a < length (pd_entries pd)"
    using get_pde_index_less [OF assms(2)] by (simp add: entries_ok_def)
  then show ?thesis using pde_format.written [OF es get_pde_index_less [OF assms(2)] assms(3)]
    by (simp add: write_pde_def pd_ok_def)
qed

lemma pd_map_ok:
  assumes ok: "pd_ok pd" "a \<le> USIZE_MAX" and v: "pd_view pd (get_pde_index a) = None"
    and n: "into_frame_number f = Ok n"
  shows "\<exists>pd' e. pd_map pd a f supervisor access = Ok pd' \<and> pd_ok pd' \<and>
    pd_view pd' = (pd_view pd)(get_pde_index a \<mapsto> e) \<and> de_frame e = n \<and>
    df_user (de_flags e) = (\<not> supervisor) \<and> df_read_write (de_flags e) = perm_write access"
proof -
  have nb: "n \<le> FRAME_NUMBER_MAX" using n by (simp add: into_frame_number_eq split: if_splits)
  obtain e0 where e0: "cached_pde pd a = Ok e0" "\<not> df_present (de_flags e0)"
    using read_pde_ok [OF ok] v by (metis option.distinct(1))
  let ?e = "\<lparr>de_flags = \<lparr>df_present = True, df_read_write = perm_write access, df_user = (\<not> supervisor),
             df_write_through = False, df_cache_disable = False, df_accessed = False, df_dirty = False,
             df_page_size = False\<rparr>, de_frame = n\<rparr>"
  obtain pd' where "write_pde pd a ?e = Ok pd'" "pd_ok pd'" "pd_view pd' = (pd_view pd)(get_pde_index a \<mapsto> ?e)"
    using write_pde_ok [OF ok, of ?e] nb by auto
  moreover from this(1) have "pd_map pd a f supervisor access = Ok pd'"
    using e0 n by (simp add: pd_map_def)
  ultimately show ?thesis by (intro exI [of _ pd'] exI [of _ ?e]) simp
qed

lemma pd_map_busy:
  assumes ok: "pd_ok pd" "a \<le> USIZE_MAX" and v: "pd_view pd (get_pde_index a) = Some e"
  shows "pd_map pd a f supervisor access = fail ResourceBusy ''page directory entry is busy''"
proof -
  obtain e0 where "cached_pde pd a = Ok e0" "df_present (de_flags e0)"
    using read_pde_ok [OF ok] v by (metis option.distinct(1))
  then show ?thesis by (simp add: pd_map_def)
qed

lemma pd_unmap_ok:
  assumes ok: "pd_ok pd" "a \<le> USIZE_MAX" and v: "pd_view pd (get_pde_index a) = Some e"
  shows "\<exists>pd'. pd_unmap pd a = Ok (de_frame e * FRAME_SIZE, pd') \<and> pd_ok pd' \<and>
    pd_view pd' = (pd_view pd)(get_pde_index a := None)"
proof -
  obtain e0 where e0: "cached_pde pd a = Ok e0"
    "pd_view pd (get_pde_index a) = (if df_present (de_flags e0) then Some e0 else None)"
    using read_pde_ok [OF ok] by metis
  then have e: "e0 = e" "df_present (de_flags e)" using v by (auto split: if_splits)
  show ?thesis using write_pde_ok [OF ok, of "\<lparr>de_flags = \<lparr>df_present = False, df_read_write = False,
      df_user = True, df_write_through = True, df_cache_disable = True, df_accessed = False, df_dirty = False,
      df_page_size = False\<rparr>, de_frame = 0\<rparr>"] e0(1) e
    by (auto simp: pd_unmap_def)
qed

end
