(* ===== verification/Bump_Allocators.thy ===== *)
theory Bump_Allocators
  imports Nanvix_Prelude
begin

text \<open>
  The fixed-size bump allocator (\<open>src/src/libs/bump_allocator/src/lib.rs\<close>). The backing store is a
  record with the base address of the region, the generic parameters \<open>N\<close> and \<open>A\<close> are arguments, and
  the allocator itself is its index of the next slot.

  The reservation loop is modelled twice: uncontended, as the sequential code runs it, and as a step
  relation in which any number of callers interleave their loads and compare-and-swaps. The lemmas
  show that under every interleaving each index is handed out once, and that slots of different
  indices do not overlap, are aligned and lie in the backing store.
\<close>

section \<open>Definitions\<close>

datatype bump_alloc_error = Exhausted | SizeMismatch | AlignmentMismatch | Overflow | OutOfBounds | Misaligned

record bss_storage =
  NUM_UNITS :: usize
  STORAGE_SIZE :: usize
  as_mut_ptr :: addr

definition bump_align_up :: "usize \<Rightarrow> usize \<Rightarrow> usize option" where
  "bump_align_up v alignment =
    (if alignment = 0 then None
     else checked_mul (v div alignment + (if v mod alignment = 0 then 0 else 1)) alignment)"

definition bump_new :: usize where
  "bump_new = 0"

text \<open>Reading the counter: the index the caller will try to take, and the value to store.\<close>

definition next_slot_index :: "bss_storage \<Rightarrow> usize \<Rightarrow> (bump_alloc_error, usize \<times> usize) res" where
  "next_slot_index s cur =
    (if cur \<ge> NUM_UNITS s then Err Exhausted
     else case checked_add cur 1 of None \<Rightarrow> Err Overflow | Some next \<Rightarrow> Ok (cur, next))"

definition ok_or_overflow :: "'a option \<Rightarrow> (bump_alloc_error, 'a) res" where
  "ok_or_overflow v = (case v of None \<Rightarrow> Err Overflow | Some v \<Rightarrow> Ok v)"

text \<open>The address of a reserved slot.\<close>

definition slot_pointer :: "usize \<Rightarrow> usize \<Rightarrow> bss_storage \<Rightarrow> usize \<Rightarrow> (bump_alloc_error, addr) res" where
  "slot_pointer N A s idx =
    bind_res (ok_or_overflow (bump_align_up N A)) (\<lambda>stride.
    bind_res (ok_or_overflow (checked_mul idx stride)) (\<lambda>offset.
    bind_res (ok_or_overflow (checked_add (as_mut_ptr s) offset)) (\<lambda>ptr.
    bind_res (ok_or_overflow (checked_add ptr N)) (\<lambda>stop.
    bind_res (ok_or_overflow (checked_add (as_mut_ptr s) (STORAGE_SIZE s))) (\<lambda>storage_end.
      if stop > storage_end then Err OutOfBounds
      else if ptr mod A \<noteq> 0 then Err Misaligned
      else Ok ptr)))))"

definition bump_alloc :: "usize \<Rightarrow> usize \<Rightarrow> bss_storage \<Rightarrow> usize \<Rightarrow> (bump_alloc_error, addr) res \<times> usize" where
  "bump_alloc N A s next_slot =
    (case next_slot_index s next_slot of
       Ok (idx, next) \<Rightarrow> (slot_pointer N A s idx, next)
     | Err e \<Rightarrow> (Err e, next_slot)
     | Panic \<Rightarrow> (Panic, next_slot))"

definition bump_alloc_as ::
  "usize \<Rightarrow> usize \<Rightarrow> usize \<Rightarrow> usize \<Rightarrow> bss_storage \<Rightarrow> usize \<Rightarrow> (bump_alloc_error, addr) res \<times> usize" where
  "bump_alloc_as type_size type_align N A s next_slot =
    (if type_size \<noteq> N then (Err SizeMismatch, next_slot)
     else if type_align > A then (Err AlignmentMismatch, next_slot)
     else bump_alloc N A s next_slot)"

text \<open>
  Concurrent callers. A caller is about to load the counter, or holds the value it has loaded and is
  about to compare and swap; a reserved index is appended to the history and the caller may allocate
  again, and a caller whose load finds the store exhausted gives up.
\<close>

datatype cas_phase = Loading | Swapping usize | GaveUp bump_alloc_error

record cas_state =
  cs_next_slot :: usize
  cs_phase :: "nat \<Rightarrow> cas_phase"
  cs_reserved :: "usize list"

definition cas_init :: cas_state where
  "cas_init = \<lparr>cs_next_slot = bump_new, cs_phase = (\<lambda>_. Loading), cs_reserved = []\<rparr>"

definition cas_load :: "bss_storage \<Rightarrow> nat \<Rightarrow> cas_state \<Rightarrow> cas_state" where
  "cas_load s t c =
    (case next_slot_index s (cs_next_slot c) of
       Ok (cur, next) \<Rightarrow> c\<lparr>cs_phase := (cs_phase c)(t := Swapping cur)\<rparr>
     | Err e \<Rightarrow> c\<lparr>cs_phase := (cs_phase c)(t := GaveUp e)\<rparr>
     | Panic \<Rightarrow> c)"

definition cas_swap :: "nat \<Rightarrow> usize \<Rightarrow> cas_state \<Rightarrow> cas_state" where
  "cas_swap t cur c =
    (if cs_next_slot c = cur
     then c\<lparr>cs_next_slot := cur + 1, cs_phase := (cs_phase c)(t := Loading), cs_reserved := cs_reserved c @ [cur]\<rparr>
     else c\<lparr>cs_phase := (cs_phase c)(t := Loading)\<rparr>)"

inductive cas_reachable :: "bss_storage \<Rightarrow> cas_state \<Rightarrow> bool" for s where
  cas_start: "cas_reachable s cas_init"
| cas_loads: "cas_reachable s c \<Longrightarrow> cs_phase c t = Loading \<Longrightarrow> cas_reachable s (cas_load s t c)"
| cas_swaps: "cas_reachable s c \<Longrightarrow> cs_phase c t = Swapping cur \<Longrightarrow> cas_reachable s (cas_swap t cur c)"

section \<open>Reservation\<close>

lemma next_slot_index_Ok: "next_slot_index s n = Ok (cur, next) \<Longrightarrow> cur = n \<and> n < NUM_UNITS s"
  by (auto simp: next_slot_index_def split: if_splits option.splits)

text \<open>Indices are handed out in order, whatever the interleaving.\<close>

lemma cas_invariant:
  "cas_reachable s c \<Longrightarrow>
    cs_reserved c = [0..<cs_next_slot c] \<and> cs_next_slot c \<le> NUM_UNITS s \<and>
    (\<forall>t cur. cs_phase c t = Swapping cur \<longrightarrow> cur < NUM_UNITS s)"
proof (induction rule: cas_reachable.induct)
  case cas_start
  then show ?case by (simp add: cas_init_def bump_new_def)
next
  case (cas_loads c t)
  then show ?case
    by (auto simp: cas_load_def split: res.splits dest!: next_slot_index_Ok)
next
  case (cas_swaps c t cur)
  then have "cur < NUM_UNITS s" by blast
  then show ?case using cas_swaps.IH by (auto simp: cas_swap_def)
qed

lemma bump_align_up_props:
  assumes "bump_align_up v a = Some w"
  shows "v \<le> w" "a dvd w"
proof -
  have a: "a \<noteq> 0" and w: "w = (v div a + (if v mod a = 0 then 0 else 1)) * a"
    using assms by (auto simp: bump_align_up_def checked_mul_def split: if_splits)
  show "a dvd w" by (simp add: w)
  have d: "v = v div a * a + v mod a" by simp
  have m: "v mod a < a" using a by simp
  show "v \<le> w"
  proof (cases "v mod a = 0")
    case True
    then show ?thesis using d by (simp add: w)
  next
    case False
    then have "w = v div a * a + a" by (simp add: w)
    then show ?thesis using d m by linarith
  qed
qed

text \<open>The shape the backing store of an allocator must have.\<close>

definition storage_ok :: "usize \<Rightarrow> usize \<Rightarrow> bss_storage \<Rightarrow> bool" where
  "storage_ok N A s \<longleftrightarrow>
    (case bump_align_up N A of
       None \<Rightarrow> False
     | Some stride \<Rightarrow> NUM_UNITS s * stride \<le> STORAGE_SIZE s) \<and>
    as_mut_ptr s mod A = 0 \<and> as_mut_ptr s + STORAGE_SIZE s \<le> USIZE_MAX"

lemma slot_pointer_ok:
  assumes ok: "storage_ok N A s" and i: "idx < NUM_UNITS s"
  obtains stride where "bump_align_up N A = Some stride" "slot_pointer N A s idx = Ok (as_mut_ptr s + idx * stride)"
    "as_mut_ptr s + idx * stride + stride \<le> as_mut_ptr s + STORAGE_SIZE s" "(as_mut_ptr s + idx * stride) mod A = 0"
proof -
  obtain stride where st: "bump_align_up N A = Some stride" "NUM_UNITS s * stride \<le> STORAGE_SIZE s"
    using ok by (auto simp: storage_ok_def split: option.splits)
  note p = bump_align_up_props [OF st(1)]
  have "(idx + 1) * stride \<le> NUM_UNITS s * stride" using i by (intro mult_le_mono1) simp
  then have fit: "as_mut_ptr s + idx * stride + stride \<le> as_mut_ptr s + STORAGE_SIZE s" using st(2) by simp
  have m: "(as_mut_ptr s + idx * stride) mod A = 0"
    using ok p(2) by (auto simp: storage_ok_def mod_eq_0_iff_dvd)
  have b: "as_mut_ptr s + STORAGE_SIZE s \<le> USIZE_MAX" using ok by (simp add: storage_ok_def)
  have "idx * stride \<le> USIZE_MAX" "as_mut_ptr s + idx * stride \<le> USIZE_MAX"
    "as_mut_ptr s + idx * stride + N \<le> USIZE_MAX" using fit b p(1) by linarith+
  then have c: "checked_mul idx stride = Some (idx * stride)"
    "checked_add (as_mut_ptr s) (idx * stride) = Some (as_mut_ptr s + idx * stride)"
    "checked_add (as_mut_ptr s + idx * stride) N = Some (as_mut_ptr s + idx * stride + N)"
    "checked_add (as_mut_ptr s) (STORAGE_SIZE s) = Some (as_mut_ptr s + STORAGE_SIZE s)"
    using b by (simp_all only: checked_mul_def checked_add_def if_True)
  have "\<not> as_mut_ptr s + STORAGE_SIZE s < as_mut_ptr s + idx * stride + N" using fit p(1) by linarith
  then have "slot_pointer N A s idx = Ok (as_mut_ptr s + idx * stride)"
    by (simp only: slot_pointer_def ok_or_overflow_def st(1) c m option.case bind_res.simps if_False simp_thms)
  then show thesis by (rule that [OF st(1) _ fit m])
qed

text \<open>
  C38. However the callers of the bump allocator interleave their loads and compare-and-swaps, the
  slots handed out never overlap: of any two reservations the later one lies entirely after the
  earlier one, both are aligned and inside the backing store, and no more slots are handed out than
  the store has.
\<close>

theorem bump_slots_disjoint:
  assumes "storage_ok N A s" "cas_reachable s c" "i < j" "j < length (cs_reserved c)"
  shows "\<exists>p q. slot_pointer N A s (cs_reserved c ! i) = Ok p \<and> slot_pointer N A s (cs_reserved c ! j) = Ok q \<and>
    as_mut_ptr s \<le> p \<and> p + N \<le> q \<and> q + N \<le> as_mut_ptr s + STORAGE_SIZE s \<and> p mod A = 0 \<and> q mod A = 0 \<and>
    length (cs_reserved c) \<le> NUM_UNITS s"
proof -
  note inv = cas_invariant [OF assms(2)]
  have len: "length (cs_reserved c) \<le> NUM_UNITS s" using inv by simp
  have nth: "cs_reserved c ! i = i" "cs_reserved c ! j = j" using inv assms(3,4) by simp_all
  have lt: "i < NUM_UNITS s" "j < NUM_UNITS s" using assms(3,4) len by simp_all
  obtain w where w: "bump_align_up N A = Some w" "slot_pointer N A s i = Ok (as_mut_ptr s + i * w)"
    "(as_mut_ptr s + i * w) mod A = 0" using slot_pointer_ok [OF assms(1) lt(1)] .
  obtain v where v: "bump_align_up N A = Some v" "slot_pointer N A s j = Ok (as_mut_ptr s + j * v)"
    "as_mut_ptr s + j * v + v \<le> as_mut_ptr s + STORAGE_SIZE s" "(as_mut_ptr s + j * v) mod A = 0"
    using slot_pointer_ok [OF assms(1) lt(2)] .
  have e: "v = w" "N \<le> w" using w(1) v(1) bump_align_up_props [OF w(1)] by simp_all
  have "(i + 1) * w \<le> j * w" using assms(3) by (intro mult_le_mono1) simp
  then have "as_mut_ptr s + i * w + N \<le> as_mut_ptr s + j * w" using e(2) by simp
  moreover have "as_mut_ptr s + j * w + N \<le> as_mut_ptr s + STORAGE_SIZE s" using v(3) e by simp
  ultimately show ?thesis using w(2,3) v(2,4) e(1) len nth by auto
qed

definition example_storage :: bss_storage where
  "example_storage = \<lparr>NUM_UNITS = 2, STORAGE_SIZE = 8192, as_mut_ptr = 65536\<rparr>"

text \<open>Two callers load the same index; the second swap fails and its caller loads again.\<close>

definition example_race :: cas_state where
  "example_race =
    cas_swap 1 1 (cas_load example_storage 1 (cas_swap 1 0 (cas_swap 0 0
      (cas_load example_storage 1 (cas_load example_storage 0 cas_init)))))"

lemma example_race_reachable: "cas_reachable example_storage example_race"
  unfolding example_race_def
  by (rule cas_swaps, rule cas_loads, rule cas_swaps, rule cas_swaps, rule cas_loads, rule cas_loads,
      rule cas_start)
     (simp_all add: cas_init_def cas_load_def cas_swap_def bump_new_def example_storage_def
        next_slot_index_def checked_add_def)

theorem bump_slots_disjoint_witness:
  "length (cs_reserved example_race) = 2 \<and>
   (\<exists>p q. slot_pointer 4000 4096 example_storage (cs_reserved example_race ! 0) = Ok p \<and>
      slot_pointer 4000 4096 example_storage (cs_reserved example_race ! 1) = Ok q \<and> p + 4000 \<le> q)"
proof -
  have ok: "storage_ok 4000 4096 example_storage"
    by (simp add: storage_ok_def example_storage_def bump_align_up_def checked_mul_def)
  have len: "length (cs_reserved example_race) = 2"
    by (simp add: example_race_def cas_init_def cas_load_def cas_swap_def bump_new_def example_storage_def
        next_slot_index_def checked_add_def)
  show ?thesis using bump_slots_disjoint [OF ok example_race_reachable, of 0 1] len by auto
qed

end
