(* ===== verification/Identity_Maps.thy ===== *)
theory Identity_Maps
  imports Page_Tables Bump_Allocators
begin

text \<open>
  The identity map of physical memory and the accesses that go through it
  (\<open>src/src/kernel/src/mm/virt/identity_map.rs\<close>, \<open>src/src/kernel/src/mm/virt/page_table_allocator.rs\<close>,
  \<open>src/src/libs/arch/src/x86/mem/paging/table.rs\<close>). The paging structures are the words of memory the
  kernel reaches by address, kept apart from the bytes that are copied; the slots of the page-table
  allocator come from the bump allocator. The memory size of the configuration and the storage of the
  allocator are arguments. The register that selects the address space is a field, so that switching to
  the kernel's address space and back is visible; the register holds the address of its page directory.

  The lemmas show that the map maps every page to itself, that initialisation sets up a page table for
  all of memory, and that a copy then moves exactly the bytes asked for.
\<close>

section \<open>Definitions\<close>

record physmem =
  KERNEL_PD_PADDR :: addr
  KERNEL_CR3 :: addr
  cr3_register :: addr
  paging_words :: "addr \<Rightarrow> pte_word"
  pt_next_slot :: usize
  phys_bytes :: "addr \<Rightarrow> u8"

subsection \<open>Tables in memory\<close>

definition pd_index :: "addr \<Rightarrow> nat" where
  "pd_index vaddr = unat (drop_bit 22 (word_of_nat vaddr :: 32 word) AND (1024 - 1))"

definition pt_index :: "addr \<Rightarrow> nat" where
  "pt_index vaddr = unat (drop_bit 12 (word_of_nat vaddr :: 32 word) AND (1024 - 1))"

definition table_read :: "(pte_word \<Rightarrow> 'e option) \<Rightarrow> physmem \<Rightarrow> addr \<Rightarrow> nat \<Rightarrow> 'e option" where
  "table_read from_raw m base index = from_raw (paging_words m (base + index * 4))"

definition table_write :: "('e \<Rightarrow> pte_word) \<Rightarrow> physmem \<Rightarrow> addr \<Rightarrow> nat \<Rightarrow> 'e \<Rightarrow> physmem" where
  "table_write raw m base index entry =
    m\<lparr>paging_words := (paging_words m)(base + index * 4 := raw entry)\<rparr>"

subsection \<open>The lazy identity mapper\<close>

definition identity_pde :: "usize \<Rightarrow> page_directory_entry" where
  "identity_pde pt_frame =
    \<lparr>de_flags = \<lparr>df_present = True, df_read_write = True, df_user = False, df_write_through = False,
       df_cache_disable = False, df_accessed = False, df_dirty = False, df_page_size = False\<rparr>,
     de_frame = pt_frame\<rparr>"

definition identity_pte :: "usize \<Rightarrow> page_table_entry" where
  "identity_pte frame = \<lparr>te_flags = pte_flags_new True True False False False False False, te_frame = frame\<rparr>"

definition PAGE_TABLE_SLOT_SIZE :: usize where
  "PAGE_TABLE_SLOT_SIZE = PAGE_TABLE_LENGTH * 4"

definition PAGE_TABLE_SLOT_ALIGN :: usize where
  "PAGE_TABLE_SLOT_ALIGN = PAGE_SIZE"

definition page_table_alloc :: "bss_storage \<Rightarrow> usize \<Rightarrow> (bump_alloc_error, addr) res \<times> usize" where
  "page_table_alloc store next_slot =
    bump_alloc_as (PAGE_TABLE_LENGTH * 4) 4 PAGE_TABLE_SLOT_SIZE PAGE_TABLE_SLOT_ALIGN store next_slot"

definition ensure_pt :: "bss_storage \<Rightarrow> physmem \<Rightarrow> addr \<Rightarrow> nat \<Rightarrow> addr kres \<times> physmem" where
  "ensure_pt store m pd pde_idx =
    (case table_read pde_from_raw m pd pde_idx of
       None \<Rightarrow> (fail InvalidArgument ''invalid PDE read from kernel PD'', m)
     | Some pde \<Rightarrow>
         if df_present (de_flags pde) then (Ok (de_frame pde * FRAME_SIZE), m)
         else
           (case page_table_alloc store (pt_next_slot m) of
              (Err e, next) \<Rightarrow> (fail OutOfMemory ''BSS page table allocation failed'', m\<lparr>pt_next_slot := next\<rparr>)
            | (Panic, next) \<Rightarrow> (Panic, m\<lparr>pt_next_slot := next\<rparr>)
            | (Ok pt_paddr, next) \<Rightarrow>
                (case frame_number_from_raw_value (pt_paddr div PAGE_SIZE) of
                   None \<Rightarrow> (fail BadAddress ''BSS page table frame number out of range'', m\<lparr>pt_next_slot := next\<rparr>)
                 | Some pt_frame \<Rightarrow>
                     (Ok pt_paddr,
                      table_write pde_into_raw (m\<lparr>pt_next_slot := next\<rparr>) pd pde_idx (identity_pde pt_frame)))))"

definition ensure_pte :: "physmem \<Rightarrow> addr \<Rightarrow> nat \<Rightarrow> addr \<Rightarrow> unit kres \<times> physmem" where
  "ensure_pte m pt pte_idx phys_addr =
    (case table_read pte_from_raw m pt pte_idx of
       None \<Rightarrow> (fail InvalidArgument ''invalid PTE read from page table'', m)
     | Some pte \<Rightarrow>
         if is_present pte then (Ok (), m)
         else
           (case frame_number_from_raw_value (phys_addr div PAGE_SIZE) of
              None \<Rightarrow> (fail BadAddress ''frame number out of range'', m)
            | Some frame \<Rightarrow> (Ok (), table_write pte_into_raw m pt pte_idx (identity_pte frame))))"

definition identity_map_page :: "bss_storage \<Rightarrow> physmem \<Rightarrow> addr \<Rightarrow> unit kres \<times> physmem" where
  "identity_map_page store m phys_addr =
    (if KERNEL_PD_PADDR m = 0 then (Ok (), m)
     else
       (case ensure_pt store m (KERNEL_PD_PADDR m) (pd_index phys_addr) of
          (Ok pt_paddr, m) \<Rightarrow> ensure_pte m pt_paddr (pt_index phys_addr) phys_addr
        | (Err e, m) \<Rightarrow> (Err e, m)
        | (Panic, m) \<Rightarrow> (Panic, m)))"

text \<open>The loop of \<open>init\<close> over the page directory entries that cover memory.\<close>

fun ensure_all_pts :: "bss_storage \<Rightarrow> physmem \<Rightarrow> addr \<Rightarrow> nat list \<Rightarrow> unit kres \<times> physmem" where
  "ensure_all_pts store m pd [] = (Ok (), m)"
| "ensure_all_pts store m pd (i # is) =
    (case ensure_pt store m pd (pd_index (i * PGTAB_SIZE)) of
       (Ok _, m) \<Rightarrow> ensure_all_pts store m pd is
     | (Err e, m) \<Rightarrow> (Err e, m)
     | (Panic, m) \<Rightarrow> (Panic, m))"

definition identity_map_init :: "bss_storage \<Rightarrow> usize \<Rightarrow> physmem \<Rightarrow> addr \<Rightarrow> addr \<Rightarrow> unit kres \<times> physmem" where
  "identity_map_init store memory_size m kernel_pd_paddr kernel_cr3 =
    (case ensure_all_pts store m kernel_pd_paddr [0..<memory_size div PGTAB_SIZE] of
       (Ok _, m) \<Rightarrow> (Ok (), m\<lparr>KERNEL_PD_PADDR := kernel_pd_paddr, KERNEL_CR3 := kernel_cr3\<rparr>)
     | (Err e, m) \<Rightarrow> (Err e, m)
     | (Panic, m) \<Rightarrow> (Panic, m))"

fun sync_pdes :: "physmem \<Rightarrow> addr \<Rightarrow> nat list \<Rightarrow> unit kres \<times> physmem" where
  "sync_pdes m target_pd [] = (Ok (), m)"
| "sync_pdes m target_pd (i # is) =
    (let pde_idx = pd_index (i * PGTAB_SIZE) in
     case table_read pde_from_raw m (KERNEL_PD_PADDR m) pde_idx of
       None \<Rightarrow> (fail InvalidArgument ''invalid PDE index'', m)
     | Some kernel_pde \<Rightarrow>
         if \<not> df_present (de_flags kernel_pde) then sync_pdes m target_pd is
         else
           (case table_read pde_from_raw m target_pd pde_idx of
              None \<Rightarrow> (fail InvalidArgument ''invalid PDE index'', m)
            | Some target_pde \<Rightarrow>
                sync_pdes
                  (if df_present (de_flags target_pde) then m
                   else table_write pde_into_raw m target_pd pde_idx kernel_pde)
                  target_pd is))"

definition sync_kernel_pdes :: "usize \<Rightarrow> physmem \<Rightarrow> addr \<Rightarrow> unit kres \<times> physmem" where
  "sync_kernel_pdes memory_size m target_pd_paddr =
    (if KERNEL_PD_PADDR m = 0 then (Ok (), m)
     else sync_pdes m target_pd_paddr [0..<memory_size div PGTAB_SIZE])"

subsection \<open>Accesses to physical memory\<close>

definition with_kernel_address_space :: "(physmem \<Rightarrow> 'a kres \<times> physmem) \<Rightarrow> physmem \<Rightarrow> 'a kres \<times> physmem" where
  "with_kernel_address_space f m =
    (if KERNEL_CR3 m = 0 then f m
     else if cr3_register m = KERNEL_CR3 m then f m
     else (case f (m\<lparr>cr3_register := KERNEL_CR3 m\<rparr>) of
             (r, m') \<Rightarrow> (r, m'\<lparr>cr3_register := cr3_register m\<rparr>)))"

definition checked_next_multiple_of :: "usize \<Rightarrow> usize \<Rightarrow> usize option" where
  "checked_next_multiple_of v k = (if v mod k = 0 then Some v else checked_add v (k - v mod k))"

definition physical_address :: "usize \<Rightarrow> addr \<Rightarrow> addr kres" where
  "physical_address memory_size raw =
    (if raw < memory_size then Ok raw else fail BadAddress ''address out of bounds of physical memory'')"

definition page_aligned_cover :: "usize \<Rightarrow> addr \<Rightarrow> usize \<Rightarrow> (addr \<times> usize) kres" where
  "page_aligned_cover memory_size a sz =
    bind_res (debug_assert (sz > 0)) (\<lambda>_.
    bind_res (frame_address_from_raw_value memory_size (align_down a PAGE_ALIGNMENT)) (\<lambda>start.
      case checked_add a sz of
        None \<Rightarrow> fail BadAddress ''physical range overflow''
      | Some exclusive_end \<Rightarrow>
          (case checked_next_multiple_of exclusive_end PAGE_SIZE of
             None \<Rightarrow> fail BadAddress ''aligned end overflow''
           | Some aligned_end \<Rightarrow> Ok (start, aligned_end - start))))"

fun map_each_page :: "bss_storage \<Rightarrow> usize \<Rightarrow> physmem \<Rightarrow> addr list \<Rightarrow> unit kres \<times> physmem" where
  "map_each_page store memory_size m [] = (Ok (), m)"
| "map_each_page store memory_size m (a # as) =
    (case frame_address_from_raw_value memory_size a of
       Ok page_addr \<Rightarrow>
         (case identity_map_page store m page_addr of
            (Ok _, m) \<Rightarrow> map_each_page store memory_size m as
          | (Err e, m) \<Rightarrow> (Err e, m)
          | (Panic, m) \<Rightarrow> (Panic, m))
     | Err e \<Rightarrow> (Err e, m)
     | Panic \<Rightarrow> (Panic, m))"

definition ensure_identity_mapped_range ::
  "bss_storage \<Rightarrow> usize \<Rightarrow> physmem \<Rightarrow> addr \<Rightarrow> usize \<Rightarrow> unit kres \<times> physmem" where
  "ensure_identity_mapped_range store memory_size m start sz =
    (if sz mod PAGE_SIZE \<noteq> 0 then (Panic, m)
     else if sz = 0 then (Ok (), m)
     else map_each_page store memory_size m (map (\<lambda>i. start + i * PAGE_SIZE) [0..<sz div PAGE_SIZE]))"

text \<open>One side of an access: the range is covered by pages and each is mapped.\<close>

definition map_cover :: "bss_storage \<Rightarrow> usize \<Rightarrow> physmem \<Rightarrow> addr \<Rightarrow> usize \<Rightarrow> unit kres \<times> physmem" where
  "map_cover store memory_size m a sz =
    (case bind_res (physical_address memory_size a) (\<lambda>a. page_aligned_cover memory_size a sz) of
       Ok (start, n) \<Rightarrow> ensure_identity_mapped_range store memory_size m start n
     | Err e \<Rightarrow> (Err e, m)
     | Panic \<Rightarrow> (Panic, m))"

definition fast_memcpy :: "(addr \<Rightarrow> u8) \<Rightarrow> addr \<Rightarrow> addr \<Rightarrow> usize \<Rightarrow> addr \<Rightarrow> u8" where
  "fast_memcpy bytes dst src sz = (\<lambda>a. if dst \<le> a \<and> a < dst + sz then bytes (src + (a - dst)) else bytes a)"

definition fast_memset :: "(addr \<Rightarrow> u8) \<Rightarrow> addr \<Rightarrow> u8 \<Rightarrow> usize \<Rightarrow> addr \<Rightarrow> u8" where
  "fast_memset bytes base v sz = (\<lambda>a. if base \<le> a \<and> a < base + sz then v else bytes a)"

definition copy_mapped :: "bss_storage \<Rightarrow> usize \<Rightarrow> addr \<Rightarrow> addr \<Rightarrow> usize \<Rightarrow> physmem \<Rightarrow> unit kres \<times> physmem" where
  "copy_mapped store memory_size dst src sz m =
    (case map_cover store memory_size m src sz of
       (Ok _, m) \<Rightarrow>
         (case map_cover store memory_size m dst sz of
            (Ok _, m) \<Rightarrow> (Ok (), m\<lparr>phys_bytes := fast_memcpy (phys_bytes m) dst src sz\<rparr>)
          | (Err e, m) \<Rightarrow> (Err e, m)
          | (Panic, m) \<Rightarrow> (Panic, m))
     | (Err e, m) \<Rightarrow> (Err e, m)
     | (Panic, m) \<Rightarrow> (Panic, m))"

definition memcpy :: "bss_storage \<Rightarrow> usize \<Rightarrow> physmem \<Rightarrow> addr \<Rightarrow> addr \<Rightarrow> usize \<Rightarrow> unit kres \<times> physmem" where
  "memcpy store memory_size m dst src sz =
    (if sz = 0 then (Ok (), m)
     else case checked_add dst sz of
       None \<Rightarrow> (fail BadAddress ''memcpy(): destination range overflows'', m)
     | Some dst_end \<Rightarrow>
         (case checked_add src sz of
            None \<Rightarrow> (fail BadAddress ''memcpy(): source range overflows'', m)
          | Some src_end \<Rightarrow>
              if (dst \<le> src \<and> src < dst_end) \<or> (src \<le> dst \<and> dst < src_end)
              then (fail BadAddress ''memcpy(): source and destination ranges overlap'', m)
              else with_kernel_address_space (copy_mapped store memory_size dst src sz) m))"

definition set_mapped :: "bss_storage \<Rightarrow> usize \<Rightarrow> addr \<Rightarrow> u8 \<Rightarrow> usize \<Rightarrow> physmem \<Rightarrow> unit kres \<times> physmem" where
  "set_mapped store memory_size base v sz m =
    (case map_cover store memory_size m base sz of
       (Ok _, m) \<Rightarrow> (Ok (), m\<lparr>phys_bytes := fast_memset (phys_bytes m) base v sz\<rparr>)
     | (Err e, m) \<Rightarrow> (Err e, m)
     | (Panic, m) \<Rightarrow> (Panic, m))"

definition memset :: "bss_storage \<Rightarrow> usize \<Rightarrow> physmem \<Rightarrow> addr \<Rightarrow> u8 \<Rightarrow> usize \<Rightarrow> unit kres \<times> physmem" where
  "memset store memory_size m base v sz =
    (if sz = 0 then (Ok (), m)
     else case checked_add base sz of
       None \<Rightarrow> (fail BadAddress ''memset(): target range overflows'', m)
     | Some stop \<Rightarrow> with_kernel_address_space (set_mapped store memory_size base v sz) m)"

section \<open>Invariant\<close>

text \<open>The frame of the page table a directory entry points at, and a walk of the kernel's tables.\<close>

definition pde_at :: "physmem \<Rightarrow> addr \<Rightarrow> nat \<Rightarrow> nat option" where
  "pde_at m pd i =
    (case table_read pde_from_raw m pd i of
       Some e \<Rightarrow> if df_present (de_flags e) then Some (de_frame e) else None
     | None \<Rightarrow> None)"

definition pte_at :: "physmem \<Rightarrow> addr \<Rightarrow> nat \<Rightarrow> nat option" where
  "pte_at m pt j =
    (case table_read pte_from_raw m pt j of
       Some p \<Rightarrow> if is_present p then Some (te_frame p) else None
     | None \<Rightarrow> None)"

definition walk :: "physmem \<Rightarrow> addr \<Rightarrow> addr option" where
  "walk m a =
    (case pde_at m (KERNEL_PD_PADDR m) (a div PGTAB_SIZE) of
       None \<Rightarrow> None
     | Some f \<Rightarrow>
         (case pte_at m (f * FRAME_SIZE) (a div PAGE_SIZE mod PAGE_TABLE_LENGTH) of
            None \<Rightarrow> None
          | Some n \<Rightarrow> Some (n * FRAME_SIZE + a mod PAGE_SIZE)))"

text \<open>A table that maps, of the pages of region \<open>i\<close>, each to itself or not at all.\<close>

definition table_identity :: "physmem \<Rightarrow> addr \<Rightarrow> nat \<Rightarrow> bool" where
  "table_identity m pt i \<longleftrightarrow>
    (\<forall>j < PAGE_TABLE_LENGTH. table_read pte_from_raw m pt j \<noteq> None \<and>
      (\<forall>n. pte_at m pt j = Some n \<longrightarrow> n = i * PAGE_TABLE_LENGTH + j))"

definition unused_slots :: "bss_storage \<Rightarrow> physmem \<Rightarrow> addr set" where
  "unused_slots store m =
    {as_mut_ptr store + k * PAGE_SIZE | k. pt_next_slot m \<le> k \<and> k < NUM_UNITS store}"

definition pd_inv :: "bss_storage \<Rightarrow> usize \<Rightarrow> addr \<Rightarrow> physmem \<Rightarrow> bool" where
  "pd_inv store memory_size pd m \<longleftrightarrow>
    pd mod PAGE_SIZE = 0 \<and> pd \<notin> unused_slots store m \<and>
    (\<forall>i < memory_size div PGTAB_SIZE. table_read pde_from_raw m pd i \<noteq> None) \<and>
    (\<forall>i < memory_size div PGTAB_SIZE. \<forall>f. pde_at m pd i = Some f \<longrightarrow>
      f * FRAME_SIZE \<noteq> pd \<and> table_identity m (f * FRAME_SIZE) i \<and> f * FRAME_SIZE \<notin> unused_slots store m) \<and>
    inj_on (pde_at m pd) {i. i < memory_size div PGTAB_SIZE \<and> pde_at m pd i \<noteq> None} \<and>
    (\<forall>s \<in> unused_slots store m. \<forall>j < PAGE_TABLE_LENGTH. paging_words m (s + j * 4) = 0)"

definition covered :: "usize \<Rightarrow> addr \<Rightarrow> physmem \<Rightarrow> bool" where
  "covered memory_size pd m \<longleftrightarrow> (\<forall>i < memory_size div PGTAB_SIZE. pde_at m pd i \<noteq> None)"

definition idmap_inv :: "bss_storage \<Rightarrow> usize \<Rightarrow> physmem \<Rightarrow> bool" where
  "idmap_inv store memory_size m \<longleftrightarrow>
    KERNEL_PD_PADDR m \<noteq> 0 \<and> pd_inv store memory_size (KERNEL_PD_PADDR m) m \<and>
    covered memory_size (KERNEL_PD_PADDR m) m"

text \<open>What the build fixes: whole page tables cover memory, and the slots are page frames.\<close>

definition config_ok :: "bss_storage \<Rightarrow> usize \<Rightarrow> bool" where
  "config_ok store memory_size \<longleftrightarrow>
    memory_size mod PGTAB_SIZE = 0 \<and> memory_size \<le> USIZE_MAX \<and>
    NUM_UNITS store * PAGE_SIZE \<le> STORAGE_SIZE store \<and> as_mut_ptr store mod PAGE_SIZE = 0 \<and>
    as_mut_ptr store + STORAGE_SIZE store \<le> FRAME_NUMBER_MAX * FRAME_SIZE"

section \<open>Tables in memory\<close>

lemma table_words:
  assumes "b mod PAGE_SIZE = 0" "b' mod PAGE_SIZE = 0" "i < PAGE_TABLE_LENGTH" "i' < PAGE_TABLE_LENGTH"
  shows "b + i * 4 = b' + i' * 4 \<longleftrightarrow> b = b' \<and> i = i'"
proof
  assume e: "b + i * 4 = b' + i' * 4"
  have "(b + i * 4) mod PAGE_SIZE = i * 4" "(b' + i' * 4) mod PAGE_SIZE = i' * 4"
    using assms by (simp_all add: mod_add_eq [symmetric, of b] mod_add_eq [symmetric, of b'])
  then have "i * 4 = i' * 4" using e by simp
  then show "b = b' \<and> i = i'" using e by simp
qed simp

lemma table_read_write:
  assumes "b mod PAGE_SIZE = 0" "b' mod PAGE_SIZE = 0" "i < PAGE_TABLE_LENGTH" "i' < PAGE_TABLE_LENGTH"
  shows "table_read d (table_write e m b i x) b' i' = (if b' = b \<and> i' = i then d (e x) else table_read d m b' i')"
  using table_words [OF assms(2,1,4,3)] by (simp add: table_read_def table_write_def)

lemma table_read_cong: "paging_words m' = paging_words m \<Longrightarrow> table_read d m' = table_read d m"
  by (simp add: table_read_def fun_eq_iff)

lemma table_write_frame [simp]:
  "KERNEL_PD_PADDR (table_write e m b i x) = KERNEL_PD_PADDR m" "KERNEL_CR3 (table_write e m b i x) = KERNEL_CR3 m"
  "cr3_register (table_write e m b i x) = cr3_register m" "pt_next_slot (table_write e m b i x) = pt_next_slot m"
  "phys_bytes (table_write e m b i x) = phys_bytes m"
  by (simp_all add: table_write_def)

lemma index_eq:
  assumes "a \<le> USIZE_MAX"
  shows "pd_index a = a div PGTAB_SIZE" "pt_index a = a div PAGE_SIZE mod PAGE_TABLE_LENGTH"
proof -
  have m: "(1024 - 1 :: 32 word) = mask 10" by (simp add: mask_eq_exp_minus_1)
  have "drop_bit n w AND mask 10 = take_bit 10 (drop_bit n w)" for n and w :: "32 word"
    by (simp add: take_bit_eq_mask)
  then have e: "unat (drop_bit n (word_of_nat a :: 32 word) AND mask 10) = a div 2 ^ n mod 2 ^ 10" for n
    using unat_addr [OF assms] by (simp add: unat_drop_take)
  have "a div PGTAB_SIZE < PAGE_TABLE_LENGTH" using assms by (simp add: div_less_iff_less_mult)
  then show "pd_index a = a div PGTAB_SIZE" unfolding pd_index_def m e by simp
  show "pt_index a = a div PAGE_SIZE mod PAGE_TABLE_LENGTH" unfolding pt_index_def m e by simp
qed

lemma slots_aligned: "config_ok store memory_size \<Longrightarrow> s \<in> unused_slots store m \<Longrightarrow> s mod PAGE_SIZE = 0"
  by (auto simp: config_ok_def unused_slots_def)

lemma page_table_alloc_ok:
  assumes c: "config_ok store memory_size" and n: "next < NUM_UNITS store"
  shows "page_table_alloc store next = (Ok (as_mut_ptr store + next * PAGE_SIZE), Suc next)"
    "(as_mut_ptr store + next * PAGE_SIZE) div PAGE_SIZE \<le> FRAME_NUMBER_MAX"
proof -
  have st: "bump_align_up 4096 4096 = Some 4096" by (simp add: bump_align_up_def checked_mul_def)
  have b: "as_mut_ptr store + STORAGE_SIZE store \<le> FRAME_NUMBER_MAX * FRAME_SIZE" "FRAME_NUMBER_MAX * FRAME_SIZE \<le> USIZE_MAX"
    "NUM_UNITS store * PAGE_SIZE \<le> STORAGE_SIZE store"
    using c by (simp_all add: config_ok_def FRAME_NUMBER_MAX_def)
  have ok: "storage_ok 4096 4096 store" using c b(2) st by (simp add: storage_ok_def config_ok_def)
  obtain stride where p: "bump_align_up 4096 4096 = Some stride"
    "slot_pointer 4096 4096 store next = Ok (as_mut_ptr store + next * stride)"
    using slot_pointer_ok [OF ok n] .
  have "next + 1 \<le> USIZE_MAX" using b n by linarith
  then show "page_table_alloc store next = (Ok (as_mut_ptr store + next * PAGE_SIZE), Suc next)"
    using n p st by (simp add: page_table_alloc_def bump_alloc_as_def PAGE_TABLE_SLOT_SIZE_def
        PAGE_TABLE_SLOT_ALIGN_def bump_alloc_def next_slot_index_def checked_add_def)
  have "as_mut_ptr store + next * PAGE_SIZE \<le> FRAME_NUMBER_MAX * FRAME_SIZE" using b n by linarith
  then have "(as_mut_ptr store + next * PAGE_SIZE) div PAGE_SIZE \<le> FRAME_NUMBER_MAX * FRAME_SIZE div FRAME_SIZE"
    by (rule div_le_mono)
  then show "(as_mut_ptr store + next * PAGE_SIZE) div PAGE_SIZE \<le> FRAME_NUMBER_MAX" by simp
qed

section \<open>Mapping a page\<close>

lemma region_index: "i < memory_size div PGTAB_SIZE \<Longrightarrow> config_ok store memory_size \<Longrightarrow> i < PAGE_TABLE_LENGTH"
proof -
  assume i: "i < memory_size div PGTAB_SIZE" and c: "config_ok store memory_size"
  have "memory_size div PGTAB_SIZE \<le> USIZE_MAX div PGTAB_SIZE"
    using c by (intro div_le_mono) (simp add: config_ok_def)
  then show ?thesis using i by simp
qed

lemma table_identity_cong:
  assumes "\<And>j. j < PAGE_TABLE_LENGTH \<Longrightarrow> table_read pte_from_raw m' pt j = table_read pte_from_raw m pt j"
  shows "table_identity m' pt i = table_identity m pt i"
  using assms by (simp add: table_identity_def pte_at_def)

lemma zeroed_table_identity:
  "(\<And>j. j < PAGE_TABLE_LENGTH \<Longrightarrow> paging_words m (pt + j * 4) = 0) \<Longrightarrow> table_identity m pt i"
  by (simp add: table_identity_def pte_at_def table_read_def zero_entries is_present_def pte_flags_new_def)

lemma take_slot:
  assumes "m' = table_write e (m\<lparr>pt_next_slot := Suc (pt_next_slot m)\<rparr>) pd i x"
  shows "unused_slots store m' = unused_slots store m - {as_mut_ptr store + pt_next_slot m * PAGE_SIZE}"
proof -
  have "{as_mut_ptr store + k * PAGE_SIZE | k. Suc n \<le> k \<and> k < NUM_UNITS store} =
    {as_mut_ptr store + k * PAGE_SIZE | k. n \<le> k \<and> k < NUM_UNITS store} - {as_mut_ptr store + n * PAGE_SIZE}" for n
    by (auto dest: Suc_leD simp: Suc_le_eq order_le_less)
  then show ?thesis by (simp add: unused_slots_def assms)
qed

lemma install_read:
  assumes "pd mod PAGE_SIZE = 0" "b mod PAGE_SIZE = 0" "i < PAGE_TABLE_LENGTH" "k < PAGE_TABLE_LENGTH"
    and m': "m' = table_write e (m\<lparr>pt_next_slot := next\<rparr>) pd i x"
  shows "table_read d m' b k = (if b = pd \<and> k = i then d (e x) else table_read d m b k)"
  using table_read_write [OF assms(1-4), where m = "m\<lparr>pt_next_slot := next\<rparr>" and d = d and e = e and x = x]
    table_read_cong [where m' = "m\<lparr>pt_next_slot := next\<rparr>" and m = m and d = d]
  by (simp add: m')

lemma install_pt:
  assumes c: "config_ok store memory_size" and inv: "pd_inv store memory_size pd m"
    and i: "i < memory_size div PGTAB_SIZE" "pde_at m pd i = None" and n: "pt_next_slot m < NUM_UNITS store"
    and f: "f = (as_mut_ptr store + pt_next_slot m * PAGE_SIZE) div PAGE_SIZE"
    and m': "m' = table_write pde_into_raw (m\<lparr>pt_next_slot := Suc (pt_next_slot m)\<rparr>) pd i (identity_pde f)"
  shows "pd_inv store memory_size pd m'"
    "\<And>k. k < PAGE_TABLE_LENGTH \<Longrightarrow> pde_at m' pd k = (if k = i then Some f else pde_at m pd k)"
proof -
  let ?slot = "as_mut_ptr store + pt_next_slot m * PAGE_SIZE"
  have slot: "?slot \<in> unused_slots store m" using n by (auto simp: unused_slots_def)
  have sf: "f * FRAME_SIZE = ?slot" 
    unfolding f using slots_aligned [OF c slot] div_mult_mod_eq [of ?slot PAGE_SIZE] by linarith
  have fm: "f \<le> FRAME_NUMBER_MAX" using page_table_alloc_ok(2) [OF c n] by (simp add: f)
  have al: "pd mod PAGE_SIZE = 0" "pd \<noteq> ?slot" using inv slot by (auto simp: pd_inv_def)
  have i1024: "i < PAGE_TABLE_LENGTH" using region_index [OF i(1) c] .
  note rd = install_read [OF al(1) _ i1024 _ m']
  have new: "pde_from_raw (pde_into_raw (identity_pde f)) = Some (identity_pde f)"
    using fm by (simp add: pde_round_trip identity_pde_def)
  show at: "pde_at m' pd k = (if k = i then Some f else pde_at m pd k)" if "k < PAGE_TABLE_LENGTH" for k
    using rd [OF al(1) that, where d = pde_from_raw] new by (simp add: pde_at_def identity_pde_def)
  have un: "unused_slots store m' = unused_slots store m - {?slot}" by (rule take_slot [OF m'])
  have tb: "table_identity m' b k = table_identity m b k" if "b mod PAGE_SIZE = 0" "b \<noteq> pd" for b k
    using rd [OF that(1), where d = pte_from_raw] that(2) by (intro table_identity_cong) simp
  have old: "f' * FRAME_SIZE \<noteq> pd \<and> table_identity m (f' * FRAME_SIZE) k \<and> f' * FRAME_SIZE \<notin> unused_slots store m"
    if "k < memory_size div PGTAB_SIZE" "pde_at m pd k = Some f'" for k f'
    using inv that by (auto simp: pd_inv_def)
  have zero: "paging_words m (s + j * 4) = 0" if "s \<in> unused_slots store m" "j < PAGE_TABLE_LENGTH" for s j
    using inv that by (auto simp: pd_inv_def)
  have tab: "f' * FRAME_SIZE \<noteq> pd \<and> table_identity m' (f' * FRAME_SIZE) k \<and> f' * FRAME_SIZE \<notin> unused_slots store m'"
    if k: "k < memory_size div PGTAB_SIZE" and p: "pde_at m' pd k = Some f'" for k f'
  proof (cases "k = i")
    case True
    then have "f' = f" using p at [OF region_index [OF k c]] by simp
    moreover have "table_identity m ?slot k" using zero [OF slot] by (rule zeroed_table_identity)
    ultimately show ?thesis using sf al tb [of ?slot k] slots_aligned [OF c slot] un by auto
  next
    case False
    then have "pde_at m pd k = Some f'" using p at [OF region_index [OF k c]] by simp
    then show ?thesis using old [OF k] tb [of "f' * FRAME_SIZE" k] un by simp
  qed
  have notf: "pde_at m pd k \<noteq> Some f" if "k < memory_size div PGTAB_SIZE" for k
    using old [OF that, of f] slot sf by auto
  have "inj_on (pde_at m pd) {k. k < memory_size div PGTAB_SIZE \<and> pde_at m pd k \<noteq> None}"
    using inv by (simp add: pd_inv_def)
  then have inj: "inj_on (pde_at m' pd) {k. k < memory_size div PGTAB_SIZE \<and> pde_at m' pd k \<noteq> None}"
    using at region_index [OF _ c] notf by (auto simp: inj_on_def split: if_splits)
  have dec: "table_read pde_from_raw m' pd k \<noteq> None" if "k < memory_size div PGTAB_SIZE" for k
    using rd [OF al(1) region_index [OF that c], where d = pde_from_raw] new inv that by (simp add: pd_inv_def)
  have "paging_words m' (s + j * 4) = 0" if s: "s \<in> unused_slots store m'" "j < PAGE_TABLE_LENGTH" for s j
  proof -
    have "s mod PAGE_SIZE = 0" "s \<noteq> pd" using s(1) un inv slots_aligned [OF c, of s m] by (auto simp: pd_inv_def)
    then have "s + j * 4 \<noteq> pd + i * 4" using table_words [OF _ al(1) s(2) i1024] by simp
    then show ?thesis using zero [of s j] s un by (simp add: m' table_write_def)
  qed
  moreover have "pd \<notin> unused_slots store m'" using inv un by (simp add: pd_inv_def)
  ultimately show "pd_inv store memory_size pd m'"
    using al(1) tab inj dec unfolding pd_inv_def by blast
qed

text \<open>Everything but the paging structures.\<close>

definition same_rest :: "physmem \<Rightarrow> physmem \<Rightarrow> bool" where
  "same_rest m m' \<longleftrightarrow>
    KERNEL_PD_PADDR m' = KERNEL_PD_PADDR m \<and> KERNEL_CR3 m' = KERNEL_CR3 m \<and>
    cr3_register m' = cr3_register m \<and> phys_bytes m' = phys_bytes m"

lemma same_rest_refl [simp]: "same_rest m m"
  by (simp add: same_rest_def)

lemma same_rest_trans: "same_rest m m' \<Longrightarrow> same_rest m' m'' \<Longrightarrow> same_rest m m''"
  by (simp add: same_rest_def)

lemma pde_at_read: "pde_at m pd i = Some f \<Longrightarrow> \<exists>e. table_read pde_from_raw m pd i = Some e \<and>
    df_present (de_flags e) \<and> de_frame e = f"
  by (auto simp: pde_at_def split: option.splits if_splits)

lemma ensure_pt_present:
  "pde_at m pd i = Some f \<Longrightarrow> ensure_pt store m pd i = (Ok (f * FRAME_SIZE), m)"
  by (auto dest!: pde_at_read simp: ensure_pt_def)

lemma ensure_pt_spec:
  assumes c: "config_ok store memory_size" and inv: "pd_inv store memory_size pd m"
    and i: "i < memory_size div PGTAB_SIZE" and n: "pt_next_slot m < NUM_UNITS store"
  shows "\<exists>f m'. ensure_pt store m pd i = (Ok (f * FRAME_SIZE), m') \<and> pd_inv store memory_size pd m' \<and>
    same_rest m m' \<and> (\<forall>k < PAGE_TABLE_LENGTH. pde_at m' pd k = (if k = i then Some f else pde_at m pd k)) \<and>
    pt_next_slot m' \<le> Suc (pt_next_slot m)"
proof (cases "pde_at m pd i")
  case (Some f)
  then show ?thesis using inv by (intro exI [of _ f] exI [of _ m]) (simp add: ensure_pt_present)
next
  case None
  let ?slot = "as_mut_ptr store + pt_next_slot m * PAGE_SIZE" let ?f = "?slot div PAGE_SIZE"
  let ?m = "table_write pde_into_raw (m\<lparr>pt_next_slot := Suc (pt_next_slot m)\<rparr>) pd i (identity_pde ?f)"
  have "table_read pde_from_raw m pd i \<noteq> None" using inv i by (simp add: pd_inv_def)
  then obtain e where e: "table_read pde_from_raw m pd i = Some e" "\<not> df_present (de_flags e)"
    using None by (auto simp: pde_at_def split: if_splits)
  have "?slot \<in> unused_slots store m" using n by (auto simp: unused_slots_def)
  then have "?f * FRAME_SIZE = ?slot" using slots_aligned [OF c] div_mult_mod_eq [of ?slot PAGE_SIZE] by fastforce
  moreover have "ensure_pt store m pd i = (Ok ?slot, ?m)"
    using e page_table_alloc_ok [OF c n] by (simp add: ensure_pt_def frame_number_from_raw_value_def)
  moreover have "same_rest m ?m" by (simp add: same_rest_def)
  ultimately show ?thesis using install_pt [OF c inv i None n refl refl]
    by (intro exI [of _ ?f] exI [of _ ?m]) simp
qed

lemma region_addr:
  assumes "config_ok store memory_size" "a < memory_size"
  shows "a div PGTAB_SIZE < memory_size div PGTAB_SIZE" "a \<le> USIZE_MAX" "a div PAGE_SIZE \<le> FRAME_NUMBER_MAX"
    "a div PAGE_SIZE = a div PGTAB_SIZE * PAGE_TABLE_LENGTH + a div PAGE_SIZE mod PAGE_TABLE_LENGTH"
proof -
  have c: "memory_size mod PGTAB_SIZE = 0" "memory_size \<le> USIZE_MAX" using assms(1) by (simp_all add: config_ok_def)
  show u: "a \<le> USIZE_MAX" using assms(2) c(2) by simp
  obtain k where k: "memory_size = k * PGTAB_SIZE" using c(1) by (auto simp: mod_eq_0_iff_dvd dvd_def)
  then show "a div PGTAB_SIZE < memory_size div PGTAB_SIZE" using assms(2) by (simp add: div_less_iff_less_mult)
  have "k \<le> 1023" using k c(2) by simp
  then have "k * PGTAB_SIZE \<le> 1023 * PGTAB_SIZE" by simp
  then have "a < 1023 * PGTAB_SIZE" using assms(2) k by linarith
  then have "a div PAGE_SIZE < 1023 * 1024" by (simp add: div_less_iff_less_mult)
  then show "a div PAGE_SIZE \<le> FRAME_NUMBER_MAX" by (simp add: FRAME_NUMBER_MAX_def)
  have "a div PAGE_SIZE div PAGE_TABLE_LENGTH = a div PGTAB_SIZE" by (simp add: div_mult2_eq [symmetric])
  then show "a div PAGE_SIZE = a div PGTAB_SIZE * PAGE_TABLE_LENGTH + a div PAGE_SIZE mod PAGE_TABLE_LENGTH"
    using div_mult_mod_eq [of "a div PAGE_SIZE" PAGE_TABLE_LENGTH] by simp
qed

lemma ensure_all_pts_ok:
  assumes c: "config_ok store memory_size"
  shows "pd_inv store memory_size pd m \<Longrightarrow> \<forall>i \<in> set is. i < memory_size div PGTAB_SIZE \<Longrightarrow>
    pt_next_slot m + length is \<le> NUM_UNITS store \<Longrightarrow>
    \<exists>m'. ensure_all_pts store m pd is = (Ok (), m') \<and> pd_inv store memory_size pd m' \<and> same_rest m m' \<and>
      (\<forall>i < PAGE_TABLE_LENGTH. i \<in> set is \<or> pde_at m pd i \<noteq> None \<longrightarrow> pde_at m' pd i \<noteq> None)"
proof (induction "is" arbitrary: m)
  case Nil
  then show ?case by auto
next
  case (Cons i "is")
  have i: "i < memory_size div PGTAB_SIZE" and n: "pt_next_slot m < NUM_UNITS store" using Cons.prems by simp_all
  have "i * PGTAB_SIZE \<le> USIZE_MAX" using region_index [OF i c] by simp
  then have idx: "pd_index (i * PGTAB_SIZE) = i" by (simp add: index_eq)
  obtain f m1 where e: "ensure_pt store m pd i = (Ok (f * FRAME_SIZE), m1)" "pd_inv store memory_size pd m1"
    "same_rest m m1" "\<forall>k < PAGE_TABLE_LENGTH. pde_at m1 pd k = (if k = i then Some f else pde_at m pd k)"
    "pt_next_slot m1 \<le> Suc (pt_next_slot m)"
    using ensure_pt_spec [OF c Cons.prems(1) i n] by blast
  have "\<exists>m'. ensure_all_pts store m1 pd is = (Ok (), m') \<and> pd_inv store memory_size pd m' \<and> same_rest m1 m' \<and>
      (\<forall>k < PAGE_TABLE_LENGTH. k \<in> set is \<or> pde_at m1 pd k \<noteq> None \<longrightarrow> pde_at m' pd k \<noteq> None)"
    using Cons.prems e(5) by (intro Cons.IH [OF e(2)]) simp_all
  then obtain m' where r: "ensure_all_pts store m1 pd is = (Ok (), m')" "pd_inv store memory_size pd m'"
    "same_rest m1 m'" "\<forall>k < PAGE_TABLE_LENGTH. k \<in> set is \<or> pde_at m1 pd k \<noteq> None \<longrightarrow> pde_at m' pd k \<noteq> None" by blast
  have "pde_at m' pd k \<noteq> None" if "k < PAGE_TABLE_LENGTH" "k \<in> set (i # is) \<or> pde_at m pd k \<noteq> None" for k
    using r(4) e(4) that by (cases "k = i") auto
  then show ?case using r e idx same_rest_trans [OF e(3) r(3)] by auto
qed

text \<open>Initialisation gives every region of memory its page table.\<close>

lemma identity_map_init_ok:
  assumes c: "config_ok store memory_size" and inv: "pd_inv store memory_size pd m" and pd: "pd \<noteq> 0"
    and n: "pt_next_slot m + memory_size div PGTAB_SIZE \<le> NUM_UNITS store"
  shows "\<exists>m'. identity_map_init store memory_size m pd cr3 = (Ok (), m') \<and> idmap_inv store memory_size m' \<and>
    KERNEL_CR3 m' = cr3 \<and> phys_bytes m' = phys_bytes m"
proof -
  obtain m1 where r: "ensure_all_pts store m pd [0..<memory_size div PGTAB_SIZE] = (Ok (), m1)"
    "pd_inv store memory_size pd m1" "same_rest m m1"
    "\<forall>i < PAGE_TABLE_LENGTH. i \<in> set [0..<memory_size div PGTAB_SIZE] \<or> pde_at m pd i \<noteq> None \<longrightarrow> pde_at m1 pd i \<noteq> None"
    using ensure_all_pts_ok [OF c inv, of "[0..<memory_size div PGTAB_SIZE]"] n by auto
  let ?m = "m1\<lparr>KERNEL_PD_PADDR := pd, KERNEL_CR3 := cr3\<rparr>"
  have e: "pde_at ?m = pde_at m1" "pte_at ?m = pte_at m1"
    by (simp_all add: fun_eq_iff pde_at_def pte_at_def table_read_def)
  have "table_identity ?m = table_identity m1" "unused_slots store ?m = unused_slots store m1"
    by (simp_all add: fun_eq_iff table_identity_def e unused_slots_def table_read_def)
  then have "pd_inv store memory_size pd ?m" using r(2) by (simp add: pd_inv_def e table_read_def)
  moreover have "covered memory_size pd ?m" using r(4) region_index [OF _ c] by (simp add: covered_def e)
  ultimately have "idmap_inv store memory_size ?m" using pd by (simp add: idmap_inv_def)
  then show ?thesis using r(1,3) by (intro exI [of _ ?m]) (simp add: identity_map_init_def same_rest_def)
qed

lemma region_table:
  assumes "idmap_inv store memory_size m" "i < memory_size div PGTAB_SIZE"
  obtains f where "pde_at m (KERNEL_PD_PADDR m) i = Some f" "f * FRAME_SIZE \<noteq> KERNEL_PD_PADDR m"
    "table_identity m (f * FRAME_SIZE) i" "f * FRAME_SIZE \<notin> unused_slots store m"
  using assms by (auto simp: idmap_inv_def covered_def pd_inv_def)

lemma pte_at_write:
  assumes "b mod PAGE_SIZE = 0" "b' mod PAGE_SIZE = 0" "j < PAGE_TABLE_LENGTH" "k < PAGE_TABLE_LENGTH"
    "n \<le> FRAME_NUMBER_MAX"
  shows "pte_at (table_write pte_into_raw m b j (identity_pte n)) b' k = (if b' = b \<and> k = j then Some n else pte_at m b' k)"
    "table_read pte_from_raw (table_write pte_into_raw m b j (identity_pte n)) b' k =
      (if b' = b \<and> k = j then Some (identity_pte n) else table_read pte_from_raw m b' k)"
proof -
  have "te_frame (identity_pte n) \<le> FRAME_NUMBER_MAX" using assms(5) by (simp add: identity_pte_def)
  note r = pte_round_trip [OF this]
  show t: "table_read pte_from_raw (table_write pte_into_raw m b j (identity_pte n)) b' k =
      (if b' = b \<and> k = j then Some (identity_pte n) else table_read pte_from_raw m b' k)"
    using table_read_write [OF assms(1-4), where d = pte_from_raw and e = pte_into_raw] r by simp
  show "pte_at (table_write pte_into_raw m b j (identity_pte n)) b' k = (if b' = b \<and> k = j then Some n else pte_at m b' k)"
    unfolding pte_at_def t by (simp add: identity_pte_def is_present_def pte_flags_new_def)
qed

text \<open>Adding an identity entry to the table of its own region keeps the map.\<close>

lemma install_pte:
  assumes c: "config_ok store memory_size" and inv: "idmap_inv store memory_size m"
    and i: "i < memory_size div PGTAB_SIZE" and j: "j < PAGE_TABLE_LENGTH"
    and f: "pde_at m (KERNEL_PD_PADDR m) i = Some f"
    and n: "n = i * PAGE_TABLE_LENGTH + j" "n \<le> FRAME_NUMBER_MAX"
    and m': "m' = table_write pte_into_raw m (f * FRAME_SIZE) j (identity_pte n)"
  shows "idmap_inv store memory_size m'"
    "\<And>k. k < PAGE_TABLE_LENGTH \<Longrightarrow> pde_at m' (KERNEL_PD_PADDR m) k = pde_at m (KERNEL_PD_PADDR m) k"
proof -
  let ?pd = "KERNEL_PD_PADDR m" and ?f = "f * FRAME_SIZE"
  have pinv: "pd_inv store memory_size ?pd m" "covered memory_size ?pd m" "?pd \<noteq> 0"
    using inv by (simp_all add: idmap_inv_def)
  have al: "?pd mod PAGE_SIZE = 0" "?f mod PAGE_SIZE = 0" using pinv(1) by (simp_all add: pd_inv_def)
  have fp: "?f \<noteq> ?pd" "?f \<notin> unused_slots store m" "table_identity m ?f i"
    using pinv(1) i f by (auto simp: pd_inv_def)
  have rp: "table_read d m' ?pd k = table_read d m ?pd k" if "k < PAGE_TABLE_LENGTH"
    for k and d :: "pte_word \<Rightarrow> page_directory_entry option"
    using table_read_write [OF al(2,1) j that, where d = d] fp(1) by (simp add: m')
  show at: "pde_at m' ?pd k = pde_at m ?pd k" if "k < PAGE_TABLE_LENGTH" for k
    using rp [OF that] by (simp add: pde_at_def)
  have un: "unused_slots store m' = unused_slots store m" by (simp add: unused_slots_def m')
  have tab: "table_identity m' (g * FRAME_SIZE) k" if k: "k < memory_size div PGTAB_SIZE" "pde_at m ?pd k = Some g" for k g
  proof (cases "k = i")
    case True
    then have "g = f" using k(2) f by simp
    then show ?thesis using True fp(3) pte_at_write [OF al(2) al(2) j _ n(2), of _ m]
      by (simp add: table_identity_def m' n(1))
  next
    case False
    have "inj_on (pde_at m ?pd) {k. k < memory_size div PGTAB_SIZE \<and> pde_at m ?pd k \<noteq> None}"
      using pinv(1) by (simp add: pd_inv_def)
    then have "pde_at m ?pd k \<noteq> pde_at m ?pd i" using False k f i by (auto simp: inj_on_def)
    then have ne: "g * FRAME_SIZE \<noteq> ?f" using k(2) f by simp
    have "table_identity m (g * FRAME_SIZE) k" using pinv(1) k by (auto simp: pd_inv_def)
    moreover have "table_identity m' (g * FRAME_SIZE) k = table_identity m (g * FRAME_SIZE) k"
      using pte_at_write(2) [OF al(2) _ j _ n(2), of "g * FRAME_SIZE" _ m] ne
      by (intro table_identity_cong) (simp add: m')
    ultimately show ?thesis by simp
  qed
  have zero: "paging_words m' (s + k * 4) = 0" if s: "s \<in> unused_slots store m" "k < PAGE_TABLE_LENGTH" for s k
  proof -
    have "s + k * 4 \<noteq> ?f + j * 4" using table_words [OF slots_aligned [OF c s(1)] al(2) s(2) j] s(1) fp(2) by auto
    moreover have "paging_words m (s + k * 4) = 0" using pinv(1) s by (simp add: pd_inv_def)
    ultimately show ?thesis by (simp add: m' table_write_def)
  qed
  have ri: "k < PAGE_TABLE_LENGTH" if "k < memory_size div PGTAB_SIZE" for k using region_index [OF that c] .
  have "inj_on (pde_at m' ?pd) {k. k < memory_size div PGTAB_SIZE \<and> pde_at m' ?pd k \<noteq> None}"
    using pinv(1) at ri by (auto simp: pd_inv_def inj_on_def)
  then have "pd_inv store memory_size ?pd m'"
    using pinv(1) rp at ri un tab zero unfolding pd_inv_def by auto
  moreover have "covered memory_size ?pd m'" using pinv(2) at ri by (simp add: covered_def)
  ultimately show "idmap_inv store memory_size m'" using pinv(3) by (simp add: idmap_inv_def m')
qed

lemma walk_identity:
  assumes c: "config_ok store memory_size" and inv: "idmap_inv store memory_size m" and a: "a < memory_size"
  shows "walk m a = None \<or> walk m a = Some a"
proof -
  note r = region_addr [OF c a]
  obtain f where f: "pde_at m (KERNEL_PD_PADDR m) (a div PGTAB_SIZE) = Some f"
    "table_identity m (f * FRAME_SIZE) (a div PGTAB_SIZE)" using region_table [OF inv r(1)] .
  show ?thesis
  proof (cases "pte_at m (f * FRAME_SIZE) (a div PAGE_SIZE mod PAGE_TABLE_LENGTH)")
    case (Some n)
    then have "n = a div PAGE_SIZE" using f(2) r(4) by (simp add: table_identity_def)
    then show ?thesis using Some f(1) div_mult_mod_eq [of a PAGE_SIZE] by (simp add: walk_def)
  qed (simp add: walk_def f)
qed

lemma identity_map_page_ok:
  assumes c: "config_ok store memory_size" and inv: "idmap_inv store memory_size m" and a: "a < memory_size"
  shows "\<exists>m'. identity_map_page store m a = (Ok (), m') \<and> idmap_inv store memory_size m' \<and> same_rest m m' \<and>
    (\<forall>b < memory_size. b div PAGE_SIZE = a div PAGE_SIZE \<or> walk m b = Some b \<longrightarrow> walk m' b = Some b)"
proof -
  let ?i = "a div PGTAB_SIZE" and ?j = "a div PAGE_SIZE mod PAGE_TABLE_LENGTH" and ?pd = "KERNEL_PD_PADDR m"
  note r = region_addr [OF c a]
  obtain f where f: "pde_at m ?pd ?i = Some f" "table_identity m (f * FRAME_SIZE) ?i" using region_table [OF inv r(1)] .
  have e: "identity_map_page store m a = ensure_pte m (f * FRAME_SIZE) ?j a"
    using inv f(1) index_eq [OF r(2)] by (simp add: identity_map_page_def idmap_inv_def ensure_pt_present)
  have same: "walk m' b = Some b" if "b < memory_size" "idmap_inv store memory_size m'" "?pd = KERNEL_PD_PADDR m'"
      "pde_at m' ?pd ?i = Some f" "pte_at m' (f * FRAME_SIZE) ?j \<noteq> None" "b div PAGE_SIZE = a div PAGE_SIZE" for m' b
  proof -
    have "b div PAGE_SIZE div PAGE_TABLE_LENGTH = a div PAGE_SIZE div PAGE_TABLE_LENGTH" using that(6) by simp
    then have "b div PGTAB_SIZE = ?i" by (simp add: div_mult2_eq [symmetric])
    then have "walk m' b \<noteq> None" using that by (auto simp: walk_def)
    then show ?thesis using walk_identity [OF c that(2,1)] by auto
  qed
  have "table_read pte_from_raw m (f * FRAME_SIZE) ?j \<noteq> None" using f(2) by (simp add: table_identity_def)
  then obtain p where p: "table_read pte_from_raw m (f * FRAME_SIZE) ?j = Some p" by blast
  show ?thesis
  proof (cases "is_present p")
    case True
    then have "pte_at m (f * FRAME_SIZE) ?j \<noteq> None" using p by (simp add: pte_at_def)
    then show ?thesis using same [OF _ inv refl f(1)] inv True p e
      by (intro exI [of _ m]) (auto simp: ensure_pte_def)
  next
    case False
    let ?m = "table_write pte_into_raw m (f * FRAME_SIZE) ?j (identity_pte (a div PAGE_SIZE))"
    have "?j < PAGE_TABLE_LENGTH" by simp
    note ins = install_pte [OF c inv r(1) this f(1) r(4,3) refl]
    have eq: "ensure_pte m (f * FRAME_SIZE) ?j a = (Ok (), ?m)"
      using False p r(3) by (simp add: ensure_pte_def frame_number_from_raw_value_def)
    have pw: "pte_at ?m (g * FRAME_SIZE) k =
        (if g * FRAME_SIZE = f * FRAME_SIZE \<and> k = ?j then Some (a div PAGE_SIZE) else pte_at m (g * FRAME_SIZE) k)"
      if "k < PAGE_TABLE_LENGTH" for g k
      using pte_at_write(1) [of "f * FRAME_SIZE" "g * FRAME_SIZE" ?j k "a div PAGE_SIZE" m] r(3) that by simp
    have old: "walk ?m b = Some b" if b: "b < memory_size" "walk m b = Some b" for b
    proof -
      have bi: "b div PGTAB_SIZE < PAGE_TABLE_LENGTH" using region_index [OF region_addr(1) [OF c b(1)] c] .
      obtain g k where g: "pde_at m ?pd (b div PGTAB_SIZE) = Some g"
        "pte_at m (g * FRAME_SIZE) (b div PAGE_SIZE mod PAGE_TABLE_LENGTH) = Some k"
        using b(2) by (auto simp: walk_def split: option.splits)
      have "walk ?m b \<noteq> None" using ins(2) [OF bi] g pw [of "b div PAGE_SIZE mod PAGE_TABLE_LENGTH" g]
        by (simp add: walk_def)
      then show ?thesis using walk_identity [OF c ins(1) b(1)] by auto
    qed
    have fi: "pde_at ?m ?pd ?i = Some f" using ins(2) [OF region_index [OF r(1) c]] f(1) by simp
    have "pte_at ?m (f * FRAME_SIZE) ?j \<noteq> None" using pw [of ?j f] by simp
    then have "walk ?m b = Some b" if "b < memory_size" "b div PAGE_SIZE = a div PAGE_SIZE \<or> walk m b = Some b" for b
      using same [OF that(1) ins(1) _ fi _] old [OF that(1)] that(2) by auto
    moreover have "same_rest m ?m" by (simp add: same_rest_def)
    ultimately show ?thesis using e eq ins(1) by (intro exI [of _ ?m]) simp
  qed
qed

section \<open>Ranges\<close>

definition keeps_map :: "bss_storage \<Rightarrow> usize \<Rightarrow> physmem \<Rightarrow> physmem \<Rightarrow> bool" where
  "keeps_map store memory_size m m' \<longleftrightarrow>
    idmap_inv store memory_size m' \<and> same_rest m m' \<and> (\<forall>b < memory_size. walk m b = Some b \<longrightarrow> walk m' b = Some b)"

lemma keeps_map_refl: "idmap_inv store memory_size m \<Longrightarrow> keeps_map store memory_size m m"
  by (simp add: keeps_map_def)

lemma keeps_map_trans:
  "keeps_map store memory_size m m1 \<Longrightarrow> keeps_map store memory_size m1 m2 \<Longrightarrow> keeps_map store memory_size m m2"
  using same_rest_trans by (auto simp: keeps_map_def)

lemma map_each_page_spec:
  assumes c: "config_ok store memory_size"
  shows "idmap_inv store memory_size m \<Longrightarrow> \<forall>a \<in> set as. a mod PAGE_SIZE = 0 \<Longrightarrow>
    \<exists>r m'. map_each_page store memory_size m as = (r, m') \<and> keeps_map store memory_size m m' \<and>
      (if \<forall>a \<in> set as. a < memory_size
       then r = Ok () \<and> (\<forall>b < memory_size. b div PAGE_SIZE \<in> (\<lambda>a. a div PAGE_SIZE) ` set as \<longrightarrow> walk m' b = Some b)
       else \<exists>e. r = Err e)"
proof (induction as arbitrary: m)
  case Nil
  then show ?case by (simp add: keeps_map_refl)
next
  case (Cons a as)
  show ?case
  proof (cases "a < memory_size")
    case False
    then show ?thesis using Cons.prems by (auto simp: frame_address_from_raw_value_def fail_def keeps_map_refl)
  next
    case True
    obtain m1 where p: "identity_map_page store m a = (Ok (), m1)" "idmap_inv store memory_size m1" "same_rest m m1"
      "\<forall>b < memory_size. b div PAGE_SIZE = a div PAGE_SIZE \<or> walk m b = Some b \<longrightarrow> walk m1 b = Some b"
      using identity_map_page_ok [OF c Cons.prems(1) True] by blast
    have k1: "keeps_map store memory_size m m1" using p by (simp add: keeps_map_def)
    obtain r m' where q: "map_each_page store memory_size m1 as = (r, m')" "keeps_map store memory_size m1 m'"
      "if \<forall>a \<in> set as. a < memory_size
       then r = Ok () \<and> (\<forall>b < memory_size. b div PAGE_SIZE \<in> (\<lambda>a. a div PAGE_SIZE) ` set as \<longrightarrow> walk m' b = Some b)
       else \<exists>e. r = Err e" using Cons.IH [OF p(2)] Cons.prems(2) by auto
    have e: "map_each_page store memory_size m (a # as) = (r, m')"
      using True Cons.prems(2) p(1) q(1) by (simp add: frame_address_from_raw_value_def page_aligned_from_address_def)
    have "walk m' b = Some b" if "b < memory_size" "b div PAGE_SIZE = a div PAGE_SIZE" for b
      using p(4) q(2) that by (auto simp: keeps_map_def)
    then show ?thesis using e q(3) True keeps_map_trans [OF k1 q(2)] by (auto split: if_splits)
  qed
qed

lemma next_multiple:
  assumes "checked_next_multiple_of v PAGE_SIZE = Some w"
  shows "w mod PAGE_SIZE = 0" "v \<le> w" "w < v + PAGE_SIZE"
proof -
  have m: "v mod PAGE_SIZE < PAGE_SIZE" by simp
  have w: "w = (if v mod PAGE_SIZE = 0 then v else v + (PAGE_SIZE - v mod PAGE_SIZE))"
    using assms by (simp add: checked_next_multiple_of_def checked_add_def split: if_splits)
  show "v \<le> w" "w < v + PAGE_SIZE" using w m by auto
  have "(v + (PAGE_SIZE - v mod PAGE_SIZE)) mod PAGE_SIZE = 0"
    using m by (metis add_diff_inverse_nat less_imp_le_nat linorder_not_le mod_add_left_eq mod_self)
  then show "w mod PAGE_SIZE = 0" using w by simp
qed

lemma page_floor: "a \<le> USIZE_MAX \<Longrightarrow> align_down a PAGE_ALIGNMENT = a div PAGE_SIZE * PAGE_SIZE"
  by (simp add: align_down_eq PAGE_ALIGNMENT_def alignment_ok_def alignment_values_def)

lemma page_multiple:
  assumes "v mod PAGE_SIZE = 0"
  obtains k where "v = k * PAGE_SIZE"
  using assms by (auto simp: mod_eq_0_iff_dvd dvd_def mult.commute)

lemma memory_pages:
  assumes "config_ok store memory_size"
  obtains k where "memory_size = k * PAGE_SIZE"
proof -
  have "(PAGE_SIZE :: nat) dvd PGTAB_SIZE" by simp
  moreover have "PGTAB_SIZE dvd memory_size" using assms by (simp add: config_ok_def mod_eq_0_iff_dvd)
  ultimately have "PAGE_SIZE dvd memory_size" by (rule dvd_trans)
  then show thesis using that by (auto simp: dvd_def mult.commute)
qed

text \<open>Rounding the end of a range up to a page succeeds when the range lies in memory.\<close>

lemma next_multiple_memory:
  assumes "config_ok store memory_size" "v \<le> memory_size"
  shows "\<exists>w. checked_next_multiple_of v PAGE_SIZE = Some w"
proof -
  obtain k where k: "memory_size = k * PAGE_SIZE" using memory_pages [OF assms(1)] .
  have u: "memory_size \<le> USIZE_MAX" using assms(1) by (simp add: config_ok_def)
  show ?thesis
  proof (cases "v mod PAGE_SIZE = 0")
    case False
    then have "v \<noteq> memory_size" using k by auto
    then have "v < k * PAGE_SIZE" using assms(2) k by simp
    then have "v div PAGE_SIZE < k" by (simp add: div_less_iff_less_mult)
    then have "(v div PAGE_SIZE + 1) * PAGE_SIZE \<le> k * PAGE_SIZE" by (intro mult_le_mono1) simp
    moreover have "q * PAGE_SIZE + r + (PAGE_SIZE - r) = (q + 1) * PAGE_SIZE" if "r < PAGE_SIZE" for q r :: nat
      using that by simp
    then have "v + (PAGE_SIZE - v mod PAGE_SIZE) = (v div PAGE_SIZE + 1) * PAGE_SIZE"
      using div_mult_mod_eq [of v PAGE_SIZE] by (metis mod_less_divisor zero_less_numeral)
    ultimately show ?thesis using False u k by (simp add: checked_next_multiple_of_def checked_add_def)
  qed (simp add: checked_next_multiple_of_def)
qed

lemma cover_pages:
  assumes "A \<le> W" "w = W * PAGE_SIZE"
  shows "(w - A * PAGE_SIZE) mod PAGE_SIZE = 0"
    "set (map (\<lambda>i. A * PAGE_SIZE + i * PAGE_SIZE) [0..<(w - A * PAGE_SIZE) div PAGE_SIZE]) =
      (\<lambda>k. k * PAGE_SIZE) ` {A..<W}"
proof -
  have d: "w - A * PAGE_SIZE = (W - A) * PAGE_SIZE" using assms by (simp add: diff_mult_distrib)
  then show "(w - A * PAGE_SIZE) mod PAGE_SIZE = 0" by simp
  have "{A..<W} = (\<lambda>i. A + i) ` {0..<W - A}" using assms(1) by simp
  then have "(\<lambda>k. k * PAGE_SIZE) ` {A..<W} = (\<lambda>i. (A + i) * PAGE_SIZE) ` {0..<W - A}"
    by (simp only: image_image)
  then show "set (map (\<lambda>i. A * PAGE_SIZE + i * PAGE_SIZE) [0..<(w - A * PAGE_SIZE) div PAGE_SIZE]) =
      (\<lambda>k. k * PAGE_SIZE) ` {A..<W}" by (simp add: d add_mult_distrib)
qed

lemma map_cover_spec:
  assumes c: "config_ok store memory_size" and inv: "idmap_inv store memory_size m"
    and sz: "0 < sz" "a + sz \<le> USIZE_MAX"
  shows "\<exists>r m'. map_cover store memory_size m a sz = (r, m') \<and> keeps_map store memory_size m m' \<and>
    (if a + sz \<le> memory_size then r = Ok () \<and> (\<forall>b. a \<le> b \<and> b < a + sz \<longrightarrow> walk m' b = Some b) else \<exists>e. r = Err e)"
proof (cases "a < memory_size \<and> checked_next_multiple_of (a + sz) PAGE_SIZE \<noteq> None")
  case False
  then have bad: "\<not> a + sz \<le> memory_size" using next_multiple_memory [OF c] sz(1) by fastforce
  have "\<exists>e. map_cover store memory_size m a sz = (Err e, m)"
  proof (cases "a < memory_size")
    case True
    then have "a div PAGE_SIZE * PAGE_SIZE < memory_size" using div_mult_mod_eq [of a PAGE_SIZE] by linarith
    then show ?thesis using True False sz page_floor [of a]
      by (simp add: map_cover_def physical_address_def page_aligned_cover_def debug_assert_def
        frame_address_from_raw_value_def page_aligned_from_address_def checked_add_def fail_def)
  qed (simp add: map_cover_def physical_address_def fail_def)
  then show ?thesis using bad keeps_map_refl [OF inv] by auto
next
  case True
  let ?A = "a div PAGE_SIZE"
  obtain w where w: "checked_next_multiple_of (a + sz) PAGE_SIZE = Some w" using True by blast
  note wp = next_multiple [OF w]
  obtain W where W: "w = W * PAGE_SIZE" using page_multiple [OF wp(1)] .
  obtain K where K: "memory_size = K * PAGE_SIZE" using memory_pages [OF c] .
  have A: "?A * PAGE_SIZE \<le> a" "a < ?A * PAGE_SIZE + PAGE_SIZE"
    using div_mult_mod_eq [of a PAGE_SIZE] mod_less_divisor [of PAGE_SIZE a, OF zero_less_numeral] by linarith+
  have "?A * PAGE_SIZE < W * PAGE_SIZE" using A W wp(2) sz(1) by linarith
  then have AW: "?A < W" by simp
  note cp = cover_pages [OF less_imp_le [OF AW] W]
  let ?pages = "map (\<lambda>i. ?A * PAGE_SIZE + i * PAGE_SIZE) [0..<(w - ?A * PAGE_SIZE) div PAGE_SIZE]"
  have "?A * PAGE_SIZE < memory_size" using True A by linarith
  moreover have "w - ?A * PAGE_SIZE \<noteq> 0" using AW W by simp
  ultimately have e: "map_cover store memory_size m a sz = map_each_page store memory_size m ?pages"
    using True sz page_floor [of a] w cp(1)
    by (simp add: map_cover_def physical_address_def page_aligned_cover_def debug_assert_def
        frame_address_from_raw_value_def page_aligned_from_address_def checked_add_def ensure_identity_mapped_range_def)
  have "W - 1 \<in> {?A..<W}" using AW by auto
  then have "W \<le> K" if "\<forall>k \<in> {?A..<W}. k < K" using bspec [OF that, of "W - 1"] by linarith
  then have "(\<forall>k \<in> {?A..<W}. k < K) \<longleftrightarrow> W \<le> K" by auto
  then have fits: "(\<forall>x \<in> set ?pages. x < memory_size) \<longleftrightarrow> W \<le> K" unfolding cp(2) K by simp
  have "W \<le> K \<longleftrightarrow> a + sz \<le> memory_size"
    using wp(2,3) W K by linarith
  note fits = fits [unfolded this]
  have al: "\<forall>x \<in> set ?pages. x mod PAGE_SIZE = 0" unfolding cp(2) by auto
  obtain r m' where r: "map_each_page store memory_size m ?pages = (r, m')" "keeps_map store memory_size m m'"
    "if \<forall>x \<in> set ?pages. x < memory_size
     then r = Ok () \<and> (\<forall>b < memory_size. b div PAGE_SIZE \<in> (\<lambda>a. a div PAGE_SIZE) ` set ?pages \<longrightarrow> walk m' b = Some b)
     else \<exists>e. r = Err e" using map_each_page_spec [OF c inv al] by blast
  have img: "(\<lambda>a. a div PAGE_SIZE) ` set ?pages = {?A..<W}" unfolding cp(2) by (simp add: image_image)
  have "b div PAGE_SIZE \<in> {?A..<W}" if "a \<le> b" "b < a + sz" for b
    using that W wp(2) div_le_mono [of a b PAGE_SIZE] by (simp add: div_less_iff_less_mult)
  then have "a + sz \<le> memory_size \<Longrightarrow> r = Ok () \<and> (\<forall>b. a \<le> b \<and> b < a + sz \<longrightarrow> walk m' b = Some b)"
    using r(3) fits img by auto
  moreover have "\<not> a + sz \<le> memory_size \<Longrightarrow> \<exists>e. r = Err e" using r(3) fits by simp
  ultimately show ?thesis using e r(1,2) by auto
qed

section \<open>Copies\<close>

lemma idmap_inv_cong:
  assumes "KERNEL_PD_PADDR m' = KERNEL_PD_PADDR m" "paging_words m' = paging_words m" "pt_next_slot m' = pt_next_slot m"
  shows "idmap_inv store memory_size m' = idmap_inv store memory_size m" "walk m' = walk m"
proof -
  have "table_read d m' = table_read d m" for d :: "pte_word \<Rightarrow> page_directory_entry option"
    by (rule table_read_cong [OF assms(2)])
  then have e: "pde_at m' = pde_at m" "table_read pde_from_raw m' = table_read pde_from_raw m"
    by (simp_all add: fun_eq_iff pde_at_def)
  have p: "table_read pte_from_raw m' = table_read pte_from_raw m" by (rule table_read_cong [OF assms(2)])
  then have t: "pte_at m' = pte_at m" by (simp add: fun_eq_iff pte_at_def)
  then have "table_identity m' = table_identity m" by (simp add: fun_eq_iff table_identity_def p)
  moreover have "unused_slots store m' = unused_slots store m" by (simp add: unused_slots_def assms(3))
  ultimately show "idmap_inv store memory_size m' = idmap_inv store memory_size m"
    unfolding idmap_inv_def pd_inv_def covered_def e assms(1,2) by simp
  show "walk m' = walk m" unfolding fun_eq_iff walk_def e t assms(1) by simp
qed

text \<open>The registers and the location of the kernel's tables, which every access leaves as they were.\<close>

definition same_space :: "physmem \<Rightarrow> physmem \<Rightarrow> bool" where
  "same_space m m' \<longleftrightarrow>
    KERNEL_PD_PADDR m' = KERNEL_PD_PADDR m \<and> KERNEL_CR3 m' = KERNEL_CR3 m \<and> cr3_register m' = cr3_register m"

lemma with_kernel_address_space_spec:
  assumes "\<And>m1. idmap_inv store memory_size m1 \<Longrightarrow> phys_bytes m1 = phys_bytes m \<Longrightarrow>
      \<exists>r m2. f m1 = (r, m2) \<and> idmap_inv store memory_size m2 \<and> same_space m1 m2 \<and> P r (phys_bytes m2) (walk m2)"
    and inv: "idmap_inv store memory_size m"
  shows "\<exists>r m'. with_kernel_address_space f m = (r, m') \<and> idmap_inv store memory_size m' \<and> same_space m m' \<and>
    P r (phys_bytes m') (walk m')"
proof (cases "KERNEL_CR3 m = 0 \<or> cr3_register m = KERNEL_CR3 m")
  case True
  then have "with_kernel_address_space f m = f m" by (auto simp: with_kernel_address_space_def)
  then show ?thesis using assms(1) [OF inv refl] by simp
next
  case False
  let ?m = "m\<lparr>cr3_register := KERNEL_CR3 m\<rparr>"
  have "idmap_inv store memory_size ?m" using inv idmap_inv_cong(1) [of ?m m] by simp
  then obtain r m2 where f: "f ?m = (r, m2)" "idmap_inv store memory_size m2" "same_space ?m m2"
    "P r (phys_bytes m2) (walk m2)" using assms(1) [of ?m] by auto
  let ?m' = "m2\<lparr>cr3_register := cr3_register m\<rparr>"
  have "with_kernel_address_space f m = (r, ?m')" using False f(1) by (simp add: with_kernel_address_space_def)
  moreover have "idmap_inv store memory_size ?m'" "walk ?m' = walk m2"
    using f(2) idmap_inv_cong [of ?m' m2] by simp_all
  moreover have "same_space m ?m'" using f(3) by (simp add: same_space_def)
  ultimately show ?thesis using f(4) by auto
qed

lemma copy_mapped_spec:
  assumes c: "config_ok store memory_size" and inv: "idmap_inv store memory_size m"
    and sz: "0 < sz" "dst + sz \<le> USIZE_MAX" "src + sz \<le> USIZE_MAX"
  shows "\<exists>r m'. copy_mapped store memory_size dst src sz m = (r, m') \<and> idmap_inv store memory_size m' \<and> same_space m m' \<and>
    (if dst + sz \<le> memory_size \<and> src + sz \<le> memory_size
     then r = Ok () \<and> phys_bytes m' = fast_memcpy (phys_bytes m) dst src sz \<and>
       (\<forall>b. dst \<le> b \<and> b < dst + sz \<or> src \<le> b \<and> b < src + sz \<longrightarrow> walk m' b = Some b)
     else (\<exists>e. r = Err e) \<and> phys_bytes m' = phys_bytes m)"
proof -
  obtain r1 m1 where s: "map_cover store memory_size m src sz = (r1, m1)" "keeps_map store memory_size m m1"
    "if src + sz \<le> memory_size then r1 = Ok () \<and> (\<forall>b. src \<le> b \<and> b < src + sz \<longrightarrow> walk m1 b = Some b) else \<exists>e. r1 = Err e"
    using map_cover_spec [OF c inv sz(1,3)] by blast
  have k1: "idmap_inv store memory_size m1" "same_space m m1" "phys_bytes m1 = phys_bytes m"
    using s(2) by (simp_all add: keeps_map_def same_rest_def same_space_def)
  show ?thesis
  proof (cases "src + sz \<le> memory_size")
    case False
    then show ?thesis using s k1 by (auto simp: copy_mapped_def)
  next
    case True
    obtain r2 m2 where d: "map_cover store memory_size m1 dst sz = (r2, m2)" "keeps_map store memory_size m1 m2"
      "if dst + sz \<le> memory_size then r2 = Ok () \<and> (\<forall>b. dst \<le> b \<and> b < dst + sz \<longrightarrow> walk m2 b = Some b) else \<exists>e. r2 = Err e"
      using map_cover_spec [OF c k1(1) sz(1,2)] by blast
    have k2: "idmap_inv store memory_size m2" "same_space m m2" "phys_bytes m2 = phys_bytes m"
      using d(2) k1 by (simp_all add: keeps_map_def same_rest_def same_space_def)
    let ?m = "m2\<lparr>phys_bytes := fast_memcpy (phys_bytes m2) dst src sz\<rparr>"
    have w: "idmap_inv store memory_size ?m" "walk ?m = walk m2" using k2(1) idmap_inv_cong [of ?m m2] by simp_all
    have sp: "same_space m ?m" using k2(2) by (simp add: same_space_def)
    have sw: "\<forall>b. src \<le> b \<and> b < src + sz \<longrightarrow> walk m2 b = Some b"
      using s(3) d(2) True by (auto simp: keeps_map_def)
    show ?thesis
    proof (cases "dst + sz \<le> memory_size")
      case dst: True
      then have "copy_mapped store memory_size dst src sz m = (Ok (), ?m)"
        using s(1,3) d(1,3) True by (simp add: copy_mapped_def)
      then show ?thesis using w sp sw d(3) dst True k2(3) by auto
    next
      case False
      then show ?thesis using s(1,3) d(1,3) True k2 by (auto simp: copy_mapped_def)
    qed
  qed
qed

lemma ranges_meet:
  fixes dst src sz :: nat
  assumes "0 < sz"
  shows "(dst \<le> src \<and> src < dst + sz) \<or> (src \<le> dst \<and> dst < src + sz) \<longleftrightarrow>
    {dst..<dst + sz} \<inter> {src..<src + sz} \<noteq> {}"
proof -
  have "x < dst + sz \<Longrightarrow> src \<le> x \<Longrightarrow> dst \<le> x \<Longrightarrow> x < src + sz \<Longrightarrow>
    (dst \<le> src \<and> src < dst + sz) \<or> (src \<le> dst \<and> dst < src + sz)" for x by linarith
  then show ?thesis using assms by fastforce
qed

lemma checked_add_None: "checked_add a b = None \<longleftrightarrow> USIZE_MAX < a + b"
  by (auto simp: checked_add_def)

lemma memcpy_spec:
  assumes c: "config_ok store memory_size" and inv: "idmap_inv store memory_size m"
  shows "\<exists>r m'. memcpy store memory_size m dst src sz = (r, m') \<and> idmap_inv store memory_size m' \<and> same_space m m' \<and>
    (if sz = 0 then r = Ok () \<and> phys_bytes m' = phys_bytes m
     else if dst + sz \<le> memory_size \<and> src + sz \<le> memory_size \<and> {dst..<dst + sz} \<inter> {src..<src + sz} = {}
     then r = Ok () \<and>
       phys_bytes m' = fast_memcpy (phys_bytes m) dst src sz \<and>
       (\<forall>b. dst \<le> b \<and> b < dst + sz \<or> src \<le> b \<and> b < src + sz \<longrightarrow> walk m' b = Some b)
     else (\<exists>e. r = Err e) \<and> phys_bytes m' = phys_bytes m)"
proof -
  have u: "memory_size \<le> USIZE_MAX" using c by (simp add: config_ok_def)
  have same: "same_space m m" by (simp add: same_space_def)
  consider "sz = 0" | "0 < sz" "USIZE_MAX < dst + sz \<or> USIZE_MAX < src + sz"
    | "0 < sz" "dst + sz \<le> USIZE_MAX" "src + sz \<le> USIZE_MAX" by linarith
  then show ?thesis
  proof cases
    case 1
    then show ?thesis using inv same by (simp add: memcpy_def)
  next
    case 2
    then have "checked_add dst sz = None \<or> checked_add src sz = None" by (simp add: checked_add_None)
    then have "\<exists>e. memcpy store memory_size m dst src sz = (Err e, m)"
      using 2(1) by (cases "checked_add dst sz") (auto simp: memcpy_def fail_def)
    then show ?thesis using 2 u inv same by auto
  next
    case 3
    have ca: "checked_add dst sz = Some (dst + sz)" "checked_add src sz = Some (src + sz)"
      using 3 by (simp_all add: checked_add_def)
    show ?thesis
    proof (cases "{dst..<dst + sz} \<inter> {src..<src + sz} = {}")
      case False
      then have "\<exists>e. memcpy store memory_size m dst src sz = (Err e, m)"
        using 3(1) ca ranges_meet [OF 3(1), of dst src] by (simp add: memcpy_def fail_def)
      then show ?thesis using False 3(1) inv same by auto
    next
      case True
      then have no: "\<not> ((dst \<le> src \<and> src < dst + sz) \<or> (src \<le> dst \<and> dst < src + sz))"
        using ranges_meet [OF 3(1), of dst src] by blast
      have e: "memcpy store memory_size m dst src sz =
          with_kernel_address_space (copy_mapped store memory_size dst src sz) m"
        unfolding memcpy_def ca option.case if_not_P [OF no] using 3(1) by simp
      let ?P = "\<lambda>r bytes w. if dst + sz \<le> memory_size \<and> src + sz \<le> memory_size
        then r = Ok () \<and> bytes = fast_memcpy (phys_bytes m) dst src sz \<and>
          (\<forall>b. dst \<le> b \<and> b < dst + sz \<or> src \<le> b \<and> b < src + sz \<longrightarrow> w b = Some b)
        else (\<exists>e. r = Err e) \<and> bytes = phys_bytes m"
      have "\<exists>r m'. with_kernel_address_space (copy_mapped store memory_size dst src sz) m = (r, m') \<and>
          idmap_inv store memory_size m' \<and> same_space m m' \<and> ?P r (phys_bytes m') (walk m')"
        using copy_mapped_spec [OF c _ 3] by (intro with_kernel_address_space_spec [OF _ inv]) (metis (mono_tags, lifting))
      then obtain r m' where w: "with_kernel_address_space (copy_mapped store memory_size dst src sz) m = (r, m')"
        "idmap_inv store memory_size m'" "same_space m m'" "?P r (phys_bytes m') (walk m')" by blast
      show ?thesis using w 3(1) True e by (intro exI [of _ r] exI [of _ m']) simp
    qed
  qed
qed

text \<open>
  C37. A copy through the identity map is all or nothing. When both ranges lie in physical memory and
  do not meet it succeeds, the destination holds the bytes the source held, every other byte is
  unchanged, and every address of both ranges is mapped to itself; otherwise it fails, unless it is
  empty, and no byte changes. Either way the map stays an identity map that covers memory, and the
  address space that was active before is active again.
\<close>

theorem memcpy_correct:
  assumes c: "config_ok store memory_size" and inv: "idmap_inv store memory_size m"
  shows "\<exists>r m'. memcpy store memory_size m dst src sz = (r, m') \<and> idmap_inv store memory_size m' \<and> same_space m m' \<and>
    (if sz = 0 then r = Ok () \<and> phys_bytes m' = phys_bytes m
     else if dst + sz \<le> memory_size \<and> src + sz \<le> memory_size \<and> {dst..<dst + sz} \<inter> {src..<src + sz} = {}
     then r = Ok () \<and>
       (\<forall>a. phys_bytes m' a = (if dst \<le> a \<and> a < dst + sz then phys_bytes m (src + (a - dst)) else phys_bytes m a)) \<and>
       (\<forall>b. dst \<le> b \<and> b < dst + sz \<or> src \<le> b \<and> b < src + sz \<longrightarrow> walk m' b = Some b)
     else (\<exists>e. r = Err e) \<and> phys_bytes m' = phys_bytes m)"
  using memcpy_spec [OF assms, of dst src sz] unfolding fast_memcpy_def fun_eq_iff .

text \<open>A memory whose paging structures are still empty satisfies the invariant of the directory.\<close>

definition boot_memory :: physmem where
  "boot_memory = \<lparr>KERNEL_PD_PADDR = 0, KERNEL_CR3 = 0, cr3_register = 4096, paging_words = (\<lambda>_. 0),
    pt_next_slot = 0, phys_bytes = (\<lambda>a. word_of_nat a)\<rparr>"

lemma boot_pd_inv:
  assumes "pd mod PAGE_SIZE = 0" "pd < as_mut_ptr store"
  shows "pd_inv store memory_size pd boot_memory"
proof -
  obtain e where "pde_from_raw 0 = Some e" "\<not> df_present (de_flags e)" using zero_entries(2) by blast
  then have "table_read pde_from_raw boot_memory p i = Some e" "pde_at boot_memory p i = None" for p i
    by (simp_all add: table_read_def pde_at_def boot_memory_def)
  then show ?thesis using assms by (auto simp: pd_inv_def unused_slots_def boot_memory_def inj_on_def)
qed

definition example_store :: bss_storage where
  "example_store = \<lparr>NUM_UNITS = 2, STORAGE_SIZE = 8192, as_mut_ptr = 65536\<rparr>"

lemma example_store_ok: "config_ok example_store 8388608"
  by (simp add: config_ok_def example_store_def FRAME_NUMBER_MAX_def)

lemma example_booted:
  "\<exists>m. identity_map_init example_store 8388608 boot_memory 8192 8192 = (Ok (), m) \<and>
    idmap_inv example_store 8388608 m \<and> phys_bytes m = phys_bytes boot_memory"
proof -
  have p: "pd_inv example_store 8388608 8192 boot_memory" by (rule boot_pd_inv) (simp_all add: example_store_def)
  have "pt_next_slot boot_memory + 8388608 div PGTAB_SIZE \<le> NUM_UNITS example_store"
    by (simp add: boot_memory_def example_store_def)
  then show ?thesis using identity_map_init_ok [OF example_store_ok p, of 8192] by auto
qed

theorem memcpy_correct_witness:
  "\<exists>m m'. identity_map_init example_store 8388608 boot_memory 8192 8192 = (Ok (), m) \<and>
    memcpy example_store 8388608 m 6000000 5000 300 = (Ok (), m') \<and>
    phys_bytes m' 6000007 = 143 \<and> phys_bytes m' 5000 = 136 \<and> walk m' 6000007 = Some 6000007"
proof -
  obtain m where m: "identity_map_init example_store 8388608 boot_memory 8192 8192 = (Ok (), m)"
    "idmap_inv example_store 8388608 m" "phys_bytes m = phys_bytes boot_memory" using example_booted by blast
  obtain r m' where r: "memcpy example_store 8388608 m 6000000 5000 300 = (r, m')" "r = Ok ()"
    "\<forall>a. phys_bytes m' a = (if 6000000 \<le> a \<and> a < 6000000 + 300 then phys_bytes m (5000 + (a - 6000000)) else phys_bytes m a)"
    "\<forall>b. 6000000 \<le> b \<and> b < 6000000 + 300 \<or> 5000 \<le> b \<and> b < 5000 + 300 \<longrightarrow> walk m' b = Some b"
    using memcpy_correct [OF example_store_ok m(2), of 6000000 5000 300] by auto
  have "phys_bytes m' 6000007 = 143" "phys_bytes m' 5000 = 136" using r(3) m(3) by (simp_all add: boot_memory_def)
  then show ?thesis using m(1) r by auto
qed

lemma memset_spec:
  assumes c: "config_ok store memory_size" and inv: "idmap_inv store memory_size m" and sz: "0 < sz"
  shows "\<exists>r m'. memset store memory_size m base v sz = (r, m') \<and> idmap_inv store memory_size m' \<and> same_space m m' \<and>
    (if base + sz \<le> memory_size then r = Ok () \<and> phys_bytes m' = fast_memset (phys_bytes m) base v sz
     else (\<exists>e. r = Err e) \<and> phys_bytes m' = phys_bytes m)"
proof (cases "base + sz \<le> USIZE_MAX")
  case False
  then have "checked_add base sz = None" by (simp add: checked_add_None)
  then show ?thesis using False sz inv c by (auto simp: memset_def fail_def same_space_def config_ok_def)
next
  case True
  then have e: "memset store memory_size m base v sz = with_kernel_address_space (set_mapped store memory_size base v sz) m"
    using sz by (simp add: memset_def checked_add_def)
  let ?P = "\<lambda>r bytes (w :: addr \<Rightarrow> addr option). if base + sz \<le> memory_size
    then r = Ok () \<and> bytes = fast_memset (phys_bytes m) base v sz else (\<exists>e. r = Err e) \<and> bytes = phys_bytes m"
  have "\<exists>r m2. set_mapped store memory_size base v sz m1 = (r, m2) \<and> idmap_inv store memory_size m2 \<and>
      same_space m1 m2 \<and> ?P r (phys_bytes m2) (walk m2)"
    if i: "idmap_inv store memory_size m1" "phys_bytes m1 = phys_bytes m" for m1
  proof -
    obtain r1 m2 where d: "map_cover store memory_size m1 base sz = (r1, m2)" "keeps_map store memory_size m1 m2"
      "if base + sz \<le> memory_size then r1 = Ok () \<and> (\<forall>b. base \<le> b \<and> b < base + sz \<longrightarrow> walk m2 b = Some b) else \<exists>e. r1 = Err e"
      using map_cover_spec [OF c i(1) sz True] by blast
    have k: "idmap_inv store memory_size m2" "same_space m1 m2" "phys_bytes m2 = phys_bytes m"
      using d(2) i by (simp_all add: keeps_map_def same_rest_def same_space_def)
    let ?m = "m2\<lparr>phys_bytes := fast_memset (phys_bytes m2) base v sz\<rparr>"
    have "idmap_inv store memory_size ?m" "same_space m1 ?m"
      using k idmap_inv_cong(1) [of ?m m2] by (simp_all add: same_space_def)
    then show ?thesis using d(1,3) k by (auto simp: set_mapped_def split: if_splits)
  qed
  then show ?thesis unfolding e using with_kernel_address_space_spec [OF _ inv, where P = ?P] by simp
qed

end
