(* ===== verification/Address_Spaces.thy ===== *)
theory Address_Spaces
  imports Identity_Maps
begin

text \<open>
  User address spaces (\<open>src/src/kernel/src/mm/virt/vmem.rs\<close>) on top of the frame allocator, the page
  tables and the identity map. An address space is its page directory and the list of its user page
  tables, which look-ups reorder; the physical machine is the frame allocator and physical memory, and
  the constants of the build are a record. An operation that takes a frame by value drops it on every
  error, as the code does. Page tables of the kernel, which all spaces share, are not modelled.

  The lemmas show that an address space implements a partial map from pages to entries, whatever the
  order of its list of tables, and that page tables come and go without the map noticing.
\<close>

section \<open>Definitions\<close>

record kernel_config =
  kc_memory_size :: usize
  kc_store :: bss_storage
  kc_watermark :: usize

record machine =
  mc_frames :: frame_inner
  mc_mem :: physmem

record vmem =
  vm_pgdir :: page_directory
  vm_pgdir_page :: addr
  vm_user_page_tables :: "(addr \<times> page_table) list"

definition USER_BASE :: addr where "USER_BASE = 0x40000000"
definition USER_END :: addr where "USER_END = 0xf0000000"

definition PGTAB_ALIGNMENT :: alignment where
  "PGTAB_ALIGNMENT = Align PGTAB_SIZE"

definition is_user_addr :: "addr \<Rightarrow> bool" where
  "is_user_addr a \<longleftrightarrow> USER_BASE \<le> a \<and> a < USER_END"

definition is_user_region :: "addr \<Rightarrow> usize \<Rightarrow> bool" where
  "is_user_region start sz \<longleftrightarrow>
    sz \<noteq> 0 \<and> (case checked_add start (sz - 1) of
      Some stop \<Rightarrow> is_user_addr start \<and> is_user_addr stop | None \<Rightarrow> False)"

definition is_kernel_addr :: "addr \<Rightarrow> bool" where
  "is_kernel_addr a \<longleftrightarrow> \<not> is_user_addr a"

definition is_kernel_region :: "addr \<Rightarrow> usize \<Rightarrow> bool" where
  "is_kernel_region start sz \<longleftrightarrow>
    sz \<noteq> 0 \<and> (case checked_add start (sz - 1) of
      Some stop \<Rightarrow> is_kernel_addr start \<and> is_kernel_addr stop | None \<Rightarrow> False)"

definition is_physical_region :: "kernel_config \<Rightarrow> addr \<Rightarrow> usize \<Rightarrow> bool" where
  "is_physical_region cf start sz \<longleftrightarrow>
    sz \<noteq> 0 \<and> (case checked_add start sz of Some stop \<Rightarrow> stop \<le> kc_memory_size cf | None \<Rightarrow> False)"

text \<open>The address of the page table of a page; aligning down always yields an aligned address.\<close>

definition pgtab_address :: "addr \<Rightarrow> addr" where
  "pgtab_address vaddr = align_down vaddr PGTAB_ALIGNMENT"

subsection \<open>Page tables for user pages\<close>

definition drop_in :: "machine \<Rightarrow> addr \<Rightarrow> machine" where
  "drop_in mc a = mc\<lparr>mc_frames := drop_frame (mc_frames mc) a\<rparr>"

definition alloc_mapped_frame :: "kernel_config \<Rightarrow> machine \<Rightarrow> addr kres \<times> machine" where
  "alloc_mapped_frame cf mc =
    (case frame_alloc (mc_frames mc) of
       (Err e, f) \<Rightarrow> (Err e, mc\<lparr>mc_frames := f\<rparr>)
     | (Panic, f) \<Rightarrow> (Panic, mc\<lparr>mc_frames := f\<rparr>)
     | (Ok base, f) \<Rightarrow>
         (case frame_address_from_raw_value (kc_memory_size cf) base of
            Err e \<Rightarrow> (Err e, mc\<lparr>mc_frames := snd (frame_free f base)\<rparr>)
          | Panic \<Rightarrow> (Panic, mc\<lparr>mc_frames := f\<rparr>)
          | Ok phys_addr \<Rightarrow>
              (case identity_map_page (kc_store cf) (mc_mem mc) phys_addr of
                 (Ok _, m) \<Rightarrow> (Ok base, mc\<lparr>mc_frames := f, mc_mem := m\<rparr>)
               | (Err e, m) \<Rightarrow> (Err e, mc\<lparr>mc_frames := snd (frame_free f base), mc_mem := m\<rparr>)
               | (Panic, m) \<Rightarrow> (Panic, mc\<lparr>mc_frames := f, mc_mem := m\<rparr>))))"

definition clear_frame :: "kernel_config \<Rightarrow> machine \<Rightarrow> addr \<Rightarrow> unit kres \<times> machine" where
  "clear_frame cf mc base =
    (case memset (kc_store cf) (kc_memory_size cf) (mc_mem mc) base 0 PAGE_SIZE of
       (r, m) \<Rightarrow> (r, mc\<lparr>mc_mem := m\<rparr>))"

definition page_table_allocator :: "kernel_config \<Rightarrow> machine \<Rightarrow> page_table kres \<times> machine" where
  "page_table_allocator cf mc =
    (case alloc_mapped_frame cf mc of
       (Ok kframe, mc) \<Rightarrow>
         (case clear_frame cf mc kframe of
            (Ok _, mc) \<Rightarrow> (Ok (page_table_new kframe), mc)
          | (Err e, mc) \<Rightarrow> (Err e, drop_in mc kframe)
          | (Panic, mc) \<Rightarrow> (Panic, mc))
     | (Err e, mc) \<Rightarrow> (Err e, mc)
     | (Panic, mc) \<Rightarrow> (Panic, mc))"

text \<open>Looking a table up moves it to the front, where the caller changes it.\<close>

fun remove_table :: "addr \<Rightarrow> (addr \<times> page_table) list \<Rightarrow> ((addr \<times> page_table) \<times> (addr \<times> page_table) list) option" where
  "remove_table a [] = None"
| "remove_table a ((b, pt) # ts) =
    (if b = a then Some ((b, pt), ts)
     else case remove_table a ts of None \<Rightarrow> None | Some (entry, ts) \<Rightarrow> Some (entry, (b, pt) # ts))"

definition lookup_user_page_table :: "vmem \<Rightarrow> addr \<Rightarrow> page_table kres \<times> vmem" where
  "lookup_user_page_table vm pt_vaddr =
    (case vm_user_page_tables vm of
       (a, pt) # ts \<Rightarrow>
         if a = pt_vaddr then (Ok pt, vm)
         else (case remove_table pt_vaddr (vm_user_page_tables vm) of
                 Some ((b, pt), ts) \<Rightarrow> (Ok pt, vm\<lparr>vm_user_page_tables := (b, pt) # ts\<rparr>)
               | None \<Rightarrow> (fail NoSuchEntry ''page table not found'', vm))
     | [] \<Rightarrow> (fail NoSuchEntry ''page table not found'', vm))"

definition set_front :: "vmem \<Rightarrow> page_table \<Rightarrow> vmem" where
  "set_front vm pt =
    vm\<lparr>vm_user_page_tables :=
      (case vm_user_page_tables vm of (a, _) # ts \<Rightarrow> (a, pt) # ts | [] \<Rightarrow> [])\<rparr>"

definition with_user_table :: "vmem \<Rightarrow> addr \<Rightarrow> (page_table \<Rightarrow> ('a \<times> page_table) kres) \<Rightarrow> 'a kres \<times> vmem" where
  "with_user_table vm pt_vaddr op =
    (case lookup_user_page_table vm pt_vaddr of
       (Ok pt, vm) \<Rightarrow>
         (case op pt of Ok (x, pt) \<Rightarrow> (Ok x, set_front vm pt) | Err e \<Rightarrow> (Err e, vm) | Panic \<Rightarrow> (Panic, vm))
     | (Err e, vm) \<Rightarrow> (Err e, vm)
     | (Panic, vm) \<Rightarrow> (Panic, vm))"

definition no_value :: "page_table kres \<Rightarrow> (unit \<times> page_table) kres" where
  "no_value r = bind_res r (\<lambda>pt. Ok ((), pt))"

subsection \<open>Mapping\<close>

definition ensure_user_page_table :: "kernel_config \<Rightarrow> vmem \<Rightarrow> machine \<Rightarrow> addr \<Rightarrow> unit kres \<times> vmem \<times> machine" where
  "ensure_user_page_table cf vm mc pgtable_vaddr =
    (case cached_pde (vm_pgdir vm) pgtable_vaddr of
       Err e \<Rightarrow> (Err e, vm, mc)
     | Panic \<Rightarrow> (Panic, vm, mc)
     | Ok pde \<Rightarrow>
         if df_present (de_flags pde) then (Ok (), vm, mc)
         else
           (case page_table_allocator cf mc of
              (Err e, mc) \<Rightarrow> (Err e, vm, mc)
            | (Panic, mc) \<Rightarrow> (Panic, vm, mc)
            | (Ok page_table, mc) \<Rightarrow>
                (case bind_res (frame_address_from_raw_value (kc_memory_size cf) (pt_storage page_table))
                        (\<lambda>page_table_address. pd_map (vm_pgdir vm) pgtable_vaddr page_table_address False RDWR) of
                   Ok pgdir \<Rightarrow>
                     (Ok (), vm\<lparr>vm_pgdir := pgdir,
                        vm_user_page_tables := (pgtable_vaddr, page_table) # vm_user_page_tables vm\<rparr>, mc)
                 | Err e \<Rightarrow> (Err e, vm, drop_in mc (pt_storage page_table))
                 | Panic \<Rightarrow> (Panic, vm, mc))))"

text \<open>The body of \<open>map\<close>; the frame it was given is dropped when it fails.\<close>

definition map_frame ::
  "kernel_config \<Rightarrow> vmem \<Rightarrow> machine \<Rightarrow> addr \<Rightarrow> addr \<Rightarrow> access_permission \<Rightarrow> unit kres \<times> vmem \<times> machine" where
  "map_frame cf vm mc uframe vaddr access =
    (if \<not> is_user_addr vaddr then (fail BadAddress ''address is not in user space'', vm, mc)
     else
       (case ensure_user_page_table cf vm mc (pgtab_address vaddr) of
          (Ok _, vm, mc) \<Rightarrow>
            (case with_user_table vm (pgtab_address vaddr)
                    (\<lambda>pt. no_value (pt_map pt vaddr uframe False False True access)) of
               (r, vm) \<Rightarrow> (r, vm, mc))
        | (Err e, vm, mc) \<Rightarrow> (Err e, vm, mc)
        | (Panic, vm, mc) \<Rightarrow> (Panic, vm, mc)))"

definition vm_map ::
  "kernel_config \<Rightarrow> vmem \<Rightarrow> machine \<Rightarrow> addr \<Rightarrow> addr \<Rightarrow> access_permission \<Rightarrow> unit kres \<times> vmem \<times> machine" where
  "vm_map cf vm mc uframe vaddr access =
    (case map_frame cf vm mc uframe vaddr access of
       (Err e, vm, mc) \<Rightarrow> (Err e, vm, drop_in mc uframe)
     | res \<Rightarrow> res)"

definition find_user_frame :: "vmem \<Rightarrow> addr \<Rightarrow> addr kres" where
  "find_user_frame vm vaddr =
    (case map_of (vm_user_page_tables vm) (pgtab_address vaddr) of
       Some page_table \<Rightarrow> pt_lookup page_table vaddr
     | None \<Rightarrow> fail NoSuchEntry ''page not found'')"

definition try_find_user_frame :: "vmem \<Rightarrow> addr \<Rightarrow> addr option kres" where
  "try_find_user_frame vm vaddr =
    (case map_of (vm_user_page_tables vm) (pgtab_address vaddr) of
       Some page_table \<Rightarrow>
         bind_res (is_page_present page_table vaddr) (\<lambda>present.
           if present then bind_res (pt_lookup page_table vaddr) (\<lambda>frame. Ok (Some frame)) else Ok None)
     | None \<Rightarrow> Ok None)"

definition try_find_user_pte :: "vmem \<Rightarrow> addr \<Rightarrow> page_table_entry option kres" where
  "try_find_user_pte vm vaddr =
    (case map_of (vm_user_page_tables vm) (pgtab_address vaddr) of
       Some page_table \<Rightarrow> read_pte_at page_table vaddr
     | None \<Rightarrow> Ok None)"

definition is_user_page_mapped :: "vmem \<Rightarrow> addr \<Rightarrow> bool kres" where
  "is_user_page_mapped vm vaddr =
    (if \<not> is_user_addr vaddr then fail BadAddress ''address is not in user space''
     else bind_res (try_find_user_frame vm vaddr) (\<lambda>frame. Ok (frame \<noteq> None)))"

text \<open>The walk over all user mappings, threading the state of the closure.\<close>

definition mapping_address :: "addr \<Rightarrow> nat \<Rightarrow> addr kres" where
  "mapping_address base pte_idx =
    (case checked_mul pte_idx PAGE_SIZE of
       None \<Rightarrow> fail BadAddress ''pte offset overflow''
     | Some offset \<Rightarrow>
         (case checked_add base offset of
            None \<Rightarrow> fail BadAddress ''user mapping vaddr overflow''
          | Some raw_vaddr \<Rightarrow> page_aligned_from_address raw_vaddr))"

fun for_each_pte ::
  "(addr \<Rightarrow> page_table_entry \<Rightarrow> 's \<Rightarrow> 's kres) \<Rightarrow> addr \<Rightarrow> (nat \<times> page_table_entry) list \<Rightarrow> 's \<Rightarrow> 's kres" where
  "for_each_pte f base [] s = Ok s"
| "for_each_pte f base ((pte_idx, pte) # ps) s =
    bind_res (mapping_address base pte_idx) (\<lambda>vaddr.
    bind_res (f vaddr pte s) (for_each_pte f base ps))"

fun for_each_table ::
  "(addr \<Rightarrow> page_table_entry \<Rightarrow> 's \<Rightarrow> 's kres) \<Rightarrow> (addr \<times> page_table) list \<Rightarrow> 's \<Rightarrow> 's kres" where
  "for_each_table f [] s = Ok s"
| "for_each_table f ((base, page_table) # ts) s =
    bind_res (for_each_pte f base (iter_present_ptes page_table) s) (for_each_table f ts)"

definition for_each_user_mapping :: "vmem \<Rightarrow> (addr \<Rightarrow> page_table_entry \<Rightarrow> 's \<Rightarrow> 's kres) \<Rightarrow> 's \<Rightarrow> 's kres" where
  "for_each_user_mapping vm f s = for_each_table f (vm_user_page_tables vm) s"

subsection \<open>Changing and removing mappings\<close>

definition mark_user_page_cow :: "vmem \<Rightarrow> addr \<Rightarrow> unit kres \<times> vmem" where
  "mark_user_page_cow vm vaddr =
    (if \<not> is_user_addr vaddr then (fail BadAddress ''address is not in user space'', vm)
     else with_user_table vm (pgtab_address vaddr) (\<lambda>pt. no_value (mark_cow pt vaddr)))"

definition unmark_user_page_cow :: "vmem \<Rightarrow> addr \<Rightarrow> unit kres \<times> vmem" where
  "unmark_user_page_cow vm vaddr =
    (if \<not> is_user_addr vaddr then (fail BadAddress ''address is not in user space'', vm)
     else with_user_table vm (pgtab_address vaddr) (\<lambda>pt. no_value (unmark_cow pt vaddr)))"

definition replace_user_page_cow_frame :: "vmem \<Rightarrow> addr \<Rightarrow> addr \<Rightarrow> addr kres \<times> vmem" where
  "replace_user_page_cow_frame vm vaddr new_frame =
    (if \<not> is_user_addr vaddr then (fail BadAddress ''address is not in user space'', vm)
     else with_user_table vm (pgtab_address vaddr) (\<lambda>pt. replace_cow_frame pt vaddr new_frame))"

text \<open>The part of \<open>unmap\<close> that works on the page table: the number of pages left is returned.\<close>

definition unmap_entry :: "page_table \<Rightarrow> addr \<Rightarrow> addr \<Rightarrow> (nat \<times> page_table) kres" where
  "unmap_entry pt vaddr frame_address =
    bind_res (pt_lookup pt vaddr) (\<lambda>a.
      if a \<noteq> frame_address then Panic
      else bind_res (pt_unmap pt vaddr) (\<lambda>(_, pt). Ok (pt_nmapped pt, pt)))"

definition release_table :: "vmem \<Rightarrow> machine \<Rightarrow> addr \<Rightarrow> unit kres \<times> vmem \<times> machine" where
  "release_table vm mc pgtable_vaddr =
    (case remove_table pgtable_vaddr (vm_user_page_tables vm) of
       None \<Rightarrow> (Panic, vm, mc)
     | Some ((_, page_table), ts) \<Rightarrow>
         (case pd_unmap (vm_pgdir vm) pgtable_vaddr of
            Ok (_, pgdir) \<Rightarrow>
              (Ok (), vm\<lparr>vm_pgdir := pgdir, vm_user_page_tables := ts\<rparr>, drop_in mc (pt_storage page_table))
          | Err e \<Rightarrow> (Err e, vm\<lparr>vm_user_page_tables := ts\<rparr>, drop_in mc (pt_storage page_table))
          | Panic \<Rightarrow> (Panic, vm, mc)))"

definition vm_unmap :: "vmem \<Rightarrow> machine \<Rightarrow> addr \<Rightarrow> addr option kres \<times> vmem \<times> machine" where
  "vm_unmap vm mc vaddr =
    (if \<not> is_user_addr vaddr then (fail BadAddress ''address is not in user space'', vm, mc)
     else case try_find_user_frame vm vaddr of
       Err e \<Rightarrow> (Err e, vm, mc)
     | Panic \<Rightarrow> (Panic, vm, mc)
     | Ok None \<Rightarrow> (Ok None, vm, mc)
     | Ok (Some frame_address) \<Rightarrow>
         (case cached_pde (vm_pgdir vm) (pgtab_address vaddr) of
            Err e \<Rightarrow> (Err e, vm, mc)
          | Panic \<Rightarrow> (Panic, vm, mc)
          | Ok pde \<Rightarrow>
              if \<not> df_present (de_flags pde) then (fail NoSuchEntry ''page table not present'', vm, mc)
              else
                (case with_user_table vm (pgtab_address vaddr) (\<lambda>pt. unmap_entry pt vaddr frame_address) of
                   (Err e, vm) \<Rightarrow> (Err e, vm, mc)
                 | (Panic, vm) \<Rightarrow> (Panic, vm, mc)
                 | (Ok nmapped, vm) \<Rightarrow>
                     if nmapped = 0
                     then (case release_table vm mc (pgtab_address vaddr) of
                             (Ok _, vm, mc) \<Rightarrow> (Ok (Some frame_address), vm, mc)
                           | (Err e, vm, mc) \<Rightarrow> (Err e, vm, mc)
                           | (Panic, vm, mc) \<Rightarrow> (Panic, vm, mc))
                     else (Ok (Some frame_address), vm, mc))))"

definition uctrl :: "vmem \<Rightarrow> addr \<Rightarrow> access_permission \<Rightarrow> unit kres \<times> vmem" where
  "uctrl vm vaddr access =
    (if \<not> is_user_addr vaddr then (fail BadAddress ''address is not in user space'', vm)
     else case cached_pde (vm_pgdir vm) (pgtab_address vaddr) of
       Err e \<Rightarrow> (Err e, vm)
     | Panic \<Rightarrow> (Panic, vm)
     | Ok pde \<Rightarrow>
         if \<not> df_present (de_flags pde) then (fail NoSuchEntry ''page table not present'', vm)
         else with_user_table vm (pgtab_address vaddr) (\<lambda>pt. no_value (pt_ctrl pt False vaddr access)))"

definition vm_memset :: "kernel_config \<Rightarrow> vmem \<Rightarrow> machine \<Rightarrow> addr \<Rightarrow> nat \<Rightarrow> unit kres \<times> machine" where
  "vm_memset cf vm mc dst v =
    (case find_user_frame vm dst of
       Ok uframe \<Rightarrow>
         (case memset (kc_store cf) (kc_memory_size cf) (mc_mem mc) uframe (word_of_nat v) PAGE_SIZE of
            (r, m) \<Rightarrow> (r, mc\<lparr>mc_mem := m\<rparr>))
     | Err e \<Rightarrow> (Err e, mc)
     | Panic \<Rightarrow> (Panic, mc))"

text \<open>Dropping an address space releases its page tables and its directory, not the pages they map.\<close>

definition drop_vmem :: "vmem \<Rightarrow> machine \<Rightarrow> machine" where
  "drop_vmem vm mc =
    drop_in (fold (\<lambda>(_, pt) mc. drop_in mc (pt_storage pt)) (vm_user_page_tables vm) mc) (vm_pgdir_page vm)"

section \<open>The view of an address space\<close>

definition vm_view :: "vmem \<Rightarrow> addr \<Rightarrow> page_table_entry option" where
  "vm_view vm v =
    (case map_of (vm_user_page_tables vm) (v div PGTAB_SIZE * PGTAB_SIZE) of
       None \<Rightarrow> None
     | Some pt \<Rightarrow> pt_view pt (v div PAGE_SIZE mod PAGE_TABLE_LENGTH))"

definition table_ok :: "page_directory \<Rightarrow> addr \<Rightarrow> page_table \<Rightarrow> bool" where
  "table_ok pd a pt \<longleftrightarrow>
    a mod PGTAB_SIZE = 0 \<and> is_user_addr a \<and> pt_ok pt \<and>
    (\<exists>e. pd_view pd (a div PGTAB_SIZE) = Some e \<and> de_frame e * FRAME_SIZE = pt_storage pt)"

text \<open>
  The directory and the list of tables agree: every listed table is installed in the directory, and
  every user table installed in the directory is listed, once.
\<close>

definition vm_ok :: "vmem \<Rightarrow> bool" where
  "vm_ok vm \<longleftrightarrow>
    pd_ok (vm_pgdir vm) \<and> distinct (map fst (vm_user_page_tables vm)) \<and>
    (\<forall>(a, pt) \<in> set (vm_user_page_tables vm). table_ok (vm_pgdir vm) a pt) \<and>
    (\<forall>a. a mod PGTAB_SIZE = 0 \<and> is_user_addr a \<and> pd_view (vm_pgdir vm) (a div PGTAB_SIZE) \<noteq> None \<longrightarrow>
      a \<in> fst ` set (vm_user_page_tables vm))"

lemma pgtab_address_eq: "a \<le> USIZE_MAX \<Longrightarrow> pgtab_address a = a div PGTAB_SIZE * PGTAB_SIZE"
  by (simp add: pgtab_address_def PGTAB_ALIGNMENT_def align_down_eq alignment_ok_def alignment_values_def)

lemma user_addr_bound: "is_user_addr a \<Longrightarrow> a \<le> USIZE_MAX"
  by (simp add: is_user_addr_def USER_END_def)

lemma pgtab_user:
  assumes "is_user_addr a"
  shows "pgtab_address a mod PGTAB_SIZE = 0" "is_user_addr (pgtab_address a)"
    "pgtab_address a div PGTAB_SIZE = a div PGTAB_SIZE" "pgtab_address a = a div PGTAB_SIZE * PGTAB_SIZE"
proof -
  show e: "pgtab_address a = a div PGTAB_SIZE * PGTAB_SIZE" using pgtab_address_eq user_addr_bound [OF assms] by simp
  then show "pgtab_address a mod PGTAB_SIZE = 0" "pgtab_address a div PGTAB_SIZE = a div PGTAB_SIZE" by simp_all
  have "USER_BASE div PGTAB_SIZE \<le> a div PGTAB_SIZE" using assms by (intro div_le_mono) (simp add: is_user_addr_def)
  then have "USER_BASE \<le> pgtab_address a" unfolding e by (simp add: USER_BASE_def)
  moreover have "pgtab_address a \<le> a" using div_mult_mod_eq [of a PGTAB_SIZE] unfolding e by linarith
  ultimately show "is_user_addr (pgtab_address a)" using assms by (simp add: is_user_addr_def)
qed

lemma pgtab_index:
  assumes "is_user_addr a"
  shows "get_pde_index (pgtab_address a) = a div PGTAB_SIZE" "get_pte_index a = a div PAGE_SIZE mod PAGE_TABLE_LENGTH"
    "pgtab_address a \<le> USIZE_MAX"
  using assms pgtab_user [OF assms] user_addr_bound [OF assms] user_addr_bound [OF pgtab_user(2) [OF assms]]
  by (simp_all add: get_pde_index_eq get_pte_index_eq)

lemma vm_view_user:
  assumes "is_user_addr a"
  shows "vm_view vm a = (case map_of (vm_user_page_tables vm) (pgtab_address a) of
    None \<Rightarrow> None | Some pt \<Rightarrow> pt_view pt (get_pte_index a))"
  unfolding vm_view_def pgtab_user(4) [OF assms] pgtab_index(2) [OF assms] by (rule refl)

text \<open>Two user addresses have the same table and the same entry exactly when they share a page.\<close>

lemma same_page:
  "a div PGTAB_SIZE * PGTAB_SIZE = b div PGTAB_SIZE * PGTAB_SIZE \<and>
    a div PAGE_SIZE mod PAGE_TABLE_LENGTH = b div PAGE_SIZE mod PAGE_TABLE_LENGTH \<longleftrightarrow>
    a div PAGE_SIZE = b div PAGE_SIZE"
proof -
  have e: "x div PGTAB_SIZE = x div PAGE_SIZE div PAGE_TABLE_LENGTH" for x :: nat by (simp add: div_mult2_eq [symmetric])
  have d: "x div PAGE_SIZE = x div PGTAB_SIZE * PAGE_TABLE_LENGTH + x div PAGE_SIZE mod PAGE_TABLE_LENGTH" for x :: nat
    unfolding e by (rule div_mult_mod_eq [symmetric])
  have "a div PAGE_SIZE = b div PAGE_SIZE" if "a div PGTAB_SIZE = b div PGTAB_SIZE"
    "a div PAGE_SIZE mod PAGE_TABLE_LENGTH = b div PAGE_SIZE mod PAGE_TABLE_LENGTH"
    using d [of a] d [of b] that by simp
  moreover have "a div PGTAB_SIZE = b div PGTAB_SIZE" if "a div PAGE_SIZE = b div PAGE_SIZE"
    unfolding e that by (rule refl)
  ultimately show ?thesis by auto
qed

definition set_page :: "(addr \<Rightarrow> 'e option) \<Rightarrow> addr \<Rightarrow> 'e option \<Rightarrow> addr \<Rightarrow> 'e option" where
  "set_page view a e = (\<lambda>b. if b div PAGE_SIZE = a div PAGE_SIZE then e else view b)"

text \<open>The references an address space holds to a frame: its pages, its page tables and its directory.\<close>

definition frame_ref :: "page_table_entry option \<Rightarrow> nat \<Rightarrow> nat" where
  "frame_ref e n = (case e of Some p \<Rightarrow> if te_frame p = n then 1 else 0 | None \<Rightarrow> 0)"

definition pt_refs :: "page_table \<Rightarrow> nat \<Rightarrow> nat" where
  "pt_refs pt n =
    card {i. \<exists>p. pt_view pt i = Some p \<and> te_frame p = n} + (if pt_storage pt = n * FRAME_SIZE then 1 else 0)"

definition vm_refs :: "vmem \<Rightarrow> nat \<Rightarrow> nat" where
  "vm_refs vm n =
    (\<Sum>t \<in># mset (vm_user_page_tables vm). pt_refs (snd t) n) + (if vm_pgdir_page vm = n * FRAME_SIZE then 1 else 0)"

lemma frame_ref_cases: "frame_ref x n = 0 \<or> frame_ref x n = 1"
  by (simp add: frame_ref_def split: option.splits)

lemma pt_refs_update:
  assumes "pt_view pt' = (pt_view pt)(i := e)" "pt_storage pt' = pt_storage pt"
  shows "pt_refs pt' n + frame_ref (pt_view pt i) n = pt_refs pt n + frame_ref e n"
proof -
  let ?S = "\<lambda>m. {j. \<exists>p. m j = Some p \<and> te_frame p = n}"
  have fin: "finite (?S (pt_view pt))"
    by (rule finite_subset [OF _ pte_format.view_finite [of "pt_entries pt"]]) auto
  define R where "R = ?S (pt_view pt) - {i}"
  have R: "finite R" "i \<notin> R" using fin by (simp_all add: R_def)
  have c: "card (if frame_ref x n = 1 then insert i R else R) = card R + frame_ref x n" for x
    using R frame_ref_cases [of x n] by auto
  have "?S ((pt_view pt)(i := e)) = (if frame_ref e n = 1 then insert i R else R)"
    by (auto simp: R_def frame_ref_def split: option.splits if_splits)
  then have a: "card (?S (pt_view pt')) = card R + frame_ref e n" using c [of e] by (simp only: assms(1))
  have "?S (pt_view pt) = (if frame_ref (pt_view pt i) n = 1 then insert i R else R)"
    by (auto simp: R_def frame_ref_def split: option.splits if_splits)
  then have "card (?S (pt_view pt)) = card R + frame_ref (pt_view pt i) n" using c [of "pt_view pt i"] by (simp only:)
  then show ?thesis using a by (simp add: pt_refs_def assms(2))
qed

section \<open>The list of tables\<close>

lemma remove_table_spec:
  assumes "distinct (map fst ts)"
  shows "case remove_table a ts of
      None \<Rightarrow> map_of ts a = None
    | Some ((b, pt), ts') \<Rightarrow> b = a \<and> map_of ts a = Some pt \<and> map_of ts' = (map_of ts)(a := None) \<and>
        distinct (map fst ts') \<and> set ts = insert (a, pt) (set ts') \<and> a \<notin> fst ` set ts' \<and>
        mset ts = add_mset (a, pt) (mset ts')"
  using assms
proof (induction ts)
  case (Cons t ts)
  obtain b pt where t: "t = (b, pt)" by fastforce
  show ?case
  proof (cases "b = a")
    case True
    then show ?thesis using Cons.prems by (auto simp: t map_of_eq_None_iff fun_eq_iff)
  next
    case False
    then show ?thesis using Cons by (auto simp: t fun_eq_iff split: option.splits prod.splits)
  qed
qed simp

lemma map_of_in: "distinct (map fst ts) \<Longrightarrow> map_of ts a = Some pt \<longleftrightarrow> (a, pt) \<in> set ts"
  by (rule map_of_eq_Some_iff)

lemma vm_ok_parts:
  assumes "vm_ok vm"
  shows "pd_ok (vm_pgdir vm)" "distinct (map fst (vm_user_page_tables vm))"
    "\<And>a pt. map_of (vm_user_page_tables vm) a = Some pt \<Longrightarrow> table_ok (vm_pgdir vm) a pt"
    "\<And>a. is_user_addr a \<Longrightarrow> pd_view (vm_pgdir vm) (a div PGTAB_SIZE) = None \<longleftrightarrow>
      map_of (vm_user_page_tables vm) (pgtab_address a) = None"
proof -
  show d: "pd_ok (vm_pgdir vm)" "distinct (map fst (vm_user_page_tables vm))" using assms by (simp_all add: vm_ok_def)
  show t: "table_ok (vm_pgdir vm) a pt" if "map_of (vm_user_page_tables vm) a = Some pt" for a pt
    using map_of_SomeD [OF that] assms by (auto simp: vm_ok_def)
  show "pd_view (vm_pgdir vm) (a div PGTAB_SIZE) = None \<longleftrightarrow> map_of (vm_user_page_tables vm) (pgtab_address a) = None"
    if u: "is_user_addr a" for a
  proof
    assume n: "pd_view (vm_pgdir vm) (a div PGTAB_SIZE) = None"
    show "map_of (vm_user_page_tables vm) (pgtab_address a) = None"
    proof (rule ccontr)
      assume "map_of (vm_user_page_tables vm) (pgtab_address a) \<noteq> None"
      then obtain pt where "map_of (vm_user_page_tables vm) (pgtab_address a) = Some pt" by blast
      then show False using t n pgtab_user(3) [OF u] by (fastforce simp: table_ok_def)
    qed
  next
    assume m: "map_of (vm_user_page_tables vm) (pgtab_address a) = None"
    show "pd_view (vm_pgdir vm) (a div PGTAB_SIZE) = None"
    proof (rule ccontr)
      assume "pd_view (vm_pgdir vm) (a div PGTAB_SIZE) \<noteq> None"
      then have "pgtab_address a \<in> fst ` set (vm_user_page_tables vm)"
        using assms pgtab_user [OF u] unfolding vm_ok_def by (metis (no_types, lifting))
      then show False using m by (simp add: map_of_eq_None_iff)
    qed
  qed
qed

text \<open>Replacing the table at the front, or reordering the list, changes only that table.\<close>

lemma lookup_user_page_table_spec:
  assumes "vm_ok vm"
  shows "case map_of (vm_user_page_tables vm) a of
      None \<Rightarrow> lookup_user_page_table vm a = (fail NoSuchEntry ''page table not found'', vm)
    | Some pt \<Rightarrow> \<exists>ts. lookup_user_page_table vm a = (Ok pt, vm\<lparr>vm_user_page_tables := (a, pt) # ts\<rparr>) \<and>
        mset (vm_user_page_tables vm) = add_mset (a, pt) (mset ts)"
proof -
  note d = vm_ok_parts(2) [OF assms]
  show ?thesis
  proof (cases "vm_user_page_tables vm")
    case Nil
    then show ?thesis by (simp add: lookup_user_page_table_def)
  next
    case (Cons t ts)
    obtain b q where t: "t = (b, q)" by fastforce
    show ?thesis
    proof (cases "b = a")
      case True
      have "lookup_user_page_table vm a = (Ok q, vm\<lparr>vm_user_page_tables := (a, q) # ts\<rparr>)"
        using Cons t True by (simp add: lookup_user_page_table_def)
      moreover have "map_of (vm_user_page_tables vm) a = Some q"
        "mset (vm_user_page_tables vm) = add_mset (a, q) (mset ts)" using Cons t True by simp_all
      ultimately show ?thesis by auto
    next
      case False
      then show ?thesis using remove_table_spec [OF d, of a] Cons t
        by (auto simp: lookup_user_page_table_def simp del: remove_table.simps split: option.splits prod.splits)
    qed
  qed
qed

lemma replace_table:
  assumes ok: "vm_ok vm" and ts: "mset (vm_user_page_tables vm) = add_mset (a, pt) (mset ts)"
    and pt': "pt_ok pt'" "pt_storage pt' = pt_storage pt"
    and vm': "vm' = vm\<lparr>vm_user_page_tables := (a, pt') # ts\<rparr>"
  shows "vm_ok vm'" "map_of (vm_user_page_tables vm') = (map_of (vm_user_page_tables vm))(a \<mapsto> pt')"
    "vm_pgdir vm' = vm_pgdir vm" "vm_pgdir_page vm' = vm_pgdir_page vm"
    "vm_refs vm' n + pt_refs pt n = vm_refs vm n + pt_refs pt' n"
proof -
  have st: "set (vm_user_page_tables vm) = set ((a, pt) # ts)" using arg_cong [OF ts, of set_mset] by simp
  have "image_mset fst (mset (vm_user_page_tables vm)) = image_mset fst (mset ((a, pt) # ts))" using ts by simp
  then have "mset (map fst (vm_user_page_tables vm)) = mset (map fst ((a, pt) # ts))" by simp
  then have d: "distinct (map fst ((a, pt) # ts))"
    using vm_ok_parts(2) [OF ok] by (metis distinct_count_atmost_1 set_mset_mset)
  then have m: "map_of (vm_user_page_tables vm) = map_of ((a, pt) # ts)"
    using map_of_inject_set [OF vm_ok_parts(2) [OF ok] d] st by simp
  show "map_of (vm_user_page_tables vm') = (map_of (vm_user_page_tables vm))(a \<mapsto> pt')" by (simp add: vm' m)
  have t: "\<forall>(b, q) \<in> set ((a, pt) # ts). table_ok (vm_pgdir vm) b q" using ok st by (simp add: vm_ok_def)
  then have "table_ok (vm_pgdir vm) a pt'" using pt' by (auto simp: table_ok_def)
  moreover have "fst ` set (vm_user_page_tables vm') = fst ` set (vm_user_page_tables vm)" by (simp add: vm' st)
  ultimately show "vm_ok vm'" using ok d t by (simp add: vm_ok_def vm')
  show "vm_pgdir vm' = vm_pgdir vm" "vm_pgdir_page vm' = vm_pgdir_page vm" by (simp_all add: vm')
  show "vm_refs vm' n + pt_refs pt n = vm_refs vm n + pt_refs pt' n" by (simp add: vm_refs_def vm' ts)
qed

text \<open>The same space up to the order of its tables.\<close>

definition same_vm :: "vmem \<Rightarrow> vmem \<Rightarrow> bool" where
  "same_vm vm vm' \<longleftrightarrow> vm_ok vm' \<and> map_of (vm_user_page_tables vm') = map_of (vm_user_page_tables vm) \<and>
    vm_pgdir vm' = vm_pgdir vm \<and> vm_pgdir_page vm' = vm_pgdir_page vm \<and> vm_refs vm' = vm_refs vm"

lemma same_vm_view: "same_vm vm vm' \<Longrightarrow> vm_ok vm' \<and> vm_view vm' = vm_view vm \<and> vm_refs vm' = vm_refs vm"
  by (simp add: same_vm_def vm_view_def fun_eq_iff)

lemma same_vm_refl: "vm_ok vm \<Longrightarrow> same_vm vm vm"
  by (simp add: same_vm_def)

lemma with_user_table_missing:
  "vm_ok vm \<Longrightarrow> map_of (vm_user_page_tables vm) a = None \<Longrightarrow>
    with_user_table vm a op = (fail NoSuchEntry ''page table not found'', vm)"
  using lookup_user_page_table_spec [of vm a] by (simp add: with_user_table_def fail_def)

lemma with_user_table_fails:
  assumes "vm_ok vm" "map_of (vm_user_page_tables vm) a = Some pt" "op pt = Err e"
  shows "\<exists>vm'. with_user_table vm a op = (Err e, vm') \<and> same_vm vm vm'"
proof -
  obtain ts where l: "lookup_user_page_table vm a = (Ok pt, vm\<lparr>vm_user_page_tables := (a, pt) # ts\<rparr>)"
    "mset (vm_user_page_tables vm) = add_mset (a, pt) (mset ts)"
    using lookup_user_page_table_spec [OF assms(1), of a] assms(2) by auto
  have "pt_ok pt" using vm_ok_parts(3) [OF assms(1,2)] by (simp add: table_ok_def)
  from replace_table [OF assms(1) l(2) this refl refl]
  have "same_vm vm (vm\<lparr>vm_user_page_tables := (a, pt) # ts\<rparr>)" using assms(2) by (auto simp: same_vm_def fun_eq_iff)
  then show ?thesis using l(1) assms(3) by (simp add: with_user_table_def)
qed

definition changed_table :: "vmem \<Rightarrow> addr \<Rightarrow> page_table \<Rightarrow> vmem \<Rightarrow> bool" where
  "changed_table vm a pt vm' \<longleftrightarrow> vm_ok vm' \<and>
    map_of (vm_user_page_tables vm') = (map_of (vm_user_page_tables vm))(a \<mapsto> pt) \<and>
    vm_pgdir vm' = vm_pgdir vm \<and> vm_pgdir_page vm' = vm_pgdir_page vm"

text \<open>The change of an entry changes the references by those of the entry.\<close>

definition refs_change :: "vmem \<Rightarrow> page_table_entry option \<Rightarrow> page_table_entry option \<Rightarrow> vmem \<Rightarrow> bool" where
  "refs_change vm old new vm' \<longleftrightarrow> (\<forall>n. vm_refs vm' n + frame_ref old n = vm_refs vm n + frame_ref new n)"

lemma with_user_table_ok:
  assumes "vm_ok vm" "map_of (vm_user_page_tables vm) a = Some pt" "op pt = Ok (x, pt')" "pt_ok pt'"
    "pt_storage pt' = pt_storage pt"
  shows "\<exists>vm'. with_user_table vm a op = (Ok x, vm') \<and> changed_table vm a pt' vm' \<and>
    (\<forall>n. vm_refs vm' n + pt_refs pt n = vm_refs vm n + pt_refs pt' n)"
proof -
  obtain ts where l: "lookup_user_page_table vm a = (Ok pt, vm\<lparr>vm_user_page_tables := (a, pt) # ts\<rparr>)"
    "mset (vm_user_page_tables vm) = add_mset (a, pt) (mset ts)"
    using lookup_user_page_table_spec [OF assms(1), of a] assms(2) by auto
  let ?vm = "vm\<lparr>vm_user_page_tables := (a, pt') # ts\<rparr>"
  note r = replace_table [OF assms(1) l(2) assms(4,5) refl]
  have "changed_table vm a pt' ?vm" using r(1-4) by (simp add: changed_table_def)
  moreover have "\<forall>n. vm_refs ?vm n + pt_refs pt n = vm_refs vm n + pt_refs pt' n" using r(5) by blast
  moreover have "with_user_table vm a op = (Ok x, ?vm)" using l(1) assms(3) by (simp add: with_user_table_def set_front_def)
  ultimately show ?thesis by blast
qed

lemma changed_table_view:
  assumes u: "is_user_addr a" and c: "changed_table vm (pgtab_address a) pt' vm'"
    and old: "pt_view pt = (case map_of (vm_user_page_tables vm) (pgtab_address a) of None \<Rightarrow> Map.empty | Some q \<Rightarrow> pt_view q)"
    and v: "pt_view pt' = (pt_view pt)(get_pte_index a := e)"
  shows "vm_ok vm'" "vm_view vm' = set_page (vm_view vm) a e"
proof -
  show "vm_ok vm'" using c by (simp add: changed_table_def)
  show "vm_view vm' = set_page (vm_view vm) a e"
  proof
    fix b
    have e: "map_of (vm_user_page_tables vm') = (map_of (vm_user_page_tables vm))(a div PGTAB_SIZE * PGTAB_SIZE \<mapsto> pt')"
      "pt_view pt' = (pt_view pt)(a div PAGE_SIZE mod PAGE_TABLE_LENGTH := e)"
      using c v pgtab_user(4) [OF u] pgtab_index(2) [OF u] by (simp_all add: changed_table_def)
    show "vm_view vm' b = set_page (vm_view vm) a e b"
    proof (cases "b div PGTAB_SIZE * PGTAB_SIZE = a div PGTAB_SIZE * PGTAB_SIZE")
      case True
      then show ?thesis using same_page [of b a] old pgtab_user(4) [OF u]
        by (auto simp: vm_view_def set_page_def e split: option.splits)
    next
      case False
      then have "b div PAGE_SIZE \<noteq> a div PAGE_SIZE" using same_page [of b a] by auto
      then show ?thesis using False by (simp add: vm_view_def set_page_def e)
    qed
  qed
qed

lemma table_of_page:
  assumes "vm_ok vm" "is_user_addr a" "vm_view vm a = Some p"
  obtains pt where "map_of (vm_user_page_tables vm) (pgtab_address a) = Some pt" "pt_ok pt"
    "pt_view pt (get_pte_index a) = Some p"
  using assms vm_view_user [OF assms(2), of vm] vm_ok_parts(3) [OF assms(1)]
  by (auto simp: table_ok_def split: option.splits)

text \<open>An operation on the entry of a page whose table exists.\<close>

lemma change_entry:
  assumes ok: "vm_ok vm" "is_user_addr a" and pt: "map_of (vm_user_page_tables vm) (pgtab_address a) = Some pt"
    and pt': "op pt = Ok (x, pt')" "pt_ok pt'" "pt_view pt' = (pt_view pt)(get_pte_index a := e)"
      "pt_storage pt' = pt_storage pt"
  shows "\<exists>vm'. with_user_table vm (pgtab_address a) op = (Ok x, vm') \<and> vm_ok vm' \<and>
    vm_view vm' = set_page (vm_view vm) a e \<and> refs_change vm (vm_view vm a) e vm' \<and>
    changed_table vm (pgtab_address a) pt' vm'"
proof -
  obtain vm' where vm': "with_user_table vm (pgtab_address a) op = (Ok x, vm')" "changed_table vm (pgtab_address a) pt' vm'"
    "\<forall>n. vm_refs vm' n + pt_refs pt n = vm_refs vm n + pt_refs pt' n"
    using with_user_table_ok [where op = op, OF ok(1) pt pt'(1,2,4)] by blast
  have "pt_view pt = (case map_of (vm_user_page_tables vm) (pgtab_address a) of None \<Rightarrow> Map.empty | Some q \<Rightarrow> pt_view q)"
    using pt by simp
  note v = changed_table_view [OF ok(2) vm'(2) this pt'(3)]
  have "vm_view vm a = pt_view pt (get_pte_index a)" using vm_view_user [OF ok(2), of vm] pt by simp
  then have "vm_refs vm' n + frame_ref (vm_view vm a) n = vm_refs vm n + frame_ref e n" for n
    using pt_refs_update [OF pt'(3,4), of n] spec [OF vm'(3), of n] by simp
  then show ?thesis using v vm'(1,2) by (auto simp: refs_change_def)
qed

lemma change_page:
  assumes ok: "vm_ok vm" "is_user_addr a" "vm_view vm a = Some p"
    and op: "\<And>pt. pt_ok pt \<Longrightarrow> pt_view pt (get_pte_index a) = Some p \<Longrightarrow>
      \<exists>pt'. op pt = Ok (x, pt') \<and> pt_ok pt' \<and> pt_view pt' = (pt_view pt)(get_pte_index a := e) \<and> pt_storage pt' = pt_storage pt"
  shows "\<exists>vm'. with_user_table vm (pgtab_address a) op = (Ok x, vm') \<and> vm_ok vm' \<and>
    vm_view vm' = set_page (vm_view vm) a e \<and> refs_change vm (Some p) e vm'"
proof -
  obtain pt where pt: "map_of (vm_user_page_tables vm) (pgtab_address a) = Some pt" "pt_ok pt"
    "pt_view pt (get_pte_index a) = Some p" using table_of_page [OF ok] .
  obtain pt' where pt': "op pt = Ok (x, pt')" "pt_ok pt'" "pt_view pt' = (pt_view pt)(get_pte_index a := e)"
    "pt_storage pt' = pt_storage pt" using op [OF pt(2,3)] by blast
  show ?thesis using change_entry [where op = op, OF ok(1,2) pt(1) pt'] ok(3) by auto
qed

lemma page_error:
  assumes ok: "vm_ok vm" "is_user_addr a"
    and op: "\<And>pt. pt_ok pt \<Longrightarrow> pt_view pt (get_pte_index a) = vm_view vm a \<Longrightarrow> \<exists>e. op pt = Err e"
  shows "\<exists>e vm'. with_user_table vm (pgtab_address a) op = (Err e, vm') \<and> vm_ok vm' \<and>
    vm_view vm' = vm_view vm \<and> vm_refs vm' = vm_refs vm"
proof (cases "map_of (vm_user_page_tables vm) (pgtab_address a)")
  case None
  then show ?thesis using with_user_table_missing [OF ok(1) None, of op] ok(1) by (simp add: fail_def)
next
  case (Some pt)
  have "pt_ok pt" using vm_ok_parts(3) [OF ok(1) Some] by (simp add: table_ok_def)
  then obtain e where "op pt = Err e" using op vm_view_user [OF ok(2), of vm] Some by auto
  then show ?thesis using with_user_table_fails [where op = op, OF ok(1) Some] same_vm_view by blast
qed

section \<open>Reading and changing entries\<close>

lemma find_user_frame_mapped:
  assumes "vm_ok vm" "is_user_addr a" "vm_view vm a = Some p"
  shows "find_user_frame vm a = Ok (te_frame p * FRAME_SIZE)"
proof -
  obtain pt where pt: "map_of (vm_user_page_tables vm) (pgtab_address a) = Some pt" "pt_ok pt"
    "pt_view pt (get_pte_index a) = Some p" using table_of_page [OF assms] .
  then show ?thesis using pt_present(1) [OF pt(2,3)] by (simp add: find_user_frame_def)
qed

lemma find_user_frame_unmapped:
  assumes "vm_ok vm" "is_user_addr a" "vm_view vm a = None"
  shows "\<exists>msg. find_user_frame vm a = fail NoSuchEntry msg"
proof (cases "map_of (vm_user_page_tables vm) (pgtab_address a)")
  case (Some pt)
  then have "pt_ok pt" "pt_view pt (get_pte_index a) = None"
    using vm_ok_parts(3) [OF assms(1)] assms(3) vm_view_user [OF assms(2), of vm] by (auto simp: table_ok_def)
  then show ?thesis using Some pt_absent(2) by (auto simp: find_user_frame_def)
qed (auto simp: find_user_frame_def)

lemma try_find_user_eq:
  assumes "vm_ok vm" "is_user_addr a"
  shows "try_find_user_pte vm a = Ok (vm_view vm a)"
    "try_find_user_frame vm a = Ok (map_option (\<lambda>p. te_frame p * FRAME_SIZE) (vm_view vm a))"
    "is_user_page_mapped vm a = Ok (vm_view vm a \<noteq> None)"
proof -
  have "try_find_user_pte vm a = Ok (vm_view vm a) \<and>
    try_find_user_frame vm a = Ok (map_option (\<lambda>p. te_frame p * FRAME_SIZE) (vm_view vm a))"
  proof (cases "map_of (vm_user_page_tables vm) (pgtab_address a)")
    case None
    then show ?thesis using vm_view_user [OF assms(2), of vm]
      by (simp add: try_find_user_pte_def try_find_user_frame_def)
  next
    case (Some pt)
    have ok: "pt_ok pt" using vm_ok_parts(3) [OF assms(1) Some] by (simp add: table_ok_def)
    have v: "vm_view vm a = pt_view pt (get_pte_index a)" using vm_view_user [OF assms(2), of vm] Some by simp
    show ?thesis
    proof (cases "pt_view pt (get_pte_index a)")
      case None
      then show ?thesis using Some v pt_absent(3,8) [OF ok None]
        by (simp add: try_find_user_pte_def try_find_user_frame_def)
    next
      case (Some p)
      then show ?thesis using \<open>map_of _ _ = _\<close> v pt_present [OF ok Some]
        by (simp add: try_find_user_pte_def try_find_user_frame_def)
    qed
  qed
  then show "try_find_user_pte vm a = Ok (vm_view vm a)"
    "try_find_user_frame vm a = Ok (map_option (\<lambda>p. te_frame p * FRAME_SIZE) (vm_view vm a))"
    "is_user_page_mapped vm a = Ok (vm_view vm a \<noteq> None)" using assms(2)
    by (simp_all add: is_user_page_mapped_def)
qed

text \<open>The directory entry of a page, as the operations read it.\<close>

lemma cached_pde_user:
  assumes "vm_ok vm" "is_user_addr a"
  shows "\<exists>pde. cached_pde (vm_pgdir vm) (pgtab_address a) = Ok pde \<and>
    (df_present (de_flags pde) \<longleftrightarrow> map_of (vm_user_page_tables vm) (pgtab_address a) \<noteq> None)"
proof -
  obtain e where "cached_pde (vm_pgdir vm) (pgtab_address a) = Ok e"
    "pd_view (vm_pgdir vm) (get_pde_index (pgtab_address a)) = (if df_present (de_flags e) then Some e else None)"
    using read_pde_ok [OF vm_ok_parts(1) [OF assms(1)] pgtab_index(3) [OF assms(2)]] by metis
  then show ?thesis using vm_ok_parts(4) [OF assms] pgtab_index(1) [OF assms(2)] by (auto split: if_splits)
qed

lemma mark_user_page_cow_ok:
  assumes "vm_ok vm" "is_user_addr a" "vm_view vm a = Some p" "is_writable p"
  shows "\<exists>vm'. mark_user_page_cow vm a = (Ok (), vm') \<and> vm_ok vm' \<and>
    vm_view vm' = set_page (vm_view vm) a (Some (set_cow True (set_read_write False p))) \<and> vm_refs vm' = vm_refs vm"
proof -
  have "\<exists>vm'. with_user_table vm (pgtab_address a) (\<lambda>pt. no_value (mark_cow pt a)) = (Ok (), vm') \<and> vm_ok vm' \<and>
    vm_view vm' = set_page (vm_view vm) a (Some (set_cow True (set_read_write False p))) \<and>
    refs_change vm (Some p) (Some (set_cow True (set_read_write False p))) vm'"
    using mark_cow_ok assms(4) by (intro change_page [OF assms(1-3)]) (fastforce simp: no_value_def)
  then show ?thesis using assms(2)
    by (auto simp: mark_user_page_cow_def refs_change_def frame_ref_def entry_defs fun_eq_iff)
qed

lemma unmark_user_page_cow_ok:
  assumes "vm_ok vm" "is_user_addr a" "vm_view vm a = Some p" "is_cow p"
  shows "\<exists>vm'. unmark_user_page_cow vm a = (Ok (), vm') \<and> vm_ok vm' \<and>
    vm_view vm' = set_page (vm_view vm) a (Some (set_read_write True (set_cow False p))) \<and> vm_refs vm' = vm_refs vm"
proof -
  have "\<exists>vm'. with_user_table vm (pgtab_address a) (\<lambda>pt. no_value (unmark_cow pt a)) = (Ok (), vm') \<and> vm_ok vm' \<and>
    vm_view vm' = set_page (vm_view vm) a (Some (set_read_write True (set_cow False p))) \<and>
    refs_change vm (Some p) (Some (set_read_write True (set_cow False p))) vm'"
    using unmark_cow_ok assms(4) by (intro change_page [OF assms(1-3)]) (fastforce simp: no_value_def)
  then show ?thesis using assms(2)
    by (auto simp: unmark_user_page_cow_def refs_change_def frame_ref_def entry_defs fun_eq_iff)
qed

lemma replace_user_page_cow_frame_ok:
  assumes "vm_ok vm" "is_user_addr a" "vm_view vm a = Some p" "is_cow p" "\<not> is_writable p" "into_frame_number f = Ok n"
  shows "\<exists>vm'. replace_user_page_cow_frame vm a f = (Ok (te_frame p * FRAME_SIZE), vm') \<and> vm_ok vm' \<and>
    vm_view vm' = set_page (vm_view vm) a (Some (resolved_pte p n)) \<and>
    refs_change vm (Some p) (Some (resolved_pte p n)) vm'"
proof -
  have "\<exists>vm'. with_user_table vm (pgtab_address a) (\<lambda>pt. replace_cow_frame pt a f) = (Ok (te_frame p * FRAME_SIZE), vm') \<and>
    vm_ok vm' \<and> vm_view vm' = set_page (vm_view vm) a (Some (resolved_pte p n)) \<and>
    refs_change vm (Some p) (Some (resolved_pte p n)) vm'"
    using replace_cow_frame_ok [OF _ _ assms(4,5,6)] by (intro change_page [OF assms(1-3)])
  then show ?thesis using assms(2) by (simp add: replace_user_page_cow_frame_def)
qed

lemma uctrl_ok:
  assumes "vm_ok vm" "is_user_addr a" "vm_view vm a = Some p"
  shows "\<exists>vm'. uctrl vm a access = (Ok (), vm') \<and> vm_ok vm' \<and>
    vm_view vm' = set_page (vm_view vm) a (Some (set_user_supervisor True (set_read_write (perm_write access) p))) \<and>
    vm_refs vm' = vm_refs vm"
proof -
  let ?p = "set_user_supervisor True (set_read_write (perm_write access) p)"
  have "\<exists>vm'. with_user_table vm (pgtab_address a) (\<lambda>pt. no_value (pt_ctrl pt False a access)) = (Ok (), vm') \<and> vm_ok vm' \<and>
    vm_view vm' = set_page (vm_view vm) a (Some ?p) \<and> refs_change vm (Some p) (Some ?p) vm'"
    using pt_ctrl_ok [of _ a p False access] by (intro change_page [OF assms]) (fastforce simp: no_value_def)
  moreover obtain pde where "cached_pde (vm_pgdir vm) (pgtab_address a) = Ok pde" "df_present (de_flags pde)"
    using cached_pde_user [OF assms(1,2)] table_of_page [OF assms] by (metis option.distinct(1))
  ultimately show ?thesis using assms(2)
    by (auto simp: uctrl_def refs_change_def frame_ref_def entry_defs fun_eq_iff)
qed

section \<open>Frames for page tables\<close>

definition mc_ok :: "kernel_config \<Rightarrow> machine \<Rightarrow> bool" where
  "mc_ok cf mc \<longleftrightarrow>
    config_ok (kc_store cf) (kc_memory_size cf) \<and> frames_inv (mc_frames mc) \<and>
    idmap_inv (kc_store cf) (kc_memory_size cf) (mc_mem mc) \<and>
    number_of_bits (frame_bitmap (mc_frames mc)) * FRAME_SIZE \<le> kc_memory_size cf"

abbreviation mc_owners :: "machine \<Rightarrow> nat \<Rightarrow> nat" where
  "mc_owners mc \<equiv> owners (mc_frames mc)"

abbreviation mc_bytes :: "machine \<Rightarrow> addr \<Rightarrow> u8" where
  "mc_bytes mc \<equiv> phys_bytes (mc_mem mc)"

text \<open>No byte of a frame in use changes.\<close>

definition bytes_kept :: "machine \<Rightarrow> machine \<Rightarrow> bool" where
  "bytes_kept mc mc' \<longleftrightarrow> (\<forall>a. 0 < mc_owners mc (a div FRAME_SIZE) \<longrightarrow> mc_bytes mc' a = mc_bytes mc a)"

lemma mc_ok_parts:
  assumes "mc_ok cf mc"
  shows "config_ok (kc_store cf) (kc_memory_size cf)" "frames_inv (mc_frames mc)"
    "idmap_inv (kc_store cf) (kc_memory_size cf) (mc_mem mc)"
    "number_of_bits (frame_bitmap (mc_frames mc)) * FRAME_SIZE \<le> kc_memory_size cf"
  using assms by (simp_all add: mc_ok_def)

lemma mc_ok_frames: "mc_ok cf mc \<Longrightarrow> frames_inv f \<Longrightarrow> same_shape (mc_frames mc) f \<Longrightarrow> mc_ok cf (mc\<lparr>mc_frames := f\<rparr>)"
  by (simp add: mc_ok_def same_shape_def)

lemma mc_ok_mem: "mc_ok cf mc \<Longrightarrow> idmap_inv (kc_store cf) (kc_memory_size cf) m \<Longrightarrow> mc_ok cf (mc\<lparr>mc_mem := m\<rparr>)"
  by (simp add: mc_ok_def)

lemma owned_frame:
  assumes "mc_ok cf mc" "0 < mc_owners mc n"
  shows "n < number_of_bits (frame_bitmap (mc_frames mc))" "n * FRAME_SIZE + FRAME_SIZE \<le> kc_memory_size cf"
    "n \<le> FRAME_NUMBER_MAX" "into_frame_number (n * FRAME_SIZE) = Ok n"
proof -
  show n: "n < number_of_bits (frame_bitmap (mc_frames mc))" "n \<le> FRAME_NUMBER_MAX"
    using owned_less [OF mc_ok_parts(2) [OF assms(1)] assms(2)] by simp_all
  then show "into_frame_number (n * FRAME_SIZE) = Ok n" by simp
  have "(n + 1) * FRAME_SIZE \<le> number_of_bits (frame_bitmap (mc_frames mc)) * FRAME_SIZE" using n by (intro mult_le_mono1) simp
  then show "n * FRAME_SIZE + FRAME_SIZE \<le> kc_memory_size cf" using mc_ok_parts(4) [OF assms(1)] by simp
qed

lemma drop_in_ok:
  assumes "mc_ok cf mc" "0 < mc_owners mc n"
  shows "mc_ok cf (drop_in mc (n * FRAME_SIZE))"
    "mc_owners (drop_in mc (n * FRAME_SIZE)) = (mc_owners mc)(n := mc_owners mc n - 1)"
    "mc_mem (drop_in mc (n * FRAME_SIZE)) = mc_mem mc"
  using drop_frame_spec [OF mc_ok_parts(2) [OF assms(1)] assms(2)] mc_ok_frames [OF assms(1)]
  by (simp_all add: drop_in_def)

definition no_frame_left :: "machine \<Rightarrow> bool" where
  "no_frame_left mc \<longleftrightarrow> \<not> is_ok (fst (frame_alloc (mc_frames mc)))"

lemma alloc_mapped_frame_spec:
  assumes ok: "mc_ok cf mc"
  shows "\<exists>r mc'. alloc_mapped_frame cf mc = (r, mc') \<and> mc_ok cf mc' \<and> mc_bytes mc' = mc_bytes mc \<and>
    ((\<exists>n. r = Ok (n * FRAME_SIZE) \<and> mc_owners mc n = 0 \<and> mc_owners mc' = (mc_owners mc)(n := 1)) \<or>
     (\<exists>e. r = Err e \<and> mc_owners mc' = mc_owners mc \<and> no_frame_left mc))"
proof -
  note p = mc_ok_parts [OF ok]
  obtain r f where a: "frame_alloc (mc_frames mc) = (r, f)" by fastforce
  show ?thesis using frame_alloc_spec [OF p(2) a]
  proof (elim disjE exE conjE)
    fix n assume n: "r = Ok (n * FRAME_SIZE)" "n < number_of_bits (frame_bitmap (mc_frames mc))" "mc_owners mc n = 0"
      "owners f = (mc_owners mc)(n := 1)" "frames_inv f" "same_shape (mc_frames mc) f"
    have "n * FRAME_SIZE < number_of_bits (frame_bitmap (mc_frames mc)) * FRAME_SIZE" using n(2) by simp
    then have lt: "n * FRAME_SIZE < kc_memory_size cf" using p(4) by linarith
    obtain m where m: "identity_map_page (kc_store cf) (mc_mem mc) (n * FRAME_SIZE) = (Ok (), m)"
      "idmap_inv (kc_store cf) (kc_memory_size cf) m" "same_rest (mc_mem mc) m"
      using identity_map_page_ok [OF p(1,3) lt] by blast
    let ?mc = "mc\<lparr>mc_frames := f, mc_mem := m\<rparr>"
    have e: "alloc_mapped_frame cf mc = (Ok (n * FRAME_SIZE), ?mc)"
      using a n(1) lt m(1) by (simp add: alloc_mapped_frame_def frame_address_from_raw_value_def page_aligned_from_address_def)
    moreover have "mc_ok cf ?mc" using mc_ok_mem [OF mc_ok_frames [OF ok n(5,6)] m(2)] by simp
    moreover have "mc_owners ?mc = (mc_owners mc)(n := 1)" "mc_bytes ?mc = mc_bytes mc"
      using n(4) m(3) by (simp_all add: same_rest_def)
    ultimately show ?thesis using n(3) by (intro exI [of _ "Ok (n * FRAME_SIZE)"] exI [of _ ?mc]) auto
  next
    fix e assume e: "r = Err e" "f = mc_frames mc"
    have "alloc_mapped_frame cf mc = (Err e, mc)" using a e by (simp add: alloc_mapped_frame_def)
    moreover have "no_frame_left mc" using a e by (simp add: no_frame_left_def)
    ultimately show ?thesis using ok by auto
  qed
qed

text \<open>The allocation agrees with the one of the physical memory manager.\<close>

lemma alloc_mapped_frame_alloc_kernel_frame:
  "fst (alloc_mapped_frame cf mc) =
      fst (alloc_kernel_frame (kc_memory_size cf) (\<lambda>a. fst (identity_map_page (kc_store cf) (mc_mem mc) a)) (mc_frames mc)) \<and>
   mc_frames (snd (alloc_mapped_frame cf mc)) =
      snd (alloc_kernel_frame (kc_memory_size cf) (\<lambda>a. fst (identity_map_page (kc_store cf) (mc_mem mc) a)) (mc_frames mc))"
  by (auto simp: alloc_mapped_frame_def alloc_kernel_frame_def kernel_frame_new_def split: prod.splits res.splits)

lemma clear_frame_ok:
  assumes ok: "mc_ok cf mc" and n: "0 < mc_owners mc n"
  shows "\<exists>mc'. clear_frame cf mc (n * FRAME_SIZE) = (Ok (), mc') \<and> mc_ok cf mc' \<and> mc_frames mc' = mc_frames mc \<and>
    (\<forall>a. mc_bytes mc' a = (if a div FRAME_SIZE = n then 0 else mc_bytes mc a))"
proof -
  note p = mc_ok_parts [OF ok]
  have "0 < PAGE_SIZE" by simp
  obtain r m where m: "memset (kc_store cf) (kc_memory_size cf) (mc_mem mc) (n * FRAME_SIZE) 0 PAGE_SIZE = (r, m)"
    "idmap_inv (kc_store cf) (kc_memory_size cf) m" "r = Ok ()"
    "phys_bytes m = fast_memset (mc_bytes mc) (n * FRAME_SIZE) 0 PAGE_SIZE"
    using memset_spec [OF p(1,3) \<open>0 < PAGE_SIZE\<close>, of "n * FRAME_SIZE" 0] owned_frame(2) [OF ok n] by auto
  have "n * FRAME_SIZE \<le> a \<and> a < n * FRAME_SIZE + PAGE_SIZE \<longleftrightarrow> a div FRAME_SIZE = n" for a
    using div_mult_mod_eq [of a FRAME_SIZE] mod_less_divisor [of FRAME_SIZE a, OF zero_less_numeral]
    by (auto intro: div_nat_eqI)
  then show ?thesis using m mc_ok_mem [OF ok m(2)] by (simp add: clear_frame_def fast_memset_def)
qed

lemma page_table_allocator_spec:
  assumes ok: "mc_ok cf mc"
  shows "\<exists>r mc'. page_table_allocator cf mc = (r, mc') \<and> mc_ok cf mc' \<and> bytes_kept mc mc' \<and>
    ((\<exists>n. r = Ok (page_table_new (n * FRAME_SIZE)) \<and> mc_owners mc n = 0 \<and> mc_owners mc' = (mc_owners mc)(n := 1)) \<or>
     (\<exists>e. r = Err e \<and> mc_owners mc' = mc_owners mc \<and> no_frame_left mc))"
proof -
  obtain r mc1 where a: "alloc_mapped_frame cf mc = (r, mc1)" "mc_ok cf mc1" "mc_bytes mc1 = mc_bytes mc"
    "(\<exists>n. r = Ok (n * FRAME_SIZE) \<and> mc_owners mc n = 0 \<and> mc_owners mc1 = (mc_owners mc)(n := 1)) \<or>
     (\<exists>e. r = Err e \<and> mc_owners mc1 = mc_owners mc \<and> no_frame_left mc)" using alloc_mapped_frame_spec [OF ok] by blast
  show ?thesis using a(4)
  proof (elim disjE exE conjE)
    fix n assume n: "r = Ok (n * FRAME_SIZE)" "mc_owners mc n = 0" "mc_owners mc1 = (mc_owners mc)(n := 1)"
    have "0 < mc_owners mc1 n" using n(3) by simp
    then obtain mc' where c: "clear_frame cf mc1 (n * FRAME_SIZE) = (Ok (), mc')" "mc_ok cf mc'" "mc_frames mc' = mc_frames mc1"
      "\<forall>a. mc_bytes mc' a = (if a div FRAME_SIZE = n then 0 else mc_bytes mc1 a)" using clear_frame_ok [OF a(2)] by blast
    have "page_table_allocator cf mc = (Ok (page_table_new (n * FRAME_SIZE)), mc')"
      using a(1) n(1) c(1) by (simp add: page_table_allocator_def)
    moreover have "bytes_kept mc mc'" using c(4) a(3) n(2) by (auto simp: bytes_kept_def)
    ultimately show ?thesis using c(2,3) n by auto
  next
    fix e assume "r = Err e" "mc_owners mc1 = mc_owners mc" "no_frame_left mc"
    then show ?thesis using a by (auto simp: page_table_allocator_def bytes_kept_def)
  qed
qed

section \<open>Mapping and unmapping\<close>

text \<open>
  The accounts of a machine and an address space between two states: the change in the number of
  owners of every frame is the change in the references the space holds to it, up to the frames
  handed in or out.
\<close>

definition balanced :: "machine \<Rightarrow> vmem \<Rightarrow> machine \<Rightarrow> vmem \<Rightarrow> (nat \<Rightarrow> nat) \<Rightarrow> (nat \<Rightarrow> nat) \<Rightarrow> bool" where
  "balanced mc vm mc' vm' handed_in handed_out \<longleftrightarrow>
    (\<forall>k. mc_owners mc' k + vm_refs vm k + handed_in k = mc_owners mc k + vm_refs vm' k + handed_out k)"

abbreviation no_frame :: "nat \<Rightarrow> nat" where "no_frame \<equiv> (\<lambda>_. 0)"
abbreviation one_frame :: "nat \<Rightarrow> nat \<Rightarrow> nat" where "one_frame n \<equiv> (\<lambda>k. if k = n then 1 else 0)"

lemma pt_refs_new: "pt_refs (page_table_new s) n = (if s = n * FRAME_SIZE then 1 else 0)"
  by (simp add: pt_refs_def page_table_new_ok)

lemma index_of_pgtab:
  assumes "a mod PGTAB_SIZE = 0" "b mod PGTAB_SIZE = 0" "a div PGTAB_SIZE = b div PGTAB_SIZE"
  shows "a = (b :: nat)"
  using assms div_mult_mod_eq [of a PGTAB_SIZE] div_mult_mod_eq [of b PGTAB_SIZE] by simp

lemma insert_table:
  assumes ok: "vm_ok vm" and u: "is_user_addr a" and none: "map_of (vm_user_page_tables vm) (pgtab_address a) = None"
    and pd: "pd_ok pd" "pd_view pd = (pd_view (vm_pgdir vm))(a div PGTAB_SIZE \<mapsto> e)" "de_frame e = n"
    and vm': "vm' = vm\<lparr>vm_pgdir := pd,
      vm_user_page_tables := (pgtab_address a, page_table_new (n * FRAME_SIZE)) # vm_user_page_tables vm\<rparr>"
  shows "vm_ok vm'" "vm_view vm' = vm_view vm" "\<And>k. vm_refs vm' k = vm_refs vm k + one_frame n k"
proof -
  let ?A = "pgtab_address a" and ?ts = "vm_user_page_tables vm"
  have A: "?A mod PGTAB_SIZE = 0" "is_user_addr ?A" "?A div PGTAB_SIZE = a div PGTAB_SIZE" using pgtab_user [OF u] by simp_all
  have nin: "?A \<notin> fst ` set ?ts" using none by (simp add: map_of_eq_None_iff)
  have "table_ok pd b q" if "(b, q) \<in> set ?ts" for b q
  proof -
    have t: "table_ok (vm_pgdir vm) b q" using ok that by (auto simp: vm_ok_def)
    have "b \<noteq> ?A" using that nin by force
    then have "b div PGTAB_SIZE \<noteq> a div PGTAB_SIZE" using index_of_pgtab [of b ?A] A t by (auto simp: table_ok_def)
    then show ?thesis using t by (simp add: table_ok_def pd(2))
  qed
  moreover have "table_ok pd ?A (page_table_new (n * FRAME_SIZE))"
    using A page_table_new_ok by (simp add: table_ok_def pd(2,3))
  moreover have "b \<in> fst ` set (vm_user_page_tables vm')"
    if b: "b mod PGTAB_SIZE = 0" "is_user_addr b" "pd_view pd (b div PGTAB_SIZE) \<noteq> None" for b
  proof (cases "b = ?A")
    case True
    then show ?thesis by (simp add: vm')
  next
    case False
    then have "b div PGTAB_SIZE \<noteq> a div PGTAB_SIZE" using index_of_pgtab [of b ?A] A b(1) by auto
    then have "pd_view (vm_pgdir vm) (b div PGTAB_SIZE) \<noteq> None" using b(3) by (simp add: pd(2))
    then show ?thesis using ok b(1,2) by (simp add: vm_ok_def vm')
  qed
  ultimately show "vm_ok vm'" using ok nin pd(1) by (auto simp: vm_ok_def vm')
  show "vm_view vm' = vm_view vm"
    using none page_table_new_ok(2) [of "n * FRAME_SIZE"]
    by (auto simp: vm_view_def vm' fun_eq_iff split: option.splits)
  show "vm_refs vm' k = vm_refs vm k + one_frame n k" for k by (simp add: vm_refs_def vm' pt_refs_new)
qed

lemma ensure_user_page_table_spec:
  assumes ok: "mc_ok cf mc" "vm_ok vm" and u: "is_user_addr a"
  shows "\<exists>r vm' mc'. ensure_user_page_table cf vm mc (pgtab_address a) = (r, vm', mc') \<and> mc_ok cf mc' \<and> vm_ok vm' \<and>
    bytes_kept mc mc' \<and> vm_view vm' = vm_view vm \<and> balanced mc vm mc' vm' no_frame no_frame \<and>
    (\<forall>k. mc_owners mc k \<le> mc_owners mc' k) \<and>
    (r = Ok () \<and> map_of (vm_user_page_tables vm') (pgtab_address a) \<noteq> None \<or> (\<exists>e. r = Err e) \<and> no_frame_left mc)"
proof -
  obtain pde where pde: "cached_pde (vm_pgdir vm) (pgtab_address a) = Ok pde"
    "df_present (de_flags pde) \<longleftrightarrow> map_of (vm_user_page_tables vm) (pgtab_address a) \<noteq> None"
    using cached_pde_user [OF ok(2) u] by blast
  show ?thesis
  proof (cases "df_present (de_flags pde)")
    case True
    then show ?thesis using pde ok by (auto simp: ensure_user_page_table_def bytes_kept_def balanced_def)
  next
    case False
    obtain r mc' where p: "page_table_allocator cf mc = (r, mc')" "mc_ok cf mc'" "bytes_kept mc mc'"
      "(\<exists>n. r = Ok (page_table_new (n * FRAME_SIZE)) \<and> mc_owners mc n = 0 \<and> mc_owners mc' = (mc_owners mc)(n := 1)) \<or>
       (\<exists>e. r = Err e \<and> mc_owners mc' = mc_owners mc \<and> no_frame_left mc)" using page_table_allocator_spec [OF ok(1)] by blast
    show ?thesis using p(4)
    proof (elim disjE exE conjE)
      fix n assume n: "r = Ok (page_table_new (n * FRAME_SIZE))" "mc_owners mc n = 0" "mc_owners mc' = (mc_owners mc)(n := 1)"
      have o: "0 < mc_owners mc' n" using n(3) by simp
      note own = owned_frame [OF p(2) o]
      have none: "map_of (vm_user_page_tables vm) (pgtab_address a) = None" using False pde(2) by simp
      then have v: "pd_view (vm_pgdir vm) (get_pde_index (pgtab_address a)) = None"
        using vm_ok_parts(4) [OF ok(2) u] pgtab_index(1) [OF u] by simp
      obtain pd e where pd: "pd_map (vm_pgdir vm) (pgtab_address a) (n * FRAME_SIZE) False RDWR = Ok pd" "pd_ok pd"
        "pd_view pd = (pd_view (vm_pgdir vm))(a div PGTAB_SIZE \<mapsto> e)" "de_frame e = n"
        using pd_map_ok [OF vm_ok_parts(1) [OF ok(2)] pgtab_index(3) [OF u] v own(4), of False RDWR] pgtab_index(1) [OF u]
        by auto
      let ?vm = "vm\<lparr>vm_pgdir := pd,
        vm_user_page_tables := (pgtab_address a, page_table_new (n * FRAME_SIZE)) # vm_user_page_tables vm\<rparr>"
      note ins = insert_table [OF ok(2) u none pd(2-4) refl]
      have "ensure_user_page_table cf vm mc (pgtab_address a) = (Ok (), ?vm, mc')"
        using pde(1) False p(1) n(1) pd(1) own(2)
        by (simp add: ensure_user_page_table_def page_table_new_ok frame_address_from_raw_value_def page_aligned_from_address_def)
      moreover have "balanced mc vm mc' ?vm no_frame no_frame" using ins(3) n(2,3) by (simp add: balanced_def)
      ultimately show ?thesis using p(2,3) ins(1,2) n(2,3)
        by (intro exI [of _ "Ok ()"] exI [of _ ?vm] exI [of _ mc']) simp
    next
      fix e assume e: "r = Err e" "mc_owners mc' = mc_owners mc" "no_frame_left mc"
      then have "ensure_user_page_table cf vm mc (pgtab_address a) = (Err e, vm, mc')"
        using pde(1) False p(1) by (simp add: ensure_user_page_table_def)
      then show ?thesis using p(2,3) ok(2) e by (auto simp: balanced_def)
    qed
  qed
qed

lemma drop_handed:
  assumes "mc_ok cf mc1" "0 < mc_owners mc1 n" "balanced mc vm mc1 vm' no_frame no_frame"
  shows "mc_ok cf (drop_in mc1 (n * FRAME_SIZE))" "balanced mc vm (drop_in mc1 (n * FRAME_SIZE)) vm' (one_frame n) no_frame"
    "mc_mem (drop_in mc1 (n * FRAME_SIZE)) = mc_mem mc1"
proof -
  note d = drop_in_ok [OF assms(1,2)]
  show "mc_ok cf (drop_in mc1 (n * FRAME_SIZE))" "mc_mem (drop_in mc1 (n * FRAME_SIZE)) = mc_mem mc1" using d by simp_all
  have "mc_owners (drop_in mc1 (n * FRAME_SIZE)) k + vm_refs vm k + one_frame n k = mc_owners mc k + vm_refs vm' k" for k
    using assms(2) d(2) spec [OF assms(3) [unfolded balanced_def], of k] by (cases "k = n") simp_all
  then show "balanced mc vm (drop_in mc1 (n * FRAME_SIZE)) vm' (one_frame n) no_frame" by (simp add: balanced_def)
qed

lemma vm_map_spec:
  assumes ok: "mc_ok cf mc" "vm_ok vm" and u: "is_user_addr a" and n: "0 < mc_owners mc n"
  shows "\<exists>r vm' mc'. vm_map cf vm mc (n * FRAME_SIZE) a access = (r, vm', mc') \<and> mc_ok cf mc' \<and> vm_ok vm' \<and>
    bytes_kept mc mc' \<and> balanced mc vm mc' vm' (one_frame n) no_frame \<and>
    (r = Ok () \<and> vm_view vm a = None \<and> (\<forall>k. mc_owners mc k \<le> mc_owners mc' k) \<and>
       vm_view vm' = set_page (vm_view vm) a (Some (mapped_pte n False False True access)) \<or>
     (\<exists>e. r = Err e) \<and> vm_view vm' = vm_view vm \<and> (vm_view vm a \<noteq> None \<or> no_frame_left mc))"
proof -
  let ?op = "\<lambda>pt. no_value (pt_map pt a (n * FRAME_SIZE) False False True access)"
  let ?A = "pgtab_address a" and ?e = "mapped_pte n False False True access"
  obtain r1 vm1 mc1 where e: "ensure_user_page_table cf vm mc ?A = (r1, vm1, mc1)" "mc_ok cf mc1" "vm_ok vm1"
    "bytes_kept mc mc1" "vm_view vm1 = vm_view vm" "balanced mc vm mc1 vm1 no_frame no_frame"
    "\<forall>k. mc_owners mc k \<le> mc_owners mc1 k" "r1 = Ok () \<and> map_of (vm_user_page_tables vm1) ?A \<noteq> None \<or> (\<exists>e. r1 = Err e) \<and> no_frame_left mc"
    using ensure_user_page_table_spec [OF ok u] by blast
  have n1: "0 < mc_owners mc1 n" using n spec [OF e(7), of n] by simp
  show ?thesis using e(8)
  proof (elim disjE conjE exE)
    fix x assume nf: "no_frame_left mc" and "r1 = Err x"
    then have "vm_map cf vm mc (n * FRAME_SIZE) a access = (Err x, vm1, drop_in mc1 (n * FRAME_SIZE))"
      using e(1) u by (simp add: vm_map_def map_frame_def)
    then show ?thesis using drop_handed [OF e(2) n1 e(6)] e(3-5) nf by (simp add: bytes_kept_def)
  next
    assume r1: "r1 = Ok ()" "map_of (vm_user_page_tables vm1) ?A \<noteq> None"
    then obtain pt where pt: "map_of (vm_user_page_tables vm1) ?A = Some pt" by blast
    have po: "pt_ok pt" using vm_ok_parts(3) [OF e(3) pt] by (simp add: table_ok_def)
    have v: "vm_view vm a = pt_view pt (get_pte_index a)" using vm_view_user [OF u, of vm1] pt e(5) by simp
    show ?thesis
    proof (cases "vm_view vm a")
      case (Some p)
      then have "?op pt = Err (Error ResourceBusy ''page table entry is busy'')"
        using pt_map_busy [OF po] v by (simp add: no_value_def fail_def)
      then obtain vm2 where w: "with_user_table vm1 ?A ?op = (Err (Error ResourceBusy ''page table entry is busy''), vm2)"
        "same_vm vm1 vm2" using with_user_table_fails [where op = ?op, OF e(3) pt] by blast
      have "vm_map cf vm mc (n * FRAME_SIZE) a access =
          (Err (Error ResourceBusy ''page table entry is busy''), vm2, drop_in mc1 (n * FRAME_SIZE))"
        using e(1) u r1(1) w(1) by (simp add: vm_map_def map_frame_def)
      moreover have "balanced mc vm mc1 vm2 no_frame no_frame" using e(6) same_vm_view [OF w(2)] by (simp add: balanced_def)
      ultimately show ?thesis using drop_handed [OF e(2) n1] e(4,5) same_vm_view [OF w(2)] Some
        by (simp add: bytes_kept_def)
    next
      case None
      obtain pt' where pt': "pt_map pt a (n * FRAME_SIZE) False False True access = Ok pt'" "pt_ok pt'"
        "pt_view pt' = (pt_view pt)(get_pte_index a \<mapsto> ?e)" "pt_storage pt' = pt_storage pt"
        using pt_map_ok [OF po _ owned_frame(4) [OF e(2) n1], of a] None v by metis
      have "?op pt = Ok ((), pt')" using pt'(1) by (simp add: no_value_def)
      then obtain vm2 where w: "with_user_table vm1 ?A ?op = (Ok (), vm2)" "vm_ok vm2"
        "vm_view vm2 = set_page (vm_view vm1) a (Some ?e)" "refs_change vm1 (vm_view vm1 a) (Some ?e) vm2"
        using change_entry [where op = ?op, OF e(3) u pt _ pt'(2-4)] by blast
      have "vm_map cf vm mc (n * FRAME_SIZE) a access = (Ok (), vm2, mc1)"
        using e(1) u r1(1) w(1) by (simp add: vm_map_def map_frame_def)
      moreover have "balanced mc vm mc1 vm2 (one_frame n) no_frame"
        using e(5,6) w(4) None by (auto simp: balanced_def refs_change_def frame_ref_def mapped_pte_def)
      ultimately show ?thesis using e(2,4,5,7) w(2,3) None by simp
    qed
  qed
qed

lemma empty_table:
  assumes "pt_ok pt" "pt_nmapped pt = 0"
  shows "pt_view pt = Map.empty"
  using assms pte_format.view_finite [of "pt_entries pt"] by (simp add: pt_ok_def)

lemma release_table_ok:
  assumes ok: "mc_ok cf mc" "vm_ok vm" and u: "is_user_addr a"
    and pt: "map_of (vm_user_page_tables vm) (pgtab_address a) = Some pt" "pt_nmapped pt = 0"
    and solvent: "\<forall>k. vm_refs vm k \<le> mc_owners mc k"
  shows "\<exists>vm' mc'. release_table vm mc (pgtab_address a) = (Ok (), vm', mc') \<and> mc_ok cf mc' \<and> vm_ok vm' \<and>
    mc_mem mc' = mc_mem mc \<and> vm_view vm' = vm_view vm \<and> balanced mc vm mc' vm' no_frame no_frame"
proof -
  let ?A = "pgtab_address a"
  have A: "?A mod PGTAB_SIZE = 0" "?A div PGTAB_SIZE = a div PGTAB_SIZE" using pgtab_user [OF u] by simp_all
  obtain ts where ts: "remove_table ?A (vm_user_page_tables vm) = Some ((?A, pt), ts)"
    "map_of ts = (map_of (vm_user_page_tables vm))(?A := None)" "distinct (map fst ts)"
    "set (vm_user_page_tables vm) = insert (?A, pt) (set ts)" "?A \<notin> fst ` set ts"
    "mset (vm_user_page_tables vm) = add_mset (?A, pt) (mset ts)"
    using remove_table_spec [OF vm_ok_parts(2) [OF ok(2)], of ?A] pt(1) by (auto split: option.splits prod.splits)
  have t: "table_ok (vm_pgdir vm) ?A pt" using vm_ok_parts(3) [OF ok(2) pt(1)] .
  then obtain e where e: "pd_view (vm_pgdir vm) (a div PGTAB_SIZE) = Some e" "de_frame e * FRAME_SIZE = pt_storage pt" "pt_ok pt"
    using A by (auto simp: table_ok_def)
  let ?n = "de_frame e"
  have ev: "pt_view pt = Map.empty" using empty_table [OF e(3) pt(2)] .
  obtain pd where pd: "pd_unmap (vm_pgdir vm) ?A = Ok (?n * FRAME_SIZE, pd)" "pd_ok pd"
    "pd_view pd = (pd_view (vm_pgdir vm))(a div PGTAB_SIZE := None)"
    using pd_unmap_ok [OF vm_ok_parts(1) [OF ok(2)] pgtab_index(3) [OF u], of e] pgtab_index(1) [OF u] e(1) by auto
  let ?vm = "vm\<lparr>vm_pgdir := pd, vm_user_page_tables := ts\<rparr>"
  have refs: "vm_refs vm k = vm_refs ?vm k + one_frame ?n k" for k
    using e(2) ev by (auto simp: vm_refs_def ts(6) pt_refs_def)
  have own: "0 < mc_owners mc ?n" using spec [OF solvent, of ?n] refs [of ?n] by simp
  have rel: "release_table vm mc ?A = (Ok (), ?vm, drop_in mc (?n * FRAME_SIZE))"
    using ts(1) pd(1) e(2) by (simp add: release_table_def)
  have other: "b div PGTAB_SIZE \<noteq> a div PGTAB_SIZE" if "b mod PGTAB_SIZE = 0" "b \<noteq> ?A" for b
    using index_of_pgtab [of b ?A] that A by auto
  have "table_ok pd b q" if b: "(b, q) \<in> set ts" for b q
  proof -
    have "table_ok (vm_pgdir vm) b q" using ok(2) b ts(4) by (auto simp: vm_ok_def)
    moreover have "b \<noteq> ?A" using b ts(5) by force
    ultimately show ?thesis using other [of b] by (auto simp: table_ok_def pd(3))
  qed
  moreover have "b \<in> fst ` set ts"
    if b: "b mod PGTAB_SIZE = 0" "is_user_addr b" "pd_view pd (b div PGTAB_SIZE) \<noteq> None" for b
  proof -
    have "b \<noteq> ?A" using b(3) A(2) by (auto simp: pd(3))
    then have "pd_view (vm_pgdir vm) (b div PGTAB_SIZE) \<noteq> None" using other [OF b(1)] b(3) by (simp add: pd(3))
    then have "b \<in> fst ` set (vm_user_page_tables vm)" using ok(2) b(1,2) by (simp add: vm_ok_def)
    then show ?thesis using ts(4) \<open>b \<noteq> ?A\<close> by auto
  qed
  ultimately have vok: "vm_ok ?vm" using pd(2) ts(3) by (auto simp: vm_ok_def)
  have "vm_view ?vm = vm_view vm"
    using pt(1) ev by (auto simp: vm_view_def ts(2) fun_eq_iff split: option.splits)
  moreover have "balanced mc vm (drop_in mc (?n * FRAME_SIZE)) ?vm no_frame no_frame"
    using drop_in_ok(2) [OF ok(1) own] refs own by (auto simp: balanced_def)
  ultimately show ?thesis using rel vok drop_in_ok [OF ok(1) own] by auto
qed

lemma vm_unmap_absent:
  "vm_ok vm \<Longrightarrow> is_user_addr a \<Longrightarrow> vm_view vm a = None \<Longrightarrow> vm_unmap vm mc a = (Ok None, vm, mc)"
  using try_find_user_eq(2) [of vm a] by (simp add: vm_unmap_def)

lemma unmap_entry_ok:
  assumes "pt_ok pt" "pt_view pt (get_pte_index a) = Some p"
  shows "\<exists>pt'. unmap_entry pt a (te_frame p * FRAME_SIZE) = Ok (pt_nmapped pt', pt') \<and> pt_ok pt' \<and>
    pt_view pt' = (pt_view pt)(get_pte_index a := None) \<and> pt_storage pt' = pt_storage pt"
  using pt_unmap_ok [OF assms] pt_present(1) [OF assms] by (auto simp: unmap_entry_def)

lemma vm_unmap_ok:
  assumes ok: "mc_ok cf mc" "vm_ok vm" and u: "is_user_addr a" and v: "vm_view vm a = Some p"
    and solvent: "\<forall>k. vm_refs vm k \<le> mc_owners mc k"
  shows "\<exists>vm' mc'. vm_unmap vm mc a = (Ok (Some (te_frame p * FRAME_SIZE)), vm', mc') \<and> mc_ok cf mc' \<and> vm_ok vm' \<and>
    mc_mem mc' = mc_mem mc \<and> vm_view vm' = set_page (vm_view vm) a None \<and>
    balanced mc vm mc' vm' no_frame (one_frame (te_frame p))"
proof -
  let ?A = "pgtab_address a" and ?f = "te_frame p * FRAME_SIZE"
  obtain pt where pt: "map_of (vm_user_page_tables vm) ?A = Some pt" "pt_ok pt" "pt_view pt (get_pte_index a) = Some p"
    using table_of_page [OF ok(2) u v] .
  obtain pt' where pt': "unmap_entry pt a ?f = Ok (pt_nmapped pt', pt')" "pt_ok pt'"
    "pt_view pt' = (pt_view pt)(get_pte_index a := None)" "pt_storage pt' = pt_storage pt"
    using unmap_entry_ok [OF pt(2,3)] by blast
  obtain pde where pde: "cached_pde (vm_pgdir vm) ?A = Ok pde" "df_present (de_flags pde)"
    using cached_pde_user [OF ok(2) u] pt(1) by auto
  let ?op = "\<lambda>pt. unmap_entry pt a ?f"
  obtain vm1 where w: "with_user_table vm ?A ?op = (Ok (pt_nmapped pt'), vm1)" "vm_ok vm1"
    "vm_view vm1 = set_page (vm_view vm) a None" "refs_change vm (vm_view vm a) None vm1" "changed_table vm ?A pt' vm1"
    using change_entry [where op = ?op, OF ok(2) u pt(1) pt'] by blast
  have refs: "vm_refs vm k = vm_refs vm1 k + one_frame (te_frame p) k" for k
    using spec [OF w(4) [unfolded refs_change_def], of k] v by (simp add: frame_ref_def split: if_splits)
  have s1: "\<forall>k. vm_refs vm1 k \<le> mc_owners mc k" using solvent refs by (metis add_leD1)
  have e: "vm_unmap vm mc a =
      (if pt_nmapped pt' = 0
       then (case release_table vm1 mc ?A of
               (Ok _, vm, mc) \<Rightarrow> (Ok (Some ?f), vm, mc) | (Err e, vm, mc) \<Rightarrow> (Err e, vm, mc) | (Panic, vm, mc) \<Rightarrow> (Panic, vm, mc))
       else (Ok (Some ?f), vm1, mc))"
    using u try_find_user_eq(2) [OF ok(2) u] v pde w(1) by (simp add: vm_unmap_def)
  show ?thesis
  proof (cases "pt_nmapped pt' = 0")
    case True
    have "map_of (vm_user_page_tables vm1) ?A = Some pt'" using w(5) by (simp add: changed_table_def)
    from release_table_ok [OF ok(1) w(2) u this True s1]
    obtain vm' mc' where r: "release_table vm1 mc ?A = (Ok (), vm', mc')" "mc_ok cf mc'" "vm_ok vm'" "mc_mem mc' = mc_mem mc"
      "vm_view vm' = vm_view vm1" "balanced mc vm1 mc' vm' no_frame no_frame" by blast
    have "balanced mc vm mc' vm' no_frame (one_frame (te_frame p))" using r(6) refs by (simp add: balanced_def)
    then show ?thesis using e True r w(3) by simp
  next
    case False
    then show ?thesis using e w(2,3) ok(1) refs by (simp add: balanced_def)
  qed
qed

section \<open>Walking the mappings\<close>

definition mappings :: "vmem \<Rightarrow> (addr \<times> page_table_entry) list" where
  "mappings vm =
    concat (map (\<lambda>(a, pt). map (\<lambda>(i, p). (a + i * PAGE_SIZE, p)) (iter_present_ptes pt)) (vm_user_page_tables vm))"

fun fold_mappings ::
  "(addr \<Rightarrow> page_table_entry \<Rightarrow> 's \<Rightarrow> 's kres) \<Rightarrow> (addr \<times> page_table_entry) list \<Rightarrow> 's \<Rightarrow> 's kres" where
  "fold_mappings f [] s = Ok s"
| "fold_mappings f ((v, p) # ms) s = bind_res (f v p s) (fold_mappings f ms)"

lemma fold_mappings_append: "fold_mappings f (xs @ ys) s = bind_res (fold_mappings f xs s) (fold_mappings f ys)"
proof (induction xs arbitrary: s)
  case (Cons x xs)
  obtain v p where x: "x = (v, p)" by fastforce
  show ?case using Cons by (cases "f v p s") (simp_all add: x)
qed simp

lemma user_table_bound:
  assumes "a mod PGTAB_SIZE = 0" "is_user_addr a" "i < PAGE_TABLE_LENGTH"
  shows "is_user_addr (a + i * PAGE_SIZE)" "(a + i * PAGE_SIZE) mod PAGE_SIZE = 0"
    "(a + i * PAGE_SIZE) div PGTAB_SIZE * PGTAB_SIZE = a" "(a + i * PAGE_SIZE) div PAGE_SIZE mod PAGE_TABLE_LENGTH = i"
proof -
  obtain k where k: "a = k * PGTAB_SIZE" using assms(1) by (auto simp: mod_eq_0_iff_dvd dvd_def mult.commute)
  have "k < 960" using assms(2) k by (simp add: is_user_addr_def USER_END_def)
  then show "is_user_addr (a + i * PAGE_SIZE)" using assms(2,3) k by (simp add: is_user_addr_def USER_END_def)
  have e: "a + i * PAGE_SIZE = (k * PAGE_TABLE_LENGTH + i) * PAGE_SIZE" using k by simp
  then show "(a + i * PAGE_SIZE) mod PAGE_SIZE = 0" by simp
  show "(a + i * PAGE_SIZE) div PAGE_SIZE mod PAGE_TABLE_LENGTH = i" unfolding e using assms(3) by simp
  have "(k * PGTAB_SIZE + i * PAGE_SIZE) div PGTAB_SIZE = k"
    using assms(3) by (intro div_nat_eqI) simp_all
  then show "(a + i * PAGE_SIZE) div PGTAB_SIZE * PGTAB_SIZE = a" using k by simp
qed

lemma iter_bound: "pt_ok pt \<Longrightarrow> (i, p) \<in> set (iter_present_ptes pt) \<Longrightarrow> i < PAGE_TABLE_LENGTH"
  using pte_format.view_dom [of "pt_entries pt"] unfolding iter_present_ptes_set by (auto simp: pt_ok_def entries_ok_def)

lemma for_each_pte_eq:
  assumes "a mod PGTAB_SIZE = 0" "is_user_addr a" "\<forall>(i, p) \<in> set ps. i < PAGE_TABLE_LENGTH"
  shows "for_each_pte f a ps s = fold_mappings f (map (\<lambda>(i, p). (a + i * PAGE_SIZE, p)) ps) s"
  using assms(3)
proof (induction ps arbitrary: s)
  case (Cons x ps)
  obtain i p where x: "x = (i, p)" by fastforce
  then have i: "i < PAGE_TABLE_LENGTH" using Cons.prems by simp
  have "a + i * PAGE_SIZE \<le> USIZE_MAX" using user_addr_bound [OF user_table_bound(1) [OF assms(1,2) i]] .
  then have "mapping_address a i = Ok (a + i * PAGE_SIZE)"
    using user_table_bound(2) [OF assms(1,2) i] i
    by (simp add: mapping_address_def checked_mul_def checked_add_def page_aligned_from_address_def)
  moreover have "for_each_pte f a ps s' = fold_mappings f (map (\<lambda>(i, p). (a + i * PAGE_SIZE, p)) ps) s'" for s'
    using Cons by auto
  ultimately show ?case by (cases "f (a + i * PAGE_SIZE) p s") (simp_all add: x)
qed simp

lemma for_each_user_mapping_eq:
  assumes "vm_ok vm"
  shows "for_each_user_mapping vm f s = fold_mappings f (mappings vm) s"
proof -
  have "\<forall>(a, pt) \<in> set (vm_user_page_tables vm). table_ok (vm_pgdir vm) a pt" using assms by (simp add: vm_ok_def)
  then have "for_each_table f ts s = fold_mappings f
      (concat (map (\<lambda>(a, pt). map (\<lambda>(i, p). (a + i * PAGE_SIZE, p)) (iter_present_ptes pt)) ts)) s"
    if "set ts \<subseteq> set (vm_user_page_tables vm)" for ts s using that
  proof (induction ts arbitrary: s)
    case (Cons t ts)
    obtain a pt where t: "t = (a, pt)" by fastforce
    then have ok: "table_ok (vm_pgdir vm) a pt" using Cons.prems by auto
    have "\<forall>(i, p) \<in> set (iter_present_ptes pt). i < PAGE_TABLE_LENGTH" using ok iter_bound by (auto simp: table_ok_def)
    then have "for_each_pte f a (iter_present_ptes pt) s =
        fold_mappings f (map (\<lambda>(i, p). (a + i * PAGE_SIZE, p)) (iter_present_ptes pt)) s"
      using ok by (intro for_each_pte_eq) (simp_all add: table_ok_def)
    then show ?case using Cons
      by (cases "fold_mappings f (map (\<lambda>(i, p). (a + i * PAGE_SIZE, p)) (iter_present_ptes pt)) s")
         (simp_all add: t fold_mappings_append)
  qed simp
  then show ?thesis by (simp add: for_each_user_mapping_def mappings_def)
qed

lemma mappings_set:
  assumes "vm_ok vm"
  shows "set (mappings vm) = {(v, p). v mod PAGE_SIZE = 0 \<and> is_user_addr v \<and> vm_view vm v = Some p}"
proof -
  have t: "table_ok (vm_pgdir vm) a pt" if "(a, pt) \<in> set (vm_user_page_tables vm)" for a pt
    using assms that by (auto simp: vm_ok_def)
  have m: "(v, p) \<in> set (mappings vm) \<longleftrightarrow>
    (\<exists>a pt i. (a, pt) \<in> set (vm_user_page_tables vm) \<and> pt_view pt i = Some p \<and> v = a + i * PAGE_SIZE)" for v p
    by (force simp: mappings_def iter_present_ptes_set)
  have "(v, p) \<in> set (mappings vm) \<longleftrightarrow> v mod PAGE_SIZE = 0 \<and> is_user_addr v \<and> vm_view vm v = Some p" for v p
    unfolding m
  proof
    assume "\<exists>a pt i. (a, pt) \<in> set (vm_user_page_tables vm) \<and> pt_view pt i = Some p \<and> v = a + i * PAGE_SIZE"
    then obtain a pt i where x: "(a, pt) \<in> set (vm_user_page_tables vm)" "pt_view pt i = Some p" "v = a + i * PAGE_SIZE" by blast
    have ok: "a mod PGTAB_SIZE = 0" "is_user_addr a" "pt_ok pt" using t [OF x(1)] by (simp_all add: table_ok_def)
    have "i < PAGE_TABLE_LENGTH" using iter_bound [OF ok(3), of i p] x(2) by (simp add: iter_present_ptes_set)
    note b = user_table_bound [OF ok(1,2) this]
    have "map_of (vm_user_page_tables vm) a = Some pt" using map_of_in [OF vm_ok_parts(2) [OF assms]] x(1) by simp
    then show "v mod PAGE_SIZE = 0 \<and> is_user_addr v \<and> vm_view vm v = Some p" using b x(2,3) by (simp add: vm_view_def)
  next
    assume v: "v mod PAGE_SIZE = 0 \<and> is_user_addr v \<and> vm_view vm v = Some p"
    obtain pt where pt: "map_of (vm_user_page_tables vm) (pgtab_address v) = Some pt" "pt_ok pt" "pt_view pt (get_pte_index v) = Some p"
      using table_of_page [OF assms] v by metis
    have u: "is_user_addr v" using v by simp
    have "v = v div PAGE_SIZE * PAGE_SIZE" using v div_mult_mod_eq [of v PAGE_SIZE] by simp
    moreover have "v div PAGE_SIZE = v div PGTAB_SIZE * PAGE_TABLE_LENGTH + v div PAGE_SIZE mod PAGE_TABLE_LENGTH"
      using div_mult_mod_eq [of "v div PAGE_SIZE" PAGE_TABLE_LENGTH] by (simp add: div_mult2_eq [symmetric])
    ultimately have "v = pgtab_address v + get_pte_index v * PAGE_SIZE"
      unfolding pgtab_user(4) [OF u] pgtab_index(2) [OF u] by linarith
    then show "\<exists>a pt i. (a, pt) \<in> set (vm_user_page_tables vm) \<and> pt_view pt i = Some p \<and> v = a + i * PAGE_SIZE"
      using pt map_of_SomeD [OF pt(1)] by blast
  qed
  then show ?thesis by auto
qed

lemma filter_enumerate_fst:
  "distinct (map fst (List.map_filter (\<lambda>(i, w). map_option (\<lambda>p. (i, p)) (g w)) (enumerate n ws))) \<and>
    (\<forall>(i, p) \<in> set (List.map_filter (\<lambda>(i, w). map_option (\<lambda>p. (i, p)) (g w)) (enumerate n ws)). n \<le> i)"
proof (induction ws arbitrary: n)
  case (Cons w ws)
  have "\<forall>(i, p) \<in> set (List.map_filter (\<lambda>(i, w). map_option (\<lambda>p. (i, p)) (g w)) (enumerate (Suc n) ws)). n < i"
    using Cons [of "Suc n"] by auto
  then show ?case using Cons [of "Suc n"]
    by (cases "g w") (force simp: List.map_filter_simps)+
qed (simp add: List.map_filter_simps)

lemma iter_present_ptes_distinct: "distinct (map fst (iter_present_ptes pt))"
  using filter_enumerate_fst [of present_entry 0 "pt_entries pt"] by (simp add: iter_present_ptes_def)

lemma mappings_distinct:
  assumes "vm_ok vm"
  shows "distinct (map fst (mappings vm))"
proof -
  let ?g = "\<lambda>(a, pt). map (\<lambda>(i, p). (a + i * PAGE_SIZE, p)) (iter_present_ptes pt)"
  have t: "table_ok (vm_pgdir vm) a pt" if "(a, pt) \<in> set (vm_user_page_tables vm)" for a pt
    using assms that by (auto simp: vm_ok_def)
  have reg: "v div PGTAB_SIZE * PGTAB_SIZE = a"
    if m: "(a, pt) \<in> set (vm_user_page_tables vm)" "v \<in> fst ` set (?g (a, pt))" for a pt v
  proof -
    obtain i p where "v = a + i * PAGE_SIZE" "(i, p) \<in> set (iter_present_ptes pt)" using m(2) by auto
    then show ?thesis using t [OF m(1)] iter_bound user_table_bound(3) by (auto simp: table_ok_def)
  qed
  have "distinct (map fst (concat (map ?g ts)))"
    if "set ts \<subseteq> set (vm_user_page_tables vm)" "distinct (map fst ts)" for ts using that
  proof (induction ts)
    case (Cons x ts)
    obtain a pt where x: "x = (a, pt)" by fastforce
    have "map fst (?g x) = map (\<lambda>i. a + i * PAGE_SIZE) (map fst (iter_present_ptes pt))" by (simp add: x case_prod_beta)
    moreover have "distinct (map (\<lambda>i. a + i * PAGE_SIZE) (map fst (iter_present_ptes pt)))"
      using iter_present_ptes_distinct [of pt] by (simp only: distinct_map) (simp add: inj_on_def)
    ultimately have d: "distinct (map fst (?g x))" by metis
    have "fst ` set (?g x) \<inter> fst ` set (concat (map ?g ts)) = {}"
    proof (rule ccontr)
      assume "fst ` set (?g x) \<inter> fst ` set (concat (map ?g ts)) \<noteq> {}"
      then obtain v where v: "v \<in> fst ` set (?g (a, pt))" "v \<in> fst ` set (concat (map ?g ts))" unfolding x by blast
      then obtain y where y: "y \<in> set ts" "v \<in> fst ` set (?g y)" by (auto simp only: set_concat set_map image_Union image_image)
      obtain b q where "y = (b, q)" by fastforce
      then have v: "v \<in> fst ` set (?g (a, pt))" "(b, q) \<in> set ts" "v \<in> fst ` set (?g (b, q))" using v y by blast+
      then have "b = a" using reg [of a pt v] reg [of b q v] Cons.prems(1) x by auto
      then show False using v(2) Cons.prems(2) x by (auto simp: rev_image_eqI)
    qed
    then show ?case using d Cons by simp
  qed simp
  then show ?thesis using vm_ok_parts(2) [OF assms] by (simp add: mappings_def)
qed

section \<open>Correctness\<close>

definition empty_vmem :: "addr \<Rightarrow> vmem" where
  "empty_vmem page = \<lparr>vm_pgdir = page_directory_new, vm_pgdir_page = page, vm_user_page_tables = []\<rparr>"

lemma empty_vmem_ok: "vm_ok (empty_vmem page)" "vm_view (empty_vmem page) = Map.empty"
  "vm_refs (empty_vmem page) n = (if page = n * FRAME_SIZE then 1 else 0)"
  by (simp_all add: empty_vmem_def vm_ok_def page_directory_new_ok vm_view_def fun_eq_iff vm_refs_def)

definition example_cf :: kernel_config where
  "example_cf = \<lparr>kc_memory_size = 8388608, kc_store = example_store, kc_watermark = 0\<rparr>"

definition example_mc :: machine where
  "example_mc = \<lparr>mc_frames = sample_frames,
    mc_mem = snd (identity_map_init example_store 8388608 boot_memory 8192 8192)\<rparr>"

lemma example_mc_ok: "mc_ok example_cf example_mc"
proof -
  have "number_of_bits (frame_bitmap sample_frames) * FRAME_SIZE \<le> 8388608" by code_simp
  then show ?thesis using example_booted example_store_ok sample_frames_inv
    by (auto simp: mc_ok_def example_mc_def example_cf_def)
qed

text \<open>
  C36. Mapping a frame at a user address. If the page is free and, where it needs a new page table,
  a frame is left for it, the page, and no other, now has an entry with the frame and the access asked for;
  otherwise the map is unchanged and the frame is released. Either way no frame is leaked or freed
  twice: for every frame the change in its number of owners is the change in the references the
  address space holds, less the reference handed in. Bytes of frames in use do not change, and the
  address space and the machine stay well formed. Afterwards looking up the page finds the frame.
\<close>

theorem vm_map_correct:
  assumes "mc_ok cf mc" "vm_ok vm" "is_user_addr a" "0 < mc_owners mc n"
  shows "\<exists>r vm' mc'. vm_map cf vm mc (n * FRAME_SIZE) a access = (r, vm', mc') \<and> mc_ok cf mc' \<and> vm_ok vm' \<and>
    bytes_kept mc mc' \<and> balanced mc vm mc' vm' (one_frame n) no_frame \<and>
    (case r of
       Ok _ \<Rightarrow> vm_view vm a = None \<and> find_user_frame vm' a = Ok (n * FRAME_SIZE) \<and>
         vm_view vm' = set_page (vm_view vm) a (Some (mapped_pte n False False True access))
     | Err e \<Rightarrow> vm_view vm' = vm_view vm \<and> (if vm_view vm a = None then no_frame_left mc else True)
     | Panic \<Rightarrow> False)"
proof -
  obtain r vm' mc' where s: "vm_map cf vm mc (n * FRAME_SIZE) a access = (r, vm', mc')" "mc_ok cf mc'" "vm_ok vm'"
    "bytes_kept mc mc'" "balanced mc vm mc' vm' (one_frame n) no_frame"
    "r = Ok () \<and> vm_view vm a = None \<and> (\<forall>k. mc_owners mc k \<le> mc_owners mc' k) \<and>
       vm_view vm' = set_page (vm_view vm) a (Some (mapped_pte n False False True access)) \<or>
     (\<exists>e. r = Err e) \<and> vm_view vm' = vm_view vm \<and> (vm_view vm a \<noteq> None \<or> no_frame_left mc)" using vm_map_spec [OF assms, of access] by blast
  have "find_user_frame vm' a = Ok (n * FRAME_SIZE)"
    if "vm_view vm' = set_page (vm_view vm) a (Some (mapped_pte n False False True access))"
    using find_user_frame_mapped [OF s(3) assms(3)] that by (simp add: set_page_def mapped_pte_def)
  then show ?thesis using s by (intro exI [of _ r] exI [of _ vm'] exI [of _ mc']) auto
qed

lemma example_frame_left: "\<not> no_frame_left example_mc"
proof -
  have "is_ok (fst (frame_alloc sample_frames))" by code_simp
  then show ?thesis by (simp add: no_frame_left_def example_mc_def)
qed

lemma example_owners: "mc_owners example_mc 5 = 1" "mc_owners example_mc 6 = 2" "mc_owners example_mc 7 = 1"
  by (simp_all add: example_mc_def owners_def sample_frames_def)

lemma user_base: "is_user_addr USER_BASE"
  by (simp add: is_user_addr_def USER_BASE_def USER_END_def)

theorem vm_map_correct_witness:
  "\<exists>vm' mc'. vm_map example_cf (empty_vmem (7 * FRAME_SIZE)) example_mc (5 * FRAME_SIZE) USER_BASE RDWR = (Ok (), vm', mc') \<and>
    vm_ok vm' \<and> find_user_frame vm' USER_BASE = Ok (5 * FRAME_SIZE) \<and> mc_owners mc' 5 + 1 = 1 + vm_refs vm' 5"
proof -
  have o: "0 < mc_owners example_mc 5" using example_owners by simp
  obtain r vm' mc' where r: "vm_map example_cf (empty_vmem (7 * FRAME_SIZE)) example_mc (5 * FRAME_SIZE) USER_BASE RDWR = (r, vm', mc')"
    "vm_ok vm'" "balanced example_mc (empty_vmem (7 * FRAME_SIZE)) mc' vm' (one_frame 5) no_frame"
    "case r of
       Ok _ \<Rightarrow> vm_view (empty_vmem (7 * FRAME_SIZE)) USER_BASE = None \<and> find_user_frame vm' USER_BASE = Ok (5 * FRAME_SIZE) \<and>
         vm_view vm' = set_page (vm_view (empty_vmem (7 * FRAME_SIZE))) USER_BASE (Some (mapped_pte 5 False False True RDWR))
     | Err e \<Rightarrow> vm_view vm' = vm_view (empty_vmem (7 * FRAME_SIZE)) \<and>
         (if vm_view (empty_vmem (7 * FRAME_SIZE)) USER_BASE = None then no_frame_left example_mc else True)
     | Panic \<Rightarrow> False"
    using vm_map_correct [OF example_mc_ok empty_vmem_ok(1) user_base o, of "7 * FRAME_SIZE" RDWR] by blast
  have "mc_owners mc' 5 + 1 = 1 + vm_refs vm' 5"
    using spec [OF r(3) [unfolded balanced_def], of 5] example_owners by (simp add: empty_vmem_ok)
  then show ?thesis using r example_frame_left by (cases r) (auto simp: empty_vmem_ok)
qed

end
