(* ===== verification/Copy_On_Write.thy ===== *)
theory Copy_On_Write
  imports Address_Spaces
begin

text \<open>
  Resolution of copy-on-write pages (\<open>src/src/kernel/src/mm/virt/vmem.rs\<close>, and its use by the page-fault handler in
  \<open>src/src/kernel/src/mm/virt/manager.rs\<close>). The contents of an address space are the bytes its process
  reads; resolving never changes them, in any address space.
\<close>

section \<open>Model\<close>

subsection \<open>Resolution of shared pages\<close>

text \<open>The page is shared: copy it into a frame of its own and release the shared one.\<close>

definition copy_shared_page ::
  "kernel_config \<Rightarrow> vmem \<Rightarrow> machine \<Rightarrow> addr \<Rightarrow> page_table_entry \<Rightarrow> bool kres \<times> vmem \<times> machine" where
  "copy_shared_page cf vm mc vaddr pte =
    (case alloc_user_frame (kc_watermark cf) (mc_frames mc) of
       (Err e, f) \<Rightarrow> (Err e, vm, mc\<lparr>mc_frames := f\<rparr>)
     | (Panic, f) \<Rightarrow> (Panic, vm, mc\<lparr>mc_frames := f\<rparr>)
     | (Ok new_frame, f) \<Rightarrow>
         (case memcpy (kc_store cf) (kc_memory_size cf) (mc_mem mc) new_frame (pte_frame_address pte) PAGE_SIZE of
            (Err e, m) \<Rightarrow> (Err e, vm, drop_in (mc\<lparr>mc_frames := f, mc_mem := m\<rparr>) new_frame)
          | (Panic, m) \<Rightarrow> (Panic, vm, mc\<lparr>mc_frames := f, mc_mem := m\<rparr>)
          | (Ok _, m) \<Rightarrow>
              (case replace_user_page_cow_frame vm vaddr new_frame of
                 (Ok old_frame, vm) \<Rightarrow> (Ok True, vm, drop_in (mc\<lparr>mc_frames := f, mc_mem := m\<rparr>) old_frame)
               | (Err e, vm) \<Rightarrow> (Err e, vm, drop_in (mc\<lparr>mc_frames := f, mc_mem := m\<rparr>) new_frame)
               | (Panic, vm) \<Rightarrow> (Panic, vm, mc\<lparr>mc_frames := f, mc_mem := m\<rparr>))))"

definition resolve_cow_at :: "kernel_config \<Rightarrow> vmem \<Rightarrow> machine \<Rightarrow> addr \<Rightarrow> bool kres \<times> vmem \<times> machine" where
  "resolve_cow_at cf vm mc vaddr =
    (if \<not> is_user_addr vaddr then (Ok False, vm, mc)
     else case try_find_user_pte vm vaddr of
       Err e \<Rightarrow> (Err e, vm, mc)
     | Panic \<Rightarrow> (Panic, vm, mc)
     | Ok None \<Rightarrow> (Ok False, vm, mc)
     | Ok (Some pte) \<Rightarrow>
         if \<not> is_cow pte then (Ok False, vm, mc)
         else
           (case bind_res (from_frame_number (te_frame pte)) (frame_refcount (mc_frames mc)) of
              Err e \<Rightarrow> (Err e, vm, mc)
            | Panic \<Rightarrow> (Panic, vm, mc)
            | Ok n \<Rightarrow>
                if n = 1
                then (case unmark_user_page_cow vm vaddr of
                        (Ok _, vm) \<Rightarrow> (Ok True, vm, mc)
                      | (Err e, vm) \<Rightarrow> (Err e, vm, mc)
                      | (Panic, vm) \<Rightarrow> (Panic, vm, mc))
                else copy_shared_page cf vm mc vaddr pte))"

text \<open>The pages from \<open>page\<close> up to \<open>last_page\<close>, one after the other.\<close>

function resolve_pages :: "kernel_config \<Rightarrow> vmem \<Rightarrow> machine \<Rightarrow> addr \<Rightarrow> addr \<Rightarrow> unit kres \<times> vmem \<times> machine" where
  "resolve_pages cf vm mc page last_page =
    (case page_aligned_from_address page of
       Err e \<Rightarrow> (Err e, vm, mc)
     | Panic \<Rightarrow> (Panic, vm, mc)
     | Ok vaddr \<Rightarrow>
         (case resolve_cow_at cf vm mc vaddr of
            (Err e, vm, mc) \<Rightarrow> (Err e, vm, mc)
          | (Panic, vm, mc) \<Rightarrow> (Panic, vm, mc)
          | (Ok _, vm, mc) \<Rightarrow>
              if page = last_page then (Ok (), vm, mc)
              else case checked_add page PAGE_SIZE of
                     None \<Rightarrow> (fail BadAddress ''resolve_cow_for_region: page overflow'', vm, mc)
                   | Some next \<Rightarrow> resolve_pages cf vm mc next last_page))"
  by pat_completeness auto
termination
  by (relation "measure (\<lambda>(cf, vm, mc, page, last_page). USIZE_MAX - page)")
    (auto simp: checked_add_def split: if_splits)

declare resolve_pages.simps [simp del]

definition resolve_cow_for_region ::
  "kernel_config \<Rightarrow> vmem \<Rightarrow> machine \<Rightarrow> addr \<Rightarrow> usize \<Rightarrow> unit kres \<times> vmem \<times> machine" where
  "resolve_cow_for_region cf vm mc addr sz =
    (if sz = 0 then (Ok (), vm, mc)
     else case checked_add addr (sz - 1) of
       None \<Rightarrow> (fail BadAddress ''resolve_cow_for_region: overflow'', vm, mc)
     | Some end_inclusive \<Rightarrow>
         resolve_pages cf vm mc (align_down addr PAGE_ALIGNMENT) (align_down end_inclusive PAGE_ALIGNMENT))"

text \<open>The bits of the page-fault error code: a present page, a write, from user mode.\<close>

definition try_resolve_cow_fault ::
  "kernel_config \<Rightarrow> vmem \<Rightarrow> machine \<Rightarrow> addr \<Rightarrow> 32 word \<Rightarrow> bool kres \<times> vmem \<times> machine" where
  "try_resolve_cow_fault cf vm mc fault_addr error_code =
    (if \<not> bit error_code 0 \<or> \<not> bit error_code 1 \<or> \<not> bit error_code 2 then (Ok False, vm, mc)
     else case page_aligned_from_address (align_down fault_addr PAGE_ALIGNMENT) of
       Ok vaddr \<Rightarrow> resolve_cow_at cf vm mc vaddr
     | Err _ \<Rightarrow> (Ok False, vm, mc)
     | Panic \<Rightarrow> (Panic, vm, mc))"

section \<open>Contents of an address space\<close>

definition user_byte :: "machine \<Rightarrow> vmem \<Rightarrow> addr \<Rightarrow> u8 option" where
  "user_byte mc vm a =
    map_option (\<lambda>p. mc_bytes mc (te_frame p * FRAME_SIZE + a mod PAGE_SIZE)) (vm_view vm a)"

definition cow_ok :: "vmem \<Rightarrow> bool" where
  "cow_ok vm \<longleftrightarrow> (\<forall>a p. vm_view vm a = Some p \<and> is_cow p \<longrightarrow> \<not> is_writable p)"

lemma pt_view_finite: "pt_ok pt \<Longrightarrow> finite {i. \<exists>p. pt_view pt i = Some p \<and> te_frame p = n}"
  by (rule finite_subset [of _ "{..<PAGE_TABLE_LENGTH}"])
    (auto simp: entry_view_def pt_ok_def entries_ok_def split: if_splits)

lemma view_ref:
  assumes "vm_ok vm" "vm_view vm a = Some p"
  shows "0 < vm_refs vm (te_frame p)"
proof -
  obtain pt where pt: "map_of (vm_user_page_tables vm) (a div PGTAB_SIZE * PGTAB_SIZE) = Some pt"
    "pt_view pt (a div PAGE_SIZE mod PAGE_TABLE_LENGTH) = Some p"
    using assms(2) by (auto simp: vm_view_def split: option.splits)
  then have "pt_ok pt" using vm_ok_parts(3) [OF assms(1)] by (simp add: table_ok_def)
  with pt(2) have "0 < pt_refs pt (te_frame p)"
    using pt_view_finite [of pt "te_frame p"] by (auto simp: pt_refs_def card_gt_0_iff)
  moreover have "(a div PGTAB_SIZE * PGTAB_SIZE, pt) \<in># mset (vm_user_page_tables vm)"
    using map_of_SomeD [OF pt(1)] by simp
  then obtain M where "mset (vm_user_page_tables vm) = add_mset (a div PGTAB_SIZE * PGTAB_SIZE, pt) M"
    by (meson multi_member_split)
  ultimately show ?thesis by (simp add: vm_refs_def)
qed

text \<open>What is in memory stays visible to everybody who refers to it.\<close>

lemma contents_kept:
  assumes "bytes_kept mc mc'" "vm_ok vm" "\<forall>k. vm_refs vm k \<le> mc_owners mc k"
  shows "user_byte mc' vm = user_byte mc vm"
proof
  fix a
  have "mc_bytes mc' (te_frame p * FRAME_SIZE + a mod PAGE_SIZE) = mc_bytes mc (te_frame p * FRAME_SIZE + a mod PAGE_SIZE)"
    if "vm_view vm a = Some p" for p
  proof -
    have "0 < mc_owners mc (te_frame p)" using view_ref [OF assms(2) that] spec [OF assms(3), of "te_frame p"] by linarith
    then show ?thesis using assms(1) by (simp add: bytes_kept_def)
  qed
  then show "user_byte mc' vm a = user_byte mc vm a" by (cases "vm_view vm a") (simp_all add: user_byte_def)
qed

lemma balanced_covers:
  assumes "balanced mc vm mc' vm' no_frame no_frame" "\<forall>k. vm_refs vm k + other k \<le> mc_owners mc k"
  shows "\<forall>k. vm_refs vm' k + other k \<le> mc_owners mc' k"
proof
  fix k show "vm_refs vm' k + other k \<le> mc_owners mc' k"
    using spec [OF assms(2), of k] assms(1) [unfolded balanced_def, rule_format, of k] by linarith
qed

section \<open>Resolution\<close>

lemma alloc_user_frame_spec:
  assumes inv: "frames_inv f"
  shows "\<exists>r f'. alloc_user_frame wm f = (r, f') \<and> frames_inv f' \<and> same_shape f f' \<and>
    (if wm < free_count f
     then \<exists>n. r = Ok (n * FRAME_SIZE) \<and> owners f n = 0 \<and> owners f' = (owners f)(n := 1)
     else (\<exists>e. r = Err e) \<and> f' = f)"
proof (cases "wm < free_count f")
  case True
  have b: "free_count f \<le> length (refcount f)" "length (refcount f) \<le> FRAME_NUMBER_MAX + 1"
    using inv unfolding frames_inv_def free_count_def by linarith+
  then have "wm + 1 \<le> USIZE_MAX" using True by (simp add: FRAME_NUMBER_MAX_def)
  then have w: "check_user_watermark wm f 1 = Ok ()" using True by (simp add: check_user_watermark_def checked_add_def)
  have "usage (frame_bitmap f) + Suc 0 \<le> number_of_bits (frame_bitmap f)" using True by (simp add: free_count_def)
  from alloc_user_loop_spec [OF inv this, of "[]"] obtain ns f' where
    l: "alloc_user_loop (Suc 0) f [] = (Ok (map (\<lambda>n. n * FRAME_SIZE) ns), f')" "length ns = Suc 0"
      "\<forall>n \<in> set ns. owners f n = 0" "owners f' = (\<lambda>n. if n \<in> set ns then 1 else owners f n)"
      "frames_inv f'" "same_shape f f'" by auto
  obtain n where n: "ns = [n]" using l(2) by (auto simp: length_Suc_conv)
  have "upool_alloc f = (Ok (n * FRAME_SIZE), f')" using l(1) n by (auto split: prod.splits res.splits)
  then show ?thesis using True w l(3-6) n by (auto simp: alloc_user_frame_def fun_upd_def)
next
  case False
  then have "\<exists>e. check_user_watermark wm f 1 = Err e"
    by (auto simp: check_user_watermark_def fail_def split: option.split)
      (auto simp: checked_add_def split: if_splits)
  then show ?thesis using False inv by (auto simp: alloc_user_frame_def same_shape_def)
qed

lemma frame_refcount_owned:
  assumes "mc_ok cf mc" "0 < mc_owners mc n"
  shows "frame_refcount (mc_frames mc) (n * FRAME_SIZE) = Ok (mc_owners mc n)"
  using owned_frame(4) [OF assms] assms(2) by (auto simp: frame_refcount_def owners_def split: if_splits)

lemma in_frame_div: "n * FRAME_SIZE \<le> a \<Longrightarrow> a < n * FRAME_SIZE + PAGE_SIZE \<Longrightarrow> a div FRAME_SIZE = (n :: nat)"
  by (simp add: div_nat_eqI mult.commute)

lemma frames_apart:
  "n \<noteq> m \<Longrightarrow> {n * FRAME_SIZE..<n * FRAME_SIZE + PAGE_SIZE} \<inter> {m * FRAME_SIZE..<m * FRAME_SIZE + PAGE_SIZE} = {}"
  using in_frame_div by fastforce

lemma view_same_page: "b div PAGE_SIZE = a div PAGE_SIZE \<Longrightarrow> vm_view vm b = vm_view vm a"
  using same_page [of b a] by (simp add: vm_view_def split: option.split)

lemma resolved_contents:
  assumes v: "vm_view vm' = set_page (vm_view vm) a (Some (resolved_pte p n))" "vm_view vm a = Some p" "vm_ok vm"
    and copied: "\<And>i. i < PAGE_SIZE \<Longrightarrow> mc_bytes mc' (n * FRAME_SIZE + i) = mc_bytes mc (te_frame p * FRAME_SIZE + i)"
    and kept: "bytes_kept mc mc'" "\<forall>k. vm_refs vm k \<le> mc_owners mc k"
  shows "user_byte mc' vm' = user_byte mc vm"
proof
  fix b
  show "user_byte mc' vm' b = user_byte mc vm b"
  proof (cases "b div PAGE_SIZE = a div PAGE_SIZE")
    case True
    then have "vm_view vm b = Some p" using v(2) view_same_page [of b a vm] by simp
    then show ?thesis using True v(1) copied by (simp add: user_byte_def set_page_def resolved_pte_def)
  next
    case False
    then have "user_byte mc' vm' b = user_byte mc' vm b" using v(1) by (simp add: user_byte_def set_page_def)
    then show ?thesis using contents_kept [OF kept(1) v(3) kept(2)] by simp
  qed
qed

lemma free_count_step:
  assumes "frames_inv f" "frames_inv f'" "same_shape f f'" "owners f' = (owners f)(n := 1, m := x)" "0 < owners f m"
  shows "free_count f \<le> free_count f' + 1"
proof -
  have "{k. 0 < owners f' k} \<subseteq> insert n {k. 0 < owners f k}" using assms(4,5) by (auto split: if_splits)
  then have "card {k. 0 < owners f' k} \<le> card (insert n {k. 0 < owners f k})"
    using finite_owned [of f] by (intro card_mono) auto
  also have "\<dots> \<le> Suc (card {k. 0 < owners f k})" using finite_owned [of f] by (simp add: card_insert_if)
  finally show ?thesis using usage_owners [OF assms(1)] usage_owners [OF assms(2)] assms(3)
    by (simp add: free_count_def same_shape_def)
qed

lemma copy_shared_page_spec:
  assumes ok: "mc_ok cf mc" "vm_ok vm" "is_user_addr a"
    and p: "vm_view vm a = Some p" "is_cow p" "\<not> is_writable p"
    and refs: "\<forall>k. vm_refs vm k \<le> mc_owners mc k"
  shows "\<exists>r vm' mc'. copy_shared_page cf vm mc a p = (r, vm', mc') \<and> mc_ok cf mc' \<and> vm_ok vm' \<and>
    balanced mc vm mc' vm' no_frame no_frame \<and> bytes_kept mc mc' \<and> user_byte mc' vm' = user_byte mc vm \<and>
    (\<forall>k. 0 < mc_owners mc k \<longrightarrow> mc_owners mc' k \<le> mc_owners mc k) \<and>
    free_count (mc_frames mc) \<le> free_count (mc_frames mc') + 1 \<and>
    (if kc_watermark cf < free_count (mc_frames mc)
     then r = Ok True \<and> (\<exists>n. mc_owners mc' n = 1 \<and> vm_view vm' = set_page (vm_view vm) a (Some (resolved_pte p n)))
     else (\<exists>e. r = Err e) \<and> vm' = vm \<and> mc' = mc)"
proof -
  let ?n = "te_frame p"
  have owned: "0 < mc_owners mc ?n" using view_ref [OF ok(2) p(1)] spec [OF refs, of ?n] by linarith
  obtain r f where al: "alloc_user_frame (kc_watermark cf) (mc_frames mc) = (r, f)" "frames_inv f"
    "same_shape (mc_frames mc) f"
    "if kc_watermark cf < free_count (mc_frames mc)
     then \<exists>n. r = Ok (n * FRAME_SIZE) \<and> mc_owners mc n = 0 \<and> owners f = (mc_owners mc)(n := 1)
     else (\<exists>e. r = Err e) \<and> f = mc_frames mc"
    using alloc_user_frame_spec [OF mc_ok_parts(2) [OF ok(1)]] by blast
  show ?thesis
  proof (cases "kc_watermark cf < free_count (mc_frames mc)")
    case False
    then show ?thesis using al ok(1,2) by (auto simp: copy_shared_page_def balanced_def bytes_kept_def)
  next
    case True
    with al(4) obtain n where n: "r = Ok (n * FRAME_SIZE)" "mc_owners mc n = 0" "owners f = (mc_owners mc)(n := 1)" by auto
    have ne: "n \<noteq> ?n" using n(2) owned by auto
    let ?mc = "mc\<lparr>mc_frames := f\<rparr>"
    have ok1: "mc_ok cf ?mc" by (rule mc_ok_frames [OF ok(1) al(2,3)])
    have size: "n * FRAME_SIZE + PAGE_SIZE \<le> kc_memory_size cf" "?n * FRAME_SIZE + PAGE_SIZE \<le> kc_memory_size cf"
      using owned_frame(2) [OF ok1, of n] owned_frame(2) [OF ok(1) owned] n(3) by simp_all
    have apart: "{n * FRAME_SIZE..<n * FRAME_SIZE + PAGE_SIZE} \<inter> {?n * FRAME_SIZE..<?n * FRAME_SIZE + PAGE_SIZE} = {}"
      using ne by (rule frames_apart)
    obtain m where m: "memcpy (kc_store cf) (kc_memory_size cf) (mc_mem mc) (n * FRAME_SIZE) (?n * FRAME_SIZE) PAGE_SIZE = (Ok (), m)"
      "idmap_inv (kc_store cf) (kc_memory_size cf) m"
      "phys_bytes m = fast_memcpy (mc_bytes mc) (n * FRAME_SIZE) (?n * FRAME_SIZE) PAGE_SIZE"
      using memcpy_spec [OF mc_ok_parts(1,3) [OF ok(1)], of "n * FRAME_SIZE" "?n * FRAME_SIZE" PAGE_SIZE] size apart by auto
    let ?mc1 = "mc\<lparr>mc_frames := f, mc_mem := m\<rparr>"
    have ok2: "mc_ok cf ?mc1" using mc_ok_mem [OF ok1 m(2)] by simp
    have "into_frame_number (n * FRAME_SIZE) = Ok n" using owned_frame(4) [OF ok1, of n] n(3) by simp
    from replace_user_page_cow_frame_ok [OF ok(2,3) p this] obtain vm' where
      vm': "replace_user_page_cow_frame vm a (n * FRAME_SIZE) = (Ok (?n * FRAME_SIZE), vm')" "vm_ok vm'"
        "vm_view vm' = set_page (vm_view vm) a (Some (resolved_pte p n))"
        "refs_change vm (Some p) (Some (resolved_pte p n)) vm'" by blast
    let ?mc2 = "drop_in ?mc1 (?n * FRAME_SIZE)"
    have "0 < mc_owners ?mc1 ?n" using n(3) ne owned by simp
    note d = drop_in_ok [OF ok2 this]
    have o2: "mc_owners ?mc2 = (mc_owners mc)(n := 1, ?n := mc_owners mc ?n - 1)" using d(2) n(3) ne by auto
    have eq: "copy_shared_page cf vm mc a p = (Ok True, vm', ?mc2)"
      using al(1) n(1) m(1) vm'(1) by (simp add: copy_shared_page_def pte_frame_address_def)
    have bal: "balanced mc vm ?mc2 vm' no_frame no_frame"
      unfolding balanced_def
    proof
      fix k show "mc_owners ?mc2 k + vm_refs vm k + 0 = mc_owners mc k + vm_refs vm' k + 0"
        using vm'(4) [unfolded refs_change_def, rule_format, of k] o2 n(2) owned ne
        by (simp add: frame_ref_def resolved_pte_def split: if_splits)
    qed
    have bytes: "mc_bytes ?mc2 = fast_memcpy (mc_bytes mc) (n * FRAME_SIZE) (?n * FRAME_SIZE) PAGE_SIZE"
      using d(3) m(3) by simp
    have kept: "bytes_kept mc ?mc2"
      using n(2) unfolding bytes_kept_def bytes fast_memcpy_def by (auto simp: in_frame_div)
    have "user_byte ?mc2 vm' = user_byte mc vm"
      using bytes by (intro resolved_contents [OF vm'(3) p(1) ok(2) _ kept refs]) (simp add: fast_memcpy_def)
    moreover have "free_count (mc_frames mc) \<le> free_count (mc_frames ?mc2) + 1"
    proof (rule free_count_step [OF mc_ok_parts(2) [OF ok(1)] mc_ok_parts(2) [OF d(1)] _ o2 owned])
      show "same_shape (mc_frames mc) (mc_frames ?mc2)"
        using drop_frame_spec(2) [OF al(2), of ?n] n(3) ne owned al(3) by (simp add: drop_in_def same_shape_def)
    qed
    moreover have "\<forall>k. 0 < mc_owners mc k \<longrightarrow> mc_owners ?mc2 k \<le> mc_owners mc k" using o2 n(2) by auto
    ultimately show ?thesis using eq d(1) vm'(2,3) bal kept True o2 ne
      by (intro exI [of _ "Ok True"] exI [of _ vm'] exI [of _ ?mc2]) auto
  qed
qed

text \<open>
  What resolving does to an address space while \<open>other\<close> counts the references to frames from elsewhere:
  nothing its process or the others could see in memory.
\<close>

definition resolves ::
  "kernel_config \<Rightarrow> (nat \<Rightarrow> nat) \<Rightarrow> machine \<Rightarrow> vmem \<Rightarrow> machine \<Rightarrow> vmem \<Rightarrow> bool" where
  "resolves cf other mc vm mc' vm' \<longleftrightarrow>
    mc_ok cf mc' \<and> vm_ok vm' \<and> cow_ok vm' \<and> (\<forall>k. vm_refs vm' k + other k \<le> mc_owners mc' k) \<and>
    balanced mc vm mc' vm' no_frame no_frame \<and> (\<forall>k. 0 < other k \<longrightarrow> vm_refs vm' k \<le> vm_refs vm k) \<and>
    (\<forall>a. 0 < other (a div FRAME_SIZE) \<longrightarrow> mc_bytes mc' a = mc_bytes mc a) \<and>
    user_byte mc' vm' = user_byte mc vm"

text \<open>An entry after resolution: a copy-on-write page got a frame that nobody else refers to.\<close>

definition entry_resolved ::
  "(nat \<Rightarrow> nat) \<Rightarrow> page_table_entry option \<Rightarrow> page_table_entry option \<Rightarrow> bool" where
  "entry_resolved other old new \<longleftrightarrow>
    (case old of
       None \<Rightarrow> new = None
     | Some p \<Rightarrow> if is_cow p then \<exists>n. new = Some (resolved_pte p n) \<and> other n = 0 else new = Some p)"

lemma resolves_refl:
  assumes "mc_ok cf mc" "vm_ok vm" "cow_ok vm" "\<forall>k. vm_refs vm k + other k \<le> mc_owners mc k"
  shows "resolves cf other mc vm mc vm"
  using assms by (simp add: resolves_def balanced_def)

lemma resolves_trans:
  assumes "resolves cf other mc vm mc1 vm1" "resolves cf other mc1 vm1 mc2 vm2"
  shows "resolves cf other mc vm mc2 vm2"
proof -
  have b: "balanced mc vm mc1 vm1 no_frame no_frame" "balanced mc1 vm1 mc2 vm2 no_frame no_frame"
    using assms by (simp_all add: resolves_def)
  have "balanced mc vm mc2 vm2 no_frame no_frame"
    unfolding balanced_def
  proof
    fix k show "mc_owners mc2 k + vm_refs vm k + 0 = mc_owners mc k + vm_refs vm2 k + 0"
      using spec [OF b(1) [unfolded balanced_def], of k] spec [OF b(2) [unfolded balanced_def], of k] by simp
  qed
  moreover have "\<forall>k. 0 < other k \<longrightarrow> vm_refs vm2 k \<le> vm_refs vm k"
    using assms unfolding resolves_def by (meson le_trans)
  ultimately show ?thesis using assms by (simp add: resolves_def)
qed

lemma resolved_flags: "\<not> is_cow (resolved_pte p n)" "is_writable (resolved_pte p n)" "te_frame (resolved_pte p n) = n"
  by (simp_all add: resolved_pte_def entry_defs)

lemma unmarked_pte: "set_read_write True (set_cow False p) = resolved_pte p (te_frame p)"
  by (cases p) (simp add: resolved_pte_def entry_defs)

lemma cow_ok_set_page: "cow_ok vm \<Longrightarrow> vm_view vm' = set_page (vm_view vm) a (Some (resolved_pte p n)) \<Longrightarrow> cow_ok vm'"
  by (auto simp: cow_ok_def set_page_def resolved_flags split: if_splits)

lemma resolve_cow_at_spec:
  assumes ok: "mc_ok cf mc" "vm_ok vm" "cow_ok vm" and refs: "\<forall>k. vm_refs vm k + other k \<le> mc_owners mc k"
    and u: "is_user_addr a"
  shows "\<exists>r vm' mc'. resolve_cow_at cf vm mc a = (r, vm', mc') \<and> resolves cf other mc vm mc' vm' \<and>
    free_count (mc_frames mc) \<le> free_count (mc_frames mc') + 1 \<and>
    (case vm_view vm a of
       None \<Rightarrow> r = Ok False \<and> vm' = vm \<and> mc' = mc
     | Some p \<Rightarrow>
         if \<not> is_cow p then r = Ok False \<and> vm' = vm \<and> mc' = mc
         else if mc_owners mc (te_frame p) = 1 \<or> kc_watermark cf < free_count (mc_frames mc)
         then r = Ok True \<and>
           (\<exists>n. mc_owners mc' n = 1 \<and> other n = 0 \<and> vm_view vm' = set_page (vm_view vm) a (Some (resolved_pte p n)))
         else (\<exists>e. r = Err e) \<and> vm' = vm \<and> mc' = mc)"
proof (cases "vm_view vm a")
  case None
  then show ?thesis using u try_find_user_eq(1) [OF ok(2) u] resolves_refl [OF ok refs] by (simp add: resolve_cow_at_def)
next
  case (Some p)
  let ?n = "te_frame p"
  have le: "\<forall>k. vm_refs vm k \<le> mc_owners mc k" using refs by (meson add_leD1)
  have owned: "0 < vm_refs vm ?n" "0 < mc_owners mc ?n"
    using view_ref [OF ok(2) Some] spec [OF le, of ?n] by linarith+
  have start: "resolve_cow_at cf vm mc a =
      (if \<not> is_cow p then (Ok False, vm, mc)
       else if mc_owners mc ?n = 1
       then (case unmark_user_page_cow vm a of
               (Ok _, vm) \<Rightarrow> (Ok True, vm, mc) | (Err e, vm) \<Rightarrow> (Err e, vm, mc) | (Panic, vm) \<Rightarrow> (Panic, vm, mc))
       else copy_shared_page cf vm mc a p)"
    using u try_find_user_eq(1) [OF ok(2) u] Some frame_refcount_owned [OF ok(1) owned(2)]
    by (simp add: resolve_cow_at_def)
  consider "\<not> is_cow p" | "is_cow p" "mc_owners mc ?n = 1" | "is_cow p" "mc_owners mc ?n \<noteq> 1" by blast
  then show ?thesis
  proof cases
    case 1
    then show ?thesis using start resolves_refl [OF ok refs] Some by simp
  next
    case 2
    obtain vm' where vm': "unmark_user_page_cow vm a = (Ok (), vm')" "vm_ok vm'"
      "vm_view vm' = set_page (vm_view vm) a (Some (resolved_pte p ?n))" "vm_refs vm' = vm_refs vm"
      using unmark_user_page_cow_ok [OF ok(2) u Some 2(1)] unfolding unmarked_pte by blast
    have "user_byte mc vm' = user_byte mc vm"
      by (rule resolved_contents [OF vm'(3) Some ok(2) _ _ le]) (simp_all add: bytes_kept_def)
    then have "resolves cf other mc vm mc vm'"
      using ok refs vm'(2,4) cow_ok_set_page [OF ok(3) vm'(3)] by (simp add: resolves_def balanced_def)
    moreover have "other ?n = 0" using spec [OF refs, of ?n] owned(1) 2(2) by linarith
    ultimately show ?thesis using start vm'(1,3) 2 Some by auto
  next
    case 3
    have "\<not> is_writable p" using ok(3) Some 3(1) by (simp add: cow_ok_def)
    from copy_shared_page_spec [OF ok(1,2) u Some 3(1) this le] obtain r vm' mc' where
      c: "copy_shared_page cf vm mc a p = (r, vm', mc')" "mc_ok cf mc'" "vm_ok vm'"
        "balanced mc vm mc' vm' no_frame no_frame" "bytes_kept mc mc'" "user_byte mc' vm' = user_byte mc vm"
        "\<forall>k. 0 < mc_owners mc k \<longrightarrow> mc_owners mc' k \<le> mc_owners mc k"
        "free_count (mc_frames mc) \<le> free_count (mc_frames mc') + 1"
        "if kc_watermark cf < free_count (mc_frames mc)
         then r = Ok True \<and> (\<exists>n. mc_owners mc' n = 1 \<and> vm_view vm' = set_page (vm_view vm) a (Some (resolved_pte p n)))
         else (\<exists>e. r = Err e) \<and> vm' = vm \<and> mc' = mc" by blast
    have cov: "\<forall>k. vm_refs vm' k + other k \<le> mc_owners mc' k" by (rule balanced_covers [OF c(4) refs])
    have "vm_refs vm' k \<le> vm_refs vm k" if "0 < other k" for k
    proof -
      have "0 < mc_owners mc k" using that spec [OF refs, of k] by linarith
      then show ?thesis using c(4) [unfolded balanced_def, rule_format, of k] spec [OF c(7), of k] by simp
    qed
    moreover have "cow_ok vm'" using c(9) ok(3) cow_ok_set_page by (auto split: if_splits)
    moreover have "0 < other (b div FRAME_SIZE) \<Longrightarrow> mc_bytes mc' b = mc_bytes mc b" for b
    proof -
      assume "0 < other (b div FRAME_SIZE)"
      then have "0 < mc_owners mc (b div FRAME_SIZE)" using spec [OF refs, of "b div FRAME_SIZE"] by linarith
      then show ?thesis using c(5) by (simp add: bytes_kept_def)
    qed
    ultimately have "resolves cf other mc vm mc' vm'" using c cov by (simp add: resolves_def)
    moreover have "other n = 0" if "mc_owners mc' n = 1" "vm_view vm' = set_page (vm_view vm) a (Some (resolved_pte p n))" for n
    proof -
      have "vm_view vm' a = Some (resolved_pte p n)" using that(2) by (simp add: set_page_def)
      from view_ref [OF c(3) this] show ?thesis using spec [OF cov, of n] that(1) by (simp add: resolved_flags)
    qed
    ultimately show ?thesis using start c(1,8,9) 3 Some
      by (intro exI [of _ r] exI [of _ vm'] exI [of _ mc']) (simp split: if_splits, blast)
  qed
qed

lemma entry_resolved_page:
  assumes "vm_view vm a = Some p" "is_cow p" "other n = 0" "b div PAGE_SIZE = a div PAGE_SIZE"
  shows "entry_resolved other (vm_view vm b) (Some (resolved_pte p n))"
  using view_same_page [OF assms(4), of vm] assms by (auto simp: entry_resolved_def)

lemma user_page:
  "is_user_addr (b div PAGE_SIZE * PAGE_SIZE) \<longleftrightarrow> is_user_addr b"
proof -
  have "is_user_addr c \<longleftrightarrow> 262144 \<le> c div PAGE_SIZE \<and> c div PAGE_SIZE < 983040" for c
    using less_eq_div_iff_mult_less_eq [of PAGE_SIZE 262144 c] div_less_iff_less_mult [of PAGE_SIZE c 983040]
    by (simp add: is_user_addr_def USER_BASE_def USER_END_def)
  then show ?thesis by simp
qed

text \<open>The pages with numbers from \<open>lo\<close> up to \<open>hi\<close> are resolved, the others are as before.\<close>

definition resolved_range :: "(nat \<Rightarrow> nat) \<Rightarrow> nat \<Rightarrow> nat \<Rightarrow> vmem \<Rightarrow> vmem \<Rightarrow> bool" where
  "resolved_range other lo hi vm vm' \<longleftrightarrow>
    (\<forall>b. if is_user_addr b \<and> lo \<le> b div PAGE_SIZE \<and> b div PAGE_SIZE < hi
         then entry_resolved other (vm_view vm b) (vm_view vm' b) else vm_view vm' b = vm_view vm b)"

lemma resolved_range_join:
  assumes "resolved_range other i j vm vm1" "resolved_range other j k vm1 vm2" "i \<le> j" "j \<le> k"
  shows "resolved_range other i k vm vm2"
  unfolding resolved_range_def
proof
  fix b
  show "if is_user_addr b \<and> i \<le> b div PAGE_SIZE \<and> b div PAGE_SIZE < k
      then entry_resolved other (vm_view vm b) (vm_view vm2 b) else vm_view vm2 b = vm_view vm b"
    using spec [OF assms(1) [unfolded resolved_range_def], of b] spec [OF assms(2) [unfolded resolved_range_def], of b] assms(3,4)
    by (auto split: if_splits)
qed

lemma resolve_page_step:
  assumes ok: "mc_ok cf mc" "vm_ok vm" "cow_ok vm" and refs: "\<forall>k. vm_refs vm k + other k \<le> mc_owners mc k"
  shows "\<exists>r vm' mc'. resolve_cow_at cf vm mc (i * PAGE_SIZE) = (r, vm', mc') \<and> resolves cf other mc vm mc' vm' \<and>
    free_count (mc_frames mc) \<le> free_count (mc_frames mc') + 1 \<and>
    ((\<exists>x. r = Ok x) \<and> resolved_range other i (Suc i) vm vm' \<or>
     (\<exists>e. r = Err e) \<and> resolved_range other i i vm vm' \<and> free_count (mc_frames mc) \<le> kc_watermark cf)"
proof (cases "is_user_addr (i * PAGE_SIZE)")
  case False
  have "\<not> is_user_addr b" if "b div PAGE_SIZE = i" for b using False user_page [of b] that by simp
  then have "resolved_range other i (Suc i) vm vm" by (auto simp: resolved_range_def less_Suc_eq_le dest: order_antisym)
  then show ?thesis using False resolves_refl [OF ok refs] by (auto simp: resolve_cow_at_def)
next
  case True
  let ?a = "i * PAGE_SIZE"
  from resolve_cow_at_spec [OF ok refs True] obtain r vm' mc' where s:
    "resolve_cow_at cf vm mc ?a = (r, vm', mc')" "resolves cf other mc vm mc' vm'"
    "free_count (mc_frames mc) \<le> free_count (mc_frames mc') + 1"
    "case vm_view vm ?a of
       None \<Rightarrow> r = Ok False \<and> vm' = vm \<and> mc' = mc
     | Some p \<Rightarrow>
         if \<not> is_cow p then r = Ok False \<and> vm' = vm \<and> mc' = mc
         else if mc_owners mc (te_frame p) = 1 \<or> kc_watermark cf < free_count (mc_frames mc)
         then r = Ok True \<and>
           (\<exists>n. mc_owners mc' n = 1 \<and> other n = 0 \<and> vm_view vm' = set_page (vm_view vm) ?a (Some (resolved_pte p n)))
         else (\<exists>e. r = Err e) \<and> vm' = vm \<and> mc' = mc" by blast
  have same: "vm_view vm b = vm_view vm ?a" if "b div PAGE_SIZE = i" for b by (rule view_same_page) (simp add: that)
  have range: "resolved_range other i (Suc i) vm vm'"
    if "\<And>b. b div PAGE_SIZE = i \<Longrightarrow> entry_resolved other (vm_view vm b) (vm_view vm' b)"
      "\<And>b. b div PAGE_SIZE \<noteq> i \<Longrightarrow> vm_view vm' b = vm_view vm b" "\<And>b. b div PAGE_SIZE = i \<Longrightarrow> is_user_addr b"
    using that unfolding resolved_range_def by (metis less_Suc_eq_le order_antisym order_refl)
  have user: "is_user_addr b" if "b div PAGE_SIZE = i" for b using True user_page [of b] that by simp
  show ?thesis
  proof (cases "\<exists>p. vm_view vm ?a = Some p \<and> is_cow p")
    case False
    then have r: "r = Ok False \<and> vm' = vm" using s(4) by (auto split: option.splits)
    have "entry_resolved other (vm_view vm b) (vm_view vm b)" if "b div PAGE_SIZE = i" for b
      using False same [OF that] by (auto simp: entry_resolved_def split: option.split)
    then have "resolved_range other i (Suc i) vm vm'" using r user by (intro range) auto
    then show ?thesis using s(1-3) r by auto
  next
    case True
    then obtain p where p: "vm_view vm ?a = Some p" "is_cow p" by blast
    show ?thesis
    proof (cases "mc_owners mc (te_frame p) = 1 \<or> kc_watermark cf < free_count (mc_frames mc)")
      case True
      with s(4) p obtain n where n: "r = Ok True" "other n = 0" "vm_view vm' = set_page (vm_view vm) ?a (Some (resolved_pte p n))" by auto
      have "resolved_range other i (Suc i) vm vm'"
        using n(3) user entry_resolved_page [where other = other, OF p n(2)] by (intro range) (simp_all add: set_page_def)
      then show ?thesis using s(1-3) n(1) by auto
    next
      case False
      then have "(\<exists>e. r = Err e) \<and> vm' = vm \<and> mc' = mc" using s(4) p by simp
      then show ?thesis using s(1-3) False by (auto simp: resolved_range_def)
    qed
  qed
qed

lemma resolve_pages_spec:
  assumes "mc_ok cf mc" "vm_ok vm" "cow_ok vm" "\<forall>k. vm_refs vm k + other k \<le> mc_owners mc k" "i \<le> j" "j * PAGE_SIZE \<le> USIZE_MAX"
  shows "\<exists>r vm' mc' h. resolve_pages cf vm mc (i * PAGE_SIZE) (j * PAGE_SIZE) = (r, vm', mc') \<and> resolves cf other mc vm mc' vm' \<and>
    i \<le> h \<and> resolved_range other i h vm vm' \<and>
    (r = Ok () \<and> h = Suc j \<or> (\<exists>e. r = Err e) \<and> h \<le> j \<and> free_count (mc_frames mc) \<le> kc_watermark cf + (h - i))"
  using assms
proof (induction "j - i" arbitrary: i vm mc)
  case 0
  then have e: "i = j" by simp
  obtain r vm' mc' where s: "resolve_cow_at cf vm mc (j * PAGE_SIZE) = (r, vm', mc')" "resolves cf other mc vm mc' vm'"
    "free_count (mc_frames mc) \<le> free_count (mc_frames mc') + 1"
    "(\<exists>x. r = Ok x) \<and> resolved_range other j (Suc j) vm vm' \<or>
     (\<exists>e. r = Err e) \<and> resolved_range other j j vm vm' \<and> free_count (mc_frames mc) \<le> kc_watermark cf"
    using resolve_page_step [OF 0(2-5), of j] by blast
  have "resolve_pages cf vm mc (j * PAGE_SIZE) (j * PAGE_SIZE) = (bind_res r (\<lambda>_. Ok ()), vm', mc')"
    using s(1) by (subst resolve_pages.simps) (simp add: page_aligned_from_address_def split: res.split)
  then show ?case unfolding e using s(2,4) by auto
next
  case (Suc x)
  obtain r vm1 mc1 where s: "resolve_cow_at cf vm mc (i * PAGE_SIZE) = (r, vm1, mc1)" "resolves cf other mc vm mc1 vm1"
    "free_count (mc_frames mc) \<le> free_count (mc_frames mc1) + 1"
    "(\<exists>x. r = Ok x) \<and> resolved_range other i (Suc i) vm vm1 \<or>
     (\<exists>e. r = Err e) \<and> resolved_range other i i vm vm1 \<and> free_count (mc_frames mc) \<le> kc_watermark cf"
    using resolve_page_step [OF Suc.prems(1-4), of i] by blast
  have ne: "i * PAGE_SIZE \<noteq> j * PAGE_SIZE" "Suc i \<le> j" "x = j - Suc i" using Suc(2) by auto
  have nxt: "checked_add (i * PAGE_SIZE) PAGE_SIZE = Some (Suc i * PAGE_SIZE)"
    using ne(2) Suc.prems(6) by (simp add: checked_add_def)
  show ?case
  proof (cases "\<exists>x. r = Ok x")
    case False
    then obtain e where e: "r = Err e" "resolved_range other i i vm vm1" "free_count (mc_frames mc) \<le> kc_watermark cf"
      using s(4) by auto
    have "resolve_pages cf vm mc (i * PAGE_SIZE) (j * PAGE_SIZE) = (Err e, vm1, mc1)"
      using s(1) e(1) by (subst resolve_pages.simps) (simp add: page_aligned_from_address_def)
    then show ?thesis using s(2) e(2,3) Suc.prems(5) by auto
  next
    case True
    then have rr: "resolved_range other i (Suc i) vm vm1" using s(4) by auto
    have eq: "resolve_pages cf vm mc (i * PAGE_SIZE) (j * PAGE_SIZE) = resolve_pages cf vm1 mc1 (Suc i * PAGE_SIZE) (j * PAGE_SIZE)"
      using s(1) True ne(1) nxt by (subst resolve_pages.simps) (auto simp: page_aligned_from_address_def)
    have ok: "mc_ok cf mc1" "vm_ok vm1" "cow_ok vm1" "\<forall>k. vm_refs vm1 k + other k \<le> mc_owners mc1 k"
      using s(2) by (simp_all add: resolves_def)
    from Suc(1) [OF ne(3) ok ne(2) Suc.prems(6)] obtain r' vm' mc' h where
      "resolve_pages cf vm1 mc1 (Suc i * PAGE_SIZE) (j * PAGE_SIZE) = (r', vm', mc')" "resolves cf other mc1 vm1 mc' vm'"
      "Suc i \<le> h" "resolved_range other (Suc i) h vm1 vm'"
      "r' = Ok () \<and> h = Suc j \<or> (\<exists>e. r' = Err e) \<and> h \<le> j \<and> free_count (mc_frames mc1) \<le> kc_watermark cf + (h - Suc i)" by blast
    then show ?thesis using eq s(3) resolves_trans [OF s(2)] resolved_range_join [OF rr]
      by (intro exI [of _ r'] exI [of _ vm'] exI [of _ mc'] exI [of _ h]) auto
  qed
qed

lemma resolve_region_eq:
  assumes sz: "0 < sz" "addr + sz \<le> USIZE_MAX"
  shows "resolve_cow_for_region cf vm mc addr sz =
      resolve_pages cf vm mc (addr div PAGE_SIZE * PAGE_SIZE) ((addr + sz - 1) div PAGE_SIZE * PAGE_SIZE)"
    "addr div PAGE_SIZE \<le> (addr + sz - 1) div PAGE_SIZE" "(addr + sz - 1) div PAGE_SIZE * PAGE_SIZE \<le> USIZE_MAX"
proof -
  show "addr div PAGE_SIZE \<le> (addr + sz - 1) div PAGE_SIZE" using sz by (intro div_le_mono) linarith
  show "(addr + sz - 1) div PAGE_SIZE * PAGE_SIZE \<le> USIZE_MAX"
    using sz div_times_less_eq_dividend [of "addr + sz - 1" PAGE_SIZE] by linarith
  have le: "addr \<le> USIZE_MAX" "addr + sz - 1 \<le> USIZE_MAX" "addr + (sz - 1) = addr + sz - 1" using sz by linarith+
  have "checked_add addr (sz - 1) = Some (addr + sz - 1)" unfolding checked_add_def le(3) using le(2) by simp
  then show "resolve_cow_for_region cf vm mc addr sz =
      resolve_pages cf vm mc (addr div PAGE_SIZE * PAGE_SIZE) ((addr + sz - 1) div PAGE_SIZE * PAGE_SIZE)"
    using sz(1) unfolding resolve_cow_for_region_def page_floor [OF le(1), symmetric] page_floor [OF le(2), symmetric] by simp
qed

section \<open>Sample address spaces\<close>

definition shared_pte :: "nat \<Rightarrow> page_table_entry" where
  "shared_pte n = set_cow True (set_read_write False (mapped_pte n False False True RDWR))"

lemma shared_pte_simps [simp]: "is_cow (shared_pte n)" "\<not> is_writable (shared_pte n)" "te_frame (shared_pte n) = n"
  by (simp_all add: shared_pte_def entry_defs mapped_pte_def)

lemma writable_space:
  assumes fr: "s \<le> FRAME_NUMBER_MAX" "n \<le> FRAME_NUMBER_MAX"
  shows "\<exists>vm. vm_ok vm \<and> vm_view vm = set_page Map.empty USER_BASE (Some (mapped_pte n False False True access)) \<and>
    (\<forall>k. vm_refs vm k = one_frame g k + one_frame s k + one_frame n k)"
proof -
  have num: "into_frame_number (s * FRAME_SIZE) = Ok s" "into_frame_number (n * FRAME_SIZE) = Ok n"
    using fr by (simp_all add: into_frame_number_eq)
  let ?vm = "empty_vmem (g * FRAME_SIZE)" and ?a = USER_BASE
  note e = empty_vmem_ok [of "g * FRAME_SIZE"]
  have idx: "get_pde_index (pgtab_address ?a) = ?a div PGTAB_SIZE" "pgtab_address ?a \<le> USIZE_MAX"
    using pgtab_index [OF user_base] by simp_all
  obtain pd d where pd: "pd_ok pd" "pd_view pd = (pd_view (vm_pgdir ?vm))(?a div PGTAB_SIZE \<mapsto> d)" "de_frame d = s"
    using pd_map_ok [where supervisor = False and access = RDWR, OF page_directory_new_ok(1) idx(2) _ num(1)] page_directory_new_ok(2) idx(1) by (auto simp: empty_vmem_def)
  let ?vm1 = "?vm\<lparr>vm_pgdir := pd, vm_user_page_tables := (pgtab_address ?a, page_table_new (s * FRAME_SIZE)) # vm_user_page_tables ?vm\<rparr>"
  have none: "map_of (vm_user_page_tables ?vm) (pgtab_address ?a) = None" by (simp add: empty_vmem_def)
  note vm1 = insert_table [OF e(1) user_base none pd refl]
  have pt: "map_of (vm_user_page_tables ?vm1) (pgtab_address ?a) = Some (page_table_new (s * FRAME_SIZE))" by simp
  obtain pt' where pt': "pt_map (page_table_new (s * FRAME_SIZE)) ?a (n * FRAME_SIZE) False False True access = Ok pt'" "pt_ok pt'"
    "pt_view pt' = (pt_view (page_table_new (s * FRAME_SIZE)))(get_pte_index ?a \<mapsto> mapped_pte n False False True access)"
    "pt_storage pt' = s * FRAME_SIZE"
    using pt_map_ok [where supervisor = False and wt = False and cache = True and access = access, OF page_table_new_ok(1) _ num(2)]
      page_table_new_ok(2,4) by fastforce
  have op: "no_value (pt_map (page_table_new (s * FRAME_SIZE)) ?a (n * FRAME_SIZE) False False True access) = Ok ((), pt')"
    by (simp add: no_value_def pt'(1))
  have st: "pt_storage pt' = pt_storage (page_table_new (s * FRAME_SIZE))" using pt'(4) page_table_new_ok(4) by simp
  from change_entry [where op = "\<lambda>pt. no_value (pt_map pt ?a (n * FRAME_SIZE) False False True access)",
      OF vm1(1) user_base pt op pt'(2,3) st] obtain vm where
    vm: "vm_ok vm" "vm_view vm = set_page (vm_view ?vm1) ?a (Some (mapped_pte n False False True access))"
      "refs_change ?vm1 (vm_view ?vm1 ?a) (Some (mapped_pte n False False True access)) vm" by blast
  have "vm_refs vm k = one_frame g k + one_frame s k + one_frame n k" for k
    using vm(3) [unfolded refs_change_def, rule_format, of k] vm1(2) vm1(3) [of k] e(2) e(3) [of k]
    by (auto simp: frame_ref_def mapped_pte_def)
  then show ?thesis using vm(1,2) vm1(2) e(2) by auto
qed

lemma shared_space:
  assumes "s \<le> FRAME_NUMBER_MAX" "n \<le> FRAME_NUMBER_MAX"
  shows "\<exists>vm. vm_ok vm \<and> cow_ok vm \<and> vm_view vm = set_page Map.empty USER_BASE (Some (shared_pte n)) \<and>
    (\<forall>k. vm_refs vm k = one_frame g k + one_frame s k + one_frame n k)"
proof -
  obtain vm where vm: "vm_ok vm" "vm_view vm = set_page Map.empty USER_BASE (Some (mapped_pte n False False True RDWR))"
    "\<forall>k. vm_refs vm k = one_frame g k + one_frame s k + one_frame n k" using writable_space [OF assms] by blast
  have v: "vm_view vm USER_BASE = Some (mapped_pte n False False True RDWR)" using vm(2) by (simp add: set_page_def)
  have w: "is_writable (mapped_pte n False False True RDWR)" by (simp add: mapped_pte_def entry_defs RDWR_def)
  from mark_user_page_cow_ok [OF vm(1) user_base v w]
  obtain vm' where vm': "vm_ok vm'" "vm_view vm' = set_page (vm_view vm) USER_BASE (Some (shared_pte n))" "vm_refs vm' = vm_refs vm"
    unfolding shared_pte_def by blast
  have v': "vm_view vm' = set_page Map.empty USER_BASE (Some (shared_pte n))"
    unfolding vm'(2) vm(2) by (simp add: set_page_def fun_eq_iff)
  have "cow_ok vm'" unfolding cow_ok_def v' by (simp add: set_page_def)
  then show ?thesis using vm' (1,3) v' vm(3) by auto
qed

lemma example_owners_4: "mc_owners example_mc 4 = 255"
  by (simp add: example_mc_def sample_frames_def owners_def)

section \<open>Claims\<close>

text \<open>
  C34. Resolving the copy-on-write pages of a region returns without a panic and changes no byte that the
  address space or any other one reads. On success no page of the region is copy-on-write any more:
  each one that was is writable again and backed by a frame to which the other address space does not refer,
  and every other page is as it was. It fails only when the frames above the kernel's watermark are used up, and
  then it has resolved a prefix of the region. The owners of each frame change with the references to it.
\<close>

theorem resolve_cow_correct:
  assumes ok: "mc_ok cf mc" "vm_ok vm" "cow_ok vm" "vm_ok peer"
    and refs: "\<forall>k. vm_refs vm k + vm_refs peer k \<le> mc_owners mc k" and sz: "0 < sz" "addr + sz \<le> USIZE_MAX"
  shows "\<exists>r vm' mc' h. resolve_cow_for_region cf vm mc addr sz = (r, vm', mc') \<and> mc_ok cf mc' \<and> vm_ok vm' \<and> cow_ok vm' \<and>
    balanced mc vm mc' vm' no_frame no_frame \<and> user_byte mc' vm' = user_byte mc vm \<and> user_byte mc' peer = user_byte mc peer \<and>
    (\<forall>b. if is_user_addr b \<and> addr div PAGE_SIZE \<le> b div PAGE_SIZE \<and> b div PAGE_SIZE < h
         then entry_resolved (vm_refs peer) (vm_view vm b) (vm_view vm' b) else vm_view vm' b = vm_view vm b) \<and>
    (case r of
       Ok _ \<Rightarrow> h = Suc ((addr + sz - 1) div PAGE_SIZE)
     | Err e \<Rightarrow> h \<le> (addr + sz - 1) div PAGE_SIZE \<and>
         free_count (mc_frames mc) \<le> kc_watermark cf + (h - addr div PAGE_SIZE)
     | Panic \<Rightarrow> False)"
proof -
  let ?i = "addr div PAGE_SIZE" and ?j = "(addr + sz - 1) div PAGE_SIZE"
  note b = resolve_region_eq(2,3) [OF sz] and eq = resolve_region_eq(1) [OF sz]
  obtain r vm' mc' h where s: "resolve_pages cf vm mc (?i * PAGE_SIZE) (?j * PAGE_SIZE) = (r, vm', mc')"
    "resolves cf (vm_refs peer) mc vm mc' vm'" "resolved_range (vm_refs peer) ?i h vm vm'"
    "r = Ok () \<and> h = Suc ?j \<or> (\<exists>e. r = Err e) \<and> h \<le> ?j \<and> free_count (mc_frames mc) \<le> kc_watermark cf + (h - ?i)"
    using resolve_pages_spec [OF ok(1-3) refs b] by blast
  have "user_byte mc' peer a = user_byte mc peer a" for a
  proof (cases "vm_view peer a")
    case (Some p)
    then have "0 < vm_refs peer (te_frame p)" by (rule view_ref [OF ok(4)])
    then show ?thesis using s(2) Some by (simp add: resolves_def user_byte_def)
  qed (simp add: user_byte_def)
  then show ?thesis using s unfolding eq resolves_def resolved_range_def
    by (intro exI [of _ r] exI [of _ vm'] exI [of _ mc'] exI [of _ h]) auto
qed

theorem resolve_cow_correct_witness:
  "\<exists>vm peer vm' mc' n. vm_view vm USER_BASE = Some (shared_pte 6) \<and> vm_view peer USER_BASE = Some (shared_pte 6) \<and>
    resolve_cow_for_region example_cf vm example_mc (USER_BASE + 100) 200 = (Ok (), vm', mc') \<and>
    vm_view vm' USER_BASE = Some (resolved_pte (shared_pte 6) n) \<and> vm_refs peer n = 0 \<and>
    user_byte mc' vm' = user_byte example_mc vm \<and> user_byte mc' peer = user_byte example_mc peer"
proof -
  obtain vm where vm: "vm_ok vm" "cow_ok vm" "vm_view vm = set_page Map.empty USER_BASE (Some (shared_pte 6))"
    "\<forall>k. vm_refs vm k = one_frame 7 k + one_frame 5 k + one_frame 6 k"
    using shared_space [of 5 6 7] by (auto simp: FRAME_NUMBER_MAX_def)
  obtain peer where peer: "vm_ok peer" "vm_view peer = set_page Map.empty USER_BASE (Some (shared_pte 6))"
    "\<forall>k. vm_refs peer k = one_frame 4 k + one_frame 4 k + one_frame 6 k"
    using shared_space [of 4 6 4] by (auto simp: FRAME_NUMBER_MAX_def)
  have refs: "\<forall>k. vm_refs vm k + vm_refs peer k \<le> mc_owners example_mc k"
    using vm(4) peer(3) example_owners example_owners_4 by simp
  have free: "kc_watermark example_cf < free_count (mc_frames example_mc)"
    by (simp add: example_cf_def example_mc_def) code_simp
  have sz: "0 < (200 :: nat)" "USER_BASE + 100 + 200 \<le> USIZE_MAX" by (simp_all add: USER_BASE_def)
  have d: "(USER_BASE + 100) div PAGE_SIZE = USER_BASE div PAGE_SIZE" "(USER_BASE + 100 + 200 - 1) div PAGE_SIZE = USER_BASE div PAGE_SIZE"
    by (simp_all add: USER_BASE_def)
  obtain r vm' mc' h where r: "resolve_cow_for_region example_cf vm example_mc (USER_BASE + 100) 200 = (r, vm', mc')"
    "user_byte mc' vm' = user_byte example_mc vm" "user_byte mc' peer = user_byte example_mc peer"
    "\<forall>b. if is_user_addr b \<and> USER_BASE div PAGE_SIZE \<le> b div PAGE_SIZE \<and> b div PAGE_SIZE < h
         then entry_resolved (vm_refs peer) (vm_view vm b) (vm_view vm' b) else vm_view vm' b = vm_view vm b"
    "case r of
       Ok _ \<Rightarrow> h = Suc (USER_BASE div PAGE_SIZE)
     | Err e \<Rightarrow> h \<le> USER_BASE div PAGE_SIZE \<and> free_count (mc_frames example_mc) \<le> kc_watermark example_cf + (h - USER_BASE div PAGE_SIZE)
     | Panic \<Rightarrow> False"
    using resolve_cow_correct [OF example_mc_ok vm(1,2) peer(1) refs sz] unfolding d by blast
  have ok: "r = Ok ()" "h = Suc (USER_BASE div PAGE_SIZE)" using r(5) free by (auto split: res.splits)
  have "entry_resolved (vm_refs peer) (Some (shared_pte 6)) (vm_view vm' USER_BASE)"
    using spec [OF r(4), of USER_BASE] ok(2) user_base vm(3) by (simp add: set_page_def)
  then obtain n where "vm_view vm' USER_BASE = Some (resolved_pte (shared_pte 6) n)" "vm_refs peer n = 0"
    by (auto simp: entry_resolved_def)
  then show ?thesis using r(1-3) ok(1) vm(3) peer(2)
    by (intro exI [of _ vm] exI [of _ peer] exI [of _ vm'] exI [of _ mc'] exI [of _ n]) (simp add: set_page_def)
qed

end
