(* ===== verification/Duplications.thy ===== *)
theory Duplications
  imports Copy_On_Write
begin

text \<open>
  The duplication of an address space with copy-on-write sharing, and its rollback
  (\<open>src/src/kernel/src/mm/virt/manager.rs\<close>). Both loops of the code work in chunks and have no bound;
  they are partial functions, whose value is \<open>None\<close> when they do not end. The proofs carry one invariant through both:
  how far the duplication is from its start.
\<close>

section \<open>Model\<close>

definition LINK_CHUNK :: usize where "LINK_CHUNK = 32"

text \<open>
  The parent's frame gets one more owner and is mapped in the child; a writable page becomes
  copy-on-write on both sides. An error undoes the steps before it, ignoring what fails on the way.
\<close>

definition undo_map :: "vmem \<Rightarrow> machine \<Rightarrow> addr \<Rightarrow> unit kres \<times> vmem \<times> machine" where
  "undo_map child mc vaddr =
    (case vm_unmap child mc vaddr of
       (Ok (Some frame), child, mc) \<Rightarrow> (Ok (), child, drop_in mc frame)
     | (Ok None, child, mc) \<Rightarrow> (Ok (), child, mc)
     | (Err _, child, mc) \<Rightarrow> (Ok (), child, mc)
     | (Panic, child, mc) \<Rightarrow> (Panic, child, mc))"

definition mark_both ::
  "vmem \<Rightarrow> vmem \<Rightarrow> machine \<Rightarrow> addr \<Rightarrow> unit kres \<times> vmem \<times> vmem \<times> machine" where
  "mark_both parent child mc vaddr =
    (case mark_user_page_cow parent vaddr of
       (Panic, parent) \<Rightarrow> (Panic, parent, child, mc)
     | (Err e, parent) \<Rightarrow>
         (case undo_map child mc vaddr of (u, child, mc) \<Rightarrow> (bind_res u (\<lambda>_. Err e), parent, child, mc))
     | (Ok _, parent) \<Rightarrow>
         (case mark_user_page_cow child vaddr of
            (Ok _, child) \<Rightarrow> (Ok (), parent, child, mc)
          | (Panic, child) \<Rightarrow> (Panic, parent, child, mc)
          | (Err e, child) \<Rightarrow>
              (case unmark_user_page_cow parent vaddr of
                 (Panic, parent) \<Rightarrow> (Panic, parent, child, mc)
               | (_, parent) \<Rightarrow>
                   (case undo_map child mc vaddr of (u, child, mc) \<Rightarrow> (bind_res u (\<lambda>_. Err e), parent, child, mc)))))"

definition link_one_user_page ::
  "kernel_config \<Rightarrow> vmem \<Rightarrow> vmem \<Rightarrow> machine \<Rightarrow> addr \<Rightarrow> addr \<Rightarrow> bool \<Rightarrow> unit kres \<times> vmem \<times> vmem \<times> machine" where
  "link_one_user_page cf parent child mc vaddr frame writable =
    (case user_frame_share (mc_frames mc) frame of
       (Err e, f) \<Rightarrow> (Err e, parent, child, mc\<lparr>mc_frames := f\<rparr>)
     | (Panic, f) \<Rightarrow> (Panic, parent, child, mc\<lparr>mc_frames := f\<rparr>)
     | (Ok child_handle, f) \<Rightarrow>
         (case vm_map cf child (mc\<lparr>mc_frames := f\<rparr>) child_handle vaddr (if writable then RDWR else RDONLY) of
            (Err e, child, mc) \<Rightarrow> (Err e, parent, child, mc)
          | (Panic, child, mc) \<Rightarrow> (Panic, parent, child, mc)
          | (Ok _, child, mc) \<Rightarrow>
              if writable then mark_both parent child mc vaddr else (Ok (), parent, child, mc)))"

text \<open>The selection of the next chunk of pages, and of a chunk of pages to undo.\<close>

definition link_candidate ::
  "vmem \<Rightarrow> addr \<Rightarrow> page_table_entry \<Rightarrow> (addr \<times> addr \<times> bool) list \<Rightarrow> (addr \<times> addr \<times> bool) list kres" where
  "link_candidate child vaddr pte buf =
    (if length buf < LINK_CHUNK
     then bind_res (try_find_user_pte child vaddr) (\<lambda>existing.
       if existing = None
       then bind_res (from_frame_number (te_frame pte)) (\<lambda>frame. Ok (buf @ [(vaddr, frame, is_writable pte)]))
       else Ok buf)
     else Ok buf)"

definition rollback_candidate :: "addr \<Rightarrow> page_table_entry \<Rightarrow> (addr \<times> bool) list \<Rightarrow> (addr \<times> bool) list kres" where
  "rollback_candidate vaddr pte buf =
    (if length buf < LINK_CHUNK then Ok (buf @ [(vaddr, is_cow pte)]) else Ok buf)"

definition rollback_one ::
  "vmem \<Rightarrow> vmem \<Rightarrow> machine \<Rightarrow> addr \<Rightarrow> bool \<Rightarrow> unit kres \<times> vmem \<times> vmem \<times> machine" where
  "rollback_one parent child mc vaddr was_cow =
    (case (if was_cow then unmark_user_page_cow parent vaddr else (Ok (), parent)) of
       (Panic, parent) \<Rightarrow> (Panic, parent, child, mc)
     | (_, parent) \<Rightarrow> (case undo_map child mc vaddr of (u, child, mc) \<Rightarrow> (u, parent, child, mc)))"

fun rollback_chunk ::
  "vmem \<Rightarrow> vmem \<Rightarrow> machine \<Rightarrow> (addr \<times> bool) list \<Rightarrow> unit kres \<times> vmem \<times> vmem \<times> machine" where
  "rollback_chunk parent child mc [] = (Ok (), parent, child, mc)"
| "rollback_chunk parent child mc ((vaddr, was_cow) # buf) =
    (case rollback_one parent child mc vaddr was_cow of
       (Ok _, parent, child, mc) \<Rightarrow> rollback_chunk parent child mc buf
     | res \<Rightarrow> res)"

partial_function (option) rollback_linked_pages ::
  "vmem \<Rightarrow> vmem \<Rightarrow> machine \<Rightarrow> (unit kres \<times> vmem \<times> vmem \<times> machine) option" where
  "rollback_linked_pages parent child mc =
    (case for_each_user_mapping child rollback_candidate [] of
       Panic \<Rightarrow> Some (Panic, parent, child, mc)
     | Err _ \<Rightarrow> Some (Ok (), parent, child, mc)
     | Ok buf \<Rightarrow>
         if buf = [] then Some (Ok (), parent, child, mc)
         else
           (case rollback_chunk parent child mc buf of
              (r, parent, child, mc) \<Rightarrow>
                if is_ok r \<and> LINK_CHUNK \<le> length buf then rollback_linked_pages parent child mc
                else Some (r, parent, child, mc)))"

fun link_chunk ::
  "kernel_config \<Rightarrow> vmem \<Rightarrow> vmem \<Rightarrow> machine \<Rightarrow> (addr \<times> addr \<times> bool) list \<Rightarrow> unit kres \<times> vmem \<times> vmem \<times> machine" where
  "link_chunk cf parent child mc [] = (Ok (), parent, child, mc)"
| "link_chunk cf parent child mc ((vaddr, frame, writable) # buf) =
    (case link_one_user_page cf parent child mc vaddr frame writable of
       (Ok _, parent, child, mc) \<Rightarrow> link_chunk cf parent child mc buf
     | res \<Rightarrow> res)"

partial_function (option) link_user_pages ::
  "kernel_config \<Rightarrow> vmem \<Rightarrow> vmem \<Rightarrow> machine \<Rightarrow> (unit kres \<times> vmem \<times> vmem \<times> machine) option" where
  "link_user_pages cf parent child mc =
    (case for_each_user_mapping parent (link_candidate child) [] of
       Panic \<Rightarrow> Some (Panic, parent, child, mc)
     | Err e \<Rightarrow> Some (Err e, parent, child, mc)
     | Ok buf \<Rightarrow>
         if buf = [] then Some (Ok (), parent, child, mc)
         else
           (case link_chunk cf parent child mc buf of
              (Panic, parent, child, mc) \<Rightarrow> Some (Panic, parent, child, mc)
            | (Err e, parent, child, mc) \<Rightarrow>
                (case rollback_linked_pages parent child mc of
                   None \<Rightarrow> None
                 | Some (u, parent, child, mc) \<Rightarrow> Some (bind_res u (\<lambda>_. Err e), parent, child, mc))
            | (Ok _, parent, child, mc) \<Rightarrow>
                if length buf < LINK_CHUNK then Some (Ok (), parent, child, mc)
                else link_user_pages cf parent child mc))"

section \<open>Progress of a duplication\<close>

definition parent_pte :: "page_table_entry \<Rightarrow> page_table_entry" where
  "parent_pte p = (if is_writable p then set_cow True (set_read_write False p) else p)"

definition child_pte :: "page_table_entry \<Rightarrow> page_table_entry" where
  "child_pte p = (if is_writable p then shared_pte (te_frame p) else mapped_pte (te_frame p) False False True RDONLY)"

text \<open>
  From the start \<open>mc0\<close>, \<open>parent0\<close>, \<open>child0\<close>, the pages the child has by now are shared and all others as they were;
  \<open>other\<close> counts the references from elsewhere.
\<close>

definition linking ::
  "kernel_config \<Rightarrow> (nat \<Rightarrow> nat) \<Rightarrow> machine \<Rightarrow> vmem \<Rightarrow> vmem \<Rightarrow> machine \<Rightarrow> vmem \<Rightarrow> vmem \<Rightarrow> bool" where
  "linking cf other mc0 parent0 child0 mc parent child \<longleftrightarrow>
    mc_ok cf mc \<and> vm_ok parent \<and> vm_ok child \<and> vm_refs parent = vm_refs parent0 \<and>
    (\<forall>k. mc_owners mc k + vm_refs child0 k = mc_owners mc0 k + vm_refs child k) \<and>
    (\<forall>k. vm_refs parent0 k + vm_refs child0 k + other k \<le> mc_owners mc0 k) \<and>
    (\<forall>a. 0 < vm_refs parent0 (a div FRAME_SIZE) + other (a div FRAME_SIZE) \<longrightarrow> mc_bytes mc a = mc_bytes mc0 a) \<and>
    (\<forall>a. case vm_view child a of
       None \<Rightarrow> vm_view parent a = vm_view parent0 a
     | Some q \<Rightarrow> \<exists>p. vm_view parent0 a = Some p \<and> vm_view parent a = Some (parent_pte p) \<and> q = child_pte p)"

lemma linking_parts:
  assumes "linking cf other mc0 parent0 child0 mc parent child"
  shows "mc_ok cf mc" "vm_ok parent" "vm_ok child" "vm_refs parent = vm_refs parent0"
    "\<And>k. mc_owners mc k + vm_refs child0 k = mc_owners mc0 k + vm_refs child k"
    "\<And>k. vm_refs parent0 k + vm_refs child k + other k \<le> mc_owners mc k"
    "\<And>a. vm_view child a = None \<Longrightarrow> vm_view parent a = vm_view parent0 a"
    "\<And>a q. vm_view child a = Some q \<Longrightarrow>
      \<exists>p. vm_view parent0 a = Some p \<and> vm_view parent a = Some (parent_pte p) \<and> q = child_pte p"
proof -
  have o: "mc_owners mc k + vm_refs child0 k = mc_owners mc0 k + vm_refs child k"
    "vm_refs parent0 k + vm_refs child0 k + other k \<le> mc_owners mc0 k" for k
    using assms by (simp_all add: linking_def)
  then show "vm_refs parent0 k + vm_refs child k + other k \<le> mc_owners mc k" for k
    using o(1) [of k] o(2) [of k] by linarith
  have v: "case vm_view child a of
       None \<Rightarrow> vm_view parent a = vm_view parent0 a
     | Some q \<Rightarrow> \<exists>p. vm_view parent0 a = Some p \<and> vm_view parent a = Some (parent_pte p) \<and> q = child_pte p" for a
    using assms unfolding linking_def by blast
  show "\<exists>p. vm_view parent0 a = Some p \<and> vm_view parent a = Some (parent_pte p) \<and> q = child_pte p"
    if "vm_view child a = Some q" for a q using v [of a] that by simp
  show "vm_view parent a = vm_view parent0 a" if "vm_view child a = None" for a using v [of a] that by simp
qed (use assms in \<open>simp_all add: linking_def\<close>)

lemma linking_start:
  assumes "mc_ok cf mc" "vm_ok parent" "vm_ok child" "vm_view child = Map.empty"
    "\<forall>k. vm_refs parent k + vm_refs child k + other k \<le> mc_owners mc k"
  shows "linking cf other mc parent child mc parent child"
  using assms by (simp add: linking_def)

text \<open>A step that leaves the parent alone, and one that changes one page on both sides.\<close>

lemma linking_step:
  assumes l: "linking cf other mc0 parent0 child0 mc parent child"
    and s: "mc_ok cf mc'" "vm_ok parent'" "vm_ok child'" "vm_refs parent' = vm_refs parent"
      "\<And>k. mc_owners mc' k + vm_refs child k = mc_owners mc k + vm_refs child' k"
      "\<And>a. 0 < mc_owners mc (a div FRAME_SIZE) \<Longrightarrow> mc_bytes mc' a = mc_bytes mc a"
    and views: "\<And>b. case vm_view child' b of
       None \<Rightarrow> vm_view parent' b = vm_view parent0 b
     | Some q \<Rightarrow> \<exists>p. vm_view parent0 b = Some p \<and> vm_view parent' b = Some (parent_pte p) \<and> q = child_pte p"
  shows "linking cf other mc0 parent0 child0 mc' parent' child'"
proof -
  have "mc_owners mc' k + vm_refs child0 k = mc_owners mc0 k + vm_refs child' k" for k
    using s(5) [of k] linking_parts(5) [OF l, of k] by linarith
  moreover have B: "\<forall>a. 0 < vm_refs parent0 (a div FRAME_SIZE) + other (a div FRAME_SIZE) \<longrightarrow> mc_bytes mc a = mc_bytes mc0 a"
    using l unfolding linking_def by (elim conjE)
  have "mc_bytes mc' a = mc_bytes mc0 a"
    if "0 < vm_refs parent0 (a div FRAME_SIZE) + other (a div FRAME_SIZE)" for a
  proof -
    have "0 < mc_owners mc (a div FRAME_SIZE)" using linking_parts(6) [OF l, of "a div FRAME_SIZE"] that by linarith
    moreover have "mc_bytes mc a = mc_bytes mc0 a"
      by (rule mp [OF spec [OF B] that])
    ultimately show ?thesis using s(6) by simp
  qed
  ultimately show ?thesis using l s(1-4) views unfolding linking_def by simp
qed

section \<open>Linking one page\<close>

lemma view_user:
  assumes "vm_ok vm" "vm_view vm a = Some p"
  shows "is_user_addr a"
proof -
  obtain pt where "map_of (vm_user_page_tables vm) (a div PGTAB_SIZE * PGTAB_SIZE) = Some pt"
    using assms(2) by (auto simp: vm_view_def split: option.splits)
  then have "is_user_addr (a div PGTAB_SIZE * PGTAB_SIZE)" using vm_ok_parts(3) [OF assms(1)] by (simp add: table_ok_def)
  moreover have "is_user_addr c \<longleftrightarrow> 256 \<le> c div PGTAB_SIZE \<and> c div PGTAB_SIZE < 960" for c
    using less_eq_div_iff_mult_less_eq [of PGTAB_SIZE 256 c] div_less_iff_less_mult [of PGTAB_SIZE c 960]
    by (simp add: is_user_addr_def USER_BASE_def USER_END_def)
  ultimately show ?thesis by simp
qed

lemma user_frame_share_spec:
  assumes ok: "mc_ok cf mc" and n: "0 < mc_owners mc n"
  shows "\<exists>r f. user_frame_share (mc_frames mc) (n * FRAME_SIZE) = (r, f) \<and> mc_ok cf (mc\<lparr>mc_frames := f\<rparr>) \<and>
    free_count f = free_count (mc_frames mc) \<and>
    (r = Ok (n * FRAME_SIZE) \<and> owners f = (mc_owners mc)(n := mc_owners mc n + 1) \<or>
     (\<exists>e. r = Err e) \<and> f = mc_frames mc \<and> mc_owners mc n = U8_MAX)"
proof -
  obtain r f where s: "frame_share (mc_frames mc) (n * FRAME_SIZE) = (r, f)" by fastforce
  note sp = frame_share_spec [OF mc_ok_parts(2) [OF ok] owned_frame(4) [OF ok n] s]
  have "mc_ok cf (mc\<lparr>mc_frames := f\<rparr>)" by (rule mc_ok_frames [OF ok sp(1,2)])
  moreover have "{k. 0 < owners f k} = {k. 0 < mc_owners mc k}" using sp(3) n by (auto split: if_splits)
  then have "free_count f = free_count (mc_frames mc)"
    using usage_owners [OF sp(1)] usage_owners [OF mc_ok_parts(2) [OF ok]] sp(2) by (simp add: free_count_def same_shape_def)
  ultimately show ?thesis using sp(3) n s by (auto simp: user_frame_share_def fail_def split: if_splits)
qed

lemma no_frame_left_free:
  assumes "mc_ok cf mc" "no_frame_left mc"
  shows "free_count (mc_frames mc) = 0"
proof -
  obtain r f where f: "frame_alloc (mc_frames mc) = (r, f)" by fastforce
  have "allocated (frame_bitmap (mc_frames mc)) = {..<number_of_bits (frame_bitmap (mc_frames mc))}"
    using frame_alloc_spec [OF mc_ok_parts(2) [OF assms(1)] f] assms(2) f by (auto simp: no_frame_left_def)
  then show ?thesis using mc_ok_parts(2) [OF assms(1)] bitmap_inv_usage by (simp add: frames_inv_def free_count_def)
qed

lemma writable_mapped: "is_writable (mapped_pte n False False True RDWR)" "\<not> is_cow (mapped_pte n s w c acc)"
  "te_frame (mapped_pte n s w c acc) = n" "is_writable (mapped_pte n s w c acc) = perm_write acc"
  by (simp_all add: mapped_pte_def entry_defs RDWR_def pte_flags_new_def)

lemma child_pte_simps [simp]:
  "te_frame (child_pte p) = te_frame p" "is_cow (child_pte p) = is_writable p" "\<not> is_writable (child_pte p)"
  by (simp_all add: child_pte_def writable_mapped RDONLY_def)

lemma mark_both_ok:
  assumes p: "vm_ok parent" "vm_view parent a = Some p" "is_writable p"
    and c: "vm_ok child" "vm_view child a = Some (mapped_pte (te_frame p) False False True RDWR)"
  shows "\<exists>parent' child'. mark_both parent child mc a = (Ok (), parent', child', mc) \<and> vm_ok parent' \<and> vm_ok child' \<and>
    vm_refs parent' = vm_refs parent \<and> vm_refs child' = vm_refs child \<and>
    vm_view parent' = set_page (vm_view parent) a (Some (parent_pte p)) \<and>
    vm_view child' = set_page (vm_view child) a (Some (child_pte p))"
proof -
  note u = view_user [OF p(1,2)]
  obtain parent' where "mark_user_page_cow parent a = (Ok (), parent')" "vm_ok parent'" "vm_refs parent' = vm_refs parent"
    "vm_view parent' = set_page (vm_view parent) a (Some (parent_pte p))"
    using mark_user_page_cow_ok [OF p(1) u p(2,3)] p(3) by (auto simp: parent_pte_def)
  moreover obtain child' where "mark_user_page_cow child a = (Ok (), child')" "vm_ok child'" "vm_refs child' = vm_refs child"
    "vm_view child' = set_page (vm_view child) a (Some (child_pte p))"
    using mark_user_page_cow_ok [OF c(1) u c(2) writable_mapped(1)] p(3) by (auto simp: child_pte_def shared_pte_def)
  ultimately show ?thesis by (simp add: mark_both_def)
qed

text \<open>The page views after one page is linked, or given back.\<close>

lemma linked_views:
  assumes l: "linking cf other mc0 parent0 child0 mc parent child"
    and a: "vm_view parent0 a = Some p" "vm_ok parent0"
    and new: "vm_view parent' = set_page (vm_view parent) a (Some (parent_pte p))"
      "vm_view child' = set_page (vm_view child) a (Some (child_pte p))"
  shows "case vm_view child' b of
       None \<Rightarrow> vm_view parent' b = vm_view parent0 b
     | Some q \<Rightarrow> \<exists>p. vm_view parent0 b = Some p \<and> vm_view parent' b = Some (parent_pte p) \<and> q = child_pte p"
proof (cases "b div PAGE_SIZE = a div PAGE_SIZE")
  case True
  then have "vm_view parent0 b = Some p" using a view_same_page by metis
  then show ?thesis using new True by (simp add: set_page_def)
next
  case False
  then have "vm_view parent' b = vm_view parent b" "vm_view child' b = vm_view child b" using new by (simp_all add: set_page_def)
  then show ?thesis using linking_parts(7,8) [OF l, of b] by (auto split: option.split)
qed

lemma set_page_same: "vm_view vm a = e \<Longrightarrow> set_page (vm_view vm) a e = vm_view vm"
  unfolding set_page_def fun_eq_iff using view_same_page by metis

lemma set_page_twice [simp]: "set_page (set_page view a x) a y = set_page view a y"
  by (simp add: set_page_def fun_eq_iff)

lemma share_marks:
  assumes p: "vm_ok parent" "vm_view parent a = Some p"
    and c: "vm_ok child1"
      "vm_view child1 = set_page (vm_view child) a (Some (mapped_pte (te_frame p) False False True (if is_writable p then RDWR else RDONLY)))"
  shows "\<exists>parent' child'. (if is_writable p then mark_both parent child1 mc a else (Ok (), parent, child1, mc)) = (Ok (), parent', child', mc) \<and>
    vm_ok parent' \<and> vm_ok child' \<and> vm_refs parent' = vm_refs parent \<and> vm_refs child' = vm_refs child1 \<and>
    vm_view parent' = set_page (vm_view parent) a (Some (parent_pte p)) \<and>
    vm_view child' = set_page (vm_view child) a (Some (child_pte p))"
proof (cases "is_writable p")
  case True
  then have "vm_view child1 a = Some (mapped_pte (te_frame p) False False True RDWR)" using c(2) by (simp add: set_page_def)
  from mark_both_ok [OF p True c(1) this, of mc] True c(2) show ?thesis by auto
next
  case False
  then show ?thesis using p c set_page_same [OF p(2)] by (simp add: parent_pte_def child_pte_def)
qed

lemma link_one_spec:
  assumes l: "linking cf other mc0 parent0 child0 mc parent child" and ok0: "vm_ok parent0"
    and a: "vm_view parent0 a = Some p" "vm_view child a = None"
  shows "\<exists>r parent' child' mc'.
    link_one_user_page cf parent child mc a (te_frame p * FRAME_SIZE) (is_writable p) = (r, parent', child', mc') \<and>
    linking cf other mc0 parent0 child0 mc' parent' child' \<and>
    (r = Ok () \<and> vm_view child' = set_page (vm_view child) a (Some (child_pte p)) \<or>
     (\<exists>e. r = Err e) \<and> vm_view child' = vm_view child \<and>
       (mc_owners mc (te_frame p) = U8_MAX \<or> free_count (mc_frames mc) = 0))"
proof -
  let ?n = "te_frame p" and ?acc = "if is_writable p then RDWR else RDONLY"
  note lp = linking_parts [OF l]
  have pa: "vm_view parent a = Some p" using lp(7) [OF a(2)] a(1) by simp
  have u: "is_user_addr a" by (rule view_user [OF ok0 a(1)])
  have owned: "0 < mc_owners mc ?n" using view_ref [OF ok0 a(1)] lp(6) [of ?n] by linarith
  have stay: "linking cf other mc0 parent0 child0 mc' parent child'"
    if "mc_ok cf mc'" "vm_ok child'" "vm_view child' = vm_view child"
      "\<And>k. mc_owners mc' k + vm_refs child k = mc_owners mc k + vm_refs child' k"
      "\<And>a. 0 < mc_owners mc (a div FRAME_SIZE) \<Longrightarrow> mc_bytes mc' a = mc_bytes mc a" for mc' child'
    using that lp(2,7,8) by (intro linking_step [OF l]) (auto split: option.split)
  obtain r f where sh: "user_frame_share (mc_frames mc) (?n * FRAME_SIZE) = (r, f)" "mc_ok cf (mc\<lparr>mc_frames := f\<rparr>)"
    "free_count f = free_count (mc_frames mc)"
    "r = Ok (?n * FRAME_SIZE) \<and> owners f = (mc_owners mc)(?n := mc_owners mc ?n + 1) \<or>
     (\<exists>e. r = Err e) \<and> f = mc_frames mc \<and> mc_owners mc ?n = U8_MAX"
    using user_frame_share_spec [OF lp(1) owned] by blast
  show ?thesis
  proof (cases "\<exists>e. r = Err e")
    case True
    then obtain e where e: "r = Err e" "f = mc_frames mc" "mc_owners mc ?n = U8_MAX" using sh(4) by auto
    have "linking cf other mc0 parent0 child0 (mc\<lparr>mc_frames := f\<rparr>) parent child" using lp(3) e(2) sh(2) by (intro stay) auto
    then show ?thesis using sh(1) e(1,3) by (auto simp: link_one_user_page_def)
  next
    case False
    let ?mc = "mc\<lparr>mc_frames := f\<rparr>"
    have o1: "r = Ok (?n * FRAME_SIZE)" "owners f = (mc_owners mc)(?n := mc_owners mc ?n + 1)" using False sh(4) by auto
    then have "0 < mc_owners ?mc ?n" by simp
    from vm_map_spec [OF sh(2) lp(3) u this, of ?acc] obtain r2 child1 mc1 where
      m: "vm_map cf child ?mc (?n * FRAME_SIZE) a ?acc = (r2, child1, mc1)" "mc_ok cf mc1" "vm_ok child1" "bytes_kept ?mc mc1"
        "balanced ?mc child mc1 child1 (one_frame ?n) no_frame"
        "r2 = Ok () \<and> vm_view child1 = set_page (vm_view child) a (Some (mapped_pte ?n False False True ?acc)) \<or>
         (\<exists>e. r2 = Err e) \<and> vm_view child1 = vm_view child \<and> no_frame_left ?mc" using a(2) by auto
    have acc: "mc_owners mc1 k + vm_refs child k = mc_owners mc k + vm_refs child1 k" for k
      using m(5) [unfolded balanced_def, rule_format, of k] o1(2) by (auto split: if_splits)
    have bytes: "mc_bytes mc1 b = mc_bytes mc b" if "0 < mc_owners mc (b div FRAME_SIZE)" for b
      using m(4) that o1(2) by (simp add: bytes_kept_def)
    have step: "link_one_user_page cf parent child mc a (?n * FRAME_SIZE) (is_writable p) =
        (case r2 of Ok _ \<Rightarrow> (if is_writable p then mark_both parent child1 mc1 a else (Ok (), parent, child1, mc1))
         | Err e \<Rightarrow> (Err e, parent, child1, mc1) | Panic \<Rightarrow> (Panic, parent, child1, mc1))"
      using sh(1) o1(1) m(1) by (simp add: link_one_user_page_def split: res.split)
    show ?thesis
    proof (cases "r2 = Ok ()")
      case False
      then obtain e where e: "r2 = Err e" "vm_view child1 = vm_view child" "no_frame_left ?mc" using m(6) by auto
      have "free_count (mc_frames mc) = 0" using no_frame_left_free [OF sh(2) e(3)] sh(3) by simp
      moreover
      have "linking cf other mc0 parent0 child0 mc1 parent child1" by (rule stay [OF m(2,3) e(2) acc bytes])
      ultimately show ?thesis using step e(1,2) by auto
    next
      case True
      then have v1: "vm_view child1 = set_page (vm_view child) a (Some (mapped_pte ?n False False True ?acc))" using m(6) by auto
      from share_marks [OF lp(2) pa m(3) v1, of mc1]
      obtain parent' child' where d: "link_one_user_page cf parent child mc a (?n * FRAME_SIZE) (is_writable p) = (Ok (), parent', child', mc1)"
        "vm_ok parent'" "vm_ok child'" "vm_refs parent' = vm_refs parent" "vm_refs child' = vm_refs child1"
        "vm_view parent' = set_page (vm_view parent) a (Some (parent_pte p))" "vm_view child' = set_page (vm_view child) a (Some (child_pte p))"
        using step True by auto
      have "linking cf other mc0 parent0 child0 mc1 parent' child'"
        by (rule linking_step [OF l m(2) d(2,3,4) _ bytes linked_views [OF l a(1) ok0 d(6,7)]]) (use acc d(5) in simp)
      then show ?thesis using d(1,7) by auto
    qed
  qed
qed

section \<open>Chunks and loops\<close>

definition pages :: "vmem \<Rightarrow> addr set" where
  "pages vm = {v. v mod PAGE_SIZE = 0 \<and> vm_view vm v \<noteq> None}"

lemma pages_mappings: "vm_ok vm \<Longrightarrow> pages vm = fst ` set (mappings vm)"
  using view_user [of vm] by (auto simp: pages_def mappings_set image_iff)

lemma pages_finite: "vm_ok vm \<Longrightarrow> finite (pages vm)"
  by (simp add: pages_mappings)

lemma same_page_aligned: "v mod PAGE_SIZE = 0 \<Longrightarrow> b mod PAGE_SIZE = 0 \<Longrightarrow> b div PAGE_SIZE = v div PAGE_SIZE \<longleftrightarrow> b = (v :: nat)"
  by (metis mod_div_decomp)

lemma pages_set_page:
  assumes "v mod PAGE_SIZE = 0" "vm_view vm' = set_page (vm_view vm) v e"
  shows "pages vm' = (if e = None then pages vm - {v} else insert v (pages vm))"
  using assms(1) by (auto simp: pages_def assms(2) set_page_def same_page_aligned split: if_splits)

lemma pages_empty:
  assumes "pages vm = {}"
  shows "vm_view vm = Map.empty"
proof
  fix a
  let ?b = "a div PAGE_SIZE * PAGE_SIZE"
  have "?b \<notin> pages vm" using assms by simp
  then have "vm_view vm ?b = None" unfolding pages_def mem_Collect_eq by simp
  moreover have "vm_view vm ?b = vm_view vm a" by (rule view_same_page) simp
  ultimately show "vm_view vm a = None" by (rule trans [OF sym, rotated])
qed

definition link_entry :: "addr \<times> page_table_entry \<Rightarrow> addr \<times> addr \<times> bool" where
  "link_entry m = (fst m, te_frame (snd m) * FRAME_SIZE, is_writable (snd m))"

lemma link_snapshot:
  assumes "vm_ok child" "\<forall>(v, p) \<in> set ms. is_user_addr v" "length buf \<le> LINK_CHUNK"
  shows "fold_mappings (link_candidate child) ms buf =
    Ok (take LINK_CHUNK (buf @ map link_entry (filter (\<lambda>m. vm_view child (fst m) = None) ms)))"
  using assms(2,3)
proof (induction ms arbitrary: buf)
  case (Cons m ms)
  obtain v p where m: "m = (v, p)" by fastforce
  have "try_find_user_pte child v = Ok (vm_view child v)" using try_find_user_eq(1) [OF assms(1)] Cons.prems(1) m by simp
  then have c: "link_candidate child v p buf = Ok (if length buf < LINK_CHUNK \<and> vm_view child v = None then buf @ [link_entry m] else buf)"
    by (simp add: link_candidate_def link_entry_def m)
  show ?case
  proof (cases "length buf < LINK_CHUNK")
    case True
    then show ?thesis using Cons.IH [of "if vm_view child v = None then buf @ [link_entry m] else buf"] Cons.prems(1) c m by (auto simp: take_Cons')
  next
    case False
    then show ?thesis using Cons.IH [of buf] Cons.prems c m by auto
  qed
qed simp

lemma rollback_snapshot:
  assumes "length buf \<le> LINK_CHUNK"
  shows "fold_mappings rollback_candidate ms buf = Ok (take LINK_CHUNK (buf @ map (\<lambda>(v, p). (v, is_cow p)) ms))"
  using assms
proof (induction ms arbitrary: buf)
  case (Cons m ms)
  obtain v p where m: "m = (v, p)" by fastforce
  show ?case
    using Cons.IH [of "buf @ [(v, is_cow p)]"] Cons.IH [of buf] Cons.prems m
    by (cases "length buf < LINK_CHUNK") (simp_all add: rollback_candidate_def take_Cons')
qed simp

lemma link_chunk_spec:
  assumes "linking cf other mc0 parent0 child0 mc parent child" "vm_ok parent0" "distinct (map fst ms)"
    "\<forall>(v, p) \<in> set ms. v mod PAGE_SIZE = 0 \<and> vm_view parent0 v = Some p \<and> vm_view child v = None"
  shows "\<exists>r parent' child' mc'. link_chunk cf parent child mc (map link_entry ms) = (r, parent', child', mc') \<and>
    linking cf other mc0 parent0 child0 mc' parent' child' \<and>
    (r = Ok () \<and> pages child' = pages child \<union> fst ` set ms \<or> (\<exists>e. r = Err e))"
  using assms(1,3,4)
proof (induction ms arbitrary: parent child mc)
  case (Cons m ms)
  obtain v p where m: "m = (v, p)" by fastforce
  have v: "v mod PAGE_SIZE = 0" "vm_view parent0 v = Some p" "vm_view child v = None" using Cons.prems(3) m by auto
  from link_one_spec [OF Cons.prems(1) assms(2) v(2,3)] obtain r parent1 child1 mc1 where
    s: "link_one_user_page cf parent child mc v (te_frame p * FRAME_SIZE) (is_writable p) = (r, parent1, child1, mc1)"
      "linking cf other mc0 parent0 child0 mc1 parent1 child1"
      "r = Ok () \<and> vm_view child1 = set_page (vm_view child) v (Some (child_pte p)) \<or> (\<exists>e. r = Err e)" by blast
  show ?case
  proof (cases "r = Ok ()")
    case False
    then show ?thesis using s m by (auto simp: link_entry_def)
  next
    case True
    then have v1: "vm_view child1 = set_page (vm_view child) v (Some (child_pte p))" using s(3) by auto
    have rest: "\<forall>(w, q) \<in> set ms. w mod PAGE_SIZE = 0 \<and> vm_view parent0 w = Some q \<and> vm_view child1 w = None"
    proof safe
      fix w q assume w: "(w, q) \<in> set ms"
      then have "w mod PAGE_SIZE = 0 \<and> vm_view parent0 w = Some q \<and> vm_view child w = None" using Cons.prems(3) by auto
      moreover have "w \<noteq> v" using w Cons.prems(2) m by (auto simp: rev_image_eqI)
      ultimately show "w mod PAGE_SIZE = 0" "vm_view parent0 w = Some q" "vm_view child1 w = None"
        using v(1) v1 same_page_aligned [OF v(1)] by (simp_all add: set_page_def)
    qed
    have "distinct (map fst ms)" using Cons.prems(2) by simp
    from Cons.IH [OF s(2) this rest] show ?thesis
      using s(1) True m pages_set_page [OF v(1) v1] by (auto simp: link_entry_def)
  qed
qed simp

lemma undo_map_ok:
  assumes ok: "mc_ok cf mc" "vm_ok child" and v: "vm_view child v = Some q"
    and solvent: "\<forall>k. vm_refs child k \<le> mc_owners mc k"
  shows "\<exists>child' mc'. undo_map child mc v = (Ok (), child', mc') \<and> mc_ok cf mc' \<and> vm_ok child' \<and> mc_mem mc' = mc_mem mc \<and>
    vm_view child' = set_page (vm_view child) v None \<and>
    (\<forall>k. mc_owners mc' k + vm_refs child k = mc_owners mc k + vm_refs child' k)"
proof -
  from vm_unmap_ok [OF ok view_user [OF ok(2) v] v solvent] obtain child' mc1 where
    u: "vm_unmap child mc v = (Ok (Some (te_frame q * FRAME_SIZE)), child', mc1)" "mc_ok cf mc1" "vm_ok child'"
      "mc_mem mc1 = mc_mem mc" "vm_view child' = set_page (vm_view child) v None"
      "balanced mc child mc1 child' no_frame (one_frame (te_frame q))" by blast
  have b: "mc_owners mc1 k + vm_refs child k = mc_owners mc k + vm_refs child' k + one_frame (te_frame q) k" for k
    using u(6) unfolding balanced_def by simp
  have pos: "0 < mc_owners mc1 (te_frame q)" using b [of "te_frame q"] spec [OF solvent, of "te_frame q"] by simp
  note d = drop_in_ok [OF u(2) pos]
  have "mc_owners (drop_in mc1 (te_frame q * FRAME_SIZE)) k + vm_refs child k = mc_owners mc k + vm_refs child' k" for k
    using b [of k] pos d(2) by (auto split: if_splits)
  then show ?thesis using u d(1,3) by (auto simp: undo_map_def)
qed

lemma parent_pte_undo:
  assumes "is_writable p" "\<not> is_cow p"
  shows "is_cow (parent_pte p)" "set_read_write True (set_cow False (parent_pte p)) = p"
proof -
  obtain fl n where p: "p = \<lparr>te_flags = fl, te_frame = n\<rparr>" by (cases p)
  show "is_cow (parent_pte p)" using assms by (simp add: parent_pte_def entry_defs)
  show "set_read_write True (set_cow False (parent_pte p)) = p"
    using assms unfolding p by (cases fl) (simp add: parent_pte_def entry_defs)
qed

lemma rollback_one_spec:
  assumes l: "linking cf other mc0 parent0 child0 mc parent child" and ok0: "vm_ok parent0" "cow_ok parent0"
    and v: "vm_view child v = Some q"
  shows "\<exists>parent' child' mc'. rollback_one parent child mc v (is_cow q) = (Ok (), parent', child', mc') \<and>
    linking cf other mc0 parent0 child0 mc' parent' child' \<and> vm_view child' = set_page (vm_view child) v None"
proof -
  note lp = linking_parts [OF l]
  obtain p where p: "vm_view parent0 v = Some p" "vm_view parent v = Some (parent_pte p)" "q = child_pte p" using lp(8) [OF v] by blast
  have u: "is_user_addr v" by (rule view_user [OF ok0(1) p(1)])
  have "\<exists>parent'. (if is_cow q then unmark_user_page_cow parent v else (Ok (), parent)) = (Ok (), parent') \<and> vm_ok parent' \<and>
      vm_refs parent' = vm_refs parent \<and> vm_view parent' = set_page (vm_view parent) v (Some p)"
  proof (cases "is_writable p")
    case True
    have nc: "\<not> is_cow p" using True ok0(2) p(1) by (auto simp: cow_ok_def)
    from unmark_user_page_cow_ok [OF lp(2) u p(2) parent_pte_undo(1) [OF True nc]] True p(3) show ?thesis
      unfolding parent_pte_undo(2) [OF True nc] by auto
  next
    case False
    then have "parent_pte p = p" by (simp add: parent_pte_def)
    then show ?thesis using False lp(2) p(2,3) set_page_same [OF p(2)] by simp
  qed
  then obtain parent' where pa: "(if is_cow q then unmark_user_page_cow parent v else (Ok (), parent)) = (Ok (), parent')"
    "vm_ok parent'" "vm_refs parent' = vm_refs parent" "vm_view parent' = set_page (vm_view parent) v (Some p)" by blast
  have "\<forall>k. vm_refs child k \<le> mc_owners mc k"
  proof
    fix k show "vm_refs child k \<le> mc_owners mc k" using lp(6) [of k] by linarith
  qed
  from undo_map_ok [OF lp(1,3) v this] obtain child' mc' where
    c: "undo_map child mc v = (Ok (), child', mc')" "mc_ok cf mc'" "vm_ok child'" "mc_mem mc' = mc_mem mc"
      "vm_view child' = set_page (vm_view child) v None"
      "\<forall>k. mc_owners mc' k + vm_refs child k = mc_owners mc k + vm_refs child' k" by blast
  have views: "case vm_view child' b of
       None \<Rightarrow> vm_view parent' b = vm_view parent0 b
     | Some q \<Rightarrow> \<exists>p. vm_view parent0 b = Some p \<and> vm_view parent' b = Some (parent_pte p) \<and> q = child_pte p" for b
  proof (cases "b div PAGE_SIZE = v div PAGE_SIZE")
    case True
    then have "vm_view parent0 b = Some p" using p(1) view_same_page by metis
    then show ?thesis using True c(5) pa(4) by (simp add: set_page_def)
  next
    case False
    then show ?thesis using c(5) pa(4) lp(7,8) [of b] by (auto simp: set_page_def split: option.split)
  qed
  have "linking cf other mc0 parent0 child0 mc' parent' child'"
    by (rule linking_step [OF l c(2) pa(2) c(3) pa(3) _ _ views]) (use c(4,6) in simp_all)
  then show ?thesis using pa(1) c(1,5) by (auto simp: rollback_one_def split: if_splits)
qed

lemma rollback_chunk_spec:
  assumes "linking cf other mc0 parent0 child0 mc parent child" "vm_ok parent0" "cow_ok parent0" "distinct (map fst ms)"
    "\<forall>(v, q) \<in> set ms. v mod PAGE_SIZE = 0 \<and> vm_view child v = Some q"
  shows "\<exists>parent' child' mc'.
    rollback_chunk parent child mc (map (\<lambda>(v, p). (v, is_cow p)) ms) = (Ok (), parent', child', mc') \<and>
    linking cf other mc0 parent0 child0 mc' parent' child' \<and> pages child' = pages child - fst ` set ms"
  using assms(1,4,5)
proof (induction ms arbitrary: parent child mc)
  case (Cons m ms)
  obtain v q where m: "m = (v, q)" by fastforce
  have v: "v mod PAGE_SIZE = 0" "vm_view child v = Some q" using Cons.prems(3) m by auto
  from rollback_one_spec [OF Cons.prems(1) assms(2,3) v(2)] obtain parent1 child1 mc1 where
    s: "rollback_one parent child mc v (is_cow q) = (Ok (), parent1, child1, mc1)"
      "linking cf other mc0 parent0 child0 mc1 parent1 child1" "vm_view child1 = set_page (vm_view child) v None" by blast
  have rest: "\<forall>(w, q) \<in> set ms. w mod PAGE_SIZE = 0 \<and> vm_view child1 w = Some q"
  proof safe
    fix w q' assume w: "(w, q') \<in> set ms"
    then have "w mod PAGE_SIZE = 0 \<and> vm_view child w = Some q'" using Cons.prems(3) by auto
    moreover have "w \<noteq> v" using w Cons.prems(2) m by (auto simp: rev_image_eqI)
    ultimately show "w mod PAGE_SIZE = 0" "vm_view child1 w = Some q'"
      using s(3) same_page_aligned [OF v(1)] by (simp_all add: set_page_def)
  qed
  have "distinct (map fst ms)" using Cons.prems(2) by simp
  from Cons.IH [OF s(2) this rest] show ?case
    using s(1) m pages_set_page [OF v(1) s(3)] by auto
qed simp

lemma chunk_distinct: "distinct (map f xs) \<Longrightarrow> distinct (map f (take n xs))"
  unfolding take_map [symmetric] by (rule distinct_take)

lemma card_diff_less: "finite A \<Longrightarrow> S \<subseteq> A \<Longrightarrow> S \<noteq> {} \<Longrightarrow> card (A - S) < card A"
  by (rule psubset_card_mono) auto

text \<open>The pages that are still to be linked.\<close>

lemma missing_pages:
  assumes "linking cf other mc0 parent0 child0 mc parent child"
  shows "fst ` set (filter (\<lambda>m. vm_view child (fst m) = None) (mappings parent)) = pages parent0 - pages child"
proof (rule set_eqI)
  fix v
  note lp = linking_parts [OF assms]
  have "v \<in> fst ` set (filter (\<lambda>m. vm_view child (fst m) = None) (mappings parent)) \<longleftrightarrow>
      (\<exists>p. v mod PAGE_SIZE = 0 \<and> is_user_addr v \<and> vm_view parent v = Some p \<and> vm_view child v = None)"
    unfolding set_filter mappings_set [OF lp(2)] image_iff by auto
  also have "\<dots> \<longleftrightarrow> v \<in> pages parent0 - pages child"
    using lp(7) [of v] view_user [OF lp(2), of v] by (cases "vm_view parent0 v") (auto simp: pages_def)
  finally show "v \<in> fst ` set (filter (\<lambda>m. vm_view child (fst m) = None) (mappings parent)) \<longleftrightarrow> v \<in> pages parent0 - pages child" .
qed

lemma rollback_spec:
  assumes "linking cf other mc0 parent0 child0 mc parent child" "vm_ok parent0" "cow_ok parent0"
  shows "\<exists>parent' child' mc'. rollback_linked_pages parent child mc = Some (Ok (), parent', child', mc') \<and>
    linking cf other mc0 parent0 child0 mc' parent' child' \<and> pages child' = {}"
  using assms(1)
proof (induction "card (pages child)" arbitrary: parent child mc rule: less_induct)
  case less
  have ok: "vm_ok child" by (rule linking_parts(3) [OF less.prems])
  let ?ms = "take LINK_CHUNK (mappings child)"
  have snap: "for_each_user_mapping child rollback_candidate [] = Ok (map (\<lambda>(v, p). (v, is_cow p)) ?ms)"
    by (simp add: for_each_user_mapping_eq [OF ok] rollback_snapshot take_map)
  have ms: "distinct (map fst ?ms)" "\<forall>(v, q) \<in> set ?ms. v mod PAGE_SIZE = 0 \<and> vm_view child v = Some q"
    using chunk_distinct [OF mappings_distinct [OF ok]] mappings_set [OF ok] by (auto dest: in_set_takeD)
  obtain parent1 child1 mc1 where c:
    "rollback_chunk parent child mc (map (\<lambda>(v, p). (v, is_cow p)) ?ms) = (Ok (), parent1, child1, mc1)"
    "linking cf other mc0 parent0 child0 mc1 parent1 child1" "pages child1 = pages child - fst ` set ?ms"
    using rollback_chunk_spec [OF less.prems assms(2,3) ms] by blast
  have sub: "fst ` set ?ms \<subseteq> pages child" using pages_mappings [OF ok] by (auto dest: in_set_takeD)
  show ?case
  proof (cases "?ms = []")
    case True
    then have "mappings child = []" by (simp add: LINK_CHUNK_def)
    then show ?thesis using snap less.prems pages_mappings [OF ok] by (subst rollback_linked_pages.simps) simp
  next
    case False
    show ?thesis
    proof (cases "LINK_CHUNK \<le> length ?ms")
      case True
      have "card (pages child1) < card (pages child)"
        unfolding c(3) using False by (intro card_diff_less pages_finite [OF ok] sub) blast
      from less.hyps [OF this c(2)] show ?thesis
        using snap c(1) False True by (subst rollback_linked_pages.simps) simp
    next
      case all: False
      then have "?ms = mappings child" by simp
      then have "pages child1 = {}" using c(3) pages_mappings [OF ok] by simp
      then show ?thesis using snap c(1,2) False all by (subst rollback_linked_pages.simps) simp
    qed
  qed
qed

lemma link_spec:
  assumes "linking cf other mc0 parent0 child0 mc parent child" "vm_ok parent0" "cow_ok parent0"
  shows "\<exists>r parent' child' mc'. link_user_pages cf parent child mc = Some (r, parent', child', mc') \<and>
    linking cf other mc0 parent0 child0 mc' parent' child' \<and>
    (r = Ok () \<and> pages parent0 \<subseteq> pages child' \<or> (\<exists>e. r = Err e) \<and> pages child' = {})"
  using assms(1)
proof (induction "card (pages parent0 - pages child)" arbitrary: parent child mc rule: less_induct)
  case less
  note lp = linking_parts [OF less.prems]
  let ?fm = "filter (\<lambda>m. vm_view child (fst m) = None) (mappings parent)"
  let ?ms = "take LINK_CHUNK ?fm"
  have users: "\<forall>(v, p) \<in> set (mappings parent). is_user_addr v" using mappings_set [OF lp(2)] by auto
  have snap: "for_each_user_mapping parent (link_candidate child) [] = Ok (map link_entry ?ms)"
    using link_snapshot [OF lp(3) users] by (simp add: for_each_user_mapping_eq [OF lp(2)] take_map)
  have ms: "distinct (map fst ?ms)" "\<forall>(v, p) \<in> set ?ms. v mod PAGE_SIZE = 0 \<and> vm_view parent0 v = Some p \<and> vm_view child v = None"
    using chunk_distinct [OF distinct_map_filter [OF mappings_distinct [OF lp(2)]]] mappings_set [OF lp(2)] lp(7)
    by (auto dest!: in_set_takeD)
  have missing: "fst ` set ?fm = pages parent0 - pages child"
    by (rule missing_pages [OF less.prems])
  obtain r parent1 child1 mc1 where c: "link_chunk cf parent child mc (map link_entry ?ms) = (r, parent1, child1, mc1)"
    "linking cf other mc0 parent0 child0 mc1 parent1 child1"
    "r = Ok () \<and> pages child1 = pages child \<union> fst ` set ?ms \<or> (\<exists>e. r = Err e)"
    using link_chunk_spec [OF less.prems assms(2) ms] by blast
  show ?case
  proof (cases "?ms = []")
    case True
    then have "?fm = []" by (simp add: LINK_CHUNK_def)
    then have "pages parent0 \<subseteq> pages child" using missing by auto
    then show ?thesis using True snap less.prems by (subst link_user_pages.simps) simp
  next
    case ne: False
    show ?thesis
    proof (cases "r = Ok ()")
      case False
      then obtain e where e: "r = Err e" using c(3) by blast
      from rollback_spec [OF c(2) assms(2,3)] show ?thesis
        using snap c(1) e ne by (subst link_user_pages.simps) auto
    next
      case ok: True
      then have p1: "pages child1 = pages child \<union> fst ` set ?ms" using c(3) by auto
      show ?thesis
      proof (cases "length ?fm < LINK_CHUNK")
        case True
        then have "?ms = ?fm" by simp
        then have "pages parent0 \<subseteq> pages child1" using p1 missing by auto
        then show ?thesis using snap c(1,2) ok ne True by (subst link_user_pages.simps) simp
      next
        case False
        have "fst ` set ?ms \<subseteq> pages parent0 - pages child" unfolding missing [symmetric] by (rule image_mono [OF set_take_subset])
        then have "card (pages parent0 - pages child - fst ` set ?ms) < card (pages parent0 - pages child)"
          using ne pages_finite [OF assms(2)] by (intro card_diff_less) blast+
        then have "card (pages parent0 - pages child1) < card (pages parent0 - pages child)"
          unfolding p1 Diff_Un Diff_eq by (simp add: Int_ac)
        from less.hyps [OF this c(2)] show ?thesis
          using snap c(1) ok ne False by (subst link_user_pages.simps) (simp add: min_def)
      qed
    qed
  qed
qed

lemma parent_pte_read_only: "\<not> is_writable (parent_pte p)"
  by (simp add: parent_pte_def entry_defs)

section \<open>Claims\<close>

lemma linking_contents:
  assumes l: "linking cf other mc0 parent0 child0 mc parent child" and ok: "vm_ok parent0"
  shows "user_byte mc parent = user_byte mc0 parent0"
    "vm_ok peer \<Longrightarrow> (\<And>k. vm_refs peer k \<le> other k) \<Longrightarrow> user_byte mc peer = user_byte mc0 peer"
    "vm_view child a \<noteq> None \<Longrightarrow> user_byte mc child a = user_byte mc0 parent0 a"
proof -
  note lp = linking_parts [OF l]
  have B: "\<forall>a. 0 < vm_refs parent0 (a div FRAME_SIZE) + other (a div FRAME_SIZE) \<longrightarrow> mc_bytes mc a = mc_bytes mc0 a"
    using l unfolding linking_def by (elim conjE)
  have same: "mc_bytes mc (n * FRAME_SIZE + b mod PAGE_SIZE) = mc_bytes mc0 (n * FRAME_SIZE + b mod PAGE_SIZE)"
    if "0 < vm_refs parent0 n + other n" for n b
    using mp [OF spec [OF B, of "n * FRAME_SIZE + b mod PAGE_SIZE"]] that by simp
  have parent: "mc_bytes mc (te_frame p * FRAME_SIZE + b mod PAGE_SIZE) = mc_bytes mc0 (te_frame p * FRAME_SIZE + b mod PAGE_SIZE)"
    if "vm_view parent0 b = Some p" for b p
    using same [of "te_frame p" b] view_ref [OF ok that] by simp
  have fr: "te_frame (parent_pte p) = te_frame p" for p by (simp add: parent_pte_def entry_defs)
  show "user_byte mc parent = user_byte mc0 parent0"
  proof
    fix b
    show "user_byte mc parent b = user_byte mc0 parent0 b"
    proof (cases "vm_view child b")
      case None
      then show ?thesis using lp(7) [of b] parent [of b] by (cases "vm_view parent0 b") (simp_all add: user_byte_def)
    next
      case (Some q)
      then show ?thesis using lp(8) [OF Some] parent [of b] fr by (auto simp: user_byte_def)
    qed
  qed
  show "user_byte mc peer = user_byte mc0 peer" if "vm_ok peer" "\<And>k. vm_refs peer k \<le> other k"
  proof
    fix b
    show "user_byte mc peer b = user_byte mc0 peer b"
    proof (cases "vm_view peer b")
      case (Some p)
      have "0 < other (te_frame p)" using view_ref [OF that(1) Some] that(2) [of "te_frame p"] by linarith
      then show ?thesis using same [of "te_frame p" b] Some by (simp add: user_byte_def)
    qed (simp add: user_byte_def)
  qed
  show "user_byte mc child a = user_byte mc0 parent0 a" if "vm_view child a \<noteq> None"
    using that lp(8) [of a] parent [of a] by (auto simp: user_byte_def)
qed

lemma linking_done:
  assumes l: "linking cf other mc0 parent0 child0 mc parent child" and all: "pages parent0 \<subseteq> pages child"
  shows "vm_view child a = map_option child_pte (vm_view parent0 a)" "vm_view parent a = map_option parent_pte (vm_view parent0 a)"
proof -
  note lp = linking_parts [OF l]
  let ?b = "a div PAGE_SIZE * PAGE_SIZE"
  have page: "vm_view vm ?b = vm_view vm a" for vm by (rule view_same_page) simp
  have "vm_view child a \<noteq> None" if "vm_view parent0 a \<noteq> None"
  proof -
    have "?b \<in> pages parent0" unfolding pages_def mem_Collect_eq page using that by simp
    then have "?b \<in> pages child" using all by blast
    then show ?thesis unfolding pages_def mem_Collect_eq page by simp
  qed
  then show "vm_view child a = map_option child_pte (vm_view parent0 a)" "vm_view parent a = map_option parent_pte (vm_view parent0 a)"
    using lp(7,8) [of a] by (cases "vm_view child a"; force)+
qed

text \<open>
  C33. Duplicating an address space always ends, however many pages it has, and never panics: every round links a
  chunk of pages the child does not have yet, and a rollback removes a chunk of pages from the child.
\<close>

theorem link_user_pages_terminates:
  assumes "mc_ok cf mc" "vm_ok parent" "cow_ok parent" "vm_ok child" "vm_view child = Map.empty"
    "\<forall>k. vm_refs parent k + vm_refs child k \<le> mc_owners mc k"
  shows "\<exists>r parent' child' mc'. link_user_pages cf parent child mc = Some (r, parent', child', mc') \<and> r \<noteq> Panic"
proof -
  have "linking cf (\<lambda>_. 0) mc parent child mc parent child" using assms by (intro linking_start) simp_all
  from link_spec [OF this assms(2,3)] show ?thesis by blast
qed

text \<open>
  C32. Duplicating an address space is all or nothing. On success the child has exactly the pages of the parent and
  reads the bytes the parent reads, no page of either is writable, and a page that was writable is copy-on-write in both. On failure
  the child has no pages and the pages of the parent have the entries they had before. In both cases what the parent and
  any other address space read is unchanged, and the owners of each frame change with the references of the child.
\<close>

theorem link_user_pages_correct:
  assumes ok: "mc_ok cf mc" "vm_ok parent" "cow_ok parent" "vm_ok child" "vm_view child = Map.empty" "vm_ok peer"
    and refs: "\<forall>k. vm_refs parent k + vm_refs child k + vm_refs peer k \<le> mc_owners mc k"
    and run: "link_user_pages cf parent child mc = Some (r, parent', child', mc')"
  shows "mc_ok cf mc' \<and> vm_ok parent' \<and> vm_ok child' \<and> vm_refs parent' = vm_refs parent \<and>
    (\<forall>k. mc_owners mc' k + vm_refs child k = mc_owners mc k + vm_refs child' k) \<and>
    user_byte mc' parent' = user_byte mc parent \<and> user_byte mc' peer = user_byte mc peer \<and>
    (case r of
       Ok _ \<Rightarrow> user_byte mc' child' = user_byte mc parent \<and>
         (\<forall>a. vm_view child' a = map_option child_pte (vm_view parent a) \<and>
              vm_view parent' a = map_option parent_pte (vm_view parent a)) \<and>
         (\<forall>a p. vm_view parent' a = Some p \<or> vm_view child' a = Some p \<longrightarrow> \<not> is_writable p)
     | Err e \<Rightarrow> vm_view child' = Map.empty \<and> vm_view parent' = vm_view parent
     | Panic \<Rightarrow> False)"
proof -
  have "linking cf (vm_refs peer) mc parent child mc parent child" using ok refs by (intro linking_start) simp_all
  from link_spec [OF this ok(2,3)] run have l: "linking cf (vm_refs peer) mc parent child mc' parent' child'"
    and r: "r = Ok () \<and> pages parent \<subseteq> pages child' \<or> (\<exists>e. r = Err e) \<and> pages child' = {}" by auto
  note lp = linking_parts [OF l] and lc = linking_contents [OF l ok(2)]
  have common: "mc_ok cf mc'" "vm_ok parent'" "vm_ok child'" "vm_refs parent' = vm_refs parent"
    "\<forall>k. mc_owners mc' k + vm_refs child k = mc_owners mc k + vm_refs child' k"
    "user_byte mc' parent' = user_byte mc parent" "user_byte mc' peer = user_byte mc peer"
    using lp(1-5) lc(1) lc(2) [OF ok(6)] by auto
  show ?thesis
  proof (cases "r = Ok ()")
    case True
    then have all: "pages parent \<subseteq> pages child'" using r by auto
    note d = linking_done [OF l all]
    have "user_byte mc' child' a = user_byte mc parent a" for a
      using lc(3) [of a] d(1) [of a] by (cases "vm_view parent a") (auto simp: user_byte_def)
    moreover have "\<not> is_writable p" if "vm_view parent' a = Some p \<or> vm_view child' a = Some p" for a p
      using that d [of a] parent_pte_read_only by auto
    ultimately show ?thesis using True common d by auto
  next
    case False
    then obtain e where e: "r = Err e" "pages child' = {}" using r by auto
    note v = pages_empty [OF e(2)]
    have "vm_view parent' = vm_view parent" using lp(7) v by (intro ext) simp
    then show ?thesis using e(1) v common by simp
  qed
qed

text \<open>
  C35. A page that is copy-on-write in the parent because of an earlier duplication is mapped plainly read-only in the
  child: a write of the child to it is not resolved but reported as a fault, although the parent can still write to the
  page and the child was to be its copy.
\<close>

theorem relinked_page_not_resolved:
  assumes ok: "mc_ok cf mc" "vm_ok parent" "cow_ok parent" "vm_ok child" "vm_view child = Map.empty"
    and refs: "\<forall>k. vm_refs parent k + vm_refs child k \<le> mc_owners mc k"
    and run: "link_user_pages cf parent child mc = Some (Ok (), parent', child', mc')"
    and page: "vm_view parent a = Some p" "is_cow p"
  shows "(\<exists>q. vm_view child' a = Some q \<and> te_frame q = te_frame p \<and> \<not> is_writable q \<and> \<not> is_cow q) \<and>
    try_resolve_cow_fault cf child' mc' a 7 = (Ok False, child', mc') \<and> vm_view parent' a = Some p"
proof -
  have "linking cf (\<lambda>_. 0) mc parent child mc parent child" using ok refs by (intro linking_start) simp_all
  from link_spec [OF this ok(2,3)] run have l: "linking cf (\<lambda>_. 0) mc parent child mc' parent' child'"
    and all: "pages parent \<subseteq> pages child'" by auto
  have ro: "\<not> is_writable p" using ok(3) page by (simp add: cow_ok_def)
  have c: "vm_view child' a = Some (child_pte p)" "vm_view parent' a = Some p"
    using linking_done [OF l all, of a] page(1) ro by (simp_all add: parent_pte_def)
  let ?b = "a div PAGE_SIZE * PAGE_SIZE"
  have u: "is_user_addr a" "is_user_addr ?b" using view_user [OF ok(2) page(1)] user_page [of a] by simp_all
  have "vm_view child' ?b = vm_view child' a" by (rule view_same_page) simp
  then have "try_find_user_pte child' ?b = Ok (Some (child_pte p))"
    using try_find_user_eq(1) [OF linking_parts(3) [OF l] u(2)] c(1) by simp
  moreover have "page_aligned_from_address (align_down a PAGE_ALIGNMENT) = Ok ?b"
    using page_floor [OF user_addr_bound [OF u(1)]] by (simp add: page_aligned_from_address_def)
  ultimately have "try_resolve_cow_fault cf child' mc' a 7 = (Ok False, child', mc')"
    using u(2) ro by (simp add: try_resolve_cow_fault_def resolve_cow_at_def bit_numeral_rec)
  then show ?thesis using c ro by simp
qed

section \<open>Witnesses\<close>

lemma single_mapping:
  assumes ok: "vm_ok vm" and v: "vm_view vm = set_page Map.empty v (Some p)" "v mod PAGE_SIZE = 0" "is_user_addr v"
  shows "mappings vm = [(v, p)]"
proof -
  have "set (mappings vm) = {(v, p)}"
    using v(2,3) same_page_aligned [OF v(2)] by (auto simp: mappings_set [OF ok] v(1) set_page_def split: if_splits)
  moreover have "distinct (mappings vm)" using mappings_distinct [OF ok] by (simp add: distinct_map)
  ultimately show ?thesis
    by (cases "mappings vm") (auto simp: subset_singleton_iff)
qed

lemma link_single:
  assumes ok: "mc_ok cf mc" "vm_ok parent" "cow_ok parent" "vm_ok child" "vm_view child = Map.empty"
    and refs: "\<forall>k. vm_refs parent k + vm_refs child k \<le> mc_owners mc k"
    and one: "mappings parent = [(v, p)]" and room: "mc_owners mc (te_frame p) \<noteq> U8_MAX" "0 < free_count (mc_frames mc)"
  shows "\<exists>parent' child' mc'. link_user_pages cf parent child mc = Some (Ok (), parent', child', mc')"
proof -
  have l: "linking cf (\<lambda>_. 0) mc parent child mc parent child" using ok refs by (intro linking_start) simp_all
  have vp: "vm_view parent v = Some p" "is_user_addr v" using mappings_set [OF ok(2)] one by auto
  have snap: "for_each_user_mapping parent (link_candidate child) [] = Ok [link_entry (v, p)]"
    using link_snapshot [OF ok(4), of "[(v, p)]" "[]"] vp(2) ok(5)
    by (simp add: for_each_user_mapping_eq [OF ok(2)] one LINK_CHUNK_def)
  obtain parent' child' mc' where
    "link_one_user_page cf parent child mc v (te_frame p * FRAME_SIZE) (is_writable p) = (Ok (), parent', child', mc')"
    using link_one_spec [OF l ok(2) vp(1)] ok(5) room by auto
  then show ?thesis using snap by (subst link_user_pages.simps) (simp add: link_entry_def LINK_CHUNK_def)
qed

text \<open>The duplication of an address space of the sample machine with a single page.\<close>

lemma example_link:
  assumes vm: "vm_ok vm" "cow_ok vm" "vm_view vm = set_page Map.empty USER_BASE (Some e)" "te_frame e = 6"
    "\<forall>k. vm_refs vm k = one_frame 7 k + one_frame 5 k + one_frame 6 k"
  shows "\<exists>parent' child' mc'. link_user_pages example_cf vm (empty_vmem (4 * FRAME_SIZE)) example_mc = Some (Ok (), parent', child', mc')"
    "\<forall>k. vm_refs vm k + vm_refs (empty_vmem (4 * FRAME_SIZE)) k \<le> mc_owners example_mc k"
    "\<forall>k. vm_refs vm k + vm_refs (empty_vmem (4 * FRAME_SIZE)) k + vm_refs (empty_vmem (4 * FRAME_SIZE)) k \<le> mc_owners example_mc k"
proof -
  note child = empty_vmem_ok [of "4 * FRAME_SIZE"]
  show refs: "\<forall>k. vm_refs vm k + vm_refs (empty_vmem (4 * FRAME_SIZE)) k \<le> mc_owners example_mc k"
    "\<forall>k. vm_refs vm k + vm_refs (empty_vmem (4 * FRAME_SIZE)) k + vm_refs (empty_vmem (4 * FRAME_SIZE)) k \<le> mc_owners example_mc k"
    using vm(5) child(3) example_owners example_owners_4 by simp_all
  have "mappings vm = [(USER_BASE, e)]"
    by (rule single_mapping [OF vm(1,3) _ user_base]) (simp add: USER_BASE_def)
  moreover have "0 < free_count (mc_frames example_mc)" by (simp add: example_mc_def) code_simp
  moreover have "mc_owners example_mc (te_frame e) \<noteq> U8_MAX" using example_owners vm(4) by simp
  ultimately show "\<exists>parent' child' mc'. link_user_pages example_cf vm (empty_vmem (4 * FRAME_SIZE)) example_mc = Some (Ok (), parent', child', mc')"
    by (intro link_single [OF example_mc_ok vm(1,2) child(1,2) refs(1)])
qed

theorem link_user_pages_terminates_witness:
  "\<exists>vm r parent' child' mc'. vm_view vm USER_BASE = Some (shared_pte 6) \<and>
    link_user_pages example_cf vm (empty_vmem (4 * FRAME_SIZE)) example_mc = Some (r, parent', child', mc') \<and> r \<noteq> Panic"
proof -
  obtain vm where vm: "vm_ok vm" "cow_ok vm" "vm_view vm = set_page Map.empty USER_BASE (Some (shared_pte 6))"
    "\<forall>k. vm_refs vm k = one_frame 7 k + one_frame 5 k + one_frame 6 k"
    using shared_space [of 5 6 7] by (auto simp: FRAME_NUMBER_MAX_def)
  have "vm_view vm USER_BASE = Some (shared_pte 6)" using vm(3) by (simp add: set_page_def)
  then show ?thesis
    using link_user_pages_terminates [OF example_mc_ok vm(1,2) empty_vmem_ok(1,2) example_link(2) [OF vm(1-3) _ vm(4)]] by auto
qed

theorem link_user_pages_correct_witness:
  "\<exists>vm parent' child' mc'. vm_view vm USER_BASE = Some (mapped_pte 6 False False True RDWR) \<and>
    link_user_pages example_cf vm (empty_vmem (4 * FRAME_SIZE)) example_mc = Some (Ok (), parent', child', mc') \<and>
    vm_view child' USER_BASE = Some (shared_pte 6) \<and> user_byte mc' child' USER_BASE = user_byte example_mc vm USER_BASE"
proof -
  let ?w = "mapped_pte 6 False False True RDWR"
  obtain vm where vm: "vm_ok vm" "vm_view vm = set_page Map.empty USER_BASE (Some ?w)"
    "\<forall>k. vm_refs vm k = one_frame 7 k + one_frame 5 k + one_frame 6 k"
    using writable_space [of 5 6 RDWR 7] by (auto simp: FRAME_NUMBER_MAX_def)
  have v: "vm_view vm USER_BASE = Some ?w" using vm(2) by (simp add: set_page_def)
  have cow: "cow_ok vm" unfolding cow_ok_def vm(2) by (simp add: set_page_def writable_mapped)
  note e = example_link [OF vm(1) cow vm(2) writable_mapped(3) vm(3)]
  obtain parent' child' mc' where
    run: "link_user_pages example_cf vm (empty_vmem (4 * FRAME_SIZE)) example_mc = Some (Ok (), parent', child', mc')" using e(1) by blast
  from link_user_pages_correct [OF example_mc_ok vm(1) cow empty_vmem_ok(1,2) empty_vmem_ok(1) e(3) run]
  have "user_byte mc' child' = user_byte example_mc vm" "vm_view child' USER_BASE = Some (child_pte ?w)" using v by auto
  moreover have "child_pte ?w = shared_pte 6" by (simp add: child_pte_def writable_mapped(1,3))
  ultimately have "vm_view child' USER_BASE = Some (shared_pte 6) \<and> user_byte mc' child' USER_BASE = user_byte example_mc vm USER_BASE" by simp
  then show ?thesis using run v by blast
qed

theorem relinked_page_not_resolved_witness:
  "\<exists>vm parent' child' mc'. vm_view vm USER_BASE = Some (shared_pte 6) \<and>
    link_user_pages example_cf vm (empty_vmem (4 * FRAME_SIZE)) example_mc = Some (Ok (), parent', child', mc') \<and>
    vm_view parent' USER_BASE = Some (shared_pte 6) \<and>
    try_resolve_cow_fault example_cf child' mc' USER_BASE 7 = (Ok False, child', mc')"
proof -
  obtain vm where vm: "vm_ok vm" "cow_ok vm" "vm_view vm = set_page Map.empty USER_BASE (Some (shared_pte 6))"
    "\<forall>k. vm_refs vm k = one_frame 7 k + one_frame 5 k + one_frame 6 k"
    using shared_space [of 5 6 7] by (auto simp: FRAME_NUMBER_MAX_def)
  have v: "vm_view vm USER_BASE = Some (shared_pte 6)" using vm(3) by (simp add: set_page_def)
  note e = example_link [OF vm(1-3) _ vm(4)]
  obtain parent' child' mc' where
    run: "link_user_pages example_cf vm (empty_vmem (4 * FRAME_SIZE)) example_mc = Some (Ok (), parent', child', mc')" using e(1) by auto
  from relinked_page_not_resolved [OF example_mc_ok vm(1,2) empty_vmem_ok(1,2) e(2) run v]
  show ?thesis using run v by auto
qed

end
