(* ===== verification/User_Copies.thy ===== *)
theory User_Copies
  imports Duplications Scheduler
begin

text \<open>
  Copies between user memory and the kernel, and between two processes
  (\<open>src/src/kernel/src/mm/virt/vmem.rs\<close>, and the calls of the process manager to them,
  \<open>src/src/kernel/src/pm/process/manager/mod.rs\<close>). The code walks both ranges in pieces that do not cross a page and
  copies each piece through physical memory; it is compared with a copy of single bytes through the page
  tables. A build option drops the first of the two passes of each copy; it is the argument \<open>single_pass\<close>.
\<close>

section \<open>Model\<close>

definition phys_copy :: "kernel_config \<Rightarrow> machine \<Rightarrow> addr \<Rightarrow> addr \<Rightarrow> usize \<Rightarrow> unit kres \<times> machine" where
  "phys_copy cf mc dst src sz =
    (case memcpy (kc_store cf) (kc_memory_size cf) (mc_mem mc) dst src sz of (r, m) \<Rightarrow> (r, mc\<lparr>mc_mem := m\<rparr>))"

text \<open>A step to the next piece; an address that leaves the address range overflows. Addresses are below \<open>2 ^ 32\<close>.\<close>

definition advance_by :: "addr \<Rightarrow> usize \<Rightarrow> addr kres" where
  "advance_by a n = (if a + n \<le> USIZE_MAX then Ok (a + n) else Panic)"

definition page_of :: "addr \<Rightarrow> addr kres" where
  "page_of a = (if a \<le> USIZE_MAX then page_aligned_from_address (align_down a PAGE_ALIGNMENT) else Panic)"

lemma page_of_offset: "page_of a = Ok v \<Longrightarrow> a - v < PAGE_SIZE"
  using mod_less_divisor [of PAGE_SIZE a] div_mult_mod_eq [of a PAGE_SIZE]
  by (auto simp: page_of_def page_aligned_from_address_def page_floor minus_div_mult_eq_mod split: if_splits)

lemma piece_less:
  assumes "sz \<noteq> 0" "page_of a = Ok u" "page_of b = Ok v"
  shows "sz - min (min sz (PAGE_SIZE - (a - u))) (PAGE_SIZE - (b - v)) < sz"
  using page_of_offset [OF assms(2)] page_of_offset [OF assms(3)] assms(1) by simp

definition user_vaddr_to_paddr :: "vmem \<Rightarrow> addr \<Rightarrow> usize kres" where
  "user_vaddr_to_paddr vm vaddr =
    bind_res (page_of vaddr) (\<lambda>page_aligned.
      let offset = vaddr - page_aligned in bind_res (find_user_frame vm page_aligned) (\<lambda>frame. Ok (frame + offset)))"

subsection \<open>From user space to the kernel\<close>

function copy_from_user_impl ::
  "kernel_config \<Rightarrow> vmem \<Rightarrow> machine \<Rightarrow> bool \<Rightarrow> addr \<Rightarrow> addr \<Rightarrow> usize \<Rightarrow> unit kres \<times> machine" where
  "copy_from_user_impl cf vm mc dry_run src dst sz =
    (if sz = 0 then (Ok (), mc)
     else case page_of src of
       Err e \<Rightarrow> (Err e, mc)
     | Panic \<Rightarrow> (Panic, mc)
     | Ok vaddr \<Rightarrow>
         (let offset = src - vaddr; copy_size = min sz (PAGE_SIZE - offset)
          in case find_user_frame vm vaddr of
               Err e \<Rightarrow> (Err e, mc)
             | Panic \<Rightarrow> (Panic, mc)
             | Ok src_frame \<Rightarrow>
                 (case (if dry_run then (Ok (), mc) else phys_copy cf mc dst (src_frame + offset) copy_size) of
                    (Err e, mc) \<Rightarrow> (Err e, mc)
                  | (Panic, mc) \<Rightarrow> (Panic, mc)
                  | (Ok _, mc) \<Rightarrow>
                      (case (advance_by src copy_size, advance_by dst copy_size) of
                         (Ok src, Ok dst) \<Rightarrow> copy_from_user_impl cf vm mc dry_run src dst (sz - copy_size)
                       | _ \<Rightarrow> (Panic, mc)))))"
  by pat_completeness auto
termination
  by (relation "measure (\<lambda>(cf, vm, mc, dry_run, src, dst, sz). sz)") (auto dest!: page_of_offset)

declare copy_from_user_impl.simps [simp del]

definition copy_from_user_unaligned ::
  "bool \<Rightarrow> kernel_config \<Rightarrow> vmem \<Rightarrow> machine \<Rightarrow> addr \<Rightarrow> addr \<Rightarrow> usize \<Rightarrow> unit kres \<times> machine" where
  "copy_from_user_unaligned single_pass cf vm mc dst src sz =
    (if sz = 0 then (fail InvalidArgument ''zero-length copy'', mc)
     else if \<not> is_user_region src sz then (fail BadAddress ''source memory region does not lie entirely in user space'', mc)
     else if \<not> is_kernel_region dst sz then (fail BadAddress ''destination region does not lie entirely in kernel space'', mc)
     else if single_pass then copy_from_user_impl cf vm mc False src dst sz
     else case copy_from_user_impl cf vm mc True src dst sz of
       (Ok _, mc) \<Rightarrow> copy_from_user_impl cf vm mc False src dst sz
     | res \<Rightarrow> res)"

subsection \<open>From the kernel to user space\<close>

text \<open>Beyond the dry run every error of the loop is a panic.\<close>

function copy_to_user_loop ::
  "kernel_config \<Rightarrow> vmem \<Rightarrow> machine \<Rightarrow> bool \<Rightarrow> addr \<Rightarrow> addr \<Rightarrow> usize \<Rightarrow> unit kres \<times> machine" where
  "copy_to_user_loop cf vm mc dry_run dst src sz =
    (if sz = 0 then (Ok (), mc)
     else case page_of dst of
       Err e \<Rightarrow> (if dry_run then Err e else Panic, mc)
     | Panic \<Rightarrow> (Panic, mc)
     | Ok vaddr \<Rightarrow>
         (let offset = dst - vaddr; copy_size = min (PAGE_SIZE - offset) sz
          in if \<not> is_physical_region cf src copy_size
             then (if dry_run then fail BadAddress ''source memory region does not lie within physical memory'' else Panic, mc)
             else
               (case (if dry_run then (Ok (), mc)
                      else case find_user_frame vm vaddr of
                        Ok dst_frame \<Rightarrow>
                          (if \<not> is_physical_region cf (dst_frame + offset) copy_size then (Panic, mc)
                           else case phys_copy cf mc (dst_frame + offset) src copy_size of
                             (Ok _, mc) \<Rightarrow> (Ok (), mc) | (_, mc) \<Rightarrow> (Panic, mc))
                      | _ \<Rightarrow> (Panic, mc)) of
                  (Ok _, mc) \<Rightarrow>
                    (case (advance_by dst copy_size, advance_by src copy_size) of
                       (Ok dst, Ok src) \<Rightarrow> copy_to_user_loop cf vm mc dry_run dst src (sz - copy_size)
                     | _ \<Rightarrow> (Panic, mc))
                | res \<Rightarrow> res)))"
  by pat_completeness auto
termination
  by (relation "measure (\<lambda>(cf, vm, mc, dry_run, dst, src, sz). sz)") (auto dest!: page_of_offset)

declare copy_to_user_loop.simps [simp del]

definition copy_to_user_unaligned_unchecked ::
  "kernel_config \<Rightarrow> vmem \<Rightarrow> machine \<Rightarrow> addr \<Rightarrow> addr \<Rightarrow> usize \<Rightarrow> bool \<Rightarrow> unit kres \<times> vmem \<times> machine" where
  "copy_to_user_unaligned_unchecked cf vm mc dst src sz dry_run =
    (if sz = 0 then (fail InvalidArgument ''zero-length copy'', vm, mc)
     else if \<not> is_kernel_region src sz then (fail BadAddress ''source memory region does not lie entirely in kernel space'', vm, mc)
     else if \<not> is_user_region dst sz then (fail BadAddress ''destination memory region does not lie entirely in user space'', vm, mc)
     else case (if dry_run then (Ok (), vm, mc) else resolve_cow_for_region cf vm mc dst sz) of
       (Ok _, vm, mc) \<Rightarrow> (case copy_to_user_loop cf vm mc dry_run dst src sz of (r, mc) \<Rightarrow> (r, vm, mc))
     | res \<Rightarrow> res)"

definition copy_to_user_unaligned ::
  "bool \<Rightarrow> kernel_config \<Rightarrow> vmem \<Rightarrow> machine \<Rightarrow> addr \<Rightarrow> addr \<Rightarrow> usize \<Rightarrow> unit kres \<times> vmem \<times> machine" where
  "copy_to_user_unaligned single_pass cf vm mc dst src sz =
    (if single_pass then copy_to_user_unaligned_unchecked cf vm mc dst src sz False
     else case copy_to_user_unaligned_unchecked cf vm mc dst src sz True of
       (Ok _, vm, mc) \<Rightarrow> copy_to_user_unaligned_unchecked cf vm mc dst src sz False
     | res \<Rightarrow> res)"

subsection \<open>Between processes\<close>

function copy_user_to_user_impl ::
  "kernel_config \<Rightarrow> vmem \<Rightarrow> vmem \<Rightarrow> machine \<Rightarrow> bool \<Rightarrow> addr \<Rightarrow> addr \<Rightarrow> usize \<Rightarrow> unit kres \<times> machine" where
  "copy_user_to_user_impl cf src_vmem dst_vmem mc dry_run cur_src cur_dst remaining =
    (if remaining = 0 then (Ok (), mc)
     else case (page_of cur_src, page_of cur_dst) of
       (Ok src_page, Ok dst_page) \<Rightarrow>
         (let src_offset = cur_src - src_page; src_avail = PAGE_SIZE - src_offset;
              dst_offset = cur_dst - dst_page; dst_avail = PAGE_SIZE - dst_offset;
              copy_size = min (min remaining src_avail) dst_avail
          in case bind_res (find_user_frame src_vmem src_page) (\<lambda>src_frame.
                  bind_res (find_user_frame dst_vmem dst_page) (\<lambda>dst_frame. Ok (src_frame, dst_frame))) of
               Err e \<Rightarrow> (Err e, mc)
             | Panic \<Rightarrow> (Panic, mc)
             | Ok (src_frame, dst_frame) \<Rightarrow>
                 (case (if dry_run then (Ok (), mc)
                        else phys_copy cf mc (dst_frame + dst_offset) (src_frame + src_offset) copy_size) of
                    (Err e, mc) \<Rightarrow> (Err e, mc)
                  | (Panic, mc) \<Rightarrow> (Panic, mc)
                  | (Ok _, mc) \<Rightarrow>
                      (case (advance_by cur_src copy_size, advance_by cur_dst copy_size) of
                         (Ok cur_src, Ok cur_dst) \<Rightarrow>
                           copy_user_to_user_impl cf src_vmem dst_vmem mc dry_run cur_src cur_dst (remaining - copy_size)
                       | _ \<Rightarrow> (Panic, mc))))
     | (Err e, _) \<Rightarrow> (Err e, mc)
     | (Ok _, Err e) \<Rightarrow> (Err e, mc)
     | _ \<Rightarrow> (Panic, mc))"
  by pat_completeness auto
termination
  by (relation "measure (\<lambda>(cf, sv, dv, mc, dry_run, cur_src, cur_dst, remaining). remaining)")
    (simp, simp only: in_measure split_conv prod.inject, elim conjE, simp only: piece_less not_False_eq_True)

declare copy_user_to_user_impl.simps [simp del]

definition copy_user_to_user ::
  "bool \<Rightarrow> kernel_config \<Rightarrow> vmem \<Rightarrow> addr \<Rightarrow> vmem \<Rightarrow> addr \<Rightarrow> usize \<Rightarrow> machine \<Rightarrow> unit kres \<times> machine" where
  "copy_user_to_user single_pass cf src_vmem src dst_vmem dst sz mc =
    (if sz = 0 then (fail InvalidArgument ''zero-length copy'', mc)
     else if \<not> is_user_region src sz then (fail BadAddress ''source memory region does not lie entirely in user space'', mc)
     else if \<not> is_user_region dst sz then (fail BadAddress ''destination memory region does not lie entirely in user space'', mc)
     else if single_pass then copy_user_to_user_impl cf src_vmem dst_vmem mc False src dst sz
     else case copy_user_to_user_impl cf src_vmem dst_vmem mc True src dst sz of
       (Ok _, mc) \<Rightarrow> copy_user_to_user_impl cf src_vmem dst_vmem mc False src dst sz
     | res \<Rightarrow> res)"

text \<open>The calls of the process manager, on the address space of the process with the given identifier.\<close>

definition find_space :: "vmem process_manager \<Rightarrow> pid \<Rightarrow> vmem kres" where
  "find_space pm pid = bind_res (find_process pm pid) (\<lambda>p. Ok (ps_vmem (process_ref_state p)))"

definition vmcopy_from_user ::
  "bool \<Rightarrow> kernel_config \<Rightarrow> vmem process_manager \<Rightarrow> machine \<Rightarrow> pid \<Rightarrow> addr \<Rightarrow> addr \<Rightarrow> usize \<Rightarrow> unit kres \<times> machine" where
  "vmcopy_from_user single_pass cf pm mc pid dst src sz =
    (case find_space pm pid of
       Ok vm \<Rightarrow> copy_from_user_unaligned single_pass cf vm mc dst src sz
     | Err e \<Rightarrow> (Err e, mc)
     | Panic \<Rightarrow> (Panic, mc))"

definition vmcopy_to_user ::
  "bool \<Rightarrow> kernel_config \<Rightarrow> vmem process_manager \<Rightarrow> machine \<Rightarrow> pid \<Rightarrow> addr \<Rightarrow> addr \<Rightarrow> usize \<Rightarrow>
    unit kres \<times> vmem process_manager \<times> machine" where
  "vmcopy_to_user single_pass cf pm mc pid dst src sz =
    (case find_space pm pid of
       Ok vm \<Rightarrow> (case copy_to_user_unaligned single_pass cf vm mc dst src sz of
           (r, vm, mc) \<Rightarrow> (r, update_process (\<lambda>ps. ps\<lparr>ps_vmem := vm\<rparr>) pid pm, mc))
     | Err e \<Rightarrow> (Err e, pm, mc)
     | Panic \<Rightarrow> (Panic, pm, mc))"

definition vmcopy_user_to_user ::
  "bool \<Rightarrow> kernel_config \<Rightarrow> vmem process_manager \<Rightarrow> machine \<Rightarrow> pid \<Rightarrow> addr \<Rightarrow> pid \<Rightarrow> addr \<Rightarrow> usize \<Rightarrow>
    unit kres \<times> vmem process_manager \<times> machine" where
  "vmcopy_user_to_user single_pass cf pm mc src_pid src dst_pid dst sz =
    (case (if sz > 0
           then (case find_space pm dst_pid of
                   Ok vm \<Rightarrow> (case resolve_cow_for_region cf vm mc dst sz of
                       (r, vm, mc) \<Rightarrow> (r, update_process (\<lambda>ps. ps\<lparr>ps_vmem := vm\<rparr>) dst_pid pm, mc))
                 | Err e \<Rightarrow> (Err e, pm, mc)
                 | Panic \<Rightarrow> (Panic, pm, mc))
           else (Ok (), pm, mc)) of
       (Ok _, pm, mc) \<Rightarrow>
         (case bind_res (find_space pm src_pid) (\<lambda>src_vmem.
               bind_res (find_space pm dst_pid) (\<lambda>dst_vmem. Ok (src_vmem, dst_vmem))) of
            Ok (src_vmem, dst_vmem) \<Rightarrow>
              (case copy_user_to_user single_pass cf src_vmem src dst_vmem dst sz mc of (r, mc) \<Rightarrow> (r, pm, mc))
          | Err e \<Rightarrow> (Err e, pm, mc)
          | Panic \<Rightarrow> (Panic, pm, mc))
     | res \<Rightarrow> res)"

section \<open>The copy of single bytes\<close>

definition translate :: "vmem \<Rightarrow> addr \<Rightarrow> addr option" where
  "translate vm a = map_option (\<lambda>p. te_frame p * FRAME_SIZE + a mod PAGE_SIZE) (vm_view vm a)"

fun copy_bytes ::
  "(addr \<Rightarrow> addr option) \<Rightarrow> (addr \<Rightarrow> addr option) \<Rightarrow> addr \<Rightarrow> addr \<Rightarrow> nat \<Rightarrow> (addr \<Rightarrow> u8) \<Rightarrow> (addr \<Rightarrow> u8) option" where
  "copy_bytes from_tr to_tr src dst 0 bytes = Some bytes"
| "copy_bytes from_tr to_tr src dst (Suc n) bytes =
    (case (from_tr src, to_tr dst) of
       (Some s, Some d) \<Rightarrow> copy_bytes from_tr to_tr (Suc src) (Suc dst) n (bytes(d := bytes s))
     | _ \<Rightarrow> None)"

lemma copy_bytes_add:
  "copy_bytes f t src dst (n + m) bytes = Option.bind (copy_bytes f t src dst n bytes) (copy_bytes f t (src + n) (dst + n) m)"
  by (induction n arbitrary: src dst bytes) (auto split: option.split)

lemma fast_memcpy_Suc:
  assumes "d + n < s \<or> s + n < d"
  shows "(fast_memcpy bytes d s n)(d + n := fast_memcpy bytes d s n (s + n)) = fast_memcpy bytes d s (Suc n)"
  using assms by (auto simp: fast_memcpy_def fun_eq_iff le_less_Suc_eq less_Suc_eq)

lemma copy_bytes_piece:
  assumes "\<And>i. i < n \<Longrightarrow> f (src + i) = Some (s + i)" "\<And>i. i < n \<Longrightarrow> t (dst + i) = Some (d + i)" "d + n \<le> s \<or> s + n \<le> d"
  shows "copy_bytes f t src dst n bytes = Some (fast_memcpy bytes d s n)"
  using assms
proof (induction n)
  case (Suc n)
  have IH: "copy_bytes f t src dst n bytes = Some (fast_memcpy bytes d s n)" using Suc by auto
  have tr: "f (src + n) = Some (s + n)" "t (dst + n) = Some (d + n)" using Suc.prems(1,2) by auto
  have "copy_bytes f t src dst (n + Suc 0) bytes = Some ((fast_memcpy bytes d s n)(d + n := fast_memcpy bytes d s n (s + n)))"
    unfolding copy_bytes_add IH using tr by simp
  also have "\<dots> = Some (fast_memcpy bytes d s (Suc n))" using Suc.prems(3) by (subst fast_memcpy_Suc) auto
  finally show ?case by simp
qed (auto simp: fast_memcpy_def fun_eq_iff)

lemma copy_bytes_unmapped:
  "copy_bytes f t src dst n bytes = None \<longleftrightarrow> (\<exists>i < n. f (src + i) = None \<or> t (dst + i) = None)"
proof (induction n arbitrary: src dst bytes)
  case (Suc n)
  have "(\<exists>i < Suc n. P i) \<longleftrightarrow> P 0 \<or> (\<exists>i < n. P (Suc i))" for P by (auto simp: less_Suc_eq_0_disj)
  then show ?case using Suc by (auto split: option.split)
qed simp

section \<open>Pieces\<close>

lemma page_of_user:
  assumes "is_user_addr a"
  shows "page_of a = Ok (a div PAGE_SIZE * PAGE_SIZE)" "a - a div PAGE_SIZE * PAGE_SIZE = a mod PAGE_SIZE"
  using user_addr_bound [OF assms] page_floor [of a]
  by (simp_all add: page_of_def page_aligned_from_address_def minus_div_mult_eq_mod)

lemma find_user_frame_page:
  assumes "vm_ok vm" "is_user_addr a"
  shows "case vm_view vm a of
      Some p \<Rightarrow> find_user_frame vm (a div PAGE_SIZE * PAGE_SIZE) = Ok (te_frame p * FRAME_SIZE)
    | None \<Rightarrow> \<exists>msg. find_user_frame vm (a div PAGE_SIZE * PAGE_SIZE) = fail NoSuchEntry msg"
proof -
  have u: "is_user_addr (a div PAGE_SIZE * PAGE_SIZE)" using assms(2) user_page [of a] by simp
  have v: "vm_view vm (a div PAGE_SIZE * PAGE_SIZE) = vm_view vm a" by (rule view_same_page) simp
  show ?thesis
  proof (cases "vm_view vm a")
    case None
    then show ?thesis using find_user_frame_unmapped [OF assms(1) u] unfolding v by simp
  next
    case (Some p)
    then show ?thesis using find_user_frame_mapped [OF assms(1) u] unfolding v by simp
  qed
qed

lemma user_vaddr_to_paddr_eq:
  assumes "vm_ok vm" "is_user_addr a"
  shows "case translate vm a of Some p \<Rightarrow> user_vaddr_to_paddr vm a = Ok p | None \<Rightarrow> \<exists>msg. user_vaddr_to_paddr vm a = fail NoSuchEntry msg"
  using find_user_frame_page [OF assms] page_of_user [OF assms(2)]
  by (auto simp: user_vaddr_to_paddr_def translate_def fail_def split: option.splits)

lemma translate_piece:
  assumes "vm_view vm a = Some p" "a mod PAGE_SIZE + i < PAGE_SIZE"
  shows "translate vm (a + i) = Some (te_frame p * FRAME_SIZE + a mod PAGE_SIZE + i)"
proof -
  have qr: "(r + q * PAGE_SIZE) div PAGE_SIZE = q" "(r + q * PAGE_SIZE) mod PAGE_SIZE = r" if "r < PAGE_SIZE" for q r :: nat
    using that by simp_all
  have e: "a + i = (a mod PAGE_SIZE + i) + a div PAGE_SIZE * PAGE_SIZE" using div_mult_mod_eq [of a PAGE_SIZE] by linarith
  have d: "(a + i) div PAGE_SIZE = a div PAGE_SIZE" "(a + i) mod PAGE_SIZE = a mod PAGE_SIZE + i"
    using qr [OF assms(2), of "a div PAGE_SIZE"] unfolding e [symmetric] .
  show ?thesis unfolding translate_def view_same_page [OF d(1)] d(2) assms(1) by (simp add: add.assoc)
qed

lemma phys_copy_ok:
  assumes ok: "mc_ok cf mc" and own: "0 < mc_owners mc p" "0 < mc_owners mc q" "p \<noteq> q"
    and n: "0 < n" "o1 + n \<le> PAGE_SIZE" "o2 + n \<le> PAGE_SIZE"
  shows "\<exists>mc'. phys_copy cf mc (q * FRAME_SIZE + o2) (p * FRAME_SIZE + o1) n = (Ok (), mc') \<and> mc_ok cf mc' \<and>
    mc_frames mc' = mc_frames mc \<and> mc_bytes mc' = fast_memcpy (mc_bytes mc) (q * FRAME_SIZE + o2) (p * FRAME_SIZE + o1) n \<and>
    (q * FRAME_SIZE + o2 + n \<le> p * FRAME_SIZE + o1 \<or> p * FRAME_SIZE + o1 + n \<le> q * FRAME_SIZE + o2)"
proof -
  let ?d = "q * FRAME_SIZE + o2" and ?s = "p * FRAME_SIZE + o1"
  have size: "?d + n \<le> kc_memory_size cf" "?s + n \<le> kc_memory_size cf"
    using owned_frame(2) [OF ok own(1)] owned_frame(2) [OF ok own(2)] n by linarith+
  have "Suc q \<le> p \<or> Suc p \<le> q" using own(3) by linarith
  then have apart: "?d + n \<le> ?s \<or> ?s + n \<le> ?d"
    using mult_le_mono1 [of "Suc q" p FRAME_SIZE] mult_le_mono1 [of "Suc p" q FRAME_SIZE] n by auto
  then have "{?d..<?d + n} \<inter> {?s..<?s + n} = {}" by auto
  then obtain m where "memcpy (kc_store cf) (kc_memory_size cf) (mc_mem mc) ?d ?s n = (Ok (), m)"
    "idmap_inv (kc_store cf) (kc_memory_size cf) m" "phys_bytes m = fast_memcpy (mc_bytes mc) ?d ?s n"
    using memcpy_spec [OF mc_ok_parts(1,3) [OF ok], of ?d ?s n] size n(1) by auto
  then show ?thesis using mc_ok_mem [OF ok] apart by (simp add: phys_copy_def)
qed

section \<open>Between processes\<close>

definition all_mapped :: "vmem \<Rightarrow> addr \<Rightarrow> usize \<Rightarrow> bool" where
  "all_mapped vm a sz \<longleftrightarrow> (\<forall>i < sz. vm_view vm (a + i) \<noteq> None)"

lemma all_mapped_split:
  assumes "vm_view vm a = Some p" "n \<le> sz" "a mod PAGE_SIZE + n \<le> PAGE_SIZE"
  shows "all_mapped vm a sz \<longleftrightarrow> all_mapped vm (a + n) (sz - n)"
proof -
  have "vm_view vm (a + i) \<noteq> None" if "i < n" for i
    using translate_piece [OF assms(1), of i] assms(3) that by (auto simp: translate_def)
  then have "(\<forall>i < sz. vm_view vm (a + i) \<noteq> None) \<longleftrightarrow> (\<forall>i < sz. n \<le> i \<longrightarrow> vm_view vm (a + i) \<noteq> None)"
    by (meson not_le)
  also have "\<dots> \<longleftrightarrow> (\<forall>j < sz - n. vm_view vm (a + n + j) \<noteq> None)"
    by (metis (no_types, lifting) add.assoc le_add1 le_add_diff_inverse less_diff_conv2 nat_add_left_cancel_less assms(2))
  finally show ?thesis unfolding all_mapped_def .
qed

text \<open>Both ranges in user space, and no byte of the source lies in the frame it is copied to.\<close>

definition copy_ok :: "kernel_config \<Rightarrow> machine \<Rightarrow> vmem \<Rightarrow> addr \<Rightarrow> vmem \<Rightarrow> addr \<Rightarrow> usize \<Rightarrow> bool" where
  "copy_ok cf mc sv src dv dst sz \<longleftrightarrow>
    mc_ok cf mc \<and> vm_ok sv \<and> vm_ok dv \<and> (\<forall>k. vm_refs sv k \<le> mc_owners mc k) \<and> (\<forall>k. vm_refs dv k \<le> mc_owners mc k) \<and>
    USER_BASE \<le> src \<and> src + sz \<le> USER_END \<and> USER_BASE \<le> dst \<and> dst + sz \<le> USER_END \<and>
    (\<forall>i < sz. case (vm_view sv (src + i), vm_view dv (dst + i)) of
       (Some p, Some q) \<Rightarrow> te_frame p \<noteq> te_frame q | _ \<Rightarrow> True)"

lemma copy_ok_rest:
  assumes "copy_ok cf mc sv src dv dst sz" "n \<le> sz" "mc_ok cf mc'" "mc_frames mc' = mc_frames mc"
  shows "copy_ok cf mc' sv (src + n) dv (dst + n) (sz - n)"
proof -
  have "case (vm_view sv (src + n + i), vm_view dv (dst + n + i)) of (Some p, Some q) \<Rightarrow> te_frame p \<noteq> te_frame q | _ \<Rightarrow> True"
    if "i < sz - n" for i
  proof -
    have "n + i < sz" using that assms(2) by linarith
    then show ?thesis using assms(1) unfolding copy_ok_def add.assoc by blast
  qed
  then show ?thesis using assms unfolding copy_ok_def by simp
qed

lemma copy_piece:
  assumes ok: "copy_ok cf mc sv src dv dst sz" and sz: "0 < sz"
    and n: "n = min (min sz (PAGE_SIZE - src mod PAGE_SIZE)) (PAGE_SIZE - dst mod PAGE_SIZE)"
  shows "if vm_view sv src = None \<or> vm_view dv dst = None
    then \<exists>msg. copy_user_to_user_impl cf sv dv mc dry src dst sz = (fail NoSuchEntry msg, mc)
    else \<exists>mc'. copy_user_to_user_impl cf sv dv mc dry src dst sz =
        copy_user_to_user_impl cf sv dv mc' dry (src + n) (dst + n) (sz - n) \<and> mc_ok cf mc' \<and> mc_frames mc' = mc_frames mc \<and>
      (if dry then mc' = mc else copy_bytes (translate sv) (translate dv) src dst n (mc_bytes mc) = Some (mc_bytes mc'))"
proof -
  have u: "is_user_addr src" "is_user_addr dst" using ok sz by (simp_all add: copy_ok_def is_user_addr_def)
  note ps = page_of_user [OF u(1)] and pd = page_of_user [OF u(2)]
  have pos: "0 < n" "n \<le> sz" "src mod PAGE_SIZE + n \<le> PAGE_SIZE" "dst mod PAGE_SIZE + n \<le> PAGE_SIZE"
    unfolding n using sz mod_less_divisor [of PAGE_SIZE src] mod_less_divisor [of PAGE_SIZE dst] by auto
  have adv: "advance_by src n = Ok (src + n)" "advance_by dst n = Ok (dst + n)"
    using ok pos(2) by (simp_all add: copy_ok_def advance_by_def USER_END_def)
  have fs: "case vm_view sv src of
      Some p \<Rightarrow> find_user_frame sv (src div PAGE_SIZE * PAGE_SIZE) = Ok (te_frame p * FRAME_SIZE)
    | None \<Rightarrow> \<exists>msg. find_user_frame sv (src div PAGE_SIZE * PAGE_SIZE) = fail NoSuchEntry msg"
    using ok u(1) by (intro find_user_frame_page) (simp_all add: copy_ok_def)
  have fd: "case vm_view dv dst of
      Some p \<Rightarrow> find_user_frame dv (dst div PAGE_SIZE * PAGE_SIZE) = Ok (te_frame p * FRAME_SIZE)
    | None \<Rightarrow> \<exists>msg. find_user_frame dv (dst div PAGE_SIZE * PAGE_SIZE) = fail NoSuchEntry msg"
    using ok u(2) by (intro find_user_frame_page) (simp_all add: copy_ok_def)
  have unf: "copy_user_to_user_impl cf sv dv mc dry src dst sz =
    (case bind_res (find_user_frame sv (src div PAGE_SIZE * PAGE_SIZE)) (\<lambda>src_frame.
          bind_res (find_user_frame dv (dst div PAGE_SIZE * PAGE_SIZE)) (\<lambda>dst_frame. Ok (src_frame, dst_frame))) of
       Err e \<Rightarrow> (Err e, mc)
     | Panic \<Rightarrow> (Panic, mc)
     | Ok (src_frame, dst_frame) \<Rightarrow>
         (case (if dry then (Ok (), mc)
                else phys_copy cf mc (dst_frame + dst mod PAGE_SIZE) (src_frame + src mod PAGE_SIZE) n) of
            (Err e, mc) \<Rightarrow> (Err e, mc)
          | (Panic, mc) \<Rightarrow> (Panic, mc)
          | (Ok _, mc) \<Rightarrow> copy_user_to_user_impl cf sv dv mc dry (src + n) (dst + n) (sz - n)))"
    unfolding copy_user_to_user_impl.simps [of cf sv dv mc dry src dst sz] ps pd Let_def n [symmetric] adv prod.case res.case
    using sz by simp
  show ?thesis
  proof (cases "vm_view sv src = None \<or> vm_view dv dst = None")
    case True
    have "\<exists>msg. bind_res (find_user_frame sv (src div PAGE_SIZE * PAGE_SIZE)) (\<lambda>src_frame.
        bind_res (find_user_frame dv (dst div PAGE_SIZE * PAGE_SIZE)) (\<lambda>dst_frame. Ok (src_frame, dst_frame))) = fail NoSuchEntry msg"
      using True fs fd by (auto simp: fail_def split: option.splits)
    then show ?thesis using True unf by (auto simp: fail_def)
  next
    case False
    then obtain p q where pq: "vm_view sv src = Some p" "vm_view dv dst = Some q" by auto
    have ne: "te_frame p \<noteq> te_frame q" using ok sz pq unfolding copy_ok_def by force
    have own: "0 < mc_owners mc (te_frame p)" "0 < mc_owners mc (te_frame q)"
      using ok view_ref pq unfolding copy_ok_def by (metis less_le_trans)+
    obtain mc' where c: "phys_copy cf mc (te_frame q * FRAME_SIZE + dst mod PAGE_SIZE) (te_frame p * FRAME_SIZE + src mod PAGE_SIZE) n = (Ok (), mc')"
      "mc_ok cf mc'" "mc_frames mc' = mc_frames mc"
      "mc_bytes mc' = fast_memcpy (mc_bytes mc) (te_frame q * FRAME_SIZE + dst mod PAGE_SIZE) (te_frame p * FRAME_SIZE + src mod PAGE_SIZE) n"
      "te_frame q * FRAME_SIZE + dst mod PAGE_SIZE + n \<le> te_frame p * FRAME_SIZE + src mod PAGE_SIZE \<or>
       te_frame p * FRAME_SIZE + src mod PAGE_SIZE + n \<le> te_frame q * FRAME_SIZE + dst mod PAGE_SIZE"
      using phys_copy_ok [OF _ own ne pos(1,3,4)] ok unfolding copy_ok_def by blast
    have "copy_bytes (translate sv) (translate dv) src dst n (mc_bytes mc) = Some (mc_bytes mc')"
      unfolding c(4) using translate_piece [OF pq(1)] translate_piece [OF pq(2)] pos(3,4) c(5) by (intro copy_bytes_piece) auto
    then show ?thesis using False fs fd pq unf c(1-3) ok by (cases dry) (auto simp: copy_ok_def)
  qed
qed

lemma copy_impl_spec:
  assumes "copy_ok cf mc sv src dv dst sz"
  shows "\<exists>r mc'. copy_user_to_user_impl cf sv dv mc dry src dst sz = (r, mc') \<and> mc_ok cf mc' \<and> mc_frames mc' = mc_frames mc \<and>
    (if dry then mc' = mc else True) \<and>
    (if all_mapped sv src sz \<and> all_mapped dv dst sz
     then r = Ok () \<and> (if dry then True else copy_bytes (translate sv) (translate dv) src dst sz (mc_bytes mc) = Some (mc_bytes mc'))
     else \<exists>msg. r = fail NoSuchEntry msg)"
  using assms
proof (induction sz arbitrary: src dst mc rule: less_induct)
  case (less sz)
  show ?case
  proof (cases "sz = 0")
    case True
    then show ?thesis using less.prems by (subst copy_user_to_user_impl.simps) (simp add: all_mapped_def copy_ok_def)
  next
    case False
    then have sz: "0 < sz" by simp
    define n where "n = min (min sz (PAGE_SIZE - src mod PAGE_SIZE)) (PAGE_SIZE - dst mod PAGE_SIZE)"
    have pos: "0 < n" "n \<le> sz" "src mod PAGE_SIZE + n \<le> PAGE_SIZE" "dst mod PAGE_SIZE + n \<le> PAGE_SIZE"
      unfolding n_def using sz mod_less_divisor [of PAGE_SIZE src] mod_less_divisor [of PAGE_SIZE dst] by auto
    note piece = copy_piece [OF less.prems sz n_def, of dry]
    show ?thesis
    proof (cases "vm_view sv src = None \<or> vm_view dv dst = None")
      case True
      then have "\<not> (all_mapped sv src sz \<and> all_mapped dv dst sz)" using sz unfolding all_mapped_def by (metis add_0_right)
      moreover obtain msg where "copy_user_to_user_impl cf sv dv mc dry src dst sz = (fail NoSuchEntry msg, mc)"
        using piece True by auto
      moreover have "mc_ok cf mc" using less.prems by (simp add: copy_ok_def)
      ultimately show ?thesis by (intro exI [of _ "fail NoSuchEntry msg"] exI [of _ mc]) auto
    next
      case False
      then obtain p q mc1 where pq: "vm_view sv src = Some p" "vm_view dv dst = Some q" and
        c: "copy_user_to_user_impl cf sv dv mc dry src dst sz = copy_user_to_user_impl cf sv dv mc1 dry (src + n) (dst + n) (sz - n)"
          "mc_ok cf mc1" "mc_frames mc1 = mc_frames mc"
          "if dry then mc1 = mc else copy_bytes (translate sv) (translate dv) src dst n (mc_bytes mc) = Some (mc_bytes mc1)"
        using piece by auto
      have "copy_ok cf mc1 sv (src + n) dv (dst + n) (sz - n)" by (rule copy_ok_rest [OF less.prems pos(2) c(2,3)])
      from less.IH [OF _ this] pos(1) sz obtain r mc' where
        i: "copy_user_to_user_impl cf sv dv mc1 dry (src + n) (dst + n) (sz - n) = (r, mc')" "mc_ok cf mc'" "mc_frames mc' = mc_frames mc1"
          "if dry then mc' = mc1 else True"
          "if all_mapped sv (src + n) (sz - n) \<and> all_mapped dv (dst + n) (sz - n)
           then r = Ok () \<and> (if dry then True else
             copy_bytes (translate sv) (translate dv) (src + n) (dst + n) (sz - n) (mc_bytes mc1) = Some (mc_bytes mc'))
           else \<exists>msg. r = fail NoSuchEntry msg" by auto
      have "copy_bytes (translate sv) (translate dv) src dst sz (mc_bytes mc) = Some b"
        if "copy_bytes (translate sv) (translate dv) src dst n (mc_bytes mc) = Some b1"
          "copy_bytes (translate sv) (translate dv) (src + n) (dst + n) (sz - n) b1 = Some b" for b1 b
        using that copy_bytes_add [of "translate sv" "translate dv" src dst n "sz - n" "mc_bytes mc"] pos(2) by simp
      then show ?thesis
        using c i all_mapped_split [OF pq(1) pos(2,3)] all_mapped_split [OF pq(2) pos(2,4)]
        by (cases dry) auto
    qed
  qed
qed

section \<open>From the kernel to a process\<close>

text \<open>The source is kernel memory: it lies in physical memory, and in no frame of the address space.\<close>

definition to_user_ok :: "kernel_config \<Rightarrow> machine \<Rightarrow> vmem \<Rightarrow> addr \<Rightarrow> addr \<Rightarrow> usize \<Rightarrow> bool" where
  "to_user_ok cf mc vm dst src sz \<longleftrightarrow>
    mc_ok cf mc \<and> vm_ok vm \<and> (\<forall>k. vm_refs vm k \<le> mc_owners mc k) \<and> USER_BASE \<le> dst \<and> dst + sz \<le> USER_END \<and>
    src + sz \<le> kc_memory_size cf \<and> (\<forall>i < sz. vm_refs vm ((src + i) div FRAME_SIZE) = 0)"

lemma to_user_ok_rest:
  assumes "to_user_ok cf mc vm dst src sz" "n \<le> sz" "mc_ok cf mc'" "mc_frames mc' = mc_frames mc"
  shows "to_user_ok cf mc' vm (dst + n) (src + n) (sz - n)"
proof -
  have "vm_refs vm ((src + n + i) div FRAME_SIZE) = 0" if "i < sz - n" for i
  proof -
    have "n + i < sz" using that assms(2) by linarith
    then show ?thesis using assms(1) unfolding to_user_ok_def add.assoc by blast
  qed
  then show ?thesis using assms unfolding to_user_ok_def by simp
qed

lemma kernel_copy_ok:
  assumes ok: "to_user_ok cf mc vm dst src sz" and q: "vm_view vm dst = Some q"
    and n: "0 < n" "n \<le> sz" "dst mod PAGE_SIZE + n \<le> PAGE_SIZE"
  shows "\<exists>mc'. phys_copy cf mc (te_frame q * FRAME_SIZE + dst mod PAGE_SIZE) src n = (Ok (), mc') \<and> mc_ok cf mc' \<and>
    mc_frames mc' = mc_frames mc \<and> is_physical_region cf (te_frame q * FRAME_SIZE + dst mod PAGE_SIZE) n \<and>
    copy_bytes Some (translate vm) src dst n (mc_bytes mc) = Some (mc_bytes mc')"
proof -
  let ?d = "te_frame q * FRAME_SIZE + dst mod PAGE_SIZE"
  have mc: "mc_ok cf mc" and vm: "vm_ok vm" and src: "src + n \<le> kc_memory_size cf" using ok n(2) by (auto simp: to_user_ok_def)
  have ref: "0 < vm_refs vm (te_frame q)" by (rule view_ref [OF vm q])
  then have "0 < mc_owners mc (te_frame q)" using ok unfolding to_user_ok_def by (metis less_le_trans)
  note fr = owned_frame(2) [OF mc this]
  have size: "?d + n \<le> kc_memory_size cf" using fr n(3) by linarith
  have "x \<notin> {src..<src + n}" if "x \<in> {?d..<?d + n}" for x
  proof
    assume "x \<in> {src..<src + n}"
    then obtain i where "x = src + i" "i < sz" using n(2) by (auto simp: le_iff_add)
    moreover have "x div FRAME_SIZE = te_frame q" using that n(3) by (intro in_frame_div) auto
    ultimately show False using ok ref unfolding to_user_ok_def by (metis less_irrefl)
  qed
  then have dis: "{?d..<?d + n} \<inter> {src..<src + n} = {}" by blast
  have apart: "?d + n \<le> src \<or> src + n \<le> ?d"
  proof (rule ccontr)
    assume "\<not> ?thesis"
    then have "max ?d src \<in> {?d..<?d + n} \<inter> {src..<src + n}" using n(1) by auto
    then show False unfolding dis by simp
  qed
  obtain m where m: "memcpy (kc_store cf) (kc_memory_size cf) (mc_mem mc) ?d src n = (Ok (), m)"
    "idmap_inv (kc_store cf) (kc_memory_size cf) m" "phys_bytes m = fast_memcpy (mc_bytes mc) ?d src n"
    using memcpy_spec [OF mc_ok_parts(1,3) [OF mc], of ?d src n] size src dis n(1) by auto
  have "copy_bytes Some (translate vm) src dst n (mc_bytes mc) = Some (fast_memcpy (mc_bytes mc) ?d src n)"
    using translate_piece [OF q] n(3) apart by (intro copy_bytes_piece) auto
  moreover have "is_physical_region cf ?d n"
    using size n(1) mc_ok_parts(1) [OF mc] by (simp add: is_physical_region_def checked_add_def config_ok_def)
  ultimately show ?thesis using m mc_ok_mem [OF mc m(2)] by (simp add: phys_copy_def)
qed

lemma to_user_piece:
  assumes ok: "to_user_ok cf mc vm dst src sz" and sz: "0 < sz" and n: "n = min (PAGE_SIZE - dst mod PAGE_SIZE) sz"
  shows "copy_to_user_loop cf vm mc True dst src sz = copy_to_user_loop cf vm mc True (dst + n) (src + n) (sz - n)"
    "if vm_view vm dst = None then copy_to_user_loop cf vm mc False dst src sz = (Panic, mc)
     else \<exists>mc'. copy_to_user_loop cf vm mc False dst src sz = copy_to_user_loop cf vm mc' False (dst + n) (src + n) (sz - n) \<and>
       mc_ok cf mc' \<and> mc_frames mc' = mc_frames mc \<and>
       copy_bytes Some (translate vm) src dst n (mc_bytes mc) = Some (mc_bytes mc')"
proof -
  have u: "is_user_addr dst" using ok sz by (simp add: to_user_ok_def is_user_addr_def)
  note pd = page_of_user [OF u]
  have pos: "0 < n" "n \<le> sz" "dst mod PAGE_SIZE + n \<le> PAGE_SIZE" unfolding n using sz mod_less_divisor [of PAGE_SIZE dst] by auto
  have mem: "kc_memory_size cf \<le> USIZE_MAX" using ok by (auto simp: to_user_ok_def mc_ok_def config_ok_def)
  have adv: "advance_by dst n = Ok (dst + n)" "advance_by src n = Ok (src + n)"
    using ok pos(2) mem by (simp_all add: to_user_ok_def advance_by_def USER_END_def)
  have ph: "is_physical_region cf src n"
    using ok pos(1,2) mem by (simp add: is_physical_region_def checked_add_def to_user_ok_def)
  have fd: "case vm_view vm dst of
      Some p \<Rightarrow> find_user_frame vm (dst div PAGE_SIZE * PAGE_SIZE) = Ok (te_frame p * FRAME_SIZE)
    | None \<Rightarrow> \<exists>msg. find_user_frame vm (dst div PAGE_SIZE * PAGE_SIZE) = fail NoSuchEntry msg"
    using ok u by (intro find_user_frame_page) (simp_all add: to_user_ok_def)
  have unf: "copy_to_user_loop cf vm mc dry dst src sz =
    (case (if dry then (Ok (), mc)
           else case find_user_frame vm (dst div PAGE_SIZE * PAGE_SIZE) of
             Ok dst_frame \<Rightarrow>
               (if \<not> is_physical_region cf (dst_frame + dst mod PAGE_SIZE) n then (Panic, mc)
                else case phys_copy cf mc (dst_frame + dst mod PAGE_SIZE) src n of
                  (Ok _, mc) \<Rightarrow> (Ok (), mc) | (_, mc) \<Rightarrow> (Panic, mc))
           | _ \<Rightarrow> (Panic, mc)) of
       (Ok _, mc) \<Rightarrow> copy_to_user_loop cf vm mc dry (dst + n) (src + n) (sz - n)
     | res \<Rightarrow> res)" for dry
    unfolding copy_to_user_loop.simps [of cf vm mc dry dst src sz] pd Let_def n [symmetric] adv prod.case res.case
    using sz ph by simp
  show "copy_to_user_loop cf vm mc True dst src sz = copy_to_user_loop cf vm mc True (dst + n) (src + n) (sz - n)"
    unfolding unf by simp
  show "if vm_view vm dst = None then copy_to_user_loop cf vm mc False dst src sz = (Panic, mc)
     else \<exists>mc'. copy_to_user_loop cf vm mc False dst src sz = copy_to_user_loop cf vm mc' False (dst + n) (src + n) (sz - n) \<and>
       mc_ok cf mc' \<and> mc_frames mc' = mc_frames mc \<and>
       copy_bytes Some (translate vm) src dst n (mc_bytes mc) = Some (mc_bytes mc')"
  proof (cases "vm_view vm dst")
    case None
    then show ?thesis using fd unf [of False] by (auto simp: fail_def)
  next
    case (Some q)
    obtain mc' where "phys_copy cf mc (te_frame q * FRAME_SIZE + dst mod PAGE_SIZE) src n = (Ok (), mc')" "mc_ok cf mc'"
      "mc_frames mc' = mc_frames mc" "is_physical_region cf (te_frame q * FRAME_SIZE + dst mod PAGE_SIZE) n"
      "copy_bytes Some (translate vm) src dst n (mc_bytes mc) = Some (mc_bytes mc')" using kernel_copy_ok [OF ok Some pos] by blast
    then show ?thesis using Some fd unf [of False] by auto
  qed
qed

lemma to_user_dry:
  assumes "to_user_ok cf mc vm dst src sz"
  shows "copy_to_user_loop cf vm mc True dst src sz = (Ok (), mc)"
  using assms
proof (induction sz arbitrary: src dst rule: less_induct)
  case (less sz)
  show ?case
  proof (cases "sz = 0")
    case True
    then show ?thesis by (subst copy_to_user_loop.simps) simp
  next
    case False
    define n where "n = min (PAGE_SIZE - dst mod PAGE_SIZE) sz"
    have pos: "0 < n" "n \<le> sz" unfolding n_def using False mod_less_divisor [of PAGE_SIZE dst] by auto
    have "mc_ok cf mc" using less.prems by (simp add: to_user_ok_def)
    then have "to_user_ok cf mc vm (dst + n) (src + n) (sz - n)" by (rule to_user_ok_rest [OF less.prems pos(2) _ refl])
    from less.IH [OF _ this] show ?thesis using to_user_piece(1) [OF less.prems _ n_def] False pos(1) by simp
  qed
qed

lemma to_user_loop_spec:
  assumes "to_user_ok cf mc vm dst src sz"
  shows "\<exists>r mc'. copy_to_user_loop cf vm mc False dst src sz = (r, mc') \<and>
    (if all_mapped vm dst sz
     then r = Ok () \<and> mc_ok cf mc' \<and> mc_frames mc' = mc_frames mc \<and>
       copy_bytes Some (translate vm) src dst sz (mc_bytes mc) = Some (mc_bytes mc')
     else r = Panic)"
  using assms
proof (induction sz arbitrary: src dst mc rule: less_induct)
  case (less sz)
  show ?case
  proof (cases "sz = 0")
    case True
    then show ?thesis using less.prems by (subst copy_to_user_loop.simps) (simp add: all_mapped_def to_user_ok_def)
  next
    case False
    then have sz: "0 < sz" by simp
    define n where "n = min (PAGE_SIZE - dst mod PAGE_SIZE) sz"
    have pos: "0 < n" "n \<le> sz" "dst mod PAGE_SIZE + n \<le> PAGE_SIZE"
      unfolding n_def using sz mod_less_divisor [of PAGE_SIZE dst] by auto
    note piece = to_user_piece(2) [OF less.prems sz n_def]
    show ?thesis
    proof (cases "vm_view vm dst")
      case None
      then have "\<not> all_mapped vm dst sz" using sz unfolding all_mapped_def by (metis add_0_right)
      then show ?thesis using None piece by simp
    next
      case (Some q)
      then obtain mc1 where c: "copy_to_user_loop cf vm mc False dst src sz = copy_to_user_loop cf vm mc1 False (dst + n) (src + n) (sz - n)"
        "mc_ok cf mc1" "mc_frames mc1 = mc_frames mc" "copy_bytes Some (translate vm) src dst n (mc_bytes mc) = Some (mc_bytes mc1)"
        using piece by auto
      have "to_user_ok cf mc1 vm (dst + n) (src + n) (sz - n)" by (rule to_user_ok_rest [OF less.prems pos(2) c(2,3)])
      from less.IH [OF _ this] pos(1) sz obtain r mc' where
        i: "copy_to_user_loop cf vm mc1 False (dst + n) (src + n) (sz - n) = (r, mc')"
          "if all_mapped vm (dst + n) (sz - n)
           then r = Ok () \<and> mc_ok cf mc' \<and> mc_frames mc' = mc_frames mc1 \<and>
             copy_bytes Some (translate vm) (src + n) (dst + n) (sz - n) (mc_bytes mc1) = Some (mc_bytes mc')
           else r = Panic" by auto
      have "copy_bytes Some (translate vm) src dst sz (mc_bytes mc) = Some (mc_bytes mc')"
        if "copy_bytes Some (translate vm) (src + n) (dst + n) (sz - n) (mc_bytes mc1) = Some (mc_bytes mc')"
        using that c(4) copy_bytes_add [of Some "translate vm" src dst n "sz - n" "mc_bytes mc"] pos(2) by simp
      then show ?thesis using c(1,3) i all_mapped_split [OF Some pos(2,3)] by auto
    qed
  qed
qed

text \<open>What resolving leaves behind is what the copy needs.\<close>

lemma resolved_to_user_ok:
  assumes r: "resolves cf other mc vm mc1 vm1" and span: "USER_BASE \<le> dst" "dst + sz \<le> USER_END" "src + sz \<le> kc_memory_size cf"
    and src: "\<forall>i < sz. 0 < other ((src + i) div FRAME_SIZE) \<and> vm_refs vm ((src + i) div FRAME_SIZE) = 0"
  shows "to_user_ok cf mc1 vm1 dst src sz"
proof -
  have "vm_refs vm1 k \<le> mc_owners mc1 k" for k using r unfolding resolves_def by (meson add_leD1)
  moreover have "vm_refs vm1 ((src + i) div FRAME_SIZE) = 0" if "i < sz" for i
  proof -
    have k: "0 < other ((src + i) div FRAME_SIZE)" "vm_refs vm ((src + i) div FRAME_SIZE) = 0" using src that by auto
    have "vm_refs vm1 ((src + i) div FRAME_SIZE) \<le> vm_refs vm ((src + i) div FRAME_SIZE)"
      using r k(1) unfolding resolves_def by blast
    then show ?thesis using k(2) by simp
  qed
  ultimately show ?thesis using r span by (simp add: to_user_ok_def resolves_def)
qed

lemma resolved_mapped:
  assumes "resolved_range other i h vm vm1"
  shows "vm_view vm1 b = None \<longleftrightarrow> vm_view vm b = None"
  using spec [OF assms [unfolded resolved_range_def], of b]
  by (auto simp: entry_resolved_def split: if_splits option.splits)

lemma example_regions:
  "is_user_region (USER_BASE + 10) 2" "is_user_region (USER_BASE + 100) 2" "is_user_region (USER_BASE + PAGE_SIZE - 1) 2"
  "is_kernel_region (4 * FRAME_SIZE) 2"
  by (simp_all add: is_user_region_def is_kernel_region_def is_kernel_addr_def checked_add_def is_user_addr_def USER_BASE_def USER_END_def)

section \<open>Claims\<close>

text \<open>
  C39. Copying between the memories of two processes, in pieces that cross no page boundary on either side, is the copy of
  single bytes through the two address spaces: it succeeds exactly when every page of both ranges is mapped, and then memory
  is what the byte copy makes of it. Otherwise it fails with \<open>NoSuchEntry\<close> and, when the copy has its two passes, has not
  written a single byte. No byte of the source may lie in the frame it is copied to.
\<close>

theorem copy_user_to_user_correct:
  assumes ok: "mc_ok cf mc" "vm_ok src_vmem" "vm_ok dst_vmem" "\<forall>k. vm_refs src_vmem k \<le> mc_owners mc k"
      "\<forall>k. vm_refs dst_vmem k \<le> mc_owners mc k" "is_user_region src sz" "is_user_region dst sz"
    and apart: "\<forall>i < sz. case (vm_view src_vmem (src + i), vm_view dst_vmem (dst + i)) of
       (Some p, Some q) \<Rightarrow> te_frame p \<noteq> te_frame q | _ \<Rightarrow> True"
  shows "\<exists>r mc'. copy_user_to_user single_pass cf src_vmem src dst_vmem dst sz mc = (r, mc') \<and> mc_ok cf mc' \<and>
    mc_frames mc' = mc_frames mc \<and>
    (case copy_bytes (translate src_vmem) (translate dst_vmem) src dst sz (mc_bytes mc) of
       Some bytes \<Rightarrow> r = Ok () \<and> mc_bytes mc' = bytes
     | None \<Rightarrow> (\<exists>msg. r = fail NoSuchEntry msg) \<and> (if single_pass then True else mc' = mc))"
proof -
  let ?impl = "copy_user_to_user_impl cf src_vmem dst_vmem"
  have span: "USER_BASE \<le> a \<and> a + sz \<le> USER_END \<and> sz \<noteq> 0" if "is_user_region a sz" for a
    using that by (auto simp: is_user_region_def is_user_addr_def checked_add_def split: if_splits)
  then have c: "copy_ok cf mc src_vmem src dst_vmem dst sz" using ok apart span [of src] span [of dst] unfolding copy_ok_def by simp
  have none: "copy_bytes (translate src_vmem) (translate dst_vmem) src dst sz (mc_bytes mc) = None \<longleftrightarrow>
      \<not> (all_mapped src_vmem src sz \<and> all_mapped dst_vmem dst sz)"
    unfolding copy_bytes_unmapped all_mapped_def translate_def by auto
  have start: "copy_user_to_user single_pass cf src_vmem src dst_vmem dst sz mc =
      (if single_pass then ?impl mc False src dst sz
       else case ?impl mc True src dst sz of (Ok _, mc) \<Rightarrow> ?impl mc False src dst sz | res \<Rightarrow> res)"
    using ok(6,7) span [OF ok(6)] by (simp add: copy_user_to_user_def)
  obtain r1 mc1 where f: "?impl mc False src dst sz = (r1, mc1)" "mc_ok cf mc1" "mc_frames mc1 = mc_frames mc"
    "if all_mapped src_vmem src sz \<and> all_mapped dst_vmem dst sz
     then r1 = Ok () \<and> copy_bytes (translate src_vmem) (translate dst_vmem) src dst sz (mc_bytes mc) = Some (mc_bytes mc1)
     else \<exists>msg. r1 = fail NoSuchEntry msg" using copy_impl_spec [OF c, of False] by auto
  obtain r2 where d: "?impl mc True src dst sz = (r2, mc)"
    "if all_mapped src_vmem src sz \<and> all_mapped dst_vmem dst sz then r2 = Ok () else \<exists>msg. r2 = fail NoSuchEntry msg"
    using copy_impl_spec [OF c, of True] by auto
  show ?thesis
  proof (cases "all_mapped src_vmem src sz \<and> all_mapped dst_vmem dst sz")
    case True
    then show ?thesis using f d unfolding start by simp
  next
    case False
    then have "copy_bytes (translate src_vmem) (translate dst_vmem) src dst sz (mc_bytes mc) = None" using none by simp
    then show ?thesis using False f d ok(1) unfolding start by (auto simp: fail_def)
  qed
qed

theorem copy_user_to_user_correct_witness:
  "\<exists>src_vmem dst_vmem mc'. vm_view src_vmem USER_BASE = Some (mapped_pte 6 False False True RDWR) \<and>
    vm_view dst_vmem USER_BASE = Some (mapped_pte 4 False False True RDWR) \<and>
    copy_user_to_user False example_cf src_vmem (USER_BASE + 10) dst_vmem (USER_BASE + 100) 2 example_mc = (Ok (), mc') \<and>
    user_byte mc' dst_vmem (USER_BASE + 101) = user_byte example_mc src_vmem (USER_BASE + 11)"
proof -
  obtain sv where sv: "vm_ok sv" "vm_view sv = set_page Map.empty USER_BASE (Some (mapped_pte 6 False False True RDWR))"
    "\<forall>k. vm_refs sv k = one_frame 7 k + one_frame 5 k + one_frame 6 k"
    using writable_space [of 5 6 RDWR 7] by (auto simp: FRAME_NUMBER_MAX_def)
  obtain dv where dv: "vm_ok dv" "vm_view dv = set_page Map.empty USER_BASE (Some (mapped_pte 4 False False True RDWR))"
    "\<forall>k. vm_refs dv k = one_frame 4 k + one_frame 4 k + one_frame 4 k"
    using writable_space [of 4 4 RDWR 4] by (auto simp: FRAME_NUMBER_MAX_def)
  have refs: "\<forall>k. vm_refs sv k \<le> mc_owners example_mc k" "\<forall>k. vm_refs dv k \<le> mc_owners example_mc k"
    using sv(3) dv(3) example_owners example_owners_4 by simp_all
  have reg: "is_user_region (USER_BASE + 10) 2" "is_user_region (USER_BASE + 100) 2" by (simp_all add: example_regions)
  have fr: "te_frame (mapped_pte n False False True RDWR) = n" for n by (simp add: mapped_pte_def)
  have apart: "\<forall>i < 2. case (vm_view sv (USER_BASE + 10 + i), vm_view dv (USER_BASE + 100 + i)) of
       (Some p, Some q) \<Rightarrow> te_frame p \<noteq> te_frame q | _ \<Rightarrow> True"
    unfolding sv(2) dv(2) by (auto simp: set_page_def fr)
  let ?b = "mc_bytes example_mc" and ?s = "6 * FRAME_SIZE + 10" and ?d = "4 * FRAME_SIZE + 100"
  have dm: "(1073741824 + k) div 4096 = 262144" "(1073741824 + k) mod 4096 = k" if "k < 4096" for k :: nat
    using that div_mult_self3 [of 4096 262144 k] mod_mult_self4 [of 4096 262144 k] by simp_all
  have tr: "translate sv (USER_BASE + k) = Some (6 * FRAME_SIZE + k)" "translate dv (USER_BASE + k) = Some (4 * FRAME_SIZE + k)"
    "vm_view sv (USER_BASE + k) = Some (mapped_pte 6 False False True RDWR)" "vm_view dv (USER_BASE + k) = Some (mapped_pte 4 False False True RDWR)"
    if "k < PAGE_SIZE" for k
    using dm [of k] that by (simp_all add: translate_def sv(2) dv(2) set_page_def USER_BASE_def fr)
  have c: "copy_bytes (translate sv) (translate dv) (USER_BASE + 10) (USER_BASE + 100) 2 ?b = Some (fast_memcpy ?b ?d ?s 2)"
    by (rule copy_bytes_piece) (simp_all add: add.assoc tr)
  obtain mc' where mc': "copy_user_to_user False example_cf sv (USER_BASE + 10) dv (USER_BASE + 100) 2 example_mc = (Ok (), mc')"
    "mc_bytes mc' = fast_memcpy ?b ?d ?s 2"
    using copy_user_to_user_correct [OF example_mc_ok sv(1) dv(1) refs reg apart, of False] unfolding c by auto
  moreover have "user_byte mc' dv (USER_BASE + 101) = user_byte example_mc sv (USER_BASE + 11)"
    unfolding user_byte_def mc'(2) using tr [of 101] tr [of 11] by (simp add: fr fast_memcpy_def USER_BASE_def)
  ultimately show ?thesis using tr(3,4) [of 0] by auto
qed

text \<open>
  C40. Copying kernel memory to a process first resolves the copy-on-write pages of the destination, which nobody can see in memory,
  and then writes exactly what the copy of single bytes through the page tables writes. When frames run out it fails
  without writing. When a page of the destination is not mapped it does not fail: although a dry run precedes the copy, the kernel panics.
  The source lies in frames that \<open>other\<close> holds and the address space does not.
\<close>

theorem copy_to_user_correct:
  assumes ok: "mc_ok cf mc" "vm_ok vm" "cow_ok vm" and refs: "\<forall>k. vm_refs vm k + other k \<le> mc_owners mc k"
    and region: "is_kernel_region src sz" "is_user_region dst sz" "src + sz \<le> kc_memory_size cf"
    and src: "\<forall>i < sz. 0 < other ((src + i) div FRAME_SIZE) \<and> vm_refs vm ((src + i) div FRAME_SIZE) = 0"
  shows "\<exists>r vm' mc' mc1. copy_to_user_unaligned single_pass cf vm mc dst src sz = (r, vm', mc') \<and> resolves cf other mc vm mc1 vm' \<and>
    (case r of
       Ok _ \<Rightarrow> all_mapped vm dst sz \<and> mc_ok cf mc' \<and> mc_frames mc' = mc_frames mc1 \<and>
         (\<forall>i < sz. entry_resolved other (vm_view vm (dst + i)) (vm_view vm' (dst + i))) \<and>
         copy_bytes Some (translate vm') src dst sz (mc_bytes mc1) = Some (mc_bytes mc')
     | Err e \<Rightarrow> mc' = mc1 \<and> free_count (mc_frames mc) < kc_watermark cf + sz
     | Panic \<Rightarrow> \<not> all_mapped vm dst sz)"
proof -
  have span: "USER_BASE \<le> dst" "dst + sz \<le> USER_END" "0 < sz"
    using region(2) by (auto simp: is_user_region_def is_user_addr_def checked_add_def split: if_splits)
  then have sz: "0 < sz" "dst + sz \<le> USIZE_MAX" by (simp_all add: USER_END_def)
  let ?i = "dst div PAGE_SIZE" and ?j = "(dst + sz - 1) div PAGE_SIZE"
  obtain r vm1 mc1 h where s: "resolve_cow_for_region cf vm mc dst sz = (r, vm1, mc1)" "resolves cf other mc vm mc1 vm1"
    "resolved_range other ?i h vm vm1"
    "r = Ok () \<and> h = Suc ?j \<or> (\<exists>e. r = Err e) \<and> h \<le> ?j \<and> free_count (mc_frames mc) \<le> kc_watermark cf + (h - ?i)"
    using resolve_pages_spec [OF ok refs resolve_region_eq(2,3) [OF sz]] unfolding resolve_region_eq(1) [OF sz] by blast
  have "to_user_ok cf mc vm dst src sz" by (rule resolved_to_user_ok [OF resolves_refl [OF ok refs] span(1,2) region(3) src])
  from to_user_dry [OF this] have start: "copy_to_user_unaligned single_pass cf vm mc dst src sz =
      (case r of Ok _ \<Rightarrow> (case copy_to_user_loop cf vm1 mc1 False dst src sz of (r, mc) \<Rightarrow> (r, vm1, mc))
       | Err e \<Rightarrow> (Err e, vm1, mc1) | Panic \<Rightarrow> (Panic, vm1, mc1))"
    using s(1) region sz(1) by (auto simp: copy_to_user_unaligned_def copy_to_user_unaligned_unchecked_def split: res.split)
  show ?thesis
  proof (cases "r = Ok ()")
    case False
    then obtain e where e: "r = Err e" "h \<le> ?j" "free_count (mc_frames mc) \<le> kc_watermark cf + (h - ?i)" using s(4) by auto
    have "(dst + (sz - 1)) div PAGE_SIZE \<le> (dst + (sz - 1) * PAGE_SIZE) div PAGE_SIZE" by (intro div_le_mono) simp
    then have "?j \<le> ?i + (sz - 1)" using sz(1) by simp
    then have "free_count (mc_frames mc) < kc_watermark cf + sz" using e(2,3) sz(1) by linarith
    then show ?thesis using start e(1) s(2) by auto
  next
    case True
    have "to_user_ok cf mc1 vm1 dst src sz" by (rule resolved_to_user_ok [OF s(2) span(1,2) region(3) src])
    from to_user_loop_spec [OF this] obtain r' mc' where l: "copy_to_user_loop cf vm1 mc1 False dst src sz = (r', mc')"
      "if all_mapped vm1 dst sz then r' = Ok () \<and> mc_ok cf mc' \<and> mc_frames mc' = mc_frames mc1 \<and>
         copy_bytes Some (translate vm1) src dst sz (mc_bytes mc1) = Some (mc_bytes mc') else r' = Panic" by blast
    have m: "all_mapped vm1 dst sz = all_mapped vm dst sz" unfolding all_mapped_def using resolved_mapped [OF s(3)] by simp
    have res: "entry_resolved other (vm_view vm (dst + i)) (vm_view vm1 (dst + i))" if "i < sz" for i
    proof -
      have "is_user_addr (dst + i)" "?i \<le> (dst + i) div PAGE_SIZE" "(dst + i) div PAGE_SIZE < h"
        using that span True s(4) div_le_mono [of "dst + i" "dst + sz - 1" PAGE_SIZE] div_le_mono [of dst "dst + i" PAGE_SIZE]
        by (auto simp: is_user_addr_def)
      then show ?thesis using spec [OF s(3) [unfolded resolved_range_def], of "dst + i"] by simp
    qed
    show ?thesis
    proof (cases "all_mapped vm dst sz")
      case True
      then show ?thesis using \<open>r = Ok ()\<close> start l m s(2) res by auto
    next
      case False
      then show ?thesis using \<open>r = Ok ()\<close> start l m s(2) by auto
    qed
  qed
qed

theorem copy_to_user_correct_witness:
  "\<exists>vm. vm_view vm USER_BASE = Some (shared_pte 6) \<and>
    fst (copy_to_user_unaligned False example_cf vm example_mc (USER_BASE + 100) (4 * FRAME_SIZE) 2) = Ok () \<and>
    fst (copy_to_user_unaligned False example_cf vm example_mc (USER_BASE + PAGE_SIZE - 1) (4 * FRAME_SIZE) 2) = Panic"
proof -
  obtain vm where vm: "vm_ok vm" "cow_ok vm" "vm_view vm = set_page Map.empty USER_BASE (Some (shared_pte 6))"
    "\<forall>k. vm_refs vm k = one_frame 7 k + one_frame 5 k + one_frame 6 k"
    using shared_space [of 5 6 7] by (auto simp: FRAME_NUMBER_MAX_def)
  have refs: "\<forall>k. vm_refs vm k + one_frame 4 k \<le> mc_owners example_mc k" using vm(4) example_owners example_owners_4 by simp
  have reg: "is_kernel_region (4 * FRAME_SIZE) 2" "4 * FRAME_SIZE + 2 \<le> kc_memory_size example_cf"
    "is_user_region (USER_BASE + 100) 2" "is_user_region (USER_BASE + PAGE_SIZE - 1) 2"
    by (rule example_regions, simp add: example_cf_def, (rule example_regions)+)
  have src: "\<forall>i < 2. 0 < one_frame 4 ((4 * FRAME_SIZE + i) div FRAME_SIZE) \<and> vm_refs vm ((4 * FRAME_SIZE + i) div FRAME_SIZE) = 0"
    using vm(4) by (auto simp: numeral_2_eq_2 less_Suc_eq)
  have free: "\<not> free_count (mc_frames example_mc) < kc_watermark example_cf + 2"
    by (simp add: example_cf_def example_mc_def) code_simp
  have m: "all_mapped vm (USER_BASE + 100) 2" "\<not> all_mapped vm (USER_BASE + PAGE_SIZE - 1) 2"
    unfolding all_mapped_def vm(3) by (auto simp: set_page_def USER_BASE_def is_user_addr_def USER_END_def numeral_2_eq_2 less_Suc_eq)
  note t = copy_to_user_correct [where other = "one_frame 4" and single_pass = False, OF example_mc_ok vm(1,2) refs reg(1) _ reg(2) src]
  obtain r v c where 1: "copy_to_user_unaligned False example_cf vm example_mc (USER_BASE + 100) (4 * FRAME_SIZE) 2 = (r, v, c)"
    "case r of Ok _ \<Rightarrow> True | Err e \<Rightarrow> False | Panic \<Rightarrow> False" using t [OF reg(3)] m(1) free by (fastforce split: res.splits)
  obtain r' v' c' where 2: "copy_to_user_unaligned False example_cf vm example_mc (USER_BASE + PAGE_SIZE - 1) (4 * FRAME_SIZE) 2 = (r', v', c')"
    "case r' of Panic \<Rightarrow> True | _ \<Rightarrow> False" using t [OF reg(4)] m(2) free by (fastforce split: res.splits)
  have "vm_view vm USER_BASE = Some (shared_pte 6)" using vm(3) by (simp add: set_page_def)
  then show ?thesis using 1 2 by (intro exI [of _ vm]) (auto split: res.splits)
qed

end
