(* ===== verification/Spec2Isabelle.thy ===== *)
theory Spec2Isabelle
  imports Kernel_Heap Scheduler_Progress User_Copies
begin

text \<open>
  A verification library of the Nanvix microkernel and of the support crates it is built from.

  \<^bold>\<open>The program.\<close> Nanvix is a microkernel in Rust for 32-bit x86. The physical memory manager hands out
  reference-counted page frames; the virtual memory manager builds page tables and address spaces from
  them and shares pages between a parent and its duplicates; the kernel heap serves the kernel's own
  objects from slabs; the process manager keeps processes and threads in queues, schedules them, puts
  them to sleep and wakes them up; processes talk through mailboxes and through rendezvous, hold
  capabilities, and claim I/O ports and device memory from two allocators. Each part is a theory here,
  and a theory imports the theories of the parts it calls.

  \<^bold>\<open>How the code is represented.\<close> A function that returns \<open>Result\<close> and may panic yields a value of
  \<^typ>\<open>('e, 'a) res\<close>: \<open>Ok\<close>, \<open>Err\<close> with the error of the source, or \<open>Panic\<close>. A method that takes
  \<open>&mut self\<close> returns its result together with the new state, also when it fails, so that what a failed
  operation leaves behind is visible. A structure is a record, an enumeration a datatype. A \<open>usize\<close>
  is a natural number with its 32-bit bound written where the code can reach it (checked additions yield an
  option); bytes, table entries and event words are machine words. Loops are recursive functions, on
  the list they walk or with a termination proof, so every operation is a total function; there is no
  fuel except where a text block of a theory says so. The reason strings of errors are kept.

  \<^bold>\<open>Memory.\<close>
  \<^item> \<open>Bitmaps\<close> (\<open>libs/raw-array\<close>, \<open>libs/bitmap\<close>): a bitmap over a byte array as an allocator of indices
    and of ranges, with the word-skipping search equal to the naive one. The locale
    \<open>index_allocator\<close> is what its clients rely on.
  \<^item> \<open>Slabs\<close> (\<open>libs/slab\<close>), \<open>Kernel_Heap\<close> (\<open>kernel/src/mm/kheap.rs\<close>): blocks of one size on a bitmap,
    and seven such tiers behind the global allocator. Blocks are disjoint, inside the region and freed once; the locale
    \<open>block_allocator\<close> lifts this from one slab to the heap.
  \<^item> \<open>Frames\<close> (\<open>kernel/src/mm/phys\<close>): frames with an owner count each (locale \<open>counted_resource\<close>),
    user and kernel allocation, the watermark reserved for the kernel, and the release of frames on every error path.
  \<^item> \<open>Memory_Regions\<close> (\<open>libs/sys/src/sys/mm\<close>, \<open>kernel/src/hal/mem/types\<close>): alignment, access permissions, regions.
  \<^item> \<open>Page_Tables\<close> (\<open>libs/arch/src/x86/mem/paging\<close>, \<open>kernel/src/hal/arch/shared/mem/mmu\<close>): entries as
    32-bit words, page tables and page directories as arrays of them. The locale \<open>entry_format\<close>
    carries the lemmas on reading and writing entries for both formats.
  \<^item> \<open>Bump_Allocators\<close> (\<open>libs/bump_allocator\<close>): slots reserved by compare-and-swap, as a step relation over any number of threads.
  \<^item> \<open>Identity_Maps\<close> (\<open>kernel/src/mm/virt/identity_map.rs\<close>): the page tables in physical memory that map it one to
    one, built from the bump allocator, and the copies and fills through them.
  \<^item> \<open>Address_Spaces\<close> (\<open>kernel/src/mm/virt/vmem.rs\<close>): user address spaces as a page directory and a list of
    page tables. The view of an address space is a partial function from pages to entries; every operation is shown
    to change it at one page only, and \<open>balanced\<close> states that the owners of every frame change exactly by
    what the address space refers to.
  \<^item> \<open>Copy_On_Write\<close>, \<open>Duplications\<close> (\<open>kernel/src/mm/virt/vmem.rs\<close>, \<open>kernel/src/mm/virt/manager.rs\<close>): private copies of
    shared pages on faults and before kernel writes, and the duplication of an address space chunk by chunk with its
    rollback. The two loops of the duplication whose end depends on their arguments are partial functions into
    \<open>option\<close>, and that they return is part of what is proved.
  \<^item> \<open>User_Copies\<close> (\<open>kernel/src/mm/virt/vmem.rs\<close>, \<open>kernel/src/pm/process/manager/mod.rs\<close>): copies from and to user memory and
    between two processes, page piece by page piece, equal to the copy of single bytes through the page tables; with what
    each failure leaves behind.

  \<^bold>\<open>Processes.\<close>
  \<^item> \<open>Nonempty_Deques\<close> (\<open>libs/type-safe\<close>), \<open>Sorted_Vecs\<close> (\<open>libs/sorted-vec\<close>): the containers the kernel keeps threads
    and handles in, specified as lists and as finite maps (locales \<open>list_queue\<close>, \<open>selecting_queue\<close>, \<open>keyed_store\<close>).
  \<^item> \<open>Threads\<close>, \<open>Process_States\<close>, \<open>Processes\<close> (\<open>kernel/src/pm/thread\<close>, \<open>kernel/src/pm/process/state\<close>): the states of
    threads and processes as types of their own and the transitions between them; a thread keeps along every run what it
    was given and not deprived of, no thread is lost or duplicated, the first exit status wins. The locale \<open>handle_table\<close> covers the tables of mutexes and condition variables.
  \<^item> \<open>Scheduler\<close>, \<open>Scheduler_Progress\<close> (\<open>kernel/src/pm/process/manager\<close>): the queues of the process manager and
    its operations on processes and threads. The states reachable from boot are those that scheduling, creating, joining,
    detaching and harvesting threads lead to; shown are conservation, that the kernel stops in exactly the named cases,
    and the bound on how long a ready thread waits.
  \<^item> \<open>System_Times\<close> (\<open>libs/sys/src/sys/time\<close>, \<open>kernel/src/pm/clock.rs\<close>): time points and their
    arithmetic, and the clock with the exact condition under which a tick sets it back.

  \<^bold>\<open>Communication and devices.\<close>
  \<^item> \<open>Errors\<close> (\<open>libs/error\<close>), \<open>Messages\<close> (\<open>libs/sys/src/sys/ipc\<close>, \<open>kernel/src/ipc\<close>), \<open>Event_Codes\<close>
    (\<open>libs/sys/src/sys/event\<close>): encodings and their round trips, and the mailbox of a process. A
    message is read by reinterpreting its bytes, so the model keeps the byte of its type and reading never fails.
  \<^item> \<open>Rendezvous\<close> (\<open>kernel/src/ipc/rendezvous.rs\<close>): pushes and pulls that meet, block and are cleaned up.
  \<^item> \<open>Io_Ports\<close>, \<open>Mmio_Regions\<close> (\<open>kernel/src/hal/io\<close>): exclusive ownership of ports and device memory.

  \<^bold>\<open>Parameters.\<close> The storage the linker reserves for page tables, the size of memory, the watermark and the
  frequency of the clock are fields of configuration records or arguments; port instructions, the global allocator under the raw array,
  the wake-up of a thread inside a rendezvous and the unmapping of a user stack by the scheduler are function arguments. Theorems that need something of them say so in a
  hypothesis (for instance \<open>config_ok\<close>), and a witness instantiates it.

  \<^bold>\<open>Not modelled.\<close> Assembly, control registers, the translation look-aside buffer and the interrupt controllers, which
  have no meaning without the machine; console output and logging; the boot sequence; the kernel
  half of an address space; the file systems, daemons, host tools and user libraries, which are other
  programs around the kernel.
\<close>

end
